(* ===== verification/Clia_Prelude.thy ===== *)
theory Clia_Prelude
  imports Main "HOL-Library.Word"
begin

text \<open>
  Shared vocabulary of the development: the outcomes of a C++ operation as values of a
  sum type, bounds-checked access to contiguous memory (arrays and \<open>std::vector\<close>
  storage), the width of \<open>std::size_t\<close>, and the generic lemmas on them.

  The model is of the build the repository's Makefile configures
  (\<open>CMAKE_BUILD_TYPE=Debug\<close>): \<open>assert\<close> is active, so a failed assertion is an
  outcome (\<open>Assertion_failed\<close>).  What the C++ standard leaves undefined and the code
  can reach (an access outside the storage, a condition variable waited on without a mutex)
  is an outcome of its own, so that no theorem can rest on it silently.
\<close>

section \<open>Outcomes of an operation\<close>

datatype error =
    Assertion_failed      \<comment> \<open>\<open>assert(...)\<close> with a false argument\<close>
  | Out_of_bounds         \<comment> \<open>a read or a write outside the storage\<close>
  | Length_error          \<comment> \<open>\<open>std::length_error\<close> thrown by \<open>std::vector\<close>\<close>
  | Abort_called          \<comment> \<open>\<open>std::abort()\<close>\<close>
  | No_return             \<comment> \<open>a loop that never ends\<close>
  | Undefined_behaviour   \<comment> \<open>any other undefined behaviour\<close>

type_synonym 'a res = "error + 'a"

definition bindE :: "'a res \<Rightarrow> ('a \<Rightarrow> 'b res) \<Rightarrow> 'b res" where
  "bindE m f = (case m of Inl e \<Rightarrow> Inl e | Inr x \<Rightarrow> f x)"

definition assertE :: "bool \<Rightarrow> unit res" where
  "assertE P = (if P then Inr () else Inl Assertion_failed)"

definition is_ok :: "'a res \<Rightarrow> bool" where
  "is_ok m = (case m of Inl _ \<Rightarrow> False | Inr _ \<Rightarrow> True)"

named_theorems wf_intros \<open>invariants established or kept by an operation\<close>
named_theorems mem_simps \<open>access to contiguous memory\<close>
named_theorems abs_simps \<open>the abstract value of an operation's result\<close>

lemma bindE_simps [simp]:
  "bindE (Inl e) f = Inl e"
  "bindE (Inr x) f = f x"
  by (simp_all add: bindE_def)

lemma bindE_Inr_iff: "bindE m f = Inr y \<longleftrightarrow> (\<exists>x. m = Inr x \<and> f x = Inr y)"
  by (cases m) auto

lemma bindE_Inl_iff: "bindE m f = Inl e \<longleftrightarrow> m = Inl e \<or> (\<exists>x. m = Inr x \<and> f x = Inl e)"
  by (cases m) auto

lemma bindE_assoc: "bindE (bindE m f) g = bindE m (\<lambda>x. bindE (f x) g)"
  by (cases m) auto

lemma bindE_split:
  "P (bindE m f) \<longleftrightarrow> (\<forall>e. m = Inl e \<longrightarrow> P (Inl e)) \<and> (\<forall>x. m = Inr x \<longrightarrow> P (f x))"
  by (cases m) auto

lemma bindE_cong [fundef_cong]:
  "m = m' \<Longrightarrow> (\<And>x. m' = Inr x \<Longrightarrow> f x = g x) \<Longrightarrow> bindE m f = bindE m' g"
  by (cases m') auto

lemma assertE_simps [simp]:
  "P \<Longrightarrow> assertE P = Inr ()"
  "\<not> P \<Longrightarrow> assertE P = Inl Assertion_failed"
  by (simp_all add: assertE_def)

lemma assertE_Inr_iff [simp]: "assertE P = Inr u \<longleftrightarrow> P"
  by (simp add: assertE_def)

lemma assertE_Inl_iff [simp]: "assertE P = Inl e \<longleftrightarrow> \<not> P \<and> e = Assertion_failed"
  by (auto simp: assertE_def)

lemma is_ok_simps [simp]: "is_ok (Inl e) = False" "is_ok (Inr x) = True"
  by (simp_all add: is_ok_def)

lemma is_ok_iff: "is_ok m \<longleftrightarrow> (\<exists>x. m = Inr x)"
  by (cases m) auto

section \<open>Contiguous memory\<close>

text \<open>
  An array or the storage of a vector is a list; an address in it is an offset.  Reading or
  writing outside the list is \<open>Out_of_bounds\<close>.
\<close>

definition load :: "'a list \<Rightarrow> nat \<Rightarrow> 'a res" where
  "load m i = (if i < length m then Inr (m ! i) else Inl Out_of_bounds)"

definition store :: "'a list \<Rightarrow> nat \<Rightarrow> 'a \<Rightarrow> 'a list res" where
  "store m i v = (if i < length m then Inr (m[i := v]) else Inl Out_of_bounds)"

text \<open>\<open>read_range m i n\<close> reads the \<open>n\<close> elements from offset \<open>i\<close>;
  \<open>write_range m i xs\<close> copies \<open>xs\<close> to offset \<open>i\<close> (\<open>std::copy\<close>,
  \<open>std::memcpy\<close>).\<close>

definition read_range :: "'a list \<Rightarrow> nat \<Rightarrow> nat \<Rightarrow> 'a list res" where
  "read_range m i n = (if i + n \<le> length m then Inr (take n (drop i m)) else Inl Out_of_bounds)"

definition write_range :: "'a list \<Rightarrow> nat \<Rightarrow> 'a list \<Rightarrow> 'a list res" where
  "write_range m i xs =
     (if i + length xs \<le> length m then Inr (take i m @ xs @ drop (i + length xs) m)
      else Inl Out_of_bounds)"

text \<open>\<open>std::vector::resize\<close>: keep the common prefix, append value-initialised elements.\<close>

definition resize_list :: "'a \<Rightarrow> nat \<Rightarrow> 'a list \<Rightarrow> 'a list" where
  "resize_list d n m = take n m @ replicate (n - length m) d"

lemma load_ok [mem_simps]: "i < length m \<Longrightarrow> load m i = Inr (m ! i)"
  by (simp add: load_def)

lemma store_ok [mem_simps]: "i < length m \<Longrightarrow> store m i v = Inr (m[i := v])"
  by (simp add: store_def)

lemma read_range_ok [mem_simps]:
  "i + n \<le> length m \<Longrightarrow> read_range m i n = Inr (take n (drop i m))"
  by (simp add: read_range_def)

lemma write_range_ok [mem_simps]:
  "i + length xs \<le> length m \<Longrightarrow>
   write_range m i xs = Inr (take i m @ xs @ drop (i + length xs) m)"
  by (simp add: write_range_def)

lemma length_write_range: "write_range m i xs = Inr m' \<Longrightarrow> length m' = length m"
  by (auto simp: write_range_def split: if_splits)

lemma length_resize_list [simp]: "length (resize_list d n m) = n"
  by (simp add: resize_list_def)

lemma nth_resize_list: "i < n \<Longrightarrow> i < length m \<Longrightarrow> resize_list d n m ! i = m ! i"
  by (simp add: resize_list_def nth_append)

lemma take_resize_list: "k \<le> n \<Longrightarrow> k \<le> length m \<Longrightarrow> take k (resize_list d n m) = take k m"
  by (simp add: resize_list_def min_def)

text \<open>Reading back what was written, and what lies before it.\<close>

lemma write_read:
  "i + length xs \<le> length m \<Longrightarrow>
   take (length xs) (drop i (take i m @ xs @ drop (i + length xs) m)) = xs"
  by simp

lemma take_drop_append_write:
  assumes "r \<le> i" and "i + length xs \<le> length m"
  shows "take (i - r + length xs) (drop r (take i m @ xs @ drop (i + length xs) m)) =
         take (i - r) (drop r m) @ xs"
  using assms by (simp add: drop_take)

section \<open>Machine integers\<close>

text \<open>\<open>std::size_t\<close> is 64 bits wide on the platforms the code addresses (Linux, epoll).
  An \<open>int\<close> that meets a \<open>size_t\<close> is converted to it first.\<close>

type_synonym size_t = "64 word"
type_synonym byte = "8 word"

definition size_of_int :: "int \<Rightarrow> nat" where
  "size_of_int n = nat (n mod 2 ^ 64)"

lemma size_of_int_nonneg: "0 \<le> n \<Longrightarrow> n < 2 ^ 64 \<Longrightarrow> size_of_int n = nat n"
  by (simp add: size_of_int_def)

lemma unat_plus_size_t:
  "unat a + unat b < 2 ^ 64 \<Longrightarrow> unat (a + b :: size_t) = unat a + unat b"
  by (simp add: unat_word_ariths)

lemma unat_minus_size_t: "b \<le> a \<Longrightarrow> unat (a - b :: size_t) = unat a - unat b"
  by (rule unat_sub)

lemma unat_of_nat_size_t: "n < 2 ^ 64 \<Longrightarrow> unat (of_nat n :: size_t) = n"
  by (simp add: unat_of_nat)

end
