(* ===== verification/Circular_Buffer.thy ===== *)
theory Circular_Buffer
  imports Clia_Prelude
begin

text \<open>
  \<open>clia::container::CircularBuffer\<close> (container/circular_buffer.h): a ring of the slots
  of a vector, two indices and a count.  The locale \<open>bounded_fifo\<close> is the contract a
  bounded queue promises its clients; the ring is shown to be such a queue under
  \<open>cb_inv\<close>, and \<open>resize\<close>, which only resizes the vector, is shown to keep the
  contents exactly where the ring does not wrap.
\<close>

section \<open>The contract of a bounded FIFO queue\<close>

fun push_all :: "('a \<Rightarrow> 'q \<Rightarrow> 'q res) \<Rightarrow> 'a list \<Rightarrow> 'q \<Rightarrow> 'q res" where
  "push_all push [] q = Inr q"
| "push_all push (x # xs) q = bindE (push x q) (push_all push xs)"

fun pop_n :: "('q \<Rightarrow> 'a res) \<Rightarrow> ('q \<Rightarrow> 'q res) \<Rightarrow> nat \<Rightarrow> 'q \<Rightarrow> ('a list \<times> 'q) res" where
  "pop_n first pop 0 q = Inr ([], q)"
| "pop_n first pop (Suc n) q =
     bindE (first q) (\<lambda>x. bindE (pop q) (\<lambda>q'. bindE (pop_n first pop n q') (\<lambda>(xs, q'').
       Inr (x # xs, q''))))"

locale bounded_fifo =
  fixes push :: "'a \<Rightarrow> 'q \<Rightarrow> 'q res"
    and first :: "'q \<Rightarrow> 'a res"
    and pop :: "'q \<Rightarrow> 'q res"
    and contents :: "'q \<Rightarrow> 'a list"
    and slots :: "'q \<Rightarrow> nat"
    and invar :: "'q \<Rightarrow> bool"
  assumes bounded: "invar q \<Longrightarrow> length (contents q) \<le> slots q"
    and push_ok: "invar q \<Longrightarrow> length (contents q) < slots q \<Longrightarrow>
          \<exists>q'. push x q = Inr q' \<and> invar q' \<and> contents q' = contents q @ [x] \<and> slots q' = slots q"
    and push_full: "invar q \<Longrightarrow> length (contents q) = slots q \<Longrightarrow> push x q = Inl Assertion_failed"
    and first_ok: "invar q \<Longrightarrow> contents q \<noteq> [] \<Longrightarrow> first q = Inr (hd (contents q))"
    and first_empty: "invar q \<Longrightarrow> contents q = [] \<Longrightarrow> first q = Inl Assertion_failed"
    and pop_ok: "invar q \<Longrightarrow> contents q \<noteq> [] \<Longrightarrow>
          \<exists>q'. pop q = Inr q' \<and> invar q' \<and> contents q' = tl (contents q) \<and> slots q' = slots q"
    and pop_empty: "invar q \<Longrightarrow> contents q = [] \<Longrightarrow> pop q = Inl Assertion_failed"
begin

lemma push_cases:
  assumes "invar q"
  shows "(length (contents q) < slots q \<and> (\<exists>q'. push x q = Inr q' \<and> invar q' \<and>
            contents q' = contents q @ [x] \<and> slots q' = slots q)) \<or>
         (length (contents q) = slots q \<and> push x q = Inl Assertion_failed)"
  using bounded [OF assms] push_ok [OF assms] push_full [OF assms] by (metis le_neq_implies_less)

lemma push_Inr: "invar q \<Longrightarrow> push x q = Inr q' \<Longrightarrow>
    invar q' \<and> contents q' = contents q @ [x] \<and> slots q' = slots q \<and> length (contents q) < slots q"
  using push_cases [of q x] by auto

lemma pop_Inr: "invar q \<Longrightarrow> pop q = Inr q' \<Longrightarrow>
    invar q' \<and> contents q \<noteq> [] \<and> contents q' = tl (contents q) \<and> slots q' = slots q"
  using pop_ok [of q] pop_empty [of q] by (cases "contents q = []") auto

lemma first_Inr: "invar q \<Longrightarrow> first q = Inr x \<Longrightarrow> contents q \<noteq> [] \<and> x = hd (contents q)"
  using first_ok [of q] first_empty [of q] by (cases "contents q = []") auto

lemma push_all_ok:
  "invar q \<Longrightarrow> length (contents q) + length xs \<le> slots q \<Longrightarrow>
   \<exists>q'. push_all push xs q = Inr q' \<and> invar q' \<and> contents q' = contents q @ xs \<and> slots q' = slots q"
proof (induction xs arbitrary: q)
  case Nil
  then show ?case by simp
next
  case (Cons x xs)
  then obtain q1 where q1: "push x q = Inr q1" "invar q1" "contents q1 = contents q @ [x]"
    "slots q1 = slots q"
    using push_ok [of q x] by auto
  with Cons.prems Cons.IH [of q1] show ?case by auto
qed

lemma pop_n_ok:
  "invar q \<Longrightarrow> n \<le> length (contents q) \<Longrightarrow>
   \<exists>q'. pop_n first pop n q = Inr (take n (contents q), q') \<and> invar q' \<and>
        contents q' = drop n (contents q) \<and> slots q' = slots q"
proof (induction n arbitrary: q)
  case 0
  then show ?case by simp
next
  case (Suc n)
  then have ne: "contents q \<noteq> []" by auto
  with Suc.prems obtain q1 where q1: "pop q = Inr q1" "invar q1" "contents q1 = tl (contents q)"
    "slots q1 = slots q"
    using pop_ok [of q] by auto
  from Suc.prems q1 have "n \<le> length (contents q1)" by simp
  from Suc.IH [OF q1(2) this] q1 first_ok [OF Suc.prems(1) ne] ne show ?case
    by (auto simp: drop_Suc take_Suc)
qed

lemma push_pop_fifo:
  assumes "invar q" and "length (contents q) + length xs \<le> slots q"
  shows "\<exists>q' q''. push_all push xs q = Inr q' \<and>
    pop_n first pop (length (contents q) + length xs) q' = Inr (contents q @ xs, q'') \<and>
    invar q'' \<and> contents q'' = []"
proof -
  obtain q' where q': "push_all push xs q = Inr q'" "invar q'" "contents q' = contents q @ xs"
    using push_all_ok [OF assms] by blast
  with pop_n_ok [OF q'(2), of "length (contents q) + length xs"] show ?thesis by auto
qed

end

section \<open>The class\<close>

record 'a circular_buffer =
  cb_start :: nat
  cb_end :: nat
  cb_count :: nat
  cb_buffer :: "'a list"

text \<open>\<open>d\<close> is the value-initialised element a vector of the given size is filled with.\<close>

definition CircularBuffer_new :: "'a \<Rightarrow> nat \<Rightarrow> 'a circular_buffer" where
  "CircularBuffer_new d inital_size =
     \<lparr>cb_start = 0, cb_end = 0, cb_count = 0, cb_buffer = replicate inital_size d\<rparr>"

definition CircularBuffer_size :: "'a circular_buffer \<Rightarrow> nat" where
  "CircularBuffer_size cb = cb_count cb"

definition CircularBuffer_capacity :: "'a circular_buffer \<Rightarrow> nat" where
  "CircularBuffer_capacity cb = length (cb_buffer cb)"

definition CircularBuffer_empty :: "'a circular_buffer \<Rightarrow> bool" where
  "CircularBuffer_empty cb \<longleftrightarrow> 0 = cb_count cb"

definition CircularBuffer_full :: "'a circular_buffer \<Rightarrow> bool" where
  "CircularBuffer_full cb \<longleftrightarrow> CircularBuffer_capacity cb = cb_count cb"

definition CircularBuffer_resize :: "'a \<Rightarrow> nat \<Rightarrow> 'a circular_buffer \<Rightarrow> 'a circular_buffer" where
  "CircularBuffer_resize d new_size cb = cb\<lparr>cb_buffer := resize_list d new_size (cb_buffer cb)\<rparr>"

text \<open>Both overloads of \<open>push_back\<close> (copy and move) store the same value.\<close>

definition CircularBuffer_push_back :: "'a \<Rightarrow> 'a circular_buffer \<Rightarrow> 'a circular_buffer res" where
  "CircularBuffer_push_back val cb =
     bindE (assertE (\<not> CircularBuffer_full cb)) (\<lambda>_.
     bindE (store (cb_buffer cb) (cb_end cb) val) (\<lambda>buf.
       let e = Suc (cb_end cb);
           e' = (if CircularBuffer_capacity cb = e then 0 else e)
       in Inr (cb\<lparr>cb_buffer := buf, cb_end := e', cb_count := Suc (cb_count cb)\<rparr>)))"

definition CircularBuffer_front :: "'a circular_buffer \<Rightarrow> 'a res" where
  "CircularBuffer_front cb =
     bindE (assertE (\<not> CircularBuffer_empty cb)) (\<lambda>_. load (cb_buffer cb) (cb_start cb))"

definition CircularBuffer_pop_front :: "'a circular_buffer \<Rightarrow> 'a circular_buffer res" where
  "CircularBuffer_pop_front cb =
     bindE (assertE (\<not> CircularBuffer_empty cb)) (\<lambda>_.
       let s = Suc (cb_start cb);
           s' = (if CircularBuffer_capacity cb = s then 0 else s)
       in Inr (cb\<lparr>cb_start := s', cb_count := cb_count cb - 1\<rparr>))"

lemmas CircularBuffer_defs =
  CircularBuffer_size_def CircularBuffer_capacity_def CircularBuffer_empty_def
  CircularBuffer_full_def CircularBuffer_push_back_def CircularBuffer_front_def
  CircularBuffer_pop_front_def CircularBuffer_resize_def CircularBuffer_new_def

section \<open>Invariant and contents\<close>

definition cb_inv :: "'a circular_buffer \<Rightarrow> bool" where
  "cb_inv cb \<longleftrightarrow> cb_count cb \<le> length (cb_buffer cb) \<and>
     (if cb_buffer cb = [] then cb_start cb = 0 \<and> cb_end cb = 0
      else cb_start cb < length (cb_buffer cb) \<and>
           cb_end cb = (cb_start cb + cb_count cb) mod length (cb_buffer cb))"

definition cb_contents :: "'a circular_buffer \<Rightarrow> 'a list" where
  "cb_contents cb =
     map (\<lambda>i. cb_buffer cb ! ((cb_start cb + i) mod length (cb_buffer cb))) [0..<cb_count cb]"

lemma length_cb_contents [simp]: "length (cb_contents cb) = cb_count cb"
  by (simp add: cb_contents_def)

lemma cb_contents_Nil_iff [simp]: "cb_contents cb = [] \<longleftrightarrow> cb_count cb = 0"
  by (simp add: cb_contents_def)

lemma ring_distinct:
  assumes "i < (k :: nat)" and "k < n"
  shows "(s + k) mod n \<noteq> (s + i) mod n"
proof
  assume "(s + k) mod n = (s + i) mod n"
  then have "n dvd (s + k) - (s + i)" by (rule mod_eq_dvd_iff_nat [THEN iffD1, rotated]) (use assms in simp)
  then have "n dvd k - i" using assms by simp
  then show False using assms by (auto dest: dvd_imp_le)
qed

lemma Suc_ring: "i < n \<Longrightarrow> (if n = Suc i then 0 else Suc i) = Suc i mod n"
  by simp

lemma cb_inv_new [wf_intros]: "cb_inv (CircularBuffer_new d n)"
  by (simp add: cb_inv_def CircularBuffer_new_def)

lemma cb_contents_new [abs_simps]: "cb_contents (CircularBuffer_new d n) = []"
  by (simp add: CircularBuffer_new_def)

lemma push_back_ok:
  assumes inv: "cb_inv cb" and room: "cb_count cb < length (cb_buffer cb)"
  shows "\<exists>cb'. CircularBuffer_push_back x cb = Inr cb' \<and> cb_inv cb' \<and>
           cb_contents cb' = cb_contents cb @ [x] \<and>
           CircularBuffer_capacity cb' = CircularBuffer_capacity cb"
proof -
  let ?n = "length (cb_buffer cb)" and ?e = "cb_end cb"
  from inv room have e: "?e = (cb_start cb + cb_count cb) mod ?n" "?e < ?n" "cb_start cb < ?n"
    by (auto simp: cb_inv_def split: if_splits)
  let ?cb' = "cb\<lparr>cb_buffer := (cb_buffer cb)[?e := x], cb_end := Suc ?e mod ?n,
                 cb_count := Suc (cb_count cb)\<rparr>"
  have step: "CircularBuffer_push_back x cb = Inr ?cb'"
    using room e(2) Suc_ring [OF e(2)] by (simp add: CircularBuffer_defs store_ok Let_def)
  have "cb_inv ?cb'"
    using e room by (auto simp: cb_inv_def mod_Suc_eq)
  moreover have "cb_contents ?cb' = cb_contents cb @ [x]"
  proof (rule nth_equalityI)
    fix i assume "i < length (cb_contents ?cb')"
    then have i: "i < Suc (cb_count cb)" by simp
    then consider "i < cb_count cb" | "i = cb_count cb" by linarith
    then show "cb_contents ?cb' ! i = (cb_contents cb @ [x]) ! i"
      using e room ring_distinct [of i "cb_count cb" ?n "cb_start cb"]
      by cases (simp_all add: cb_contents_def nth_append del: upt_Suc)
  qed simp
  ultimately show ?thesis using step by (simp add: CircularBuffer_capacity_def)
qed

lemma front_ok:
  assumes "cb_inv cb" and "0 < cb_count cb"
  shows "CircularBuffer_front cb = Inr (hd (cb_contents cb))"
proof -
  from assms have s: "cb_start cb < length (cb_buffer cb)"
    by (auto simp: cb_inv_def split: if_splits)
  with assms(2) have "hd (cb_contents cb) = cb_buffer cb ! cb_start cb"
    by (simp add: cb_contents_def hd_map)
  with s assms(2) show ?thesis by (simp add: CircularBuffer_defs load_ok)
qed

lemma pop_front_ok:
  assumes inv: "cb_inv cb" and ne: "0 < cb_count cb"
  shows "\<exists>cb'. CircularBuffer_pop_front cb = Inr cb' \<and> cb_inv cb' \<and>
           cb_contents cb' = tl (cb_contents cb) \<and>
           CircularBuffer_capacity cb' = CircularBuffer_capacity cb"
proof -
  let ?n = "length (cb_buffer cb)" and ?s = "cb_start cb"
  from inv ne have s: "?s < ?n" "cb_end cb = (?s + cb_count cb) mod ?n" "cb_count cb \<le> ?n"
    by (auto simp: cb_inv_def split: if_splits)
  have e: "(Suc ?s mod ?n + (cb_count cb - 1)) mod ?n = (?s + cb_count cb) mod ?n"
    using ne by (cases "cb_count cb") (simp_all add: mod_add_left_eq)
  let ?cb' = "cb\<lparr>cb_start := Suc ?s mod ?n, cb_count := cb_count cb - 1\<rparr>"
  have step: "CircularBuffer_pop_front cb = Inr ?cb'"
    using ne Suc_ring [OF s(1)] by (simp add: CircularBuffer_defs Let_def)
  have "cb_inv ?cb'"
    using s e by (auto simp: cb_inv_def)
  moreover have "cb_contents ?cb' = tl (cb_contents cb)"
    using ne by (intro nth_equalityI) (simp_all add: cb_contents_def nth_tl mod_add_left_eq less_diff_conv)
  ultimately show ?thesis using step by (simp add: CircularBuffer_capacity_def)
qed

interpretation ring: bounded_fifo CircularBuffer_push_back CircularBuffer_front
  CircularBuffer_pop_front cb_contents CircularBuffer_capacity cb_inv
proof (unfold_locales, goal_cases)
  case (1 q)
  then show ?case by (simp add: cb_inv_def CircularBuffer_capacity_def)
next
  case (2 q x)
  then show ?case by (intro push_back_ok) (simp_all add: CircularBuffer_capacity_def)
next
  case (3 q x)
  then show ?case by (simp add: CircularBuffer_defs)
next
  case (4 q)
  then show ?case by (intro front_ok) simp_all
next
  case (5 q)
  then show ?case by (simp add: CircularBuffer_defs)
next
  case (6 q)
  then show ?case by (intro pop_front_ok) simp_all
next
  case (7 q)
  then show ?case by (simp add: CircularBuffer_defs)
qed

section \<open>Properties of the ring\<close>

text \<open>
  C20. Whatever the positions of the two indices, elements pushed into a ring with enough free
  slots come out, after the elements it held, in the order they went in, each exactly once;
  none of the operations involved fails an assertion or touches a slot outside the vector,
  and the ring is empty afterwards.
\<close>

theorem CircularBuffer_fifo:
  assumes "cb_inv cb" and "CircularBuffer_size cb + length xs \<le> CircularBuffer_capacity cb"
  shows "\<exists>cb' cb''. push_all CircularBuffer_push_back xs cb = Inr cb' \<and>
     pop_n CircularBuffer_front CircularBuffer_pop_front (CircularBuffer_size cb + length xs) cb'
       = Inr (cb_contents cb @ xs, cb'') \<and>
     cb_inv cb'' \<and> CircularBuffer_empty cb''"
  using ring.push_pop_fifo [of cb xs] assms
  by (simp add: CircularBuffer_size_def CircularBuffer_empty_def)

theorem CircularBuffer_fifo_witness:
  "\<exists>cb' cb''. push_all CircularBuffer_push_back [7, 8 :: nat]
       \<lparr>cb_start = 2, cb_end = 0, cb_count = 1, cb_buffer = [0, 0, 5]\<rparr> = Inr cb' \<and>
     pop_n CircularBuffer_front CircularBuffer_pop_front 3 cb' = Inr ([5, 7, 8], cb'') \<and>
     cb_inv cb'' \<and> CircularBuffer_empty cb''"
proof -
  let ?cb = "\<lparr>cb_start = 2, cb_end = 0, cb_count = 1, cb_buffer = [0, 0, 5 :: nat]\<rparr>"
  have "cb_inv ?cb"
    and "CircularBuffer_size ?cb + length [7, 8 :: nat] \<le> CircularBuffer_capacity ?cb"
    by (simp_all add: cb_inv_def CircularBuffer_defs)
  note fifo = CircularBuffer_fifo [OF this]
  have "cb_contents ?cb @ [7, 8] = [5, 7, 8]" and "CircularBuffer_size ?cb + length [7, 8 :: nat] = 3"
    by code_simp+
  with fifo show ?thesis by (simp only:)
qed

text \<open>
  \<open>resize\<close> resizes the vector and leaves the indices alone.  Where the occupied
  slots do not wrap and end before the last slot of the old and of the new vector, the
  contents and the invariant survive and the capacity is the new one.
\<close>

theorem CircularBuffer_resize_unwrapped:
  assumes "cb_inv cb"
    and "cb_start cb + cb_count cb < CircularBuffer_capacity cb"
    and "cb_start cb + cb_count cb < n"
  shows "cb_inv (CircularBuffer_resize d n cb) \<and>
         cb_contents (CircularBuffer_resize d n cb) = cb_contents cb \<and>
         CircularBuffer_capacity (CircularBuffer_resize d n cb) = n"
proof -
  let ?r = "CircularBuffer_resize d n cb"
  have len: "length (cb_buffer ?r) = n" by (simp add: CircularBuffer_resize_def)
  with assms(3) have "cb_buffer ?r \<noteq> []" by auto
  with assms len have "cb_inv ?r"
    by (auto simp: cb_inv_def CircularBuffer_resize_def CircularBuffer_capacity_def split: if_splits)
  moreover have "cb_contents ?r = cb_contents cb"
    using assms by (intro nth_equalityI)
      (simp_all add: cb_contents_def CircularBuffer_resize_def CircularBuffer_capacity_def
        nth_resize_list)
  ultimately show ?thesis using len by (simp add: CircularBuffer_capacity_def)
qed

theorem CircularBuffer_resize_unwrapped_witness:
  "cb_contents (CircularBuffer_resize 0 9
     \<lparr>cb_start = 1, cb_end = 3, cb_count = 2, cb_buffer = [0, 4, 5, 0 :: nat]\<rparr>) = [4, 5]"
proof -
  let ?cb = "\<lparr>cb_start = 1, cb_end = 3, cb_count = 2, cb_buffer = [0, 4, 5, 0 :: nat]\<rparr>"
  have "cb_inv ?cb" and "cb_start ?cb + cb_count ?cb < CircularBuffer_capacity ?cb"
    and "cb_start ?cb + cb_count ?cb < 9"
    by (simp_all add: cb_inv_def CircularBuffer_capacity_def)
  from CircularBuffer_resize_unwrapped [OF this, of 0]
  have "cb_contents (CircularBuffer_resize 0 9 ?cb) = cb_contents ?cb" by blast
  also have "cb_contents ?cb = [4, 5]" by code_simp
  finally show ?thesis .
qed

text \<open>
  A ring that wraps loses elements when it is resized, in either direction: a full ring of
  capacity 2 that holds 2 and then 3 (pushed after a pop) yields 2 and then the
  value-initialised element after growing to 3 slots, and growing is not even needed: a push
  into a ring whose vector was shrunk below \<open>end_\<close> writes outside the vector.
\<close>

theorem CircularBuffer_resize_wrapped:
  "(let cb = \<lparr>cb_start = 1, cb_end = 1, cb_count = 2, cb_buffer = [3, 2 :: nat]\<rparr>
    in bindE (push_all CircularBuffer_push_back [1, 2] (CircularBuffer_new 0 2)) (\<lambda>a.
         bindE (CircularBuffer_pop_front a) (CircularBuffer_push_back 3)) = Inr cb \<and>
       cb_contents cb = [2, 3] \<and>
       bindE (pop_n CircularBuffer_front CircularBuffer_pop_front 2 (CircularBuffer_resize 0 3 cb))
         (\<lambda>(xs, _). Inr xs) = Inr [2, 0]) \<and>
   (let cb = \<lparr>cb_start = 2, cb_end = 3, cb_count = 1, cb_buffer = [0, 0, 7, 0 :: nat]\<rparr>
    in cb_inv cb \<and>
       CircularBuffer_push_back 8 (CircularBuffer_resize 0 2 cb) = Inl Out_of_bounds)"
  by code_simp

end
