(* ===== verification/Bounded_Blocking_Queue.thy ===== *)
theory Bounded_Blocking_Queue
  imports Circular_Buffer
begin

text \<open>
  \<open>clia::container::BoundedBlockingQueue\<close> (container/bounded_blocking_queue.h): a
  mutex and two condition variables around a \<open>CircularBuffer\<close>.  One pass through the
  loop of \<open>put\<close> or \<open>take\<close> with the mutex held is an attempt, which either waits or
  completes; threads interleave attempt by attempt in the step relation \<open>bbq_step\<close>.
  The queue's use of the ring goes through the facts of the interpretation \<open>ring\<close>.
\<close>

section \<open>Attempts under the mutex\<close>

datatype 'r attempt = Wait | Done 'r

text \<open>Both overloads of \<open>put\<close> (copy and move) run the same loop.\<close>

definition BoundedBlockingQueue_put ::
    "'a \<Rightarrow> 'a circular_buffer \<Rightarrow> 'a circular_buffer attempt res" where
  "BoundedBlockingQueue_put val buf =
     (if CircularBuffer_full buf then Inr Wait
      else bindE (CircularBuffer_push_back val buf) (\<lambda>buf'. Inr (Done buf')))"

definition BoundedBlockingQueue_take ::
    "'a circular_buffer \<Rightarrow> ('a \<times> 'a circular_buffer) attempt res" where
  "BoundedBlockingQueue_take buf =
     (if CircularBuffer_full buf then Inr Wait
      else bindE (CircularBuffer_front buf) (\<lambda>val.
           bindE (CircularBuffer_pop_front buf) (\<lambda>buf'. Inr (Done (val, buf')))))"

section \<open>Threads\<close>

datatype 'a queue_thread =
    Idle
  | Put_check 'a     \<comment> \<open>in \<open>put\<close>, about to test the loop condition with the mutex held\<close>
  | Put_wait 'a      \<comment> \<open>in \<open>not_full_.wait\<close>\<close>
  | Take_check
  | Take_wait        \<comment> \<open>in \<open>not_empty_.wait\<close>\<close>

text \<open>The last three fields are history: the values put, the values taken, and the error the
  process stopped with.\<close>

record 'a bbq =
  bq_buffer :: "'a circular_buffer"
  bq_thr :: "nat \<Rightarrow> 'a queue_thread"
  bq_put :: "'a list"
  bq_taken :: "'a list"
  bq_error :: "error option"

definition BoundedBlockingQueue_new :: "'a \<Rightarrow> nat \<Rightarrow> 'a bbq" where
  "BoundedBlockingQueue_new d capacity =
     \<lparr>bq_buffer = CircularBuffer_new d capacity, bq_thr = (\<lambda>_. Idle), bq_put = [], bq_taken = [],
      bq_error = None\<rparr>"

text \<open>\<open>notify_one\<close> wakes one waiting thread, if there is one; a waiter may also wake
  spuriously (\<open>spurious\<close> below).\<close>

inductive notify_not_empty :: "(nat \<Rightarrow> 'a queue_thread) \<Rightarrow> (nat \<Rightarrow> 'a queue_thread) \<Rightarrow> bool" where
  none: "\<forall>u. thr u \<noteq> Take_wait \<Longrightarrow> notify_not_empty thr thr"
| one: "thr u = Take_wait \<Longrightarrow> notify_not_empty thr (thr(u := Take_check))"

inductive notify_not_full :: "(nat \<Rightarrow> 'a queue_thread) \<Rightarrow> (nat \<Rightarrow> 'a queue_thread) \<Rightarrow> bool" where
  none: "\<forall>u v. thr u \<noteq> Put_wait v \<Longrightarrow> notify_not_full thr thr"
| one: "thr u = Put_wait v \<Longrightarrow> notify_not_full thr (thr(u := Put_check v))"

inductive bbq_step :: "'a bbq \<Rightarrow> 'a bbq \<Rightarrow> bool" where
  call_put: "bq_error s = None \<Longrightarrow> bq_thr s t = Idle \<Longrightarrow>
    bbq_step s (s\<lparr>bq_thr := (bq_thr s)(t := Put_check v)\<rparr>)"
| put_wait: "bq_error s = None \<Longrightarrow> bq_thr s t = Put_check v \<Longrightarrow>
    BoundedBlockingQueue_put v (bq_buffer s) = Inr Wait \<Longrightarrow>
    bbq_step s (s\<lparr>bq_thr := (bq_thr s)(t := Put_wait v)\<rparr>)"
| put_done: "bq_error s = None \<Longrightarrow> bq_thr s t = Put_check v \<Longrightarrow>
    BoundedBlockingQueue_put v (bq_buffer s) = Inr (Done buf) \<Longrightarrow>
    notify_not_empty ((bq_thr s)(t := Idle)) thr' \<Longrightarrow>
    bbq_step s (s\<lparr>bq_buffer := buf, bq_thr := thr', bq_put := bq_put s @ [v]\<rparr>)"
| put_error: "bq_error s = None \<Longrightarrow> bq_thr s t = Put_check v \<Longrightarrow>
    BoundedBlockingQueue_put v (bq_buffer s) = Inl e \<Longrightarrow> bbq_step s (s\<lparr>bq_error := Some e\<rparr>)"
| call_take: "bq_error s = None \<Longrightarrow> bq_thr s t = Idle \<Longrightarrow>
    bbq_step s (s\<lparr>bq_thr := (bq_thr s)(t := Take_check)\<rparr>)"
| take_wait: "bq_error s = None \<Longrightarrow> bq_thr s t = Take_check \<Longrightarrow>
    BoundedBlockingQueue_take (bq_buffer s) = Inr Wait \<Longrightarrow>
    bbq_step s (s\<lparr>bq_thr := (bq_thr s)(t := Take_wait)\<rparr>)"
| take_done: "bq_error s = None \<Longrightarrow> bq_thr s t = Take_check \<Longrightarrow>
    BoundedBlockingQueue_take (bq_buffer s) = Inr (Done (v, buf)) \<Longrightarrow>
    notify_not_full ((bq_thr s)(t := Idle)) thr' \<Longrightarrow>
    bbq_step s (s\<lparr>bq_buffer := buf, bq_thr := thr', bq_taken := bq_taken s @ [v]\<rparr>)"
| take_error: "bq_error s = None \<Longrightarrow> bq_thr s t = Take_check \<Longrightarrow>
    BoundedBlockingQueue_take (bq_buffer s) = Inl e \<Longrightarrow> bbq_step s (s\<lparr>bq_error := Some e\<rparr>)"
| spurious_put: "bq_error s = None \<Longrightarrow> bq_thr s t = Put_wait v \<Longrightarrow>
    bbq_step s (s\<lparr>bq_thr := (bq_thr s)(t := Put_check v)\<rparr>)"
| spurious_take: "bq_error s = None \<Longrightarrow> bq_thr s t = Take_wait \<Longrightarrow>
    bbq_step s (s\<lparr>bq_thr := (bq_thr s)(t := Take_check)\<rparr>)"

inductive_cases bbq_stepE: "bbq_step s s'"

inductive bbq_reachable :: "'a \<Rightarrow> nat \<Rightarrow> 'a bbq \<Rightarrow> bool" for d n where
  init: "bbq_reachable d n (BoundedBlockingQueue_new d n)"
| step: "bbq_reachable d n s \<Longrightarrow> bbq_step s s' \<Longrightarrow> bbq_reachable d n s'"

section \<open>Attempts against the ring's contract\<close>

lemma full_iff_contents:
  "CircularBuffer_full buf \<longleftrightarrow> length (cb_contents buf) = CircularBuffer_capacity buf"
  by (auto simp: CircularBuffer_full_def)

lemma put_not_error: "cb_inv buf \<Longrightarrow> BoundedBlockingQueue_put v buf \<noteq> Inl e"
  using ring.push_cases [of buf v]
  by (auto simp: BoundedBlockingQueue_put_def full_iff_contents)

lemma put_DoneD:
  "cb_inv buf \<Longrightarrow> BoundedBlockingQueue_put v buf = Inr (Done buf') \<Longrightarrow>
   cb_inv buf' \<and> cb_contents buf' = cb_contents buf @ [v] \<and>
   CircularBuffer_capacity buf' = CircularBuffer_capacity buf"
  by (auto simp: BoundedBlockingQueue_put_def bindE_Inr_iff split: if_splits dest: ring.push_Inr)

lemma take_DoneD:
  assumes inv: "cb_inv buf" and d: "BoundedBlockingQueue_take buf = Inr (Done (v, buf'))"
  shows "cb_inv buf' \<and> cb_contents buf = v # cb_contents buf' \<and>
         CircularBuffer_capacity buf' = CircularBuffer_capacity buf"
proof -
  from d have "CircularBuffer_front buf = Inr v" and "CircularBuffer_pop_front buf = Inr buf'"
    by (auto simp: BoundedBlockingQueue_take_def bindE_Inr_iff split: if_splits)
  from ring.first_Inr [OF inv this(1)] ring.pop_Inr [OF inv this(2)] show ?thesis
    by (metis list.collapse)
qed

lemma take_error_iff:
  assumes "cb_inv buf"
  shows "BoundedBlockingQueue_take buf = Inl e \<longleftrightarrow>
         e = Assertion_failed \<and> CircularBuffer_empty buf \<and> 0 < CircularBuffer_capacity buf"
proof (cases "cb_contents buf = []")
  case True
  with ring.first_empty [OF assms True] show ?thesis
    by (auto simp: BoundedBlockingQueue_take_def full_iff_contents CircularBuffer_empty_def)
next
  case False
  with ring.first_ok [OF assms False] ring.pop_ok [OF assms False] show ?thesis
    by (auto simp: BoundedBlockingQueue_take_def CircularBuffer_empty_def)
qed

definition bbq_inv :: "nat \<Rightarrow> 'a bbq \<Rightarrow> bool" where
  "bbq_inv n s \<longleftrightarrow> cb_inv (bq_buffer s) \<and> CircularBuffer_capacity (bq_buffer s) = n \<and>
     bq_put s = bq_taken s @ cb_contents (bq_buffer s)"

lemma bbq_inv_new [wf_intros]: "bbq_inv n (BoundedBlockingQueue_new d n)"
  by (simp add: bbq_inv_def BoundedBlockingQueue_new_def wf_intros abs_simps
      CircularBuffer_capacity_def) (simp add: CircularBuffer_new_def)

lemma bbq_inv_step: "bbq_step s s' \<Longrightarrow> bbq_inv n s \<Longrightarrow> bbq_inv n s'"
  by (erule bbq_stepE) (auto simp: bbq_inv_def dest: put_DoneD take_DoneD)

lemma bbq_reachable_inv: "bbq_reachable d n s \<Longrightarrow> bbq_inv n s"
  by (induction rule: bbq_reachable.induct) (auto intro: wf_intros bbq_inv_step)

section \<open>Properties of the queue\<close>

text \<open>
  C21. In every interleaving of any number of threads calling \<open>put\<close> and \<open>take\<close>, the
  values taken are a prefix of the values put, in the order of the puts (no value is lost,
  duplicated or reordered: what is missing is exactly what the queue holds), the queue never
  holds more than its capacity, and no \<open>put\<close> can fail an assertion or write outside the
  buffer: the only error such a program can stop with is the failed assertion of
  \<open>front\<close> in a \<open>take\<close>.
\<close>

theorem BoundedBlockingQueue_linear:
  assumes "bbq_reachable d n s"
  shows "bq_put s = bq_taken s @ cb_contents (bq_buffer s) \<and>
         CircularBuffer_size (bq_buffer s) \<le> n \<and>
         (\<forall>v. is_ok (BoundedBlockingQueue_put v (bq_buffer s))) \<and>
         (\<forall>e. bq_error s = Some e \<longrightarrow> e = Assertion_failed)"
proof -
  have inv: "bbq_inv n s" by (rule bbq_reachable_inv [OF assms])
  then have "is_ok (BoundedBlockingQueue_put v (bq_buffer s))" for v
    using put_not_error [of "bq_buffer s" v]
    by (cases "BoundedBlockingQueue_put v (bq_buffer s)") (auto simp: bbq_inv_def)
  moreover from assms have "\<forall>e. bq_error s = Some e \<longrightarrow> e = Assertion_failed"
  proof (induction rule: bbq_reachable.induct)
    case (step s s')
    then have "cb_inv (bq_buffer s)" using bbq_reachable_inv [of d n s] by (simp add: bbq_inv_def)
    with step show ?case
      by (elim bbq_stepE) (auto simp: put_not_error take_error_iff)
  qed (simp add: BoundedBlockingQueue_new_def)
  ultimately show ?thesis
    using inv by (auto simp: bbq_inv_def CircularBuffer_size_def CircularBuffer_capacity_def cb_inv_def)
qed

lemma bbq_reachable_put_one:
  "bbq_reachable (0 :: nat) 2
     \<lparr>bq_buffer = \<lparr>cb_start = 0, cb_end = 1, cb_count = 1, cb_buffer = [5, 0]\<rparr>,
      bq_thr = (\<lambda>_. Idle), bq_put = [5], bq_taken = [], bq_error = None\<rparr>"
proof -
  let ?s0 = "BoundedBlockingQueue_new (0 :: nat) 2"
  let ?s1 = "?s0\<lparr>bq_thr := (bq_thr ?s0)(0 := Put_check 5)\<rparr>"
  have r1: "bbq_reachable 0 2 ?s1"
    by (rule bbq_reachable.step [OF bbq_reachable.init], rule bbq_step.call_put)
      (simp_all add: BoundedBlockingQueue_new_def)
  have put: "BoundedBlockingQueue_put 5 (bq_buffer ?s1) =
    Inr (Done \<lparr>cb_start = 0, cb_end = 1, cb_count = 1, cb_buffer = [5, 0]\<rparr>)"
    by (simp add: BoundedBlockingQueue_new_def) code_simp
  have nt: "notify_not_empty ((bq_thr ?s1)(0 := Idle)) (\<lambda>_. Idle)"
    using notify_not_empty.none [of "\<lambda>_. Idle"] by (simp add: BoundedBlockingQueue_new_def fun_upd_idem)
  have "bbq_step ?s1 (?s1\<lparr>bq_buffer := \<lparr>cb_start = 0, cb_end = 1, cb_count = 1, cb_buffer = [5, 0]\<rparr>,
      bq_thr := (\<lambda>_. Idle), bq_put := bq_put ?s1 @ [5]\<rparr>)"
    by (rule bbq_step.put_done [where t = 0, OF _ _ put nt]) (simp_all add: BoundedBlockingQueue_new_def)
  with r1 show ?thesis
    by (auto dest: bbq_reachable.step simp: BoundedBlockingQueue_new_def)
qed

theorem BoundedBlockingQueue_linear_witness:
  "CircularBuffer_size \<lparr>cb_start = 0, cb_end = 1, cb_count = 1, cb_buffer = [5, 0 :: nat]\<rparr> \<le> 2"
  using BoundedBlockingQueue_linear [OF bbq_reachable_put_one] by simp

text \<open>
  C39. \<open>take\<close> waits while the queue is full instead of while it is empty.  Once the queue
  is full it stays full for ever: no interleaving of puts and takes, with any wake-ups, changes
  its contents again.
\<close>

theorem BoundedBlockingQueue_full_is_final:
  assumes "bbq_step\<^sup>*\<^sup>* s s'" and "CircularBuffer_full (bq_buffer s)"
  shows "bq_buffer s' = bq_buffer s \<and> bq_taken s' = bq_taken s"
  using assms
proof (induction rule: rtranclp_induct)
  case (step y z)
  then show ?case
    by (elim bbq_stepE) (auto simp: BoundedBlockingQueue_put_def BoundedBlockingQueue_take_def)
qed simp

theorem BoundedBlockingQueue_full_is_final_witness:
  "\<exists>s s' :: nat bbq. CircularBuffer_full (bq_buffer s) \<and> bbq_step\<^sup>*\<^sup>* s s' \<and> s' \<noteq> s \<and>
     bq_buffer s' = bq_buffer s \<and> bq_taken s' = bq_taken s"
proof -
  let ?s = "\<lparr>bq_buffer = \<lparr>cb_start = 0, cb_end = 0, cb_count = 1, cb_buffer = [5 :: nat]\<rparr>,
      bq_thr = (\<lambda>_. Idle), bq_put = [5], bq_taken = [], bq_error = None\<rparr>"
  let ?s' = "?s\<lparr>bq_thr := (bq_thr ?s)(0 := Take_check)\<rparr>"
  have st: "bbq_step\<^sup>*\<^sup>* ?s ?s'"
    by (intro r_into_rtranclp bbq_step.call_take) simp_all
  have full: "CircularBuffer_full (bq_buffer ?s)" by code_simp
  have "?s' \<noteq> ?s" by (auto dest!: fun_cong [where x = 0])
  with st full BoundedBlockingQueue_full_is_final [OF st full] show ?thesis by blast
qed

text \<open>
  In every reachable state of a queue of positive capacity, a \<open>take\<close> that finds the
  queue empty does not wait: it fails the assertion of \<open>front\<close>; and it fails in no other
  case.
\<close>

theorem BoundedBlockingQueue_take_empty:
  assumes "bbq_reachable d n s" and "0 < n"
  shows "BoundedBlockingQueue_take (bq_buffer s) = Inl e \<longleftrightarrow>
         e = Assertion_failed \<and> CircularBuffer_empty (bq_buffer s)"
  using bbq_reachable_inv [OF assms(1)] assms(2) by (auto simp: bbq_inv_def take_error_iff)

theorem BoundedBlockingQueue_take_empty_witness:
  "BoundedBlockingQueue_take (bq_buffer (BoundedBlockingQueue_new (0 :: nat) 4)) = Inl Assertion_failed"
proof -
  have "CircularBuffer_empty (bq_buffer (BoundedBlockingQueue_new (0 :: nat) 4))" by code_simp
  with BoundedBlockingQueue_take_empty [OF bbq_reachable.init, of 4 "0 :: nat" Assertion_failed]
  show ?thesis by simp
qed

end
