(* ===== verification/Fixed_Buffer.thy ===== *)
theory Fixed_Buffer
  imports Clia_Prelude
begin

text \<open>
  \<open>clia::container::FixedBuffer<Tp, Nm>\<close> (container/fixed_buffer.h): an array of
  \<open>Nm\<close> elements and a pointer \<open>cur_\<close> into it.  The pointer is modelled by its offset
  from \<open>data_\<close>, and \<open>Nm\<close> by the length of the array.
\<close>

section \<open>The class\<close>

record 'a fixed_buffer =
  fb_data :: "'a list"
  fb_cur :: nat

text \<open>The constructor leaves the array as it finds it (\<open>data\<close>) and calls
  \<open>reset\<close>.\<close>

definition FixedBuffer_reset :: "'a fixed_buffer \<Rightarrow> 'a fixed_buffer" where
  "FixedBuffer_reset fb = fb\<lparr>fb_cur := 0\<rparr>"

definition FixedBuffer_new :: "'a list \<Rightarrow> 'a fixed_buffer" where
  "FixedBuffer_new data = FixedBuffer_reset \<lparr>fb_data = data, fb_cur = 0\<rparr>"

definition FixedBuffer_max_size :: "'a fixed_buffer \<Rightarrow> int" where
  "FixedBuffer_max_size fb = int (length (fb_data fb))"

definition FixedBuffer_size :: "'a fixed_buffer \<Rightarrow> int" where
  "FixedBuffer_size fb = int (fb_cur fb)"

definition FixedBuffer_avail :: "'a fixed_buffer \<Rightarrow> int" where
  "FixedBuffer_avail fb = int (length (fb_data fb)) - int (fb_cur fb)"

text \<open>\<open>assert(this->avail() > len)\<close> compares a \<open>size_t\<close> with an \<open>int\<close>, which
  is converted to \<open>size_t\<close>.\<close>

definition FixedBuffer_add :: "nat \<Rightarrow> 'a fixed_buffer \<Rightarrow> 'a fixed_buffer res" where
  "FixedBuffer_add len fb =
     bindE (assertE (len < size_of_int (FixedBuffer_avail fb))) (\<lambda>_.
       Inr (fb\<lparr>fb_cur := fb_cur fb + len\<rparr>))"

text \<open>Appending one value (both overloads).\<close>

definition FixedBuffer_append1 :: "'a \<Rightarrow> 'a fixed_buffer \<Rightarrow> 'a fixed_buffer res" where
  "FixedBuffer_append1 value fb =
     bindE (assertE (0 < FixedBuffer_avail fb)) (\<lambda>_.
     bindE (store (fb_data fb) (fb_cur fb) value) (\<lambda>d.
       FixedBuffer_add 1 (fb\<lparr>fb_data := d\<rparr>)))"

fun FixedBuffer_append_loop :: "'a list \<Rightarrow> 'a fixed_buffer \<Rightarrow> 'a fixed_buffer res" where
  "FixedBuffer_append_loop [] fb = Inr fb"
| "FixedBuffer_append_loop (v # vs) fb = bindE (FixedBuffer_append1 v fb) (FixedBuffer_append_loop vs)"

text \<open>Appending a range; \<open>is_arithmetic\<close> is \<open>std::is_arithmetic<Tp>::value\<close>.\<close>

definition FixedBuffer_append :: "bool \<Rightarrow> 'a list \<Rightarrow> 'a fixed_buffer \<Rightarrow> 'a fixed_buffer res" where
  "FixedBuffer_append is_arithmetic values fb =
     bindE (assertE (length values < size_of_int (FixedBuffer_avail fb))) (\<lambda>_.
       if is_arithmetic
       then bindE (write_range (fb_data fb) (fb_cur fb) values) (\<lambda>d.
              FixedBuffer_add (length values) (fb\<lparr>fb_data := d\<rparr>))
       else FixedBuffer_append_loop values fb)"

lemmas FixedBuffer_defs =
  FixedBuffer_reset_def FixedBuffer_new_def FixedBuffer_max_size_def FixedBuffer_size_def
  FixedBuffer_avail_def FixedBuffer_add_def FixedBuffer_append1_def FixedBuffer_append_def

section \<open>Invariant and contents\<close>

text \<open>\<open>Nm\<close> is a positive \<open>int\<close>, and the pointer never reaches the end.\<close>

definition fb_inv :: "'a fixed_buffer \<Rightarrow> bool" where
  "fb_inv fb \<longleftrightarrow> fb_cur fb < length (fb_data fb) \<and> length (fb_data fb) < 2 ^ 31"

definition fb_contents :: "'a fixed_buffer \<Rightarrow> 'a list" where
  "fb_contents fb = take (fb_cur fb) (fb_data fb)"

lemma fb_inv_new [wf_intros]: "0 < length data \<Longrightarrow> length data < 2 ^ 31 \<Longrightarrow> fb_inv (FixedBuffer_new data)"
  by (simp add: fb_inv_def FixedBuffer_defs)

lemma fb_contents_new [abs_simps]: "fb_contents (FixedBuffer_new data) = []"
  by (simp add: fb_contents_def FixedBuffer_defs)

lemma fb_reset [wf_intros, abs_simps]:
  "fb_inv fb \<Longrightarrow> fb_inv (FixedBuffer_reset fb)"
  "fb_contents (FixedBuffer_reset fb) = []"
  "length (fb_data (FixedBuffer_reset fb)) = length (fb_data fb)"
  by (auto simp: fb_inv_def fb_contents_def FixedBuffer_defs)

lemma avail_size_t:
  "fb_inv fb \<Longrightarrow> size_of_int (FixedBuffer_avail fb) = length (fb_data fb) - fb_cur fb"
  by (auto simp: fb_inv_def FixedBuffer_avail_def size_of_int_def)

lemma length_fb_contents [simp]: "fb_inv fb \<Longrightarrow> length (fb_contents fb) = fb_cur fb"
  by (simp add: fb_inv_def fb_contents_def)

text \<open>A write at the current position followed by \<open>add\<close>, which is how every writer of the
  buffer (\<open>append\<close>, the streams) proceeds.\<close>

lemma write_add:
  assumes inv: "fb_inv fb" and room: "int (length xs) < FixedBuffer_avail fb"
    and d: "take (fb_cur fb + length xs) d = take (fb_cur fb) (fb_data fb) @ xs"
    and len: "length d = length (fb_data fb)"
  shows "\<exists>fb'. FixedBuffer_add (length xs) (fb\<lparr>fb_data := d\<rparr>) = Inr fb' \<and> fb_inv fb' \<and>
    fb_contents fb' = fb_contents fb @ xs \<and> length (fb_data fb') = length (fb_data fb) \<and>
    fb_data fb' = d"
proof -
  have inv': "fb_inv (fb\<lparr>fb_data := d\<rparr>)" using inv len by (simp add: fb_inv_def)
  have "length xs < length (fb_data fb) - fb_cur fb"
    using room inv by (auto simp: FixedBuffer_avail_def)
  then show ?thesis
    using inv d len avail_size_t [OF inv']
    by (auto simp: FixedBuffer_add_def fb_inv_def fb_contents_def)
qed

lemma append1_ok:
  assumes inv: "fb_inv fb" and room: "1 < FixedBuffer_avail fb"
  shows "\<exists>fb'. FixedBuffer_append1 v fb = Inr fb' \<and> fb_inv fb' \<and>
    fb_contents fb' = fb_contents fb @ [v] \<and> length (fb_data fb') = length (fb_data fb)"
proof -
  have cur: "fb_cur fb < length (fb_data fb)" using inv by (simp add: fb_inv_def)
  with room show ?thesis
    using write_add [OF inv, of "[v]" "(fb_data fb)[fb_cur fb := v]"]
    by (auto simp: FixedBuffer_append1_def store_ok take_Suc_conv_app_nth)
qed

lemma append1_full:
  assumes "fb_inv fb" and "FixedBuffer_avail fb \<le> 1"
  shows "FixedBuffer_append1 v fb = Inl Assertion_failed"
  using assms avail_size_t [of "fb\<lparr>fb_data := (fb_data fb)[fb_cur fb := v]\<rparr>"]
  by (auto simp: FixedBuffer_append1_def FixedBuffer_add_def store_def fb_inv_def FixedBuffer_avail_def)

lemma append_loop_ok:
  "fb_inv fb \<Longrightarrow> int (length vs) < FixedBuffer_avail fb \<Longrightarrow>
   \<exists>fb'. FixedBuffer_append_loop vs fb = Inr fb' \<and> fb_inv fb' \<and>
     fb_contents fb' = fb_contents fb @ vs \<and> length (fb_data fb') = length (fb_data fb)"
proof (induction vs arbitrary: fb)
  case Nil
  then show ?case by simp
next
  case (Cons v vs)
  then obtain fb1 where fb1: "FixedBuffer_append1 v fb = Inr fb1" "fb_inv fb1"
    "fb_contents fb1 = fb_contents fb @ [v]" "length (fb_data fb1) = length (fb_data fb)"
    using append1_ok [of fb v] by auto
  then have "length (fb_contents fb1) = Suc (length (fb_contents fb))" by simp
  then have "fb_cur fb1 = Suc (fb_cur fb)" using fb1(2) Cons.prems(1) by simp
  with Cons.prems fb1 have "int (length vs) < FixedBuffer_avail fb1" by (simp add: FixedBuffer_avail_def)
  from Cons.IH [OF fb1(2) this] fb1 show ?case by auto
qed

lemma append_ok:
  assumes inv: "fb_inv fb" and room: "int (length vs) < FixedBuffer_avail fb"
  shows "\<exists>fb'. FixedBuffer_append b vs fb = Inr fb' \<and> fb_inv fb' \<and>
    fb_contents fb' = fb_contents fb @ vs \<and> length (fb_data fb') = length (fb_data fb)"
proof (cases b)
  case True
  have "length vs < length (fb_data fb) - fb_cur fb"
    using room inv by (auto simp: FixedBuffer_avail_def)
  with True show ?thesis
    using write_add [OF inv room, of "take (fb_cur fb) (fb_data fb) @ vs @ drop (fb_cur fb + length vs) (fb_data fb)"]
    by (auto simp: FixedBuffer_append_def avail_size_t [OF inv] write_range_def)
next
  case False
  have "length vs < size_of_int (FixedBuffer_avail fb)"
    using room avail_size_t [OF inv] by (auto simp: FixedBuffer_avail_def)
  with append_loop_ok [OF assms] False show ?thesis by (auto simp: FixedBuffer_append_def)
qed

lemma append_full:
  assumes "fb_inv fb" and "FixedBuffer_avail fb \<le> int (length vs)"
  shows "FixedBuffer_append b vs fb = Inl Assertion_failed"
proof -
  have "\<not> length vs < size_of_int (FixedBuffer_avail fb)"
    using assms(2) by (simp add: avail_size_t [OF assms(1)]) (simp add: FixedBuffer_avail_def)
  then show ?thesis by (simp add: FixedBuffer_append_def)
qed

section \<open>Properties\<close>

text \<open>
  Appending a range to a fixed buffer succeeds exactly when at least one element stays
  free, adds the values at the end of the contents, keeps the capacity and the invariant, and
  otherwise fails the assertion before anything is written; the last slot of the array is
  never used.  The block copy and the element-by-element loop agree on this.
\<close>

theorem FixedBuffer_append_spec:
  assumes "fb_inv fb"
  shows "if FixedBuffer_size fb + int (length vs) < FixedBuffer_max_size fb
         then \<exists>fb'. FixedBuffer_append b vs fb = Inr fb' \<and> fb_inv fb' \<and>
                fb_contents fb' = fb_contents fb @ vs \<and>
                FixedBuffer_max_size fb' = FixedBuffer_max_size fb \<and>
                FixedBuffer_avail fb' = FixedBuffer_avail fb - int (length vs)
         else FixedBuffer_append b vs fb = Inl Assertion_failed"
proof (cases "FixedBuffer_size fb + int (length vs) < FixedBuffer_max_size fb")
  case True
  then have "int (length vs) < FixedBuffer_avail fb"
    by (simp add: FixedBuffer_defs)
  from append_ok [OF assms this, of b] obtain fb' where fb': "FixedBuffer_append b vs fb = Inr fb'"
    "fb_inv fb'" "fb_contents fb' = fb_contents fb @ vs" "length (fb_data fb') = length (fb_data fb)"
    by blast
  then have "fb_cur fb' = fb_cur fb + length vs"
    using length_fb_contents [OF fb'(2)] length_fb_contents [OF assms] by simp
  with True fb' show ?thesis by (auto simp: FixedBuffer_max_size_def FixedBuffer_avail_def)
next
  case False
  then show ?thesis using append_full [OF assms] by (simp add: FixedBuffer_defs)
qed

theorem FixedBuffer_append_spec_witness:
  "\<exists>fb'. FixedBuffer_append True ''ab'' (FixedBuffer_new ''xxxx'') = Inr fb' \<and> fb_contents fb' = ''ab''"
proof -
  have "fb_inv (FixedBuffer_new ''xxxx'')" by (simp add: fb_inv_new)
  from FixedBuffer_append_spec [OF this, of "''ab''" True] show ?thesis
    by (auto simp: FixedBuffer_defs fb_contents_def)
qed

end
