(* ===== verification/Str_Func.thy ===== *)
theory Str_Func
  imports Clia_Prelude "HOL-Library.Signed_Division"
begin

text \<open>
  \<open>clia::util::str_func::convert\<close> (util/str_func.h): decimal conversion of an integral
  value into a character buffer, least significant digit first, then reversed in place.
  The reference definition is \<open>decimal\<close>; \<open>parse_decimal\<close> reads it back.
\<close>

section \<open>The conversion\<close>

text \<open>\<open>kDigits\<close> is a character array of eleven elements (the digits and the terminator);
  an index outside it is an out-of-bounds read.\<close>

definition kDigits :: string where
  "kDigits = ''0123456789'' @ [CHR 0x00]"

definition kDigits_at :: "int \<Rightarrow> char res" where
  "kDigits_at lsd = (if lsd < 0 then Inl Out_of_bounds else load kDigits (nat lsd))"

text \<open>The do-while loop: \<open>m\<close> is the memory, \<open>p\<close> the write position, \<open>i\<close> what is
  left of the value.  Division and remainder of C++ truncate towards zero
  (\<open>sdiv\<close>, \<open>smod\<close>).\<close>

lemma sdiv_10_decreases: "(i :: int) sdiv 10 \<noteq> 0 \<Longrightarrow> nat \<bar>i sdiv 10\<bar> < nat \<bar>i\<bar>"
  by (auto simp: signed_divide_int_def sgn_if abs_if split: if_splits)

function convert_loop :: "string \<Rightarrow> nat \<Rightarrow> int \<Rightarrow> (string \<times> nat) res" where
  "convert_loop m p i =
     bindE (kDigits_at (i smod 10)) (\<lambda>c.
     bindE (store m p c) (\<lambda>m'.
       if i sdiv 10 \<noteq> 0 then convert_loop m' (Suc p) (i sdiv 10) else Inr (m', Suc p)))"
  by pat_completeness auto
termination
  by (relation "measure (\<lambda>(m, p, i). nat \<bar>i\<bar>)") (auto dest: sdiv_10_decreases)

declare convert_loop.simps [simp del]

text \<open>\<open>std::reverse\<close> on the positions from \<open>a\<close> up to \<open>b\<close>.\<close>

definition reverse_range :: "'a list \<Rightarrow> nat \<Rightarrow> nat \<Rightarrow> 'a list" where
  "reverse_range m a b = take a m @ rev (take (b - a) (drop a m)) @ drop b m"

text \<open>\<open>outbuf\<close> is the offset \<open>out\<close> into the memory \<open>m\<close>; the result is the memory
  and the number of characters.\<close>

definition str_func_convert :: "string \<Rightarrow> nat \<Rightarrow> int \<Rightarrow> int \<Rightarrow> (string \<times> nat) res" where
  "str_func_convert m out sz value =
     (if sz < 32 then Inr (m, 0)
      else bindE (convert_loop m out value) (\<lambda>(m1, p1).
           bindE (if value < 0 then bindE (store m1 p1 (CHR ''-'')) (\<lambda>m2. Inr (m2, Suc p1))
                  else Inr (m1, p1)) (\<lambda>(m2, p2).
           bindE (store m2 p2 (CHR 0x00)) (\<lambda>m3.
             Inr (reverse_range m3 out p2, p2 - out)))))"

section \<open>Reference: decimal notation\<close>

definition digit_char :: "nat \<Rightarrow> char" where
  "digit_char d = char_of (48 + d)"

fun rev_decimal :: "nat \<Rightarrow> string" where
  "rev_decimal n = digit_char (n mod 10) # (if n div 10 = 0 then [] else rev_decimal (n div 10))"

declare rev_decimal.simps [simp del]

definition decimal :: "nat \<Rightarrow> string" where
  "decimal n = rev (rev_decimal n)"

definition parse_decimal :: "string \<Rightarrow> nat" where
  "parse_decimal s = foldl (\<lambda>a c. 10 * a + (of_char c - 48)) 0 s"

lemma parse_rev_decimal: "foldr (\<lambda>c a. 10 * a + (of_char c - 48)) (rev_decimal n) 0 = n"
proof (induction n rule: rev_decimal.induct)
  case (1 n)
  have "(of_char (digit_char (n mod 10)) :: nat) = 48 + n mod 10"
    by (simp add: digit_char_def)
  with 1 show ?case by (subst rev_decimal.simps) auto
qed

lemma parse_decimal_decimal [simp]: "parse_decimal (decimal n) = n"
  using parse_rev_decimal [of n] by (simp add: parse_decimal_def decimal_def foldl_conv_foldr)

lemma length_rev_decimal: "n < 10 ^ Suc k \<Longrightarrow> length (rev_decimal n) \<le> Suc k"
proof (induction k arbitrary: n)
  case 0
  then show ?case by (subst rev_decimal.simps) simp
next
  case (Suc k)
  from Suc.prems have "n div 10 < 10 ^ Suc k" by (simp add: div_less_iff_less_mult)
  from Suc.IH [OF this] show ?case by (subst rev_decimal.simps) simp
qed

lemma rev_decimal_nonempty [simp]: "rev_decimal n \<noteq> []"
  by (subst rev_decimal.simps) simp

lemma kDigits_at_nat: "d < 10 \<Longrightarrow> kDigits_at (int d) = Inr (digit_char d)"
proof -
  assume "d < 10"
  then have "d \<in> {0, 1, 2, 3, 4, 5, 6, 7, 8, 9}" by auto
  moreover have "\<forall>d \<in> {0, 1, 2, 3, 4, 5, 6, 7, 8, 9}. load kDigits d = Inr (digit_char d)"
    by (simp add: kDigits_def load_def digit_char_def char_of_def) code_simp
  ultimately show ?thesis by (auto simp: kDigits_at_def)
qed

lemma sdivmod_nat: "int n sdiv 10 = int (n div 10)" "int n smod 10 = int (n mod 10)"
  by (simp_all add: signed_divide_int_def signed_modulo_int_def sgn_if zdiv_int minus_div_mult_eq_mod
      zmod_int)

section \<open>The loop writes the reversed decimal notation\<close>

lemma convert_loop_nat:
  "p + length (rev_decimal n) \<le> length m \<Longrightarrow>
   convert_loop m p (int n) =
     Inr (take p m @ rev_decimal n @ drop (p + length (rev_decimal n)) m,
          p + length (rev_decimal n))"
proof (induction n arbitrary: m p rule: rev_decimal.induct)
  case (1 n)
  let ?c = "digit_char (n mod 10)" and ?q = "n div 10"
  from 1(2) have p: "p < length m" by (subst (asm) rev_decimal.simps) simp
  note step = convert_loop.simps [of m p "int n"] sdivmod_nat kDigits_at_nat store_ok [OF p]
  show ?case
  proof (cases "?q = 0")
    case True
    with p show ?thesis
      by (simp add: step rev_decimal.simps [of n] upd_conv_take_nth_drop)
  next
    case False
    with 1(2) have "Suc p + length (rev_decimal ?q) \<le> length (m[p := ?c])"
      by (subst (asm) rev_decimal.simps) simp
    from 1(1) [OF False this] False p show ?thesis
      by (simp add: step rev_decimal.simps [of n] take_Suc_conv_app_nth)
  qed
qed

text \<open>A negative value reaches a digit whose remainder is negative.\<close>

lemma sdivmod_neg:
  "(- int n) sdiv 10 = - int (n div 10)" "(- int n) smod 10 = - int (n mod 10)"
  by (simp_all add: signed_divide_int_def signed_modulo_int_def sgn_if zdiv_int zmod_int
      minus_div_mult_eq_mod)

lemma convert_loop_negative:
  "0 < n \<Longrightarrow> p + length (rev_decimal n) \<le> length m \<Longrightarrow>
   convert_loop m p (- int n) = Inl Out_of_bounds"
proof (induction n arbitrary: m p rule: rev_decimal.induct)
  case (1 n)
  note step = convert_loop.simps [of m p "- int n"] sdivmod_neg sdivmod_nat
  show ?case
  proof (cases "n mod 10 = 0")
    case False
    then show ?thesis by (simp add: step kDigits_at_def)
  next
    case True
    with 1(2) have q: "0 < n div 10" by auto
    with 1(3) have p: "p < length m"
      and len: "Suc p + length (rev_decimal (n div 10)) \<le> length (m[p := CHR ''0''])"
      by (subst (asm) rev_decimal.simps, simp)+
    have "kDigits_at 0 = Inr (CHR ''0'')" by (simp add: kDigits_at_def load_def kDigits_def)
    with True q p 1(1) [OF _ q len] show ?thesis by (simp add: step store_ok)
  qed
qed

section \<open>Properties\<close>

lemma str_func_convert_nat:
  assumes sz: "32 \<le> sz" and k: "length (decimal n) \<le> 20" and room: "out + 32 \<le> length m"
  shows "str_func_convert m out sz (int n) =
    Inr (take out m @ decimal n @ CHR 0x00 # drop (Suc (out + length (decimal n))) m,
         length (decimal n))"
proof -
  let ?k = "length (rev_decimal n)"
  let ?m1 = "take out m @ rev_decimal n @ drop (out + ?k) m"
  have k': "?k \<le> 20" using k by (simp add: decimal_def)
  have loop: "convert_loop m out (int n) = Inr (?m1, out + ?k)"
    using k' room by (intro convert_loop_nat) simp
  have nul: "store ?m1 (out + ?k) (CHR 0x00) =
      Inr (take out m @ rev_decimal n @ CHR 0x00 # drop (Suc (out + ?k)) m)"
    using k' room by (simp add: store_def list_update_append upd_conv_take_nth_drop drop_Suc)
  have "reverse_range (take out m @ rev_decimal n @ CHR 0x00 # drop (Suc (out + ?k)) m) out (out + ?k)
      = take out m @ decimal n @ CHR 0x00 # drop (Suc (out + ?k)) m"
    using room by (simp add: reverse_range_def decimal_def)
  then show ?thesis
    using sz loop nul by (simp add: str_func_convert_def decimal_def)
qed

lemma length_decimal_64: "n < 2 ^ 64 \<Longrightarrow> length (decimal n) \<le> 20"
  using length_rev_decimal [of n 19] by (simp add: decimal_def)

text \<open>
  C32. Every non-negative value of a type of at most 64 bits is converted, given 32 bytes of
  room, to its decimal notation followed by a terminator: the text reads back as the value,
  at most 21 bytes are written, and no byte outside those is touched.
\<close>

theorem str_func_convert_correct:
  assumes "0 \<le> v" and "v < 2 ^ 64" and "32 \<le> sz" and "out + nat sz \<le> length m"
  shows "\<exists>m' n. str_func_convert m out sz v = Inr (m', n) \<and> n \<le> 20 \<and>
    take n (drop out m') = decimal (nat v) \<and> parse_decimal (take n (drop out m')) = nat v \<and>
    m' ! (out + n) = CHR 0x00 \<and>
    take out m' = take out m \<and> drop (Suc (out + n)) m' = drop (Suc (out + n)) m"
proof -
  have k: "length (decimal (nat v)) \<le> 20" using assms by (intro length_decimal_64) simp
  have room: "out + 32 \<le> length m" using assms by linarith
  from str_func_convert_nat [OF assms(3) k room] assms(1) k room show ?thesis
    by (simp add: nth_append)
qed

theorem str_func_convert_correct_witness:
  "\<exists>m' n. str_func_convert (replicate 40 (CHR ''x'')) 3 32 1024 = Inr (m', n) \<and>
     parse_decimal (take n (drop 3 m')) = 1024"
  using str_func_convert_correct [of 1024 32 3 "replicate 40 (CHR ''x'')"] by auto

text \<open>
  A negative value is not converted: with enough room for its digits, the digit table is
  read before its first element (the remainder of a negative value is negative in C++), so the
  branch that would write the minus sign is never reached.
\<close>

theorem str_func_convert_negative:
  assumes "v < 0" and "- (2 ^ 63) \<le> v" and "32 \<le> sz" and "out + nat sz \<le> length m"
  shows "str_func_convert m out sz v = Inl Out_of_bounds"
proof -
  have "length (decimal (nat (- v))) \<le> 20" using assms by (intro length_decimal_64) simp
  then have "convert_loop m out (- int (nat (- v))) = Inl Out_of_bounds"
    using assms by (intro convert_loop_negative) (simp_all add: decimal_def)
  then show ?thesis using assms by (simp add: str_func_convert_def)
qed

theorem str_func_convert_negative_witness:
  "str_func_convert (replicate 40 (CHR ''x'')) 0 40 (- 10) = Inl Out_of_bounds"
  using str_func_convert_negative [of "- 10" 40 0 "replicate 40 (CHR ''x'')"] by simp

end
