(* ===== verification/Fixed_OStream.thy ===== *)
theory Fixed_OStream
  imports Fixed_Buffer Str_Func
begin

text \<open>
  \<open>clia::container::FixedOStream<Nm>\<close> (container/fixed_ostream.h): a character stream
  over a \<open>FixedBuffer<char, Nm>\<close>.  An insertion is a value of \<open>stream_item\<close>, one
  constructor per group of overloads of \<open>operator<<\<close>; the text that \<open>snprintf\<close> or
  \<open>vsnprintf\<close> produces for its format and arguments is the argument of \<open>Formatted\<close>
  (\<open>None\<close> for an encoding error, when the functions return \<open>-1\<close>).
\<close>

section \<open>The class\<close>

type_synonym ostream = "char fixed_buffer"

datatype stream_item =
    Char char                        \<comment> \<open>\<open>const char val\<close>\<close>
  | C_string "string option"         \<comment> \<open>\<open>const char *str\<close>; \<open>None\<close> is the null pointer\<close>
  | Std_string string                \<comment> \<open>\<open>const std::string &str\<close>\<close>
  | Integral int                     \<comment> \<open>\<open>unsigned char\<close> to \<open>long long\<close>\<close>
  | Formatted "string option"        \<comment> \<open>pointers, \<open>float\<close>, \<open>double\<close> and \<open>format\<close>\<close>

text \<open>\<open>snprintf(buf, size, ...)\<close> stores at most \<open>size - 1\<close> characters and a
  terminator, and returns the length of the whole text.\<close>

definition snprintf_write :: "string \<Rightarrow> nat \<Rightarrow> int \<Rightarrow> string \<Rightarrow> string res" where
  "snprintf_write m out sz text =
     (if sz \<le> 0 then Inr m else write_range m out (take (nat sz - 1) text @ [CHR 0x00]))"

definition FixedOStream_formatted :: "string option \<Rightarrow> ostream \<Rightarrow> ostream res" where
  "FixedOStream_formatted t os =
     (case t of
        None \<Rightarrow> FixedBuffer_add (size_of_int (- 1)) os
      | Some text \<Rightarrow>
          bindE (snprintf_write (fb_data os) (fb_cur os) (FixedBuffer_avail os) text) (\<lambda>d.
            FixedBuffer_add (length text) (os\<lparr>fb_data := d\<rparr>)))"

definition FixedOStream_integral :: "int \<Rightarrow> ostream \<Rightarrow> ostream res" where
  "FixedOStream_integral val os =
     bindE (str_func_convert (fb_data os) (fb_cur os) (FixedBuffer_avail os) val) (\<lambda>(d, n).
       FixedBuffer_add n (os\<lparr>fb_data := d\<rparr>))"

definition FixedOStream_c_string :: "string option \<Rightarrow> ostream \<Rightarrow> ostream res" where
  "FixedOStream_c_string str os =
     (case str of Some s \<Rightarrow> FixedBuffer_append True s os
      | None \<Rightarrow> FixedBuffer_append True ''(null)'' os)"

definition FixedOStream_put :: "stream_item \<Rightarrow> ostream \<Rightarrow> ostream res" where
  "FixedOStream_put x os =
     (case x of
        Char c \<Rightarrow> FixedBuffer_append1 c os
      | C_string s \<Rightarrow> FixedOStream_c_string s os
      | Std_string s \<Rightarrow> FixedBuffer_append True s os
      | Integral v \<Rightarrow> FixedOStream_integral v os
      | Formatted t \<Rightarrow> FixedOStream_formatted t os)"

fun FixedOStream_puts :: "stream_item list \<Rightarrow> ostream \<Rightarrow> ostream res" where
  "FixedOStream_puts [] os = Inr os"
| "FixedOStream_puts (x # xs) os = bindE (FixedOStream_put x os) (FixedOStream_puts xs)"

section \<open>What an insertion appends\<close>

text \<open>The text of an item when it fits, and the room it needs: a conversion needs 32 bytes,
  everything else one byte more than its text.\<close>

fun item_text :: "stream_item \<Rightarrow> string" where
  "item_text (Char c) = [c]"
| "item_text (C_string s) = (case s of None \<Rightarrow> ''(null)'' | Some t \<Rightarrow> t)"
| "item_text (Std_string s) = s"
| "item_text (Integral v) = decimal (nat v)"
| "item_text (Formatted t) = (case t of None \<Rightarrow> [] | Some s \<Rightarrow> s)"

fun item_ok :: "stream_item \<Rightarrow> bool" where
  "item_ok (Integral v) \<longleftrightarrow> 0 \<le> v \<and> v < 2 ^ 64"
| "item_ok (Formatted t) \<longleftrightarrow> t \<noteq> None"
| "item_ok _ \<longleftrightarrow> True"

fun item_room :: "stream_item \<Rightarrow> nat" where
  "item_room (Integral v) = 32"
| "item_room x = Suc (length (item_text x))"

lemma length_item_text: "item_ok x \<Longrightarrow> length (item_text x) < item_room x"
proof (cases x)
  case (Integral v)
  then show "item_ok x \<Longrightarrow> ?thesis" using length_decimal_64 [of "nat v"] by (auto simp: nat_less_iff)
qed auto

text \<open>The common shape of a conversion: the text and its terminator at the current
  position, then \<open>add\<close> of the length of the text.\<close>

lemma write_nul_add:
  assumes inv: "fb_inv os" and room: "int (length xs) < FixedBuffer_avail os"
  shows "\<exists>os'. FixedBuffer_add (length xs) (os\<lparr>fb_data := take (fb_cur os) (fb_data os) @ xs @
      CHR 0x00 # drop (Suc (fb_cur os + length xs)) (fb_data os)\<rparr>) = Inr os' \<and> fb_inv os' \<and>
    fb_contents os' = fb_contents os @ xs \<and> length (fb_data os') = length (fb_data os)"
proof -
  have "fb_cur os + length xs < length (fb_data os)"
    using room by (simp add: FixedBuffer_avail_def)
  then have "length (take (fb_cur os) (fb_data os) @ xs @ CHR 0x00 #
      drop (Suc (fb_cur os + length xs)) (fb_data os)) = length (fb_data os)"
    and "take (fb_cur os + length xs) (take (fb_cur os) (fb_data os) @ xs @ CHR 0x00 #
      drop (Suc (fb_cur os + length xs)) (fb_data os)) = take (fb_cur os) (fb_data os) @ xs"
    by simp_all
  from write_add [OF inv room this(2,1)] show ?thesis by blast
qed

lemma formatted_ok:
  assumes inv: "fb_inv os" and room: "int (length text) < FixedBuffer_avail os"
  shows "\<exists>os'. FixedOStream_formatted (Some text) os = Inr os' \<and> fb_inv os' \<and>
    fb_contents os' = fb_contents os @ text \<and> length (fb_data os') = length (fb_data os)"
proof -
  have fits: "fb_cur os + length text < length (fb_data os)"
    using room by (simp add: FixedBuffer_avail_def)
  then have "take (nat (FixedBuffer_avail os) - 1) text = text"
    by (simp add: FixedBuffer_avail_def nat_diff_distrib)
  with fits have "snprintf_write (fb_data os) (fb_cur os) (FixedBuffer_avail os) text =
     Inr (take (fb_cur os) (fb_data os) @ text @ CHR 0x00 # drop (Suc (fb_cur os + length text)) (fb_data os))"
    by (simp add: snprintf_write_def write_range_def FixedBuffer_avail_def)
  with write_nul_add [OF assms] show ?thesis by (simp add: FixedOStream_formatted_def)
qed

text \<open>A text that does not fit is truncated by \<open>snprintf\<close> inside the buffer, and
  \<open>add\<close> then fails its assertion.\<close>

lemma formatted_too_long:
  assumes inv: "fb_inv os" and big: "FixedBuffer_avail os \<le> int (length text)"
  shows "FixedOStream_formatted (Some text) os = Inl Assertion_failed"
proof -
  let ?a = "length (fb_data os) - fb_cur os"
  have a: "FixedBuffer_avail os = int ?a" "0 < ?a" and na: "nat (FixedBuffer_avail os) = ?a" "\<not> FixedBuffer_avail os \<le> 0"
    using inv by (auto simp: FixedBuffer_avail_def fb_inv_def nat_diff_distrib)
  have "fb_cur os + length (take (?a - 1) text @ [CHR 0x00]) \<le> length (fb_data os)"
    using a(2) by simp
  from write_range_ok [OF this] obtain d
    where d: "write_range (fb_data os) (fb_cur os) (take (?a - 1) text @ [CHR 0x00]) = Inr d" by blast
  then have d: "snprintf_write (fb_data os) (fb_cur os) (FixedBuffer_avail os) text = Inr d"
    "length d = length (fb_data os)"
    using length_write_range [OF d] a(2) na by (simp_all add: snprintf_write_def)
  then have "fb_inv (os\<lparr>fb_data := d\<rparr>)" using inv by (simp add: fb_inv_def)
  from avail_size_t [OF this] d big a show ?thesis
    by (simp add: FixedOStream_formatted_def FixedBuffer_add_def)
qed

lemma integral_ok:
  assumes inv: "fb_inv os" and room: "32 \<le> FixedBuffer_avail os" and v: "0 \<le> v" "v < 2 ^ 64"
  shows "\<exists>os'. FixedOStream_integral v os = Inr os' \<and> fb_inv os' \<and>
    fb_contents os' = fb_contents os @ decimal (nat v) \<and> length (fb_data os') = length (fb_data os)"
proof -
  let ?t = "decimal (nat v)"
  have k: "length ?t \<le> 20" using v by (intro length_decimal_64) simp
  have fits: "fb_cur os + 32 \<le> length (fb_data os)" using room by (simp add: FixedBuffer_avail_def)
  have "str_func_convert (fb_data os) (fb_cur os) (FixedBuffer_avail os) v =
      Inr (take (fb_cur os) (fb_data os) @ ?t @ CHR 0x00 # drop (Suc (fb_cur os + length ?t)) (fb_data os),
           length ?t)"
    using str_func_convert_nat [OF room k fits] v by simp
  with write_nul_add [OF inv, of ?t] k room show ?thesis by (simp add: FixedOStream_integral_def)
qed

lemma put_ok:
  assumes inv: "fb_inv os" and room: "int (item_room x) \<le> FixedBuffer_avail os" and ok: "item_ok x"
  shows "\<exists>os'. FixedOStream_put x os = Inr os' \<and> fb_inv os' \<and>
    fb_contents os' = fb_contents os @ item_text x \<and> length (fb_data os') = length (fb_data os)"
proof (cases x)
  case (Char c)
  with append1_ok [OF inv, of c] room show ?thesis by (simp add: FixedOStream_put_def)
next
  case (C_string s)
  with append_ok [OF inv, of "item_text x" True] room show ?thesis
    by (auto simp: FixedOStream_put_def FixedOStream_c_string_def split: option.splits)
next
  case (Std_string s)
  with append_ok [OF inv, of s True] room show ?thesis by (simp add: FixedOStream_put_def)
next
  case (Integral v)
  with integral_ok [OF inv, of v] room ok show ?thesis by (simp add: FixedOStream_put_def)
next
  case (Formatted t)
  with formatted_ok [OF inv, of "item_text x"] room ok show ?thesis
    by (auto simp: FixedOStream_put_def)
qed

definition items_text :: "stream_item list \<Rightarrow> string" where
  "items_text xs = concat (map item_text xs)"

definition items_room :: "stream_item list \<Rightarrow> nat" where
  "items_room xs = sum_list (map item_room xs)"

lemma items_simps [simp]:
  "items_text [] = []" "items_text (x # xs) = item_text x @ items_text xs"
  "items_room [] = 0" "items_room (x # xs) = item_room x + items_room xs"
  "items_text (xs @ ys) = items_text xs @ items_text ys"
  "items_room (xs @ ys) = items_room xs + items_room ys"
  by (simp_all add: items_text_def items_room_def)

lemma puts_append: "FixedOStream_puts (xs @ ys) os = bindE (FixedOStream_puts xs os) (FixedOStream_puts ys)"
  by (induction xs arbitrary: os) (auto simp: bindE_assoc split: bindE_split)

lemma avail_contents:
  "fb_inv os \<Longrightarrow> FixedBuffer_avail os = int (length (fb_data os)) - int (length (fb_contents os))"
  by (simp add: FixedBuffer_avail_def)

lemma puts_ok:
  "fb_inv os \<Longrightarrow> int (items_room xs) \<le> FixedBuffer_avail os \<Longrightarrow> \<forall>x\<in>set xs. item_ok x \<Longrightarrow>
   \<exists>os'. FixedOStream_puts xs os = Inr os' \<and> fb_inv os' \<and>
     fb_contents os' = fb_contents os @ items_text xs \<and> length (fb_data os') = length (fb_data os)"
proof (induction xs arbitrary: os)
  case Nil
  then show ?case by simp
next
  case (Cons x xs)
  then obtain os1 where os1: "FixedOStream_put x os = Inr os1" "fb_inv os1"
    "fb_contents os1 = fb_contents os @ item_text x" "length (fb_data os1) = length (fb_data os)"
    using put_ok [of os x] by auto
  have "length (item_text x) < item_room x" using Cons.prems by (intro length_item_text) simp
  with Cons.prems os1 have "int (items_room xs) \<le> FixedBuffer_avail os1"
    by (simp add: avail_contents)
  from Cons.IH [OF os1(2) this] Cons.prems os1 show ?case by auto
qed

section \<open>Properties\<close>

text \<open>
  A sequence of insertions whose items fit (32 bytes for an integral value, one byte more
  than the text otherwise) and are convertible appends exactly their texts, in order, to the
  contents of the stream, and fails nowhere.
\<close>

theorem FixedOStream_puts_text:
  assumes "fb_inv os" and "int (items_room xs) \<le> FixedBuffer_avail os" and "\<forall>x\<in>set xs. item_ok x"
  shows "\<exists>os'. FixedOStream_puts xs os = Inr os' \<and> fb_inv os' \<and>
         fb_contents os' = fb_contents os @ items_text xs"
  using puts_ok [OF assms] by blast

theorem FixedOStream_puts_text_witness:
  "\<exists>os'. FixedOStream_puts [C_string (Some ''n=''), Integral 42, Char (CHR ''!'')]
           (FixedBuffer_new (replicate 64 (CHR ''?''))) = Inr os' \<and>
         fb_contents os' = ''n='' @ decimal 42 @ ''!''"
proof -
  let ?os = "FixedBuffer_new (replicate 64 (CHR ''?''))"
  have "fb_inv ?os" by (simp add: fb_inv_new)
  moreover have "int (items_room [C_string (Some ''n=''), Integral 42, Char (CHR ''!'')]) \<le> FixedBuffer_avail ?os"
    by (simp add: FixedBuffer_defs)
  ultimately show ?thesis
    using FixedOStream_puts_text [of ?os "[C_string (Some ''n=''), Integral 42, Char (CHR ''!'')]"]
    by (auto simp: fb_contents_new)
qed

text \<open>
  With fewer than 32 free bytes an integral value of any sign is dropped without an error:
  the stream is unchanged.  A formatted text is all or nothing: it is appended whole when it
  is shorter than the free space, and otherwise \<open>snprintf\<close> truncates it inside the buffer
  and the assertion of \<open>add\<close> fails.
\<close>

theorem FixedOStream_when_short:
  assumes "fb_inv os"
  shows "(FixedBuffer_avail os < 32 \<longrightarrow> FixedOStream_put (Integral v) os = Inr os) \<and>
         (if int (length text) < FixedBuffer_avail os
          then \<exists>os'. FixedOStream_put (Formatted (Some text)) os = Inr os' \<and>
                 fb_contents os' = fb_contents os @ text
          else FixedOStream_put (Formatted (Some text)) os = Inl Assertion_failed)"
proof -
  have "0 < size_of_int (FixedBuffer_avail os)" using assms avail_size_t [OF assms] by (simp add: fb_inv_def)
  then have "FixedBuffer_avail os < 32 \<longrightarrow> FixedOStream_put (Integral v) os = Inr os"
    by (simp add: FixedOStream_put_def FixedOStream_integral_def str_func_convert_def FixedBuffer_add_def)
  with formatted_ok [OF assms, of "text"] formatted_too_long [OF assms, of "text"] show ?thesis
    by (auto simp: FixedOStream_put_def)
qed

theorem FixedOStream_when_short_witness:
  "FixedOStream_put (Integral 7) (FixedBuffer_new (replicate 8 (CHR ''?''))) =
     Inr (FixedBuffer_new (replicate 8 (CHR ''?'')))"
proof -
  have "fb_inv (FixedBuffer_new (replicate 8 (CHR ''?'')))" by (simp add: fb_inv_new)
  from FixedOStream_when_short [OF this, of 7 "[]"] show ?thesis by (simp add: FixedBuffer_defs)
qed

end
