(* ===== verification/Net_Buffer.thy ===== *)
theory Net_Buffer
  imports Clia_Prelude
begin

text \<open>
  \<open>clia::net::Buffer\<close> (net/buffer.h, net/buffer.cc): a vector of bytes with a read and a
  write index, eight bytes kept free in front.  The indices are 64-bit words, so that every
  sum and difference of the source wraps around as \<open>std::size_t\<close> does.  The locale
  \<open>byte_queue\<close> is what the connections rely on: bytes leave the buffer in the order they
  entered it.
\<close>

section \<open>The class\<close>

record net_buffer =
  nb_buffer :: "byte list"
  nb_reader :: size_t
  nb_writer :: size_t

definition kCheapPrepend :: size_t where "kCheapPrepend = 8"
definition kInitialSize :: size_t where "kInitialSize = 1024"

text \<open>A vector of bytes holds at most \<open>PTRDIFF_MAX\<close> elements; beyond that its
  constructor and \<open>resize\<close> throw.\<close>

definition vector_max_size :: nat where "vector_max_size = 2 ^ 63 - 1"

definition vector_resize :: "size_t \<Rightarrow> byte list \<Rightarrow> byte list res" where
  "vector_resize n v =
     (if unat n \<le> vector_max_size then Inr (resize_list 0 (unat n) v) else Inl Length_error)"

definition Buffer_readable_bytes :: "net_buffer \<Rightarrow> size_t" where
  "Buffer_readable_bytes b = nb_writer b - nb_reader b"

definition Buffer_writable_bytes :: "net_buffer \<Rightarrow> size_t" where
  "Buffer_writable_bytes b = of_nat (length (nb_buffer b)) - nb_writer b"

definition Buffer_prependable_bytes :: "net_buffer \<Rightarrow> size_t" where
  "Buffer_prependable_bytes b = nb_reader b"

definition Buffer_new :: "size_t \<Rightarrow> net_buffer res" where
  "Buffer_new inital_size =
     bindE (vector_resize (kCheapPrepend + inital_size) []) (\<lambda>v.
       let b = \<lparr>nb_buffer = v, nb_reader = kCheapPrepend, nb_writer = kCheapPrepend\<rparr>
       in bindE (assertE (Buffer_readable_bytes b = 0)) (\<lambda>_.
          bindE (assertE (Buffer_writable_bytes b = inital_size)) (\<lambda>_.
          bindE (assertE (Buffer_prependable_bytes b = kCheapPrepend)) (\<lambda>_. Inr b))))"

text \<open>The copy constructor and copy assignment.\<close>

definition Buffer_copy :: "net_buffer \<Rightarrow> net_buffer" where
  "Buffer_copy oth =
     \<lparr>nb_buffer = nb_buffer oth, nb_reader = nb_reader oth, nb_writer = nb_writer oth\<rparr>"

text \<open>The move constructor (and move assignment to another object): the first component is
  the new object, the second what is left of \<open>oth\<close>.\<close>

definition Buffer_move :: "net_buffer \<Rightarrow> net_buffer \<times> net_buffer" where
  "Buffer_move oth =
     (\<lparr>nb_buffer = nb_buffer oth, nb_reader = nb_reader oth, nb_writer = nb_writer oth\<rparr>,
      \<lparr>nb_buffer = [], nb_reader = kCheapPrepend, nb_writer = kCheapPrepend\<rparr>)"

text \<open>The address \<open>peek()\<close> as an offset into the vector.\<close>

definition Buffer_peek :: "net_buffer \<Rightarrow> nat" where
  "Buffer_peek b = unat (nb_reader b)"

definition Buffer_begin_write :: "net_buffer \<Rightarrow> nat" where
  "Buffer_begin_write b = unat (nb_writer b)"

definition Buffer_retrieve_all :: "net_buffer \<Rightarrow> net_buffer" where
  "Buffer_retrieve_all b = b\<lparr>nb_reader := kCheapPrepend, nb_writer := kCheapPrepend\<rparr>"

definition Buffer_retrieve :: "size_t \<Rightarrow> net_buffer \<Rightarrow> net_buffer res" where
  "Buffer_retrieve len b =
     bindE (assertE (len \<le> Buffer_readable_bytes b)) (\<lambda>_.
       if len < Buffer_readable_bytes b then Inr (b\<lparr>nb_reader := nb_reader b + len\<rparr>)
       else Inr (Buffer_retrieve_all b))"

definition Buffer_retrieve_as_string :: "size_t \<Rightarrow> net_buffer \<Rightarrow> (byte list \<times> net_buffer) res" where
  "Buffer_retrieve_as_string len b =
     bindE (assertE (len \<le> Buffer_readable_bytes b)) (\<lambda>_.
     bindE (read_range (nb_buffer b) (Buffer_peek b) (unat len)) (\<lambda>result.
     bindE (Buffer_retrieve len b) (\<lambda>b'. Inr (result, b'))))"

definition Buffer_retrieve_all_as_string :: "net_buffer \<Rightarrow> (byte list \<times> net_buffer) res" where
  "Buffer_retrieve_all_as_string b = Buffer_retrieve_as_string (Buffer_readable_bytes b) b"

definition Buffer_make_space :: "size_t \<Rightarrow> net_buffer \<Rightarrow> net_buffer res" where
  "Buffer_make_space len b =
     (if Buffer_writable_bytes b + Buffer_prependable_bytes b < len + kCheapPrepend
      then bindE (vector_resize (nb_writer b + len) (nb_buffer b)) (\<lambda>v. Inr (b\<lparr>nb_buffer := v\<rparr>))
      else bindE (assertE (kCheapPrepend < nb_reader b)) (\<lambda>_.
             let readable = Buffer_readable_bytes b
             in bindE (read_range (nb_buffer b) (unat (nb_reader b))
                        (unat (nb_writer b) - unat (nb_reader b))) (\<lambda>xs.
                bindE (write_range (nb_buffer b) (unat kCheapPrepend) xs) (\<lambda>v.
                  let b' = b\<lparr>nb_buffer := v, nb_reader := kCheapPrepend,
                             nb_writer := kCheapPrepend + readable\<rparr>
                  in bindE (assertE (readable = Buffer_readable_bytes b')) (\<lambda>_. Inr b')))))"

definition Buffer_ensure_writable_bytes :: "size_t \<Rightarrow> net_buffer \<Rightarrow> net_buffer res" where
  "Buffer_ensure_writable_bytes len b =
     bindE (if Buffer_writable_bytes b < len then Buffer_make_space len b else Inr b) (\<lambda>b'.
     bindE (assertE (len \<le> Buffer_writable_bytes b')) (\<lambda>_. Inr b'))"

text \<open>The argument is the memory \<open>data\<close> points to; its length is \<open>len\<close>.\<close>

definition Buffer_append :: "byte list \<Rightarrow> net_buffer \<Rightarrow> net_buffer res" where
  "Buffer_append data b =
     (let len = of_nat (length data)
      in bindE (Buffer_ensure_writable_bytes len b) (\<lambda>b1.
         bindE (write_range (nb_buffer b1) (Buffer_begin_write b1) data) (\<lambda>v.
           Inr (b1\<lparr>nb_buffer := v, nb_writer := nb_writer b1 + len\<rparr>))))"

text \<open>What a \<open>readv\<close> or \<open>write\<close> system call returned: an error with its
  \<open>errno\<close>, or the bytes it transferred (for \<open>write\<close>, their number).\<close>

datatype 'r io_result = Io_error int | Io_ok 'r

text \<open>\<open>kExtraBuf\<close> is \<open>sizeof(extrabuf)\<close>.  The bytes read go to the free space of the
  vector first and to \<open>extrabuf\<close> after it.  Whatever the result, the readable bytes are
  finally copied into \<open>extrabuf\<close> and terminated there; \<open>array_write\<close> checks that such a
  write of \<open>n\<close> bytes stays inside the array.\<close>

definition kExtraBuf :: nat where "kExtraBuf = 65536"

definition array_write :: "nat \<Rightarrow> nat \<Rightarrow> nat \<Rightarrow> unit res" where
  "array_write cap i n = (if i + n \<le> cap then Inr () else Inl Out_of_bounds)"

definition Buffer_take_read :: "byte list io_result \<Rightarrow> net_buffer \<Rightarrow> (int \<times> net_buffer) res" where
  "Buffer_take_read r b =
     (case r of
        Io_error _ \<Rightarrow> Inr (- 1, b)
      | Io_ok bs \<Rightarrow>
          let writable = Buffer_writable_bytes b
          in bindE (write_range (nb_buffer b) (unat (nb_writer b)) (take (unat writable) bs)) (\<lambda>v.
               if of_nat (length bs) \<le> writable
               then Inr (int (length bs),
                         b\<lparr>nb_buffer := v, nb_writer := nb_writer b + of_nat (length bs)\<rparr>)
               else bindE (Buffer_append (drop (unat writable) bs)
                             (b\<lparr>nb_buffer := v, nb_writer := nb_writer b + writable\<rparr>)) (\<lambda>b2.
                      Inr (int (length bs), b2))))"

definition Buffer_copy_extrabuf :: "net_buffer \<Rightarrow> unit res" where
  "Buffer_copy_extrabuf b =
     bindE (read_range (nb_buffer b) (Buffer_peek b) (unat (Buffer_readable_bytes b))) (\<lambda>_.
     bindE (array_write kExtraBuf 0 (unat (Buffer_readable_bytes b))) (\<lambda>_.
       array_write kExtraBuf (unat (Buffer_readable_bytes b)) 1))"

definition Buffer_read_fd :: "byte list io_result \<Rightarrow> net_buffer \<Rightarrow> (int \<times> net_buffer) res" where
  "Buffer_read_fd r b =
     bindE (assertE (0 < Buffer_writable_bytes b)) (\<lambda>_.
     bindE (Buffer_take_read r b) (\<lambda>(n, b').
     bindE (Buffer_copy_extrabuf b') (\<lambda>_. Inr (n, b'))))"

definition Buffer_write_fd :: "nat io_result \<Rightarrow> net_buffer \<Rightarrow> (int \<times> net_buffer) res" where
  "Buffer_write_fd r b =
     (case r of Io_error _ \<Rightarrow> Inr (- 1, b)
      | Io_ok n \<Rightarrow> bindE (Buffer_retrieve (of_nat n) b) (\<lambda>b'. Inr (int n, b')))"

section \<open>Invariant and contents\<close>

definition nb_inv :: "net_buffer \<Rightarrow> bool" where
  "nb_inv b \<longleftrightarrow> 8 \<le> unat (nb_reader b) \<and> unat (nb_reader b) \<le> unat (nb_writer b) \<and>
     unat (nb_writer b) \<le> length (nb_buffer b) \<and> length (nb_buffer b) \<le> vector_max_size"

definition nb_contents :: "net_buffer \<Rightarrow> byte list" where
  "nb_contents b = take (unat (nb_writer b) - unat (nb_reader b)) (drop (unat (nb_reader b)) (nb_buffer b))"

lemma nb_invD:
  assumes "nb_inv b"
  shows "8 \<le> unat (nb_reader b)" and "unat (nb_reader b) \<le> unat (nb_writer b)"
    and "unat (nb_writer b) \<le> length (nb_buffer b)" and "length (nb_buffer b) \<le> vector_max_size"
  using assms by (simp_all add: nb_inv_def)

lemma nb_unat:
  assumes "nb_inv b"
  shows "unat (Buffer_readable_bytes b) = unat (nb_writer b) - unat (nb_reader b)"
    and "unat (Buffer_writable_bytes b) = length (nb_buffer b) - unat (nb_writer b)"
    and "length (nb_contents b) = unat (nb_writer b) - unat (nb_reader b)"
    and "length (nb_contents b) + 8 \<le> unat (nb_writer b)"
proof -
  have len: "unat (of_nat (length (nb_buffer b)) :: size_t) = length (nb_buffer b)"
    using assms by (simp add: nb_inv_def vector_max_size_def unat_of_nat)
  show "unat (Buffer_readable_bytes b) = unat (nb_writer b) - unat (nb_reader b)"
    using assms by (simp add: Buffer_readable_bytes_def nb_inv_def unat_sub word_le_nat_alt)
  show "unat (Buffer_writable_bytes b) = length (nb_buffer b) - unat (nb_writer b)"
    using assms len by (simp add: Buffer_writable_bytes_def nb_inv_def unat_sub word_le_nat_alt)
  show "length (nb_contents b) = unat (nb_writer b) - unat (nb_reader b)"
    using nb_invD [OF assms] by (simp add: nb_contents_def)
  then show "length (nb_contents b) + 8 \<le> unat (nb_writer b)"
    using nb_invD [OF assms] by simp
qed

lemma unat_readable: "nb_inv b \<Longrightarrow> unat (Buffer_readable_bytes b) = length (nb_contents b)"
  by (simp add: nb_unat)

lemma unat_kCheapPrepend [simp]: "unat kCheapPrepend = 8"
  by (simp add: kCheapPrepend_def)

lemma of_nat_inj_size_t:
  "n \<le> vector_max_size \<Longrightarrow> unat (of_nat n :: size_t) = n"
  by (simp add: vector_max_size_def unat_of_nat)

lemma unat_add_small:
  "unat (a :: size_t) + unat b \<le> vector_max_size \<Longrightarrow> unat (a + b) = unat a + unat b"
  by (simp add: vector_max_size_def unat_word_ariths)

lemma Buffer_new_ok:
  assumes "unat n + 8 \<le> vector_max_size"
  shows "\<exists>b. Buffer_new n = Inr b \<and> nb_inv b \<and> nb_contents b = [] \<and>
             length (nb_buffer b) = 8 + unat n"
proof -
  have u: "unat (kCheapPrepend + n) = 8 + unat n"
    using assms unat_add_small [of kCheapPrepend n] by simp
  then have "of_nat (8 + unat n) = kCheapPrepend + n"
    by (metis of_nat_unat ucast_id)
  with assms u show ?thesis
    by (auto simp: Buffer_new_def vector_resize_def Buffer_readable_bytes_def Buffer_writable_bytes_def
        Buffer_prependable_bytes_def Let_def nb_inv_def nb_contents_def)
qed

section \<open>Taking bytes out\<close>

lemma Buffer_retrieve_ok:
  assumes inv: "nb_inv b" and len: "unat len \<le> length (nb_contents b)"
  shows "\<exists>b'. Buffer_retrieve len b = Inr b' \<and> nb_inv b' \<and>
    nb_contents b' = drop (unat len) (nb_contents b) \<and> nb_buffer b' = nb_buffer b \<and>
    unat (nb_writer b') \<le> unat (nb_writer b)"
proof (cases "unat len < length (nb_contents b)")
  case True
  then have lt: "len < Buffer_readable_bytes b" using unat_readable [OF inv] by (simp add: word_less_nat_alt)
  have "unat (nb_reader b) + unat len \<le> vector_max_size"
    using True nb_unat(3) [OF inv] nb_invD [OF inv] by linarith
  then have "unat (nb_reader b + len) = unat (nb_reader b) + unat len" by (rule unat_add_small)
  with lt True nb_unat(3) [OF inv] inv show ?thesis
    by (auto simp: Buffer_retrieve_def nb_inv_def nb_contents_def drop_take add.commute)
next
  case False
  with len have e: "unat len = length (nb_contents b)" by simp
  then have "len = Buffer_readable_bytes b" using unat_readable [OF inv] by (simp add: word_unat_eq_iff)
  with inv e show ?thesis
    by (auto simp: Buffer_retrieve_def Buffer_retrieve_all_def nb_inv_def)
      (simp add: nb_contents_def)
qed

lemma Buffer_retrieve_error:
  assumes "nb_inv b" and "length (nb_contents b) < unat len"
  shows "Buffer_retrieve len b = Inl Assertion_failed"
  using assms by (simp add: Buffer_retrieve_def word_le_nat_alt unat_readable)

lemma Buffer_retrieve_as_string_ok:
  assumes inv: "nb_inv b" and len: "unat len \<le> length (nb_contents b)"
  shows "\<exists>b'. Buffer_retrieve_as_string len b = Inr (take (unat len) (nb_contents b), b') \<and>
    nb_inv b' \<and> nb_contents b' = drop (unat len) (nb_contents b) \<and> nb_buffer b' = nb_buffer b \<and>
    unat (nb_writer b') \<le> unat (nb_writer b)"
proof -
  have le: "len \<le> Buffer_readable_bytes b"
    using len unat_readable [OF inv] by (simp add: word_le_nat_alt)
  have "read_range (nb_buffer b) (Buffer_peek b) (unat len) = Inr (take (unat len) (nb_contents b))"
    using len nb_unat(3) [OF inv] nb_invD [OF inv]
    by (auto simp: read_range_def Buffer_peek_def nb_contents_def)
  with le Buffer_retrieve_ok [OF assms] show ?thesis by (auto simp: Buffer_retrieve_as_string_def)
qed

section \<open>Putting bytes in\<close>

text \<open>\<open>make_space\<close>: the vector grows only when the free space before and after the
  contents does not suffice.\<close>

lemma Buffer_make_space_grow:
  assumes inv: "nb_inv b" and max: "unat (nb_writer b) + unat len \<le> vector_max_size"
    and tight: "length (nb_buffer b) < 8 + length (nb_contents b) + unat len"
    and short: "length (nb_buffer b) < unat (nb_writer b) + unat len"
  shows "\<exists>b'. Buffer_make_space len b = Inr b' \<and> nb_inv b' \<and> nb_contents b' = nb_contents b \<and>
    length (nb_buffer b') = unat (nb_writer b') + unat len \<and> nb_writer b' = nb_writer b"
proof -
  have "unat (Buffer_writable_bytes b + Buffer_prependable_bytes b) =
        length (nb_buffer b) - unat (nb_writer b) + unat (nb_reader b)"
    using nb_invD [OF inv] nb_unat(2) [OF inv] unat_add_small [of "Buffer_writable_bytes b" "nb_reader b"]
    by (simp add: Buffer_prependable_bytes_def)
  moreover have "unat (len + kCheapPrepend) = unat len + 8"
    using max nb_invD [OF inv] unat_add_small [of len kCheapPrepend] by simp
  ultimately have grow: "Buffer_writable_bytes b + Buffer_prependable_bytes b < len + kCheapPrepend"
    using tight nb_invD [OF inv] nb_unat(3) [OF inv] by (simp add: word_less_nat_alt)
  have w: "unat (nb_writer b + len) = unat (nb_writer b) + unat len"
    using max by (rule unat_add_small)
  let ?v = "resize_list 0 (unat (nb_writer b) + unat len) (nb_buffer b)"
  have "take (unat (nb_writer b)) ?v = take (unat (nb_writer b)) (nb_buffer b)"
    using inv by (intro take_resize_list) (simp_all add: nb_inv_def)
  then have "nb_contents (b\<lparr>nb_buffer := ?v\<rparr>) = nb_contents b"
    by (simp add: nb_contents_def flip: drop_take)
  moreover have "nb_inv (b\<lparr>nb_buffer := ?v\<rparr>)" using inv max by (simp add: nb_inv_def)
  ultimately show ?thesis
    using grow w max by (simp add: Buffer_make_space_def vector_resize_def)
qed

lemma Buffer_make_space_compact:
  assumes inv: "nb_inv b"
    and loose: "8 + length (nb_contents b) + unat len \<le> length (nb_buffer b)"
    and short: "length (nb_buffer b) < unat (nb_writer b) + unat len"
  shows "\<exists>b'. Buffer_make_space len b = Inr b' \<and> nb_inv b' \<and> nb_contents b' = nb_contents b \<and>
    length (nb_buffer b') = length (nb_buffer b) \<and>
    unat (nb_writer b') = 8 + length (nb_contents b)"
proof -
  let ?c = "nb_contents b" and ?v = "nb_buffer b"
  note D = nb_invD [OF inv] and U = nb_unat [OF inv]
  have "unat (Buffer_writable_bytes b + Buffer_prependable_bytes b) =
        length ?v - unat (nb_writer b) + unat (nb_reader b)"
    using D U(2) unat_add_small [of "Buffer_writable_bytes b" "nb_reader b"]
    by (simp add: Buffer_prependable_bytes_def)
  moreover have "unat (len + kCheapPrepend) = unat len + 8"
    using loose D unat_add_small [of len kCheapPrepend] by simp
  ultimately have room: "\<not> Buffer_writable_bytes b + Buffer_prependable_bytes b < len + kCheapPrepend"
    using loose U(3) D by (simp add: word_less_nat_alt)
  have pre: "kCheapPrepend < nb_reader b"
    using loose short U(3) D by (simp add: word_less_nat_alt)
  have rd: "read_range ?v (unat (nb_reader b)) (unat (nb_writer b) - unat (nb_reader b)) = Inr ?c"
    using D by (simp add: read_range_def nb_contents_def)
  have wr: "write_range ?v 8 ?c = Inr (take 8 ?v @ ?c @ drop (8 + length ?c) ?v)"
    using loose by (simp add: write_range_def)
  have w: "unat (kCheapPrepend + Buffer_readable_bytes b) = 8 + length ?c"
    using unat_add_small [of kCheapPrepend "Buffer_readable_bytes b"] loose D unat_readable [OF inv] by simp
  let ?b' = "b\<lparr>nb_buffer := take 8 ?v @ ?c @ drop (8 + length ?c) ?v, nb_reader := kCheapPrepend,
               nb_writer := kCheapPrepend + Buffer_readable_bytes b\<rparr>"
  have "nb_inv ?b'" using w loose D by (auto simp: nb_inv_def)
  moreover have "nb_contents ?b' = ?c" using w loose by (simp add: nb_contents_def [of "?b'"])
  moreover have "Buffer_readable_bytes b = Buffer_readable_bytes ?b'"
    by (simp add: Buffer_readable_bytes_def)
  then have "Buffer_make_space len b = Inr ?b'"
    using room pre rd wr by (simp add: Buffer_make_space_def Let_def)
  ultimately show ?thesis using w loose by simp
qed

lemma Buffer_ensure_ok:
  assumes inv: "nb_inv b" and max: "unat (nb_writer b) + unat len \<le> vector_max_size"
  shows "\<exists>b'. Buffer_ensure_writable_bytes len b = Inr b' \<and> nb_inv b' \<and>
    nb_contents b' = nb_contents b \<and> unat (nb_writer b') + unat len \<le> length (nb_buffer b') \<and>
    unat (nb_writer b') \<le> unat (nb_writer b) \<and>
    (8 + length (nb_contents b) + unat len \<le> length (nb_buffer b) \<longrightarrow>
       length (nb_buffer b') = length (nb_buffer b))"
proof (cases "unat (nb_writer b) + unat len \<le> length (nb_buffer b)")
  case True
  then have "\<not> Buffer_writable_bytes b < len" using nb_unat(2) [OF inv] by (simp add: word_less_nat_alt)
  with True inv show ?thesis
    by (auto simp: Buffer_ensure_writable_bytes_def not_less)
next
  case False
  then have short: "Buffer_writable_bytes b < len"
    using nb_unat(2) [OF inv] nb_invD(3) [OF inv] by (simp add: word_less_nat_alt)
  obtain b' where b': "Buffer_make_space len b = Inr b'" "nb_inv b'" "nb_contents b' = nb_contents b"
    "unat (nb_writer b') + unat len \<le> length (nb_buffer b')" "unat (nb_writer b') \<le> unat (nb_writer b)"
    "8 + length (nb_contents b) + unat len \<le> length (nb_buffer b) \<longrightarrow> length (nb_buffer b') = length (nb_buffer b)"
    using Buffer_make_space_grow [OF inv max] Buffer_make_space_compact [OF inv, of len] False
      nb_unat(3,4) [OF inv]
    by (cases "8 + length (nb_contents b) + unat len \<le> length (nb_buffer b)") (fastforce simp: not_le)+
  then have "len \<le> Buffer_writable_bytes b'" using nb_unat(2) [of b'] by (simp add: word_le_nat_alt)
  with short b' show ?thesis by (auto simp: Buffer_ensure_writable_bytes_def)
qed

lemma Buffer_write_at_end:
  assumes inv: "nb_inv b" and fits: "unat (nb_writer b) + length xs \<le> length (nb_buffer b)"
  shows "\<exists>v. write_range (nb_buffer b) (unat (nb_writer b)) xs = Inr v \<and> length v = length (nb_buffer b) \<and>
    (let b' = b\<lparr>nb_buffer := v, nb_writer := nb_writer b + of_nat (length xs)\<rparr>
     in nb_inv b' \<and> nb_contents b' = nb_contents b @ xs \<and>
        unat (nb_writer b') = unat (nb_writer b) + length xs)"
proof -
  note D = nb_invD [OF inv]
  have "unat (of_nat (length xs) :: size_t) = length xs"
    using fits D by (intro of_nat_inj_size_t) linarith
  with unat_add_small [of "nb_writer b" "of_nat (length xs)"] fits D
  have w: "unat (nb_writer b + of_nat (length xs)) = unat (nb_writer b) + length xs" by simp
  let ?v = "take (unat (nb_writer b)) (nb_buffer b) @ xs @ drop (unat (nb_writer b) + length xs) (nb_buffer b)"
  have "take (unat (nb_writer b) + length xs - unat (nb_reader b)) (drop (unat (nb_reader b)) ?v) =
        nb_contents b @ xs"
    using take_drop_append_write [OF D(2), of xs "nb_buffer b"] fits D by (simp add: nb_contents_def)
  with w fits D show ?thesis
    by (auto simp: write_range_def nb_inv_def nb_contents_def Let_def)
qed

lemma Buffer_append_ok:
  assumes inv: "nb_inv b" and max: "unat (nb_writer b) + length data \<le> vector_max_size"
  shows "\<exists>b'. Buffer_append data b = Inr b' \<and> nb_inv b' \<and> nb_contents b' = nb_contents b @ data \<and>
    unat (nb_writer b') \<le> unat (nb_writer b) + length data \<and>
    (8 + length (nb_contents b) + length data \<le> length (nb_buffer b) \<longrightarrow>
       length (nb_buffer b') = length (nb_buffer b))"
proof -
  have len: "unat (of_nat (length data) :: size_t) = length data"
    using max by (intro of_nat_inj_size_t) simp
  with max have "unat (nb_writer b) + unat (of_nat (length data) :: size_t) \<le> vector_max_size" by simp
  from Buffer_ensure_ok [OF inv this] len obtain b1 where b1:
    "Buffer_ensure_writable_bytes (of_nat (length data)) b = Inr b1" "nb_inv b1"
    "nb_contents b1 = nb_contents b" "unat (nb_writer b1) + length data \<le> length (nb_buffer b1)"
    "unat (nb_writer b1) \<le> unat (nb_writer b)"
    "8 + length (nb_contents b) + length data \<le> length (nb_buffer b) \<longrightarrow>
       length (nb_buffer b1) = length (nb_buffer b)"
    by auto
  from Buffer_write_at_end [OF b1(2,4)] b1 show ?thesis
    by (auto simp: Buffer_append_def Buffer_begin_write_def Let_def)
qed

section \<open>The contract of a byte queue\<close>

datatype queue_op = Op_append "byte list" | Op_retrieve nat

text \<open>A sequence of appends and of retrievals, with the bytes retrieved.\<close>

fun run_ops :: "(byte list \<Rightarrow> 'b \<Rightarrow> 'b res) \<Rightarrow> (size_t \<Rightarrow> 'b \<Rightarrow> (byte list \<times> 'b) res) \<Rightarrow>
    queue_op list \<Rightarrow> 'b \<Rightarrow> (byte list \<times> 'b) res" where
  "run_ops put retr [] b = Inr ([], b)"
| "run_ops put retr (Op_append xs # ops) b = bindE (put xs b) (run_ops put retr ops)"
| "run_ops put retr (Op_retrieve n # ops) b =
     bindE (retr (of_nat n) b) (\<lambda>(out, b'). bindE (run_ops put retr ops b') (\<lambda>(outs, b'').
       Inr (out @ outs, b'')))"

fun appended :: "queue_op list \<Rightarrow> byte list" where
  "appended [] = []"
| "appended (Op_append xs # ops) = xs @ appended ops"
| "appended (Op_retrieve n # ops) = appended ops"

text \<open>Each retrieval asks for no more than there is: \<open>k\<close> is the number of bytes held.\<close>

fun ops_ok :: "nat \<Rightarrow> queue_op list \<Rightarrow> bool" where
  "ops_ok k [] \<longleftrightarrow> True"
| "ops_ok k (Op_append xs # ops) \<longleftrightarrow> ops_ok (k + length xs) ops"
| "ops_ok k (Op_retrieve n # ops) \<longleftrightarrow> n \<le> k \<and> ops_ok (k - n) ops"

text \<open>\<open>room b\<close> is how many more bytes can be appended to \<open>b\<close>, ever.\<close>

locale byte_queue =
  fixes put :: "byte list \<Rightarrow> 'b \<Rightarrow> 'b res"
    and retr :: "size_t \<Rightarrow> 'b \<Rightarrow> (byte list \<times> 'b) res"
    and contents :: "'b \<Rightarrow> byte list"
    and room :: "'b \<Rightarrow> nat"
    and invar :: "'b \<Rightarrow> bool"
  assumes bounded: "invar b \<Longrightarrow> length (contents b) < 2 ^ 64"
    and put_ok: "invar b \<Longrightarrow> length xs \<le> room b \<Longrightarrow>
      \<exists>b'. put xs b = Inr b' \<and> invar b' \<and> contents b' = contents b @ xs \<and>
           room b \<le> room b' + length xs"
    and retr_ok: "invar b \<Longrightarrow> unat n \<le> length (contents b) \<Longrightarrow>
      \<exists>b'. retr n b = Inr (take (unat n) (contents b), b') \<and> invar b' \<and>
           contents b' = drop (unat n) (contents b) \<and> room b \<le> room b'"
begin

lemma run_ops_fifo:
  "invar b \<Longrightarrow> length (appended ops) \<le> room b \<Longrightarrow> ops_ok (length (contents b)) ops \<Longrightarrow>
   \<exists>out b'. run_ops put retr ops b = Inr (out, b') \<and> invar b' \<and>
     out @ contents b' = contents b @ appended ops"
proof (induction ops arbitrary: b rule: appended.induct)
  case 1
  then show ?case by simp
next
  case (2 xs ops)
  then obtain b1 where b1: "put xs b = Inr b1" "invar b1" "contents b1 = contents b @ xs"
    "room b \<le> room b1 + length xs"
    using put_ok [of b xs] by auto
  from 2 b1 have "length (appended ops) \<le> room b1" "ops_ok (length (contents b1)) ops" by simp_all
  from 2(1) [OF b1(2) this] b1 show ?case by auto
next
  case (3 n ops)
  then have n: "n \<le> length (contents b)" by simp
  then have u: "unat (of_nat n :: size_t) = n" using bounded [OF 3(2)] by (intro unat_of_nat_size_t) simp
  with 3 n obtain b1 where b1: "retr (of_nat n) b = Inr (take n (contents b), b1)" "invar b1"
    "contents b1 = drop n (contents b)" "room b \<le> room b1"
    using retr_ok [of b "of_nat n"] by auto
  from 3 b1 have "length (appended ops) \<le> room b1" "ops_ok (length (contents b1)) ops" by simp_all
  from 3(1) [OF b1(2) this] b1 show ?case by fastforce
qed

end

definition Buffer_room :: "net_buffer \<Rightarrow> nat" where
  "Buffer_room b = vector_max_size - unat (nb_writer b)"

interpretation net_queue: byte_queue Buffer_append Buffer_retrieve_as_string nb_contents Buffer_room nb_inv
proof (unfold_locales, goal_cases)
  case (1 b)
  with nb_unat(3) [OF 1] nb_invD [OF 1] show ?case by (simp add: vector_max_size_def)
next
  case (2 b xs)
  with nb_invD [OF 2(1)] have "unat (nb_writer b) + length xs \<le> vector_max_size"
    by (simp add: Buffer_room_def)
  from Buffer_append_ok [OF 2(1) this] show ?case by (auto simp: Buffer_room_def)
next
  case (3 b n)
  from Buffer_retrieve_as_string_ok [OF this] show ?case by (auto simp: Buffer_room_def)
qed

section \<open>Reading from and writing to a descriptor\<close>

text \<open>The tail of \<open>read_fd\<close>: a copy of the readable bytes into \<open>extrabuf\<close>.\<close>

lemma extrabuf_copy:
  assumes "nb_inv b"
  shows "Buffer_copy_extrabuf b =
         (if length (nb_contents b) < kExtraBuf then Inr () else Inl Out_of_bounds)"
  using nb_invD [OF assms] nb_unat [OF assms]
  by (auto simp: Buffer_copy_extrabuf_def read_range_def Buffer_peek_def array_write_def)

lemma Buffer_take_read_ok:
  assumes inv: "nb_inv b" and max: "unat (nb_writer b) + length bs \<le> vector_max_size"
  shows "\<exists>b'. Buffer_take_read (Io_ok bs) b = Inr (int (length bs), b') \<and>
    nb_inv b' \<and> nb_contents b' = nb_contents b @ bs"
proof -
  let ?w = "unat (Buffer_writable_bytes b)"
  note D = nb_invD [OF inv] and U = nb_unat [OF inv]
  have len: "unat (of_nat (length bs) :: size_t) = length bs"
    using max by (intro of_nat_inj_size_t) simp
  have fits: "unat (nb_writer b) + length (take ?w bs) \<le> length (nb_buffer b)"
    using D U(2) by simp
  obtain v where v: "write_range (nb_buffer b) (unat (nb_writer b)) (take ?w bs) = Inr v"
    and b1: "nb_inv (b\<lparr>nb_buffer := v, nb_writer := nb_writer b + of_nat (length (take ?w bs))\<rparr>)"
    "nb_contents (b\<lparr>nb_buffer := v, nb_writer := nb_writer b + of_nat (length (take ?w bs))\<rparr>) =
       nb_contents b @ take ?w bs"
    "unat (nb_writer b + of_nat (length (take ?w bs))) = unat (nb_writer b) + length (take ?w bs)"
    using Buffer_write_at_end [OF inv fits] by (auto simp: Let_def)
  show ?thesis
  proof (cases "length bs \<le> ?w")
    case True
    then have "of_nat (length bs) \<le> Buffer_writable_bytes b" using len by (simp add: word_le_nat_alt)
    with True v b1 show ?thesis by (simp add: Buffer_take_read_def)
  next
    case False
    then have big: "\<not> of_nat (length bs) \<le> Buffer_writable_bytes b" using len by (simp add: word_le_nat_alt)
    have tk: "of_nat (length (take ?w bs)) = Buffer_writable_bytes b" using False by (simp add: min_def)
    let ?b1 = "b\<lparr>nb_buffer := v, nb_writer := nb_writer b + Buffer_writable_bytes b\<rparr>"
    have "unat (nb_writer ?b1) + length (drop ?w bs) \<le> vector_max_size"
      using max False b1(3) tk by simp
    with Buffer_append_ok [of ?b1 "drop ?w bs"] b1 tk obtain b2 where
      "Buffer_append (drop ?w bs) ?b1 = Inr b2" "nb_inv b2" "nb_contents b2 = nb_contents b @ bs"
      by auto
    with v big show ?thesis by (simp add: Buffer_take_read_def)
  qed
qed

section \<open>Properties\<close>

text \<open>
  C10. Over any sequence of appends and retrievals that never asks for more than is there and
  stays below the maximal size of a vector, every operation succeeds and the bytes retrieved
  followed by the bytes still held are the bytes held at first followed by the bytes appended:
  nothing is lost, duplicated or reordered by growing or compacting the vector.
\<close>

theorem Buffer_fifo:
  assumes "nb_inv b" and "unat (nb_writer b) + length (appended ops) \<le> vector_max_size"
    and "ops_ok (length (nb_contents b)) ops"
  shows "\<exists>out b'. run_ops Buffer_append Buffer_retrieve_as_string ops b = Inr (out, b') \<and>
     nb_inv b' \<and> out @ nb_contents b' = nb_contents b @ appended ops"
  using net_queue.run_ops_fifo [OF assms(1) _ assms(3)] assms(2) by (simp add: Buffer_room_def)

definition small_buffer :: net_buffer where
  "small_buffer = \<lparr>nb_buffer = replicate 12 0, nb_reader = 8, nb_writer = 8\<rparr>"

lemma small_buffer_inv: "nb_inv small_buffer" "nb_contents small_buffer = []"
  by (simp_all add: small_buffer_def nb_inv_def nb_contents_def vector_max_size_def)

theorem Buffer_fifo_witness:
  "\<exists>out b'. run_ops Buffer_append Buffer_retrieve_as_string
      [Op_append [1, 2, 3, 4], Op_retrieve 3, Op_append [5, 6]] small_buffer = Inr (out, b') \<and>
     out @ nb_contents b' = [1, 2, 3, 4, 5, 6]"
  using Buffer_fifo [OF small_buffer_inv(1), of "[Op_append [1, 2, 3, 4], Op_retrieve 3, Op_append [5, 6]]"]
  by (auto simp: small_buffer_inv) (auto simp: small_buffer_def vector_max_size_def)

text \<open>
  An append never fails (in particular neither the assertion that the contents can be moved
  to the front nor the check of the space after it does), adds the bytes at the end, and moves
  the contents to the front instead of growing the vector whenever the free space on both
  sides suffices.
\<close>

theorem Buffer_append_spec:
  assumes "nb_inv b" and "unat (nb_writer b) + length data \<le> vector_max_size"
  shows "\<exists>b'. Buffer_append data b = Inr b' \<and> nb_inv b' \<and> nb_contents b' = nb_contents b @ data \<and>
    (length (nb_contents b) + length data + 8 \<le> length (nb_buffer b) \<longrightarrow>
       length (nb_buffer b') = length (nb_buffer b))"
  using Buffer_append_ok [OF assms] by (auto simp: add.commute)

theorem Buffer_append_spec_witness:
  "\<exists>b'. Buffer_append [1, 2, 3] small_buffer = Inr b' \<and> nb_contents b' = [1, 2, 3] \<and>
        length (nb_buffer b') = 12"
proof -
  have "unat (nb_writer small_buffer) + length [1, 2, 3 :: byte] \<le> vector_max_size"
    by (simp add: small_buffer_def vector_max_size_def)
  from Buffer_append_spec [OF small_buffer_inv(1) this] show ?thesis
    by (auto simp: small_buffer_inv) (auto simp: small_buffer_def)
qed

text \<open>
  C30. \<open>read_fd\<close> on every branch.  With no free byte behind the contents it fails its
  assertion; when the readable bytes after the read would be 65536 or more, the copy it makes
  of them overruns its 65536-byte array; otherwise the bytes read are at the end of the
  contents and their number is returned, and a failed read changes nothing.
\<close>

theorem Buffer_read_fd_spec:
  assumes inv: "nb_inv b" and max: "unat (nb_writer b) + length bs \<le> vector_max_size"
  shows "if unat (nb_writer b) = length (nb_buffer b)
         then Buffer_read_fd (Io_ok bs) b = Inl Assertion_failed \<and>
              Buffer_read_fd (Io_error e) b = Inl Assertion_failed
         else (if length (nb_contents b) + length bs < 65536
               then \<exists>b'. Buffer_read_fd (Io_ok bs) b = Inr (int (length bs), b') \<and> nb_inv b' \<and>
                      nb_contents b' = nb_contents b @ bs
               else Buffer_read_fd (Io_ok bs) b = Inl Out_of_bounds) \<and>
              Buffer_read_fd (Io_error e) b =
                (if length (nb_contents b) < 65536 then Inr (- 1, b) else Inl Out_of_bounds)"
proof (cases "unat (nb_writer b) = length (nb_buffer b)")
  case True
  with nb_unat(2) [OF inv] have "\<not> 0 < Buffer_writable_bytes b" by (simp add: word_less_nat_alt)
  with True show ?thesis by (simp add: Buffer_read_fd_def Let_def)
next
  case False
  with nb_unat(2) [OF inv] nb_invD(3) [OF inv] have w: "0 < Buffer_writable_bytes b"
    by (simp add: word_less_nat_alt)
  obtain b' where b': "Buffer_take_read (Io_ok bs) b = Inr (int (length bs), b')"
    "nb_inv b'" "nb_contents b' = nb_contents b @ bs"
    using Buffer_take_read_ok [OF assms] by blast
  have err: "Buffer_take_read (Io_error e) b = Inr (- 1, b)" by (simp add: Buffer_take_read_def)
  from False w b' err extrabuf_copy [OF b'(2)] extrabuf_copy [OF inv] show ?thesis
    by (simp add: Buffer_read_fd_def kExtraBuf_def)
qed

theorem Buffer_read_fd_spec_witness:
  "\<exists>b'. Buffer_read_fd (Io_ok [1, 2, 3, 4, 5, 6]) small_buffer = Inr (6, b') \<and>
        nb_contents b' = [1, 2, 3, 4, 5, 6]"
proof -
  have "unat (nb_writer small_buffer) + length [1, 2, 3, 4, 5, 6 :: byte] \<le> vector_max_size"
    by (simp add: small_buffer_def vector_max_size_def)
  note spec = Buffer_read_fd_spec [OF small_buffer_inv(1) this, of 0]
  have "unat (nb_writer small_buffer) \<noteq> length (nb_buffer small_buffer)"
    by (simp add: small_buffer_def)
  with spec show ?thesis by (auto simp: small_buffer_inv)
qed

text \<open>
  C40. A buffer that was moved from has no storage, while its indices say that eight bytes are
  taken: the number of writable bytes wraps around to \<open>2 ^ 64 - 8\<close>, no space is made, and
  any append of at least one byte writes outside the storage.
\<close>

theorem Buffer_moved_from:
  assumes "data \<noteq> []" and "length data \<le> 2 ^ 64 - 8"
  shows "unat (Buffer_writable_bytes (snd (Buffer_move b))) = 2 ^ 64 - 8 \<and>
         Buffer_append data (snd (Buffer_move b)) = Inl Out_of_bounds"
proof -
  let ?m = "snd (Buffer_move b)"
  have w: "Buffer_writable_bytes ?m = - 8"
    by (simp add: Buffer_writable_bytes_def Buffer_move_def kCheapPrepend_def)
  have "unat (of_nat (length data) :: size_t) = length data"
    using assms(2) by (intro unat_of_nat_size_t) simp
  moreover have "unat (- 8 :: size_t) = 2 ^ 64 - 8" by simp
  ultimately have le: "of_nat (length data) \<le> (- 8 :: size_t)"
    using assms(2) by (simp add: word_le_nat_alt)
  then have "\<not> (- 8 :: size_t) < of_nat (length data)" by (simp add: not_less)
  with w le assms(1) show ?thesis
    by (simp add: Buffer_append_def Buffer_ensure_writable_bytes_def Buffer_begin_write_def
        write_range_def Let_def) (simp add: Buffer_move_def)
qed

theorem Buffer_moved_from_witness: "Buffer_append [1] (snd (Buffer_move small_buffer)) = Inl Out_of_bounds"
  using Buffer_moved_from [of "[1]" small_buffer] by simp

section \<open>Every operation on every branch\<close>

text \<open>No request of at most the maximal size of a vector goes wrong: there is room afterwards, or the
  vector cannot grow that far.\<close>

lemma Buffer_make_space_refused:
  assumes inv: "nb_inv b" and len: "unat len \<le> vector_max_size" and over: "vector_max_size < unat (nb_writer b) + unat len"
    and tight: "length (nb_buffer b) < 8 + length (nb_contents b) + unat len"
  shows "Buffer_make_space len b = Inl Length_error"
proof -
  note D = nb_invD [OF inv] and U = nb_unat [OF inv]
  have "unat (Buffer_writable_bytes b + Buffer_prependable_bytes b) =
        length (nb_buffer b) - unat (nb_writer b) + unat (nb_reader b)"
    using D U(2) unat_add_small [of "Buffer_writable_bytes b" "nb_reader b"] by (simp add: Buffer_prependable_bytes_def)
  moreover have "unat (len + kCheapPrepend) = unat len + 8"
    using len by (simp add: vector_max_size_def unat_word_ariths)
  ultimately have "Buffer_writable_bytes b + Buffer_prependable_bytes b < len + kCheapPrepend"
    using tight D U(3) by (simp add: word_less_nat_alt)
  moreover have "unat (nb_writer b + len) = unat (nb_writer b) + unat len"
    using D(3,4) len by (simp add: vector_max_size_def unat_word_ariths)
  ultimately show ?thesis using over by (simp add: Buffer_make_space_def vector_resize_def)
qed

lemma Buffer_ensure_total:
  assumes inv: "nb_inv b" and len: "unat len \<le> vector_max_size"
  shows "(\<exists>b'. Buffer_ensure_writable_bytes len b = Inr b' \<and> nb_inv b' \<and> unat (nb_writer b') + unat len \<le> length (nb_buffer b')) \<or>
    Buffer_ensure_writable_bytes len b = Inl Length_error"
proof (cases "unat (nb_writer b) + unat len \<le> vector_max_size")
  case True
  from Buffer_ensure_ok [OF inv this] show ?thesis by blast
next
  case False
  then have over: "length (nb_buffer b) < unat (nb_writer b) + unat len" using nb_invD(4) [OF inv] by linarith
  then have short: "Buffer_writable_bytes b < len"
    using nb_unat(2) [OF inv] nb_invD(3) [OF inv] by (simp add: word_less_nat_alt)
  show ?thesis
  proof (cases "8 + length (nb_contents b) + unat len \<le> length (nb_buffer b)")
    case True
    from Buffer_make_space_compact [OF inv True over] obtain b' where
      b': "Buffer_make_space len b = Inr b'" "nb_inv b'" "unat (nb_writer b') + unat len \<le> length (nb_buffer b')" using True by auto
    then have "len \<le> Buffer_writable_bytes b'" using nb_unat(2) [of b'] by (simp add: word_le_nat_alt)
    with short b' show ?thesis by (auto simp: Buffer_ensure_writable_bytes_def)
  next
    case tight: False
    with False Buffer_make_space_refused [OF inv len] short show ?thesis by (simp add: Buffer_ensure_writable_bytes_def)
  qed
qed

text \<open>What an operation may come to: a well-formed buffer or one of the errors \<open>es\<close>.\<close>

definition well_formed_or :: "error set \<Rightarrow> net_buffer res \<Rightarrow> bool" where
  "well_formed_or es r \<longleftrightarrow> (case r of Inl e \<Rightarrow> e \<in> es | Inr b \<Rightarrow> nb_inv b)"

lemma well_formed_or_bind:
  "well_formed_or es r \<Longrightarrow> (\<And>b. nb_inv b \<Longrightarrow> well_formed_or es (f b)) \<Longrightarrow> well_formed_or es (bindE r f)"
  by (cases r) (simp_all add: well_formed_or_def)

lemma Buffer_append_total:
  assumes inv: "nb_inv b" and len: "length data \<le> vector_max_size"
  shows "well_formed_or {Length_error} (Buffer_append data b)"
proof -
  have u: "unat (of_nat (length data) :: size_t) = length data" using len by (rule of_nat_inj_size_t)
  from Buffer_ensure_total [OF inv, of "of_nat (length data)"] u len consider b1 where
    "Buffer_ensure_writable_bytes (of_nat (length data)) b = Inr b1" "nb_inv b1" "unat (nb_writer b1) + length data \<le> length (nb_buffer b1)"
    | "Buffer_ensure_writable_bytes (of_nat (length data)) b = Inl Length_error" by auto
  then show ?thesis
  proof cases
    case (1 b1)
    from Buffer_write_at_end [OF 1(2,3)] 1(1) show ?thesis
      by (auto simp: Buffer_append_def Buffer_begin_write_def well_formed_or_def Let_def)
  qed (simp add: Buffer_append_def well_formed_or_def Let_def)
qed

lemma Buffer_take_read_total:
  assumes inv: "nb_inv b" and len: "length bs \<le> vector_max_size"
  shows "well_formed_or {Length_error} (bindE (Buffer_take_read (Io_ok bs) b) (\<lambda>(n, b'). Inr b'))"
proof (cases "unat (nb_writer b) + length bs \<le> vector_max_size")
  case True
  from Buffer_take_read_ok [OF inv this] show ?thesis by (auto simp: well_formed_or_def)
next
  case False
  let ?w = "unat (Buffer_writable_bytes b)"
  note D = nb_invD [OF inv] and U = nb_unat [OF inv]
  have less: "?w < length bs" using False D U(2) by linarith
  have u: "unat (of_nat (length bs) :: size_t) = length bs" using len by (rule of_nat_inj_size_t)
  then have big: "\<not> of_nat (length bs) \<le> Buffer_writable_bytes b" using less by (simp add: word_le_nat_alt)
  have "unat (nb_writer b) + length (take ?w bs) \<le> length (nb_buffer b)" using D U(2) by simp
  from Buffer_write_at_end [OF inv this] less obtain v where
    v: "write_range (nb_buffer b) (unat (nb_writer b)) (take ?w bs) = Inr v"
    "nb_inv (b\<lparr>nb_buffer := v, nb_writer := nb_writer b + Buffer_writable_bytes b\<rparr>)"
    by (auto simp: Let_def min_def)
  have "well_formed_or {Length_error} (Buffer_append (drop ?w bs) (b\<lparr>nb_buffer := v, nb_writer := nb_writer b + Buffer_writable_bytes b\<rparr>))"
    using len by (intro Buffer_append_total [OF v(2)]) simp
  then show ?thesis using v(1) big
    by (cases "Buffer_append (drop ?w bs) (b\<lparr>nb_buffer := v, nb_writer := nb_writer b + Buffer_writable_bytes b\<rparr>)")
      (simp_all add: Buffer_take_read_def Let_def)
qed

datatype buffer_op = Append_op "byte list" | Ensure_op size_t | Retrieve_op size_t | Retrieve_string_op size_t | Retrieve_all_op
  | Read_op "byte list io_result" | Write_op "nat io_result" | Copy_op | Move_op

fun run_buffer_op :: "buffer_op \<Rightarrow> net_buffer \<Rightarrow> net_buffer res" where
  "run_buffer_op (Append_op bs) b = Buffer_append bs b"
| "run_buffer_op (Ensure_op n) b = Buffer_ensure_writable_bytes n b"
| "run_buffer_op (Retrieve_op n) b = Buffer_retrieve n b"
| "run_buffer_op (Retrieve_string_op n) b = bindE (Buffer_retrieve_as_string n b) (\<lambda>(bs, b'). Inr b')"
| "run_buffer_op Retrieve_all_op b = Inr (Buffer_retrieve_all b)"
| "run_buffer_op (Read_op r) b = bindE (Buffer_read_fd r b) (\<lambda>(n, b'). Inr b')"
| "run_buffer_op (Write_op r) b = bindE (Buffer_write_fd r b) (\<lambda>(n, b'). Inr b')"
| "run_buffer_op Copy_op b = Inr (Buffer_copy b)"
| "run_buffer_op Move_op b = Inr (fst (Buffer_move b))"

text \<open>Memory and transfers are at most as large as the largest vector.\<close>

fun op_size :: "buffer_op \<Rightarrow> nat" where
  "op_size (Append_op bs) = length bs"
| "op_size (Ensure_op n) = unat n"
| "op_size (Read_op (Io_ok bs)) = length bs"
| "op_size _ = 0"

fun reads :: "buffer_op \<Rightarrow> bool" where
  "reads (Read_op r) = True"
| "reads _ = False"

definition op_errors :: "bool \<Rightarrow> error set" where
  "op_errors rd = {Assertion_failed, Length_error} \<union> (if rd then {Out_of_bounds} else {})"

lemma well_formed_or_mono: "well_formed_or es r \<Longrightarrow> es \<subseteq> es' \<Longrightarrow> well_formed_or es' r"
  by (auto simp: well_formed_or_def split: sum.splits)

lemma Buffer_retrieve_total: "nb_inv b \<Longrightarrow> well_formed_or {Assertion_failed} (Buffer_retrieve n b)"
  using Buffer_retrieve_ok [of b n] Buffer_retrieve_error [of b n]
  by (cases "unat n \<le> length (nb_contents b)") (auto simp: well_formed_or_def)

lemma Buffer_retrieve_as_string_total:
  "nb_inv b \<Longrightarrow> well_formed_or {Assertion_failed} (bindE (Buffer_retrieve_as_string n b) (\<lambda>(bs, b'). Inr b'))"
  using Buffer_retrieve_as_string_ok [of b n] unat_readable [of b]
  by (cases "unat n \<le> length (nb_contents b)")
    (auto simp: well_formed_or_def Buffer_retrieve_as_string_def word_le_nat_alt)

lemma Buffer_read_fd_total:
  assumes inv: "nb_inv b" and len: "\<forall>bs. r = Io_ok bs \<longrightarrow> length bs \<le> vector_max_size"
  shows "well_formed_or (op_errors True) (bindE (Buffer_read_fd r b) (\<lambda>(n, b'). Inr b'))"
proof -
  have "well_formed_or {Length_error} (bindE (Buffer_take_read r b) (\<lambda>(n, b'). Inr b'))"
    using Buffer_take_read_total [OF inv] len inv by (cases r) (auto simp: Buffer_take_read_def well_formed_or_def)
  then show ?thesis
    by (cases "Buffer_take_read r b")
      (auto simp: well_formed_or_def Buffer_read_fd_def extrabuf_copy op_errors_def assertE_def split: if_splits)
qed

lemma run_buffer_op_total:
  assumes inv: "nb_inv b" and size: "op_size p \<le> vector_max_size"
  shows "well_formed_or (op_errors (reads p)) (run_buffer_op p b)"
proof (cases p)
  case (Append_op bs)
  then show ?thesis using Buffer_append_total [OF inv, of bs] size by (auto simp: op_errors_def elim: well_formed_or_mono)
next
  case (Ensure_op n)
  then show ?thesis using Buffer_ensure_total [OF inv, of n] size by (auto simp: op_errors_def well_formed_or_def)
next
  case (Retrieve_op n)
  then show ?thesis using Buffer_retrieve_total [OF inv, of n] by (auto simp: op_errors_def elim: well_formed_or_mono)
next
  case (Retrieve_string_op n)
  then show ?thesis using Buffer_retrieve_as_string_total [OF inv, of n] by (auto simp: op_errors_def elim: well_formed_or_mono)
next
  case (Read_op r)
  then show ?thesis using Buffer_read_fd_total [OF inv, of r] size by (cases r) (simp_all add: case_prod_unfold)
next
  case (Write_op r)
  have "well_formed_or {Assertion_failed} (bindE (Buffer_write_fd r b) (\<lambda>(n, b'). Inr b'))"
  proof (cases r)
    case (Io_ok k)
    with Buffer_retrieve_total [OF inv, of "of_nat k"] show ?thesis
      by (cases "Buffer_retrieve (of_nat k) b") (simp_all add: Buffer_write_fd_def)
  qed (simp add: Buffer_write_fd_def well_formed_or_def inv)
  then show ?thesis by (simp add: Write_op op_errors_def) (auto elim: well_formed_or_mono)
qed (use nb_invD [OF inv] in \<open>simp_all add: well_formed_or_def nb_inv_def Buffer_retrieve_all_def Buffer_copy_def Buffer_move_def\<close>)

fun run_buffer_ops :: "buffer_op list \<Rightarrow> net_buffer \<Rightarrow> net_buffer res" where
  "run_buffer_ops [] b = Inr b"
| "run_buffer_ops (p # ps) b = bindE (run_buffer_op p b) (run_buffer_ops ps)"

lemma Buffer_new_total: "unat n \<le> vector_max_size \<Longrightarrow> well_formed_or {Length_error} (Buffer_new n)"
proof (cases "unat n + 8 \<le> vector_max_size")
  case True
  then show ?thesis using Buffer_new_ok [of n] by (auto simp: well_formed_or_def)
next
  assume "unat n \<le> vector_max_size"
  then have "unat (kCheapPrepend + n) = 8 + unat n" by (simp add: vector_max_size_def unat_word_ariths)
  moreover case False
  ultimately show ?thesis by (simp add: Buffer_new_def vector_resize_def well_formed_or_def)
qed

lemma run_buffer_ops_total:
  "nb_inv b \<Longrightarrow> \<forall>p \<in> set ps. op_size p \<le> vector_max_size \<Longrightarrow> well_formed_or (op_errors (\<exists>p \<in> set ps. reads p)) (run_buffer_ops ps b)"
proof (induction ps arbitrary: b)
  case (Cons p ps)
  have "well_formed_or (op_errors (\<exists>p \<in> set (p # ps). reads p)) (run_buffer_op p b)"
    by (rule well_formed_or_mono [OF run_buffer_op_total [OF Cons.prems(1)]]) (use Cons.prems(2) in \<open>auto simp: op_errors_def\<close>)
  moreover have "well_formed_or (op_errors (\<exists>p \<in> set (p # ps). reads p)) (run_buffer_ops ps b')" if "nb_inv b'" for b'
    by (rule well_formed_or_mono [OF Cons.IH [OF that]]) (use Cons.prems(2) in \<open>auto simp: op_errors_def\<close>)
  ultimately show ?case by (simp only: run_buffer_ops.simps) (rule well_formed_or_bind)
qed (simp add: well_formed_or_def)

text \<open>
  C31. A buffer stays well-formed: whatever operations are called on a new buffer, with any sizes
  up to that of the largest vector, either one of them fails an assertion or finds the vector
  cannot grow, or the buffer has its indices in order inside its storage again.  No operation
  touches memory outside the vector; only \<open>read_fd\<close> may, in its scratch array.
\<close>

theorem Buffer_well_formed:
  assumes "unat n \<le> vector_max_size" and "\<forall>p \<in> set ps. op_size p \<le> vector_max_size"
  shows "case bindE (Buffer_new n) (run_buffer_ops ps) of
      Inr b \<Rightarrow> 8 \<le> unat (nb_reader b) \<and> nb_reader b \<le> nb_writer b \<and> unat (nb_writer b) \<le> length (nb_buffer b)
    | Inl e \<Rightarrow> e = Assertion_failed \<or> e = Length_error \<or> e = Out_of_bounds \<and> (\<exists>p \<in> set ps. reads p)"
proof -
  have "well_formed_or (op_errors (\<exists>p \<in> set ps. reads p)) (bindE (Buffer_new n) (run_buffer_ops ps))"
    by (rule well_formed_or_bind [OF well_formed_or_mono [OF Buffer_new_total [OF assms(1)]]])
      (use run_buffer_ops_total assms(2) in \<open>auto simp: op_errors_def\<close>)
  then show ?thesis
    by (auto simp: well_formed_or_def op_errors_def nb_inv_def word_le_nat_alt split: sum.splits if_splits)
qed

theorem Buffer_well_formed_witness:
  "case bindE (Buffer_new 4) (run_buffer_ops [Append_op [1, 2, 3, 4, 5], Retrieve_op 2, Copy_op, Move_op]) of
      Inr b \<Rightarrow> nb_reader b \<le> nb_writer b \<and> unat (nb_writer b) \<le> length (nb_buffer b) | Inl e \<Rightarrow> False"
proof -
  let ?ps = "[Append_op [1, 2, 3, 4, 5], Retrieve_op 2, Copy_op, Move_op]"
  obtain b where b: "Buffer_new 4 = Inr b" "nb_inv b" "nb_contents b = []" "length (nb_buffer b) = 12"
    using Buffer_new_ok [of 4] by (auto simp: vector_max_size_def)
  then have "unat (nb_writer b) + length [1, 2, 3, 4, 5 :: byte] \<le> vector_max_size"
    using nb_invD(3) [OF b(2)] by (simp add: vector_max_size_def)
  from Buffer_append_ok [OF b(2) this] b(3) obtain b1 where
    b1: "Buffer_append [1, 2, 3, 4, 5] b = Inr b1" "nb_inv b1" "nb_contents b1 = [1, 2, 3, 4, 5]" by auto
  from Buffer_retrieve_ok [OF b1(2), of 2] b1(3) obtain b2 where b2: "Buffer_retrieve 2 b1 = Inr b2" by auto
  show ?thesis using Buffer_well_formed [of 4 ?ps] by (simp add: b(1) b1(1) b2 vector_max_size_def)
qed

text \<open>A requested size close to the largest word wraps around: the assertions of the constructor hold
  and the buffer has no storage.\<close>

lemma Buffer_new_overflow: "Buffer_new (- 8) = Inr \<lparr>nb_buffer = [], nb_reader = 8, nb_writer = 8\<rparr>"
  by (simp add: Buffer_new_def vector_resize_def resize_list_def Buffer_readable_bytes_def Buffer_writable_bytes_def
      Buffer_prependable_bytes_def kCheapPrepend_def)

end
