(* ===== verification/Channel.thy ===== *)
theory Channel
  imports Clia_Prelude
begin

unbundle bit_operations_syntax

text \<open>
  \<open>clia::reactor::Channel\<close> (reactor/channel.h, reactor/channel.cc): a descriptor, the
  events it is interested in, the events received, and four callbacks.  The callbacks are
  \<open>std::bind\<close> objects; here they are values of a type \<open>'cb\<close> that the event loop's
  client chooses, run by an interpreter that is an argument of \<open>handle_event\<close>.  Channels
  are referred to by addresses (natural numbers), as the pointers of the source do.  The
  operations that go through the event loop (\<open>update\<close>, \<open>enable_reading\<close> and its
  siblings, \<open>remove\<close>) are in the theory of the loop.
\<close>

section \<open>Event bits\<close>

type_synonym events = "32 word"

text \<open>The values of the flags in \<open>sys/epoll.h\<close>.\<close>

definition EPOLLIN :: events where "EPOLLIN = 0x001"
definition EPOLLPRI :: events where "EPOLLPRI = 0x002"
definition EPOLLOUT :: events where "EPOLLOUT = 0x004"
definition EPOLLERR :: events where "EPOLLERR = 0x008"
definition EPOLLHUP :: events where "EPOLLHUP = 0x010"
definition EPOLLRDHUP :: events where "EPOLLRDHUP = 0x2000"

definition kNoneEvent :: events where "kNoneEvent = 0"
definition kReadEvent :: events where "kReadEvent = EPOLLIN OR EPOLLPRI"
definition kWriteEvent :: events where "kWriteEvent = EPOLLOUT"

lemmas event_bit_defs = EPOLLIN_def EPOLLPRI_def EPOLLOUT_def EPOLLERR_def EPOLLHUP_def
  EPOLLRDHUP_def kNoneEvent_def kReadEvent_def kWriteEvent_def

text \<open>An \<open>int\<close> used as a condition.\<close>

definition truth :: "events \<Rightarrow> bool" where
  "truth e \<longleftrightarrow> e \<noteq> 0"

section \<open>The class\<close>

type_synonym addr = nat

record 'cb channel =
  ch_loop :: addr
  ch_fd :: int
  ch_events :: events
  ch_revents :: events
  ch_index :: int
  ch_event_handling :: bool
  ch_added_to_loop :: bool
  ch_tied :: bool
  ch_tie :: "addr option"          \<comment> \<open>the object of the weak pointer, once \<open>tie\<close> was called\<close>
  ch_read_callback :: "'cb option"
  ch_write_callback :: "'cb option"
  ch_close_callback :: "'cb option"
  ch_error_callback :: "'cb option"

definition Channel_new :: "addr \<Rightarrow> int \<Rightarrow> 'cb channel res" where
  "Channel_new loop fd =
     bindE (assertE (fd \<noteq> - 1)) (\<lambda>_.
       Inr \<lparr>ch_loop = loop, ch_fd = fd, ch_events = 0, ch_revents = 0, ch_index = - 1,
            ch_event_handling = False, ch_added_to_loop = False, ch_tied = False, ch_tie = None,
            ch_read_callback = None, ch_write_callback = None, ch_close_callback = None,
            ch_error_callback = None\<rparr>)"

definition Channel_set_read_callback :: "'cb \<Rightarrow> 'cb channel \<Rightarrow> 'cb channel" where
  "Channel_set_read_callback cb c = c\<lparr>ch_read_callback := Some cb\<rparr>"

definition Channel_set_write_callback :: "'cb \<Rightarrow> 'cb channel \<Rightarrow> 'cb channel" where
  "Channel_set_write_callback cb c = c\<lparr>ch_write_callback := Some cb\<rparr>"

definition Channel_set_close_callback :: "'cb \<Rightarrow> 'cb channel \<Rightarrow> 'cb channel" where
  "Channel_set_close_callback cb c = c\<lparr>ch_close_callback := Some cb\<rparr>"

definition Channel_set_error_callback :: "'cb \<Rightarrow> 'cb channel \<Rightarrow> 'cb channel" where
  "Channel_set_error_callback cb c = c\<lparr>ch_error_callback := Some cb\<rparr>"

definition Channel_tie :: "addr \<Rightarrow> 'cb channel \<Rightarrow> 'cb channel" where
  "Channel_tie obj c = c\<lparr>ch_tie := Some obj, ch_tied := True\<rparr>"

definition Channel_set_revents :: "events \<Rightarrow> 'cb channel \<Rightarrow> 'cb channel" where
  "Channel_set_revents revents c = c\<lparr>ch_revents := revents\<rparr>"

definition Channel_set_index :: "int \<Rightarrow> 'cb channel \<Rightarrow> 'cb channel" where
  "Channel_set_index index c = c\<lparr>ch_index := index\<rparr>"

definition Channel_is_none_event :: "'cb channel \<Rightarrow> bool" where
  "Channel_is_none_event c \<longleftrightarrow> kNoneEvent = ch_events c"

definition Channel_is_writing :: "'cb channel \<Rightarrow> bool" where
  "Channel_is_writing c \<longleftrightarrow> truth (ch_events c AND kWriteEvent)"

definition Channel_is_reading :: "'cb channel \<Rightarrow> bool" where
  "Channel_is_reading c \<longleftrightarrow> truth (ch_events c AND kReadEvent)"

section \<open>Dispatch of received events\<close>

text \<open>
  The world \<open>'w\<close> holds the channel (read by \<open>get\<close>, changed by \<open>upd\<close>) and whatever
  else the callbacks change; \<open>run\<close> runs a callback.  The received events are read from
  the channel again before each test, as the source does.  \<open>alive\<close> says whether an object
  a weak pointer refers to still exists.
\<close>

definition run_callback :: "('cb \<Rightarrow> 'w \<Rightarrow> 'w res) \<Rightarrow> 'cb option \<Rightarrow> 'w \<Rightarrow> 'w res" where
  "run_callback run cb w = (case cb of None \<Rightarrow> Inr w | Some f \<Rightarrow> run f w)"

definition Channel_handle_event_with_guard ::
    "('cb \<Rightarrow> 'w \<Rightarrow> 'w res) \<Rightarrow> ('w \<Rightarrow> 'cb channel res) \<Rightarrow>
     (('cb channel \<Rightarrow> 'cb channel) \<Rightarrow> 'w \<Rightarrow> 'w res) \<Rightarrow> 'w \<Rightarrow> 'w res" where
  "Channel_handle_event_with_guard run get upd w0 =
     bindE (upd (ch_event_handling_update (\<lambda>_. True)) w0) (\<lambda>w1.
     bindE (bindE (get w1) (\<lambda>c.
       if truth (ch_revents c AND EPOLLHUP) \<and> \<not> truth (ch_revents c AND EPOLLIN)
       then run_callback run (ch_close_callback c) w1 else Inr w1)) (\<lambda>w2.
     bindE (bindE (get w2) (\<lambda>c.
       if truth (ch_revents c AND EPOLLERR)
       then run_callback run (ch_error_callback c) w2 else Inr w2)) (\<lambda>w3.
     bindE (bindE (get w3) (\<lambda>c.
       if truth (ch_revents c AND (EPOLLIN OR EPOLLPRI OR EPOLLRDHUP))
       then run_callback run (ch_read_callback c) w3 else Inr w3)) (\<lambda>w4.
     bindE (bindE (get w4) (\<lambda>c.
       if truth (ch_revents c AND EPOLLOUT)
       then run_callback run (ch_write_callback c) w4 else Inr w4)) (\<lambda>w5.
     upd (ch_event_handling_update (\<lambda>_. False)) w5)))))"

definition Channel_handle_event ::
    "(addr \<Rightarrow> 'w \<Rightarrow> bool) \<Rightarrow> ('cb \<Rightarrow> 'w \<Rightarrow> 'w res) \<Rightarrow> ('w \<Rightarrow> 'cb channel res) \<Rightarrow>
     (('cb channel \<Rightarrow> 'cb channel) \<Rightarrow> 'w \<Rightarrow> 'w res) \<Rightarrow> 'w \<Rightarrow> 'w res" where
  "Channel_handle_event alive run get upd w =
     bindE (get w) (\<lambda>c.
       if ch_tied c
       then (case ch_tie c of
               Some obj \<Rightarrow> if alive obj w then Channel_handle_event_with_guard run get upd w else Inr w
             | None \<Rightarrow> Inr w)
       else Channel_handle_event_with_guard run get upd w)"

section \<open>Bits of the interest set\<close>

lemma truth_AND_OR: "truth (e AND (a OR b)) \<longleftrightarrow> truth (e AND a) \<or> truth (e AND b)"
proof -
  have "e AND (a OR b) = (e AND a) OR (e AND b)" by (simp add: bit.conj_disj_distrib)
  then show ?thesis by (simp add: truth_def or_eq_0_iff)
qed

lemma event_masks [simp]:
  "kReadEvent \<noteq> 0" "kWriteEvent \<noteq> 0"
  "kReadEvent AND kWriteEvent = 0" "kWriteEvent AND kReadEvent = 0"
  "NOT kReadEvent AND kWriteEvent = kWriteEvent" "NOT kWriteEvent AND kReadEvent = kReadEvent"
  by code_simp+

lemma interest_bits:
  "Channel_is_reading (c\<lparr>ch_events := ch_events c OR kReadEvent\<rparr>)"
  "\<not> Channel_is_reading (c\<lparr>ch_events := ch_events c AND NOT kReadEvent\<rparr>)"
  "Channel_is_writing (c\<lparr>ch_events := ch_events c OR kWriteEvent\<rparr>)"
  "\<not> Channel_is_writing (c\<lparr>ch_events := ch_events c AND NOT kWriteEvent\<rparr>)"
  "Channel_is_writing (c\<lparr>ch_events := ch_events c OR kReadEvent\<rparr>) = Channel_is_writing c"
  "Channel_is_writing (c\<lparr>ch_events := ch_events c AND NOT kReadEvent\<rparr>) = Channel_is_writing c"
  "Channel_is_reading (c\<lparr>ch_events := ch_events c OR kWriteEvent\<rparr>) = Channel_is_reading c"
  "Channel_is_reading (c\<lparr>ch_events := ch_events c AND NOT kWriteEvent\<rparr>) = Channel_is_reading c"
  "\<not> Channel_is_reading (c\<lparr>ch_events := kNoneEvent\<rparr>)"
  "\<not> Channel_is_writing (c\<lparr>ch_events := kNoneEvent\<rparr>)"
  "Channel_is_none_event (c\<lparr>ch_events := kNoneEvent\<rparr>)"
  "\<not> Channel_is_none_event (c\<lparr>ch_events := ch_events c OR kReadEvent\<rparr>)"
  "\<not> Channel_is_none_event (c\<lparr>ch_events := ch_events c OR kWriteEvent\<rparr>)"
  by (simp_all add: Channel_is_reading_def Channel_is_writing_def Channel_is_none_event_def truth_def
      kNoneEvent_def bit.conj_disj_distrib2 or_eq_0_iff and.assoc)

end
