(* ===== verification/Epoller.thy ===== *)
theory Epoller
  imports Channel
begin

unbundle bit_operations_syntax

text \<open>
  \<open>clia::reactor::Epoller\<close> (reactor/epoller.h, reactor/epoller.cc): the map from
  descriptors to channels and the state machine of a channel's \<open>index\<close> (new, added,
  deleted).  The kernel's interest list is not part of the program: the model keeps the
  sequence of \<open>epoll_ctl\<close> calls the code issues, and \<open>interest_list\<close> says what such a
  sequence leaves in the list and whether each call of it is one the kernel accepts.  The
  outcome of a call only decides what is logged, so it is no argument of the model.
\<close>

section \<open>The class\<close>

definition kNew :: int where "kNew = - 1"
definition kAdded :: int where "kAdded = 1"
definition kDeleted :: int where "kDeleted = 2"
definition kInitEventListSize :: nat where "kInitEventListSize = 16"

lemma index_distinct [simp]:
  "kNew \<noteq> kAdded" "kNew \<noteq> kDeleted" "kAdded \<noteq> kDeleted"
  "kAdded \<noteq> kNew" "kDeleted \<noteq> kNew" "kDeleted \<noteq> kAdded"
  by (simp_all add: kNew_def kAdded_def kDeleted_def)

datatype ctl_op = EPOLL_CTL_ADD | EPOLL_CTL_MOD | EPOLL_CTL_DEL

datatype ctl_call = Epoll_ctl ctl_op int events addr

record epoller =
  ep_events_size :: nat                 \<comment> \<open>\<open>events_.size()\<close>\<close>
  ep_channels :: "int \<rightharpoonup> addr"
  ep_calls :: "ctl_call list"           \<comment> \<open>the calls of \<open>epoll_ctl\<close> so far\<close>

text \<open>\<open>epfd\<close> is what \<open>epoll_create1\<close> returned.\<close>

definition Epoller_new :: "int \<Rightarrow> epoller res" where
  "Epoller_new epfd =
     bindE (assertE (epfd \<noteq> - 1)) (\<lambda>_.
       Inr \<lparr>ep_events_size = kInitEventListSize, ep_channels = Map.empty, ep_calls = []\<rparr>)"

definition Epoller_update :: "ctl_op \<Rightarrow> addr \<Rightarrow> 'cb channel \<Rightarrow> epoller \<Rightarrow> epoller" where
  "Epoller_update operation c ch ep =
     ep\<lparr>ep_calls := ep_calls ep @ [Epoll_ctl operation (ch_fd ch) (ch_events ch) c]\<rparr>"

text \<open>\<open>in_loop\<close> is \<open>owner_loop_->is_in_loop_thread()\<close>; \<open>c\<close> is the address of the
  channel and \<open>ch\<close> the channel itself, which is returned with its new index.\<close>

definition Epoller_update_channel ::
    "bool \<Rightarrow> addr \<Rightarrow> 'cb channel \<Rightarrow> epoller \<Rightarrow> (epoller \<times> 'cb channel) res" where
  "Epoller_update_channel in_loop c ch ep =
     bindE (assertE in_loop) (\<lambda>_.
       let fd = ch_fd ch; index = ch_index ch
       in if kNew = index \<or> kDeleted = index
          then bindE (if kNew = index
                      then bindE (assertE (ep_channels ep fd = None)) (\<lambda>_.
                             Inr (ep\<lparr>ep_channels := (ep_channels ep)(fd \<mapsto> c)\<rparr>))
                      else bindE (assertE (ep_channels ep fd = Some c)) (\<lambda>_. Inr ep)) (\<lambda>ep1.
               let ch1 = Channel_set_index kAdded ch
               in Inr (Epoller_update EPOLL_CTL_ADD c ch1 ep1, ch1))
          else bindE (assertE (ep_channels ep fd = Some c \<and> kAdded = index)) (\<lambda>_.
                 if Channel_is_none_event ch
                 then Inr (Epoller_update EPOLL_CTL_DEL c ch ep, Channel_set_index kDeleted ch)
                 else Inr (Epoller_update EPOLL_CTL_MOD c ch ep, ch)))"

definition Epoller_remove_channel ::
    "bool \<Rightarrow> addr \<Rightarrow> 'cb channel \<Rightarrow> epoller \<Rightarrow> (epoller \<times> 'cb channel) res" where
  "Epoller_remove_channel in_loop c ch ep =
     bindE (assertE in_loop) (\<lambda>_.
     bindE (assertE (ep_channels ep (ch_fd ch) = Some c \<and> Channel_is_none_event ch)) (\<lambda>_.
     bindE (assertE (ch_index ch = kAdded \<or> ch_index ch = kDeleted)) (\<lambda>_.
       let ep1 = ep\<lparr>ep_channels := (ep_channels ep)(ch_fd ch := None)\<rparr>;
           ep2 = (if kAdded = ch_index ch then Epoller_update EPOLL_CTL_DEL c ch ep1 else ep1)
       in Inr (ep2, Channel_set_index kNew ch))))"

definition Epoller_has_channel :: "bool \<Rightarrow> addr \<Rightarrow> 'cb channel \<Rightarrow> epoller \<Rightarrow> bool res" where
  "Epoller_has_channel in_loop c ch ep =
     bindE (assertE in_loop) (\<lambda>_. Inr (ep_channels ep (ch_fd ch) = Some c))"

text \<open>The channels live in a store; the events the kernel reported are pairs of the pointer it
  was given and the event bits.\<close>

type_synonym 'cb store = "addr \<Rightarrow> 'cb channel option"

fun Epoller_fill_active_channels ::
    "(addr \<times> events) list \<Rightarrow> epoller \<Rightarrow> 'cb store \<Rightarrow> addr list \<Rightarrow> ('cb store \<times> addr list) res" where
  "Epoller_fill_active_channels [] ep st active = Inr (st, active)"
| "Epoller_fill_active_channels ((c, ev) # evs) ep st active =
     (case st c of
        None \<Rightarrow> Inl Undefined_behaviour
      | Some ch \<Rightarrow>
          bindE (assertE (ep_channels ep (ch_fd ch) = Some c)) (\<lambda>_.
            Epoller_fill_active_channels evs ep (st(c \<mapsto> Channel_set_revents ev ch)) (active @ [c])))"

text \<open>\<open>None\<close> is an error return of \<open>epoll_wait\<close>, which is only logged.\<close>

definition Epoller_poll ::
    "(addr \<times> events) list option \<Rightarrow> epoller \<Rightarrow> 'cb store \<Rightarrow> addr list \<Rightarrow>
     (epoller \<times> 'cb store \<times> addr list) res" where
  "Epoller_poll reported ep st active =
     (case reported of
        None \<Rightarrow> Inr (ep, st, active)
      | Some evs \<Rightarrow>
          if 0 < length evs
          then bindE (assertE (length evs \<le> ep_events_size ep)) (\<lambda>_.
               bindE (Epoller_fill_active_channels evs ep st active) (\<lambda>(st', active').
                 Inr (if length evs = ep_events_size ep
                      then ep\<lparr>ep_events_size := ep_events_size ep * 2\<rparr> else ep, st', active')))
          else Inr (ep, st, active))"

section \<open>The interest list a sequence of calls leaves\<close>

text \<open>As documented for \<open>epoll_ctl(2)\<close>: adding a descriptor that is in the list fails
  (\<open>EEXIST\<close>), changing or deleting one that is not fails (\<open>ENOENT\<close>).  A failing call
  is \<open>None\<close>.\<close>

fun ctl_apply :: "ctl_call \<Rightarrow> (int \<rightharpoonup> events \<times> addr) \<Rightarrow> (int \<rightharpoonup> events \<times> addr) option" where
  "ctl_apply (Epoll_ctl EPOLL_CTL_ADD fd ev c) m = (if m fd = None then Some (m(fd \<mapsto> (ev, c))) else None)"
| "ctl_apply (Epoll_ctl EPOLL_CTL_MOD fd ev c) m = (if m fd = None then None else Some (m(fd \<mapsto> (ev, c))))"
| "ctl_apply (Epoll_ctl EPOLL_CTL_DEL fd ev c) m = (if m fd = None then None else Some (m(fd := None)))"

definition interest_list :: "ctl_call list \<Rightarrow> (int \<rightharpoonup> events \<times> addr) option" where
  "interest_list calls = foldl (\<lambda>m call. Option.bind m (ctl_apply call)) (Some Map.empty) calls"

lemma interest_list_Nil [simp]: "interest_list [] = Some Map.empty"
  by (simp add: interest_list_def)

lemma interest_list_snoc [simp]:
  "interest_list (calls @ [call]) = Option.bind (interest_list calls) (ctl_apply call)"
  by (simp add: interest_list_def)

section \<open>Invariant\<close>

text \<open>What the list should hold: the events of every registered channel that is marked as
  added.\<close>

definition ep_view :: "'cb store \<Rightarrow> epoller \<Rightarrow> int \<Rightarrow> (events \<times> addr) option" where
  "ep_view st ep fd =
     (case ep_channels ep fd of
        None \<Rightarrow> None
      | Some c \<Rightarrow> (case st c of
                     None \<Rightarrow> None
                   | Some ch \<Rightarrow> if ch_index ch = kAdded then Some (ch_events ch, c) else None))"

text \<open>A channel's own part: it is registered under its descriptor unless it is new, and only
  an added channel is interested in anything.\<close>

definition chan_ok :: "addr \<Rightarrow> epoller \<Rightarrow> addr \<Rightarrow> 'cb channel \<Rightarrow> bool" where
  "chan_ok l ep c ch \<longleftrightarrow> ch_loop ch = l \<longrightarrow>
     (ch_index ch = kNew \<or> ch_index ch = kAdded \<or> ch_index ch = kDeleted) \<and>
     (ch_index ch \<noteq> kNew \<longleftrightarrow> ep_channels ep (ch_fd ch) = Some c) \<and>
     (ch_index ch \<noteq> kAdded \<longrightarrow> ch_events ch = kNoneEvent)"

definition ep_inv :: "addr \<Rightarrow> 'cb store \<Rightarrow> epoller \<Rightarrow> bool" where
  "ep_inv l st ep \<longleftrightarrow>
     (\<forall>c ch. st c = Some ch \<longrightarrow> chan_ok l ep c ch) \<and>
     (\<forall>fd c. ep_channels ep fd = Some c \<longrightarrow> (\<exists>ch. st c = Some ch \<and> ch_fd ch = fd \<and> ch_loop ch = l)) \<and>
     interest_list (ep_calls ep) = Some (ep_view st ep)"

lemma ep_inv_new [wf_intros]:
  "Epoller_new epfd = Inr ep \<Longrightarrow> \<forall>c ch. st c = Some ch \<longrightarrow> ch_loop ch \<noteq> l \<Longrightarrow> ep_inv l st ep"
  by (auto simp: Epoller_new_def ep_inv_def chan_ok_def ep_view_def bindE_Inr_iff fun_eq_iff)

lemma ep_invD:
  assumes "ep_inv l st ep"
  shows "st c = Some ch \<Longrightarrow> chan_ok l ep c ch"
    and "ep_channels ep fd = Some c \<Longrightarrow> \<exists>ch. st c = Some ch \<and> ch_fd ch = fd \<and> ch_loop ch = l"
    and "interest_list (ep_calls ep) = Some (ep_view st ep)"
  using assms by (auto simp: ep_inv_def)

text \<open>Adding a fresh, new channel to the store keeps the invariant.\<close>

lemma ep_inv_fresh [wf_intros]:
  assumes inv: "ep_inv l st ep" and fresh: "st c = None" and new: "ch_index ch = kNew" "ch_events ch = kNoneEvent"
  shows "ep_inv l (st(c \<mapsto> ch)) ep"
proof -
  have nochan: "ep_channels ep fd \<noteq> Some c" for fd
    using ep_invD(2) [OF inv, of fd c] fresh by auto
  then have "ep_view (st(c \<mapsto> ch)) ep = ep_view st ep"
    by (auto simp: ep_view_def fun_eq_iff split: option.splits)
  with inv nochan new show ?thesis
    by (auto simp: ep_inv_def chan_ok_def)
qed

text \<open>Destroying a channel that is not registered keeps it too.\<close>

lemma ep_inv_destroy [wf_intros]:
  assumes inv: "ep_inv l st ep" and ch: "st c = Some ch" and new: "ch_index ch = kNew \<or> ch_loop ch \<noteq> l"
  shows "ep_inv l (st(c := None)) ep"
proof -
  have nochan: "ep_channels ep fd \<noteq> Some c" for fd
    using ep_invD(1) [OF inv ch] ep_invD(2) [OF inv, of fd c] ch new by (auto simp: chan_ok_def)
  then have "ep_view (st(c := None)) ep = ep_view st ep"
    by (auto simp: ep_view_def fun_eq_iff split: option.splits)
  with inv nochan show ?thesis by (auto simp: ep_inv_def)
qed

text \<open>Fields the poller does not read may change.\<close>

lemma ep_inv_frame [wf_intros]:
  assumes inv: "ep_inv l st ep" and ch: "st c = Some ch"
    and same: "ch_loop ch' = ch_loop ch" "ch_fd ch' = ch_fd ch" "ch_events ch' = ch_events ch"
      "ch_index ch' = ch_index ch"
  shows "ep_inv l (st(c \<mapsto> ch')) ep"
proof -
  have "ep_view (st(c \<mapsto> ch')) ep = ep_view st ep"
    using ch same by (auto simp: ep_view_def fun_eq_iff split: option.splits)
  with inv ch same show ?thesis
    by (fastforce simp: ep_inv_def chan_ok_def)
qed

section \<open>Updating and removing a channel\<close>

text \<open>A channel is registered under its own descriptor only.\<close>

lemma registered_fd:
  assumes "ep_inv l st ep" and "st c = Some ch" and "ep_channels ep fd = Some c"
  shows "fd = ch_fd ch"
  using ep_invD(2) [OF assms(1,3)] assms(2) by auto

text \<open>The effect on the invariant of replacing one channel and its registration, together with
  the call of \<open>epoll_ctl\<close> that goes with it.\<close>

lemma ep_view_upd:
  assumes inv: "ep_inv l st ep" and ch: "st c = Some ch0" and fd: "ch_fd ch' = ch_fd ch0"
    and reg: "r = Some c \<or> r = None"
    and eq: "ep_channels ep' = (ep_channels ep)(ch_fd ch0 := r)"
  shows "ep_view (st(c \<mapsto> ch')) ep' =
    (ep_view st ep)(ch_fd ch0 := (if r = Some c \<and> ch_index ch' = kAdded then Some (ch_events ch', c) else None))"
proof
  fix f
  show "ep_view (st(c \<mapsto> ch')) ep' f = ((ep_view st ep)(ch_fd ch0 :=
      (if r = Some c \<and> ch_index ch' = kAdded then Some (ch_events ch', c) else None))) f"
    using registered_fd [OF inv ch, of f] reg by (auto simp: ep_view_def eq split: option.splits)
qed

lemma ep_inv_replace:
  assumes inv: "ep_inv l st ep" and ch: "st c = Some ch0"
    and l: "ch_loop ch0 = l" and ch': "ch_fd ch' = ch_fd ch0" "ch_loop ch' = l"
    and free: "ep_channels ep (ch_fd ch0) = None \<or> ep_channels ep (ch_fd ch0) = Some c"
    and reg: "r = Some c \<or> r = None"
    and eq: "ep_channels ep' = (ep_channels ep)(ch_fd ch0 := r)"
    and ok: "ch_index ch' = kNew \<and> r = None \<or> (ch_index ch' = kAdded \<or> ch_index ch' = kDeleted) \<and> r = Some c"
    and none: "ch_index ch' \<noteq> kAdded \<longrightarrow> ch_events ch' = kNoneEvent"
    and il: "interest_list (ep_calls ep') = Some ((ep_view st ep)(ch_fd ch0 :=
       (if r = Some c \<and> ch_index ch' = kAdded then Some (ch_events ch', c) else None)))"
  shows "ep_inv l (st(c \<mapsto> ch')) ep'"
proof -
  have "chan_ok l ep' d chd" if d: "(st(c \<mapsto> ch')) d = Some chd" for d chd
  proof (cases "d = c")
    case True
    with d ch' ok none eq show ?thesis by (auto simp: chan_ok_def)
  next
    case False
    with d have std: "st d = Some chd" by simp
    have neq: "ep_channels ep (ch_fd ch0) \<noteq> Some d" using free False by auto
    from ep_invD(1) [OF inv std] neq reg False show ?thesis
      by (auto simp: chan_ok_def eq)
  qed
  moreover have "\<exists>chd. (st(c \<mapsto> ch')) d = Some chd \<and> ch_fd chd = fd \<and> ch_loop chd = l"
    if "ep_channels ep' fd = Some d" for fd d
    using that ep_invD(2) [OF inv, of fd d] reg ch ch' by (auto simp: eq split: if_splits)
  ultimately show ?thesis
    using il ep_view_upd [OF inv ch ch'(1) reg eq] by (simp add: ep_inv_def)
qed

lemma update_channel_ok:
  assumes inv: "ep_inv l st ep" and st: "st c = Some ch0" and l: "ch_loop ch0 = l"
    and same: "ch_fd ch = ch_fd ch0" "ch_loop ch = ch_loop ch0" "ch_index ch = ch_index ch0"
    and free: "ch_index ch0 = kNew \<longrightarrow> ep_channels ep (ch_fd ch0) = None"
  shows "\<exists>ep'. Epoller_update_channel True c ch ep = Inr (ep', Channel_set_index
           (if ch_index ch0 = kAdded \<and> Channel_is_none_event ch then kDeleted else kAdded) ch) \<and>
         ep_channels ep' = (ep_channels ep)(ch_fd ch0 \<mapsto> c) \<and> ep_events_size ep' = ep_events_size ep \<and>
         ep_inv l (st(c \<mapsto> Channel_set_index
           (if ch_index ch0 = kAdded \<and> Channel_is_none_event ch then kDeleted else kAdded) ch)) ep'"
proof -
  have co: "chan_ok l ep c ch0" by (rule ep_invD(1) [OF inv st])
  note il = ep_invD(3) [OF inv]
  have v: "ep_view st ep (ch_fd ch0) =
      (if ch_index ch0 = kAdded then Some (ch_events ch0, c) else None)"
    using co l st free by (auto simp: chan_ok_def ep_view_def split: option.splits)
  have reg: "ep_channels ep (ch_fd ch0) = None \<or> ep_channels ep (ch_fd ch0) = Some c"
    using co l free by (auto simp: chan_ok_def)
  note keep = ep_inv_replace [OF inv st l _ _ reg, where r = "Some c"]
  from co l consider "ch_index ch0 = kNew" | "ch_index ch0 = kDeleted"
    | "ch_index ch0 = kAdded" "Channel_is_none_event ch" | "ch_index ch0 = kAdded" "\<not> Channel_is_none_event ch"
    by (auto simp: chan_ok_def)
  then show ?thesis
    using co free il v
    by cases (auto intro!: keep simp: same l chan_ok_def Epoller_update_channel_def Epoller_update_def
        Channel_set_index_def Channel_is_none_event_def Let_def fun_upd_idem)
qed

lemma remove_channel_ok:
  assumes inv: "ep_inv l st ep" and st: "st c = Some ch0" and l: "ch_loop ch0 = l"
    and same: "ch_fd ch = ch_fd ch0" "ch_loop ch = ch_loop ch0" "ch_index ch = ch_index ch0"
      "ch_events ch = ch_events ch0"
    and reg: "ch_index ch0 \<noteq> kNew" and none: "Channel_is_none_event ch"
  shows "\<exists>ep'. Epoller_remove_channel True c ch ep = Inr (ep', Channel_set_index kNew ch) \<and>
         ep_channels ep' = (ep_channels ep)(ch_fd ch0 := None) \<and> ep_events_size ep' = ep_events_size ep \<and>
         ep_inv l (st(c \<mapsto> Channel_set_index kNew ch)) ep'"
proof -
  have co: "chan_ok l ep c ch0" by (rule ep_invD(1) [OF inv st])
  then have r: "ep_channels ep (ch_fd ch0) = Some c" using l reg by (simp add: chan_ok_def)
  note il = ep_invD(3) [OF inv]
  have v: "ep_view st ep (ch_fd ch0) =
      (if ch_index ch0 = kAdded then Some (ch_events ch0, c) else None)"
    using r st by (simp add: ep_view_def)
  note keep = ep_inv_replace [OF inv st l _ _ disjI2 [OF r], where r = None]
  from co l reg consider "ch_index ch0 = kAdded" | "ch_index ch0 = kDeleted"
    by (auto simp: chan_ok_def)
  then show ?thesis
    using r none il v
    by cases (auto intro!: keep simp: same l Epoller_remove_channel_def Epoller_update_def
        Channel_set_index_def Channel_is_none_event_def Let_def fun_upd_idem)
qed

end
