(* ===== verification/Event_Loop.thy ===== *)
theory Event_Loop
  imports Epoller
begin

unbundle bit_operations_syntax

text \<open>
  \<open>clia::reactor::EventLoop\<close> (reactor/event_loop.h, reactor/event_loop.cc) and the
  operations of \<open>Channel\<close> that go through it.  Objects that point at each other (a
  channel, its loop, the loop's poller) live in an explicit store, the record
  \<open>reactor\<close>: an address that is not in the store is a dangling pointer, and using it is
  \<open>Undefined_behaviour\<close>.  Clients extend the record with their own objects.  Every
  operation takes the id \<open>t\<close> of the thread that runs it (\<open>process::get_tid()\<close>).
  Functors are values of a type \<open>'f\<close>, run by an interpreter the client supplies.
\<close>

section \<open>The store\<close>

text \<open>\<open>el_wakeups\<close> counts the writes to the loop's \<open>eventfd\<close> since it was last read:
  the descriptor is readable when the count is positive.\<close>

record 'f event_loop =
  el_looping :: bool
  el_quit :: bool
  el_event_handing :: bool
  el_calling_pending_functors :: bool
  el_tid :: int
  el_wakeup_fd :: int
  el_wakeup_channel :: addr
  el_current_active_channel :: "addr option"
  el_poller :: epoller
  el_active_channels :: "addr list"
  el_pending_functors :: "'f list"
  el_wakeups :: nat

record ('cb, 'f) reactor =
  rx_channels :: "'cb store"
  rx_loops :: "addr \<Rightarrow> 'f event_loop option"
  rx_loop_in_thread :: "int \<Rightarrow> addr option"   \<comment> \<open>the thread-local \<open>kLoopInThisThread\<close>\<close>

definition deref :: "(addr \<Rightarrow> 'a option) \<Rightarrow> addr \<Rightarrow> 'a res" where
  "deref m a = (case m a of None \<Rightarrow> Inl Undefined_behaviour | Some x \<Rightarrow> Inr x)"

definition get_channel :: "addr \<Rightarrow> ('cb, 'f, 'z) reactor_scheme \<Rightarrow> 'cb channel res" where
  "get_channel c w = deref (rx_channels w) c"

definition get_loop :: "addr \<Rightarrow> ('cb, 'f, 'z) reactor_scheme \<Rightarrow> 'f event_loop res" where
  "get_loop l w = deref (rx_loops w) l"

definition put_channel :: "addr \<Rightarrow> 'cb channel \<Rightarrow> ('cb, 'f, 'z) reactor_scheme \<Rightarrow> ('cb, 'f, 'z) reactor_scheme" where
  "put_channel c ch w = w\<lparr>rx_channels := (rx_channels w)(c \<mapsto> ch)\<rparr>"

definition put_loop :: "addr \<Rightarrow> 'f event_loop \<Rightarrow> ('cb, 'f, 'z) reactor_scheme \<Rightarrow> ('cb, 'f, 'z) reactor_scheme" where
  "put_loop l el w = w\<lparr>rx_loops := (rx_loops w)(l \<mapsto> el)\<rparr>"

definition upd_channel :: "addr \<Rightarrow> ('cb channel \<Rightarrow> 'cb channel) \<Rightarrow> ('cb, 'f, 'z) reactor_scheme \<Rightarrow>
    ('cb, 'f, 'z) reactor_scheme res" where
  "upd_channel c f w = bindE (get_channel c w) (\<lambda>ch. Inr (put_channel c (f ch) w))"

definition upd_loop :: "addr \<Rightarrow> ('f event_loop \<Rightarrow> 'f event_loop) \<Rightarrow> ('cb, 'f, 'z) reactor_scheme \<Rightarrow>
    ('cb, 'f, 'z) reactor_scheme res" where
  "upd_loop l f w = bindE (get_loop l w) (\<lambda>el. Inr (put_loop l (f el) w))"

section \<open>Channels of a loop\<close>

definition EventLoop_is_in_loop_thread :: "int \<Rightarrow> 'f event_loop \<Rightarrow> bool" where
  "EventLoop_is_in_loop_thread t el \<longleftrightarrow> t = el_tid el"

definition EventLoop_update_channel ::
    "int \<Rightarrow> addr \<Rightarrow> addr \<Rightarrow> ('cb, 'f, 'z) reactor_scheme \<Rightarrow> ('cb, 'f, 'z) reactor_scheme res" where
  "EventLoop_update_channel t l c w =
     bindE (get_loop l w) (\<lambda>el. bindE (get_channel c w) (\<lambda>ch.
     bindE (assertE (ch_loop ch = l \<and> EventLoop_is_in_loop_thread t el)) (\<lambda>_.
     bindE (Epoller_update_channel (EventLoop_is_in_loop_thread t el) c ch (el_poller el)) (\<lambda>(ep, ch').
       Inr (put_loop l (el\<lparr>el_poller := ep\<rparr>) (put_channel c ch' w))))))"

definition EventLoop_remove_channel ::
    "int \<Rightarrow> addr \<Rightarrow> addr \<Rightarrow> ('cb, 'f, 'z) reactor_scheme \<Rightarrow> ('cb, 'f, 'z) reactor_scheme res" where
  "EventLoop_remove_channel t l c w =
     bindE (get_loop l w) (\<lambda>el. bindE (get_channel c w) (\<lambda>ch.
     bindE (assertE (ch_loop ch = l \<and> EventLoop_is_in_loop_thread t el)) (\<lambda>_.
     bindE (assertE (el_event_handing el \<longrightarrow>
              el_current_active_channel el = Some c \<or> c \<notin> set (el_active_channels el))) (\<lambda>_.
     bindE (Epoller_remove_channel (EventLoop_is_in_loop_thread t el) c ch (el_poller el)) (\<lambda>(ep, ch').
       Inr (put_loop l (el\<lparr>el_poller := ep\<rparr>) (put_channel c ch' w)))))))"

definition EventLoop_has_channel :: "int \<Rightarrow> addr \<Rightarrow> addr \<Rightarrow> ('cb, 'f, 'z) reactor_scheme \<Rightarrow> bool res" where
  "EventLoop_has_channel t l c w =
     bindE (get_loop l w) (\<lambda>el. bindE (get_channel c w) (\<lambda>ch.
     bindE (assertE (ch_loop ch = l \<and> EventLoop_is_in_loop_thread t el)) (\<lambda>_.
       Epoller_has_channel (EventLoop_is_in_loop_thread t el) c ch (el_poller el))))"

definition Channel_update :: "int \<Rightarrow> addr \<Rightarrow> ('cb, 'f, 'z) reactor_scheme \<Rightarrow> ('cb, 'f, 'z) reactor_scheme res" where
  "Channel_update t c w =
     bindE (upd_channel c (\<lambda>ch. ch\<lparr>ch_added_to_loop := True\<rparr>) w) (\<lambda>w1.
     bindE (get_channel c w1) (\<lambda>ch. EventLoop_update_channel t (ch_loop ch) c w1))"

text \<open>The five operations that change the interest set differ in the new set only.\<close>

definition set_events :: "int \<Rightarrow> addr \<Rightarrow> (events \<Rightarrow> events) \<Rightarrow> ('cb, 'f, 'z) reactor_scheme \<Rightarrow>
    ('cb, 'f, 'z) reactor_scheme res" where
  "set_events t c f w =
     bindE (upd_channel c (\<lambda>ch. ch\<lparr>ch_events := f (ch_events ch)\<rparr>) w) (Channel_update t c)"

definition Channel_enable_reading :: "int \<Rightarrow> addr \<Rightarrow> ('cb, 'f, 'z) reactor_scheme \<Rightarrow> ('cb, 'f, 'z) reactor_scheme res" where
  "Channel_enable_reading t c = set_events t c (\<lambda>e. e OR kReadEvent)"

definition Channel_disable_reading :: "int \<Rightarrow> addr \<Rightarrow> ('cb, 'f, 'z) reactor_scheme \<Rightarrow> ('cb, 'f, 'z) reactor_scheme res" where
  "Channel_disable_reading t c = set_events t c (\<lambda>e. e AND NOT kReadEvent)"

definition Channel_enable_writing :: "int \<Rightarrow> addr \<Rightarrow> ('cb, 'f, 'z) reactor_scheme \<Rightarrow> ('cb, 'f, 'z) reactor_scheme res" where
  "Channel_enable_writing t c = set_events t c (\<lambda>e. e OR kWriteEvent)"

definition Channel_disable_writing :: "int \<Rightarrow> addr \<Rightarrow> ('cb, 'f, 'z) reactor_scheme \<Rightarrow> ('cb, 'f, 'z) reactor_scheme res" where
  "Channel_disable_writing t c = set_events t c (\<lambda>e. e AND NOT kWriteEvent)"

definition Channel_disable_all :: "int \<Rightarrow> addr \<Rightarrow> ('cb, 'f, 'z) reactor_scheme \<Rightarrow> ('cb, 'f, 'z) reactor_scheme res" where
  "Channel_disable_all t c = set_events t c (\<lambda>_. kNoneEvent)"

definition Channel_remove :: "int \<Rightarrow> addr \<Rightarrow> ('cb, 'f, 'z) reactor_scheme \<Rightarrow> ('cb, 'f, 'z) reactor_scheme res" where
  "Channel_remove t c w =
     bindE (get_channel c w) (\<lambda>ch. bindE (assertE (Channel_is_none_event ch)) (\<lambda>_.
       EventLoop_remove_channel t (ch_loop ch) c (put_channel c (ch\<lparr>ch_added_to_loop := False\<rparr>) w)))"

text \<open>The destructor; afterwards the address is dangling.\<close>

definition Channel_destroy :: "int \<Rightarrow> addr \<Rightarrow> ('cb, 'f, 'z) reactor_scheme \<Rightarrow> ('cb, 'f, 'z) reactor_scheme res" where
  "Channel_destroy t c w =
     bindE (get_channel c w) (\<lambda>ch.
     bindE (assertE (\<not> ch_event_handling ch)) (\<lambda>_.
     bindE (assertE (\<not> ch_added_to_loop ch)) (\<lambda>_.
     bindE (get_loop (ch_loop ch) w) (\<lambda>el.
     bindE (if EventLoop_is_in_loop_thread t el
            then bindE (EventLoop_has_channel t (ch_loop ch) c w) (\<lambda>h. assertE (\<not> h))
            else Inr ()) (\<lambda>_.
       Inr (w\<lparr>rx_channels := (rx_channels w)(c := None)\<rparr>))))))"

section \<open>Functors and wake-ups\<close>

definition EventLoop_wakeup :: "'f event_loop \<Rightarrow> 'f event_loop" where
  "EventLoop_wakeup el = el\<lparr>el_wakeups := Suc (el_wakeups el)\<rparr>"

definition EventLoop_handle_read :: "'f event_loop \<Rightarrow> 'f event_loop" where
  "EventLoop_handle_read el = el\<lparr>el_wakeups := 0\<rparr>"

definition EventLoop_quit :: "int \<Rightarrow> 'f event_loop \<Rightarrow> 'f event_loop" where
  "EventLoop_quit t el =
     (let el1 = el\<lparr>el_quit := True\<rparr>
      in if \<not> EventLoop_is_in_loop_thread t el1 then EventLoop_wakeup el1 else el1)"

text \<open>\<open>queue_in_loop\<close> in its two parts: what happens under the mutex, and the test after it
  was released.\<close>

definition EventLoop_queue_push :: "'f \<Rightarrow> 'f event_loop \<Rightarrow> 'f event_loop" where
  "EventLoop_queue_push cb el = el\<lparr>el_pending_functors := el_pending_functors el @ [cb]\<rparr>"

definition EventLoop_queue_wake :: "int \<Rightarrow> 'f event_loop \<Rightarrow> 'f event_loop" where
  "EventLoop_queue_wake t el =
     (if \<not> EventLoop_is_in_loop_thread t el \<or> el_calling_pending_functors el
      then EventLoop_wakeup el else el)"

definition EventLoop_queue_in_loop :: "int \<Rightarrow> 'f \<Rightarrow> 'f event_loop \<Rightarrow> 'f event_loop" where
  "EventLoop_queue_in_loop t cb el = EventLoop_queue_wake t (EventLoop_queue_push cb el)"

definition EventLoop_run_in_loop ::
    "('f \<Rightarrow> ('cb, 'f, 'z) reactor_scheme \<Rightarrow> ('cb, 'f, 'z) reactor_scheme res) \<Rightarrow>
     int \<Rightarrow> addr \<Rightarrow> 'f \<Rightarrow> ('cb, 'f, 'z) reactor_scheme \<Rightarrow> ('cb, 'f, 'z) reactor_scheme res" where
  "EventLoop_run_in_loop run t l cb w =
     bindE (get_loop l w) (\<lambda>el.
       if EventLoop_is_in_loop_thread t el then run cb w
       else Inr (put_loop l (EventLoop_queue_in_loop t cb el) w))"

fun run_functors :: "('f \<Rightarrow> 'w \<Rightarrow> 'w res) \<Rightarrow> 'f list \<Rightarrow> 'w \<Rightarrow> 'w res" where
  "run_functors run [] w = Inr w"
| "run_functors run (f # fs) w = bindE (run f w) (run_functors run fs)"

text \<open>\<open>destroy\<close> is the destructor of a functor, which may hold the last reference to an
  object: it is given the functors that are destroyed after it.\<close>

fun destroy_functors :: "('f list \<Rightarrow> 'f \<Rightarrow> 'w \<Rightarrow> 'w res) \<Rightarrow> 'f list \<Rightarrow> 'w \<Rightarrow> 'w res" where
  "destroy_functors destroy [] w = Inr w"
| "destroy_functors destroy (f # fs) w = bindE (destroy fs f w) (destroy_functors destroy fs)"

text \<open>The local vector is destroyed at the end.\<close>

definition EventLoop_do_pending_functors ::
    "('f \<Rightarrow> ('cb, 'f, 'z) reactor_scheme \<Rightarrow> ('cb, 'f, 'z) reactor_scheme res) \<Rightarrow>
     ('f list \<Rightarrow> 'f \<Rightarrow> ('cb, 'f, 'z) reactor_scheme \<Rightarrow> ('cb, 'f, 'z) reactor_scheme res) \<Rightarrow>
     addr \<Rightarrow> ('cb, 'f, 'z) reactor_scheme \<Rightarrow> ('cb, 'f, 'z) reactor_scheme res" where
  "EventLoop_do_pending_functors run destroy l w =
     bindE (get_loop l w) (\<lambda>el.
     bindE (run_functors run (el_pending_functors el)
              (put_loop l (el\<lparr>el_calling_pending_functors := True, el_pending_functors := []\<rparr>) w)) (\<lambda>w1.
     bindE (upd_loop l (\<lambda>el. el\<lparr>el_calling_pending_functors := False\<rparr>) w1)
       (destroy_functors destroy (el_pending_functors el))))"

section \<open>The loop\<close>

text \<open>Dispatch to the active channels, one after the other.\<close>

fun dispatch :: "(addr \<Rightarrow> ('cb, 'f, 'z) reactor_scheme \<Rightarrow> bool) \<Rightarrow>
     ('cb \<Rightarrow> ('cb, 'f, 'z) reactor_scheme \<Rightarrow> ('cb, 'f, 'z) reactor_scheme res) \<Rightarrow> addr \<Rightarrow> addr list \<Rightarrow>
     ('cb, 'f, 'z) reactor_scheme \<Rightarrow> ('cb, 'f, 'z) reactor_scheme res" where
  "dispatch alive run l [] w = Inr w"
| "dispatch alive run l (c # cs) w =
     bindE (upd_loop l (\<lambda>el. el\<lparr>el_current_active_channel := Some c\<rparr>) w) (\<lambda>w1.
     bindE (Channel_handle_event alive run (get_channel c) (upd_channel c) w1) (\<lambda>w2.
       dispatch alive run l cs w2))"

text \<open>One pass through the body of \<open>loop\<close>, given what \<open>epoll_wait\<close> reported.\<close>

definition EventLoop_iteration ::
    "(addr \<Rightarrow> ('cb, 'f, 'z) reactor_scheme \<Rightarrow> bool) \<Rightarrow>
     ('cb \<Rightarrow> ('cb, 'f, 'z) reactor_scheme \<Rightarrow> ('cb, 'f, 'z) reactor_scheme res) \<Rightarrow>
     ('f \<Rightarrow> ('cb, 'f, 'z) reactor_scheme \<Rightarrow> ('cb, 'f, 'z) reactor_scheme res) \<Rightarrow>
     ('f list \<Rightarrow> 'f \<Rightarrow> ('cb, 'f, 'z) reactor_scheme \<Rightarrow> ('cb, 'f, 'z) reactor_scheme res) \<Rightarrow>
     addr \<Rightarrow> (addr \<times> events) list option \<Rightarrow> ('cb, 'f, 'z) reactor_scheme \<Rightarrow> ('cb, 'f, 'z) reactor_scheme res" where
  "EventLoop_iteration alive run runf destroy l reported w =
     bindE (get_loop l w) (\<lambda>el.
     bindE (Epoller_poll reported (el_poller el) (rx_channels w) []) (\<lambda>(ep, st, active).
     bindE (dispatch alive run l active
              (put_loop l (el\<lparr>el_poller := ep, el_active_channels := active, el_event_handing := True\<rparr>)
                (w\<lparr>rx_channels := st\<rparr>))) (\<lambda>w1.
     bindE (upd_loop l (\<lambda>el. el\<lparr>el_current_active_channel := None, el_event_handing := False\<rparr>) w1)
       (EventLoop_do_pending_functors runf destroy l))))"

text \<open>The loop over a sequence of returns of \<open>epoll_wait\<close>: when the sequence is used up the
  thread is blocked in the next call (\<open>looping_\<close> still set).\<close>

fun EventLoop_loop_body ::
    "(addr \<Rightarrow> ('cb, 'f, 'z) reactor_scheme \<Rightarrow> bool) \<Rightarrow>
     ('cb \<Rightarrow> ('cb, 'f, 'z) reactor_scheme \<Rightarrow> ('cb, 'f, 'z) reactor_scheme res) \<Rightarrow>
     ('f \<Rightarrow> ('cb, 'f, 'z) reactor_scheme \<Rightarrow> ('cb, 'f, 'z) reactor_scheme res) \<Rightarrow>
     ('f list \<Rightarrow> 'f \<Rightarrow> ('cb, 'f, 'z) reactor_scheme \<Rightarrow> ('cb, 'f, 'z) reactor_scheme res) \<Rightarrow>
     addr \<Rightarrow> (addr \<times> events) list option list \<Rightarrow> ('cb, 'f, 'z) reactor_scheme \<Rightarrow> ('cb, 'f, 'z) reactor_scheme res" where
  "EventLoop_loop_body alive run runf destroy l rs w =
     bindE (get_loop l w) (\<lambda>el.
       if el_quit el then upd_loop l (\<lambda>el. el\<lparr>el_looping := False\<rparr>) w
       else (case rs of [] \<Rightarrow> Inr w
             | r # rs' \<Rightarrow> bindE (EventLoop_iteration alive run runf destroy l r w)
                            (EventLoop_loop_body alive run runf destroy l rs')))"

declare EventLoop_loop_body.simps [simp del]

definition EventLoop_loop ::
    "(addr \<Rightarrow> ('cb, 'f, 'z) reactor_scheme \<Rightarrow> bool) \<Rightarrow>
     ('cb \<Rightarrow> ('cb, 'f, 'z) reactor_scheme \<Rightarrow> ('cb, 'f, 'z) reactor_scheme res) \<Rightarrow>
     ('f \<Rightarrow> ('cb, 'f, 'z) reactor_scheme \<Rightarrow> ('cb, 'f, 'z) reactor_scheme res) \<Rightarrow>
     ('f list \<Rightarrow> 'f \<Rightarrow> ('cb, 'f, 'z) reactor_scheme \<Rightarrow> ('cb, 'f, 'z) reactor_scheme res) \<Rightarrow>
     int \<Rightarrow> addr \<Rightarrow> (addr \<times> events) list option list \<Rightarrow> ('cb, 'f, 'z) reactor_scheme \<Rightarrow> ('cb, 'f, 'z) reactor_scheme res" where
  "EventLoop_loop alive run runf destroy t l rs w =
     bindE (get_loop l w) (\<lambda>el.
     bindE (assertE (\<not> el_looping el \<and> EventLoop_is_in_loop_thread t el)) (\<lambda>_.
       EventLoop_loop_body alive run runf destroy l rs
         (put_loop l (el\<lparr>el_looping := True, el_quit := False\<rparr>) w)))"

text \<open>Constructor and destructor: \<open>l\<close> and \<open>c\<close> are the addresses of the loop and of its
  wake-up channel, \<open>fd\<close> and \<open>epfd\<close> what \<open>eventfd\<close> and \<open>epoll_create1\<close>
  returned, \<open>cb\<close> the callback bound to \<open>handle_read\<close>.  The members are destroyed in
  the reverse order of their declaration: the functors before the wake-up channel.\<close>

definition EventLoop_new ::
    "int \<Rightarrow> addr \<Rightarrow> addr \<Rightarrow> int \<Rightarrow> int \<Rightarrow> 'cb \<Rightarrow> ('cb, 'f, 'z) reactor_scheme \<Rightarrow> ('cb, 'f, 'z) reactor_scheme res" where
  "EventLoop_new t l c fd epfd cb w =
     bindE (assertE (fd \<noteq> - 1 \<and> rx_loop_in_thread w t = None)) (\<lambda>_.
     bindE (Epoller_new epfd) (\<lambda>ep.
     bindE (Channel_new l fd) (\<lambda>ch.
       Channel_enable_reading t c
         (put_channel c (Channel_set_read_callback cb ch)
         (put_loop l \<lparr>el_looping = False, el_quit = False, el_event_handing = False,
            el_calling_pending_functors = False, el_tid = t, el_wakeup_fd = fd, el_wakeup_channel = c,
            el_current_active_channel = None, el_poller = ep, el_active_channels = [],
            el_pending_functors = [], el_wakeups = 0\<rparr>
         (w\<lparr>rx_loop_in_thread := (rx_loop_in_thread w)(t := Some l)\<rparr>))))))"

definition EventLoop_destroy ::
    "('f list \<Rightarrow> 'f \<Rightarrow> ('cb, 'f, 'z) reactor_scheme \<Rightarrow> ('cb, 'f, 'z) reactor_scheme res) \<Rightarrow>
     int \<Rightarrow> addr \<Rightarrow> ('cb, 'f, 'z) reactor_scheme \<Rightarrow> ('cb, 'f, 'z) reactor_scheme res" where
  "EventLoop_destroy destroy t l w =
     bindE (get_loop l w) (\<lambda>el.
     bindE (Channel_disable_all t (el_wakeup_channel el) w) (\<lambda>w1.
     bindE (Channel_remove t (el_wakeup_channel el) w1) (\<lambda>w2.
     bindE (upd_loop l (\<lambda>el. el\<lparr>el_pending_functors := []\<rparr>)
              (w2\<lparr>rx_loop_in_thread := (rx_loop_in_thread w2)(t := None)\<rparr>)) (\<lambda>w3.
     bindE (destroy_functors destroy (el_pending_functors el) w3) (\<lambda>w4.
     bindE (Channel_destroy t (el_wakeup_channel el) w4) (\<lambda>w5.
       Inr (w5\<lparr>rx_loops := (rx_loops w5)(l := None)\<rparr>)))))))"

section \<open>Invariant of the store\<close>

definition rx_inv :: "('cb, 'f, 'z) reactor_scheme \<Rightarrow> bool" where
  "rx_inv w \<longleftrightarrow> (\<forall>l el. rx_loops w l = Some el \<longrightarrow> ep_inv l (rx_channels w) (el_poller el))"

lemma rx_invD: "rx_inv w \<Longrightarrow> rx_loops w l = Some el \<Longrightarrow> ep_inv l (rx_channels w) (el_poller el)"
  by (simp add: rx_inv_def)

lemma store_simps [simp]:
  "rx_channels (put_channel c ch w) = (rx_channels w)(c \<mapsto> ch)"
  "rx_loops (put_channel c ch w) = rx_loops w"
  "rx_channels (put_loop l el w) = rx_channels w"
  "rx_loops (put_loop l el w) = (rx_loops w)(l \<mapsto> el)"
  "rx_loop_in_thread (put_channel c ch w) = rx_loop_in_thread w"
  "rx_loop_in_thread (put_loop l el w) = rx_loop_in_thread w"
  "reactor.more (put_channel c ch w) = reactor.more w"
  "reactor.more (put_loop l el w) = reactor.more w"
  "get_channel c (put_channel c ch w) = Inr ch"
  "get_loop l (put_loop l el w) = Inr el"
  "get_loop l (put_channel c ch w) = get_loop l w"
  "get_channel c (put_loop l el w) = get_channel c w"
  "put_channel c ch' (put_channel c ch w) = put_channel c ch' w"
  by (simp_all add: put_channel_def put_loop_def get_channel_def get_loop_def deref_def)

lemma get_Inr_iff [simp]:
  "get_channel c w = Inr ch \<longleftrightarrow> rx_channels w c = Some ch"
  "get_loop l w = Inr el \<longleftrightarrow> rx_loops w l = Some el"
  by (auto simp: get_channel_def get_loop_def deref_def split: option.splits)

lemma get_ok [simp]:
  "rx_channels w c = Some ch \<Longrightarrow> get_channel c w = Inr ch"
  "rx_loops w l = Some el \<Longrightarrow> get_loop l w = Inr el"
  by simp_all

text \<open>A change to a channel of one loop is invisible to the pollers of the others.\<close>

lemma ep_inv_other:
  assumes inv: "ep_inv l st ep" and ch: "st c = Some ch" "ch_loop ch \<noteq> l" "ch_loop ch' \<noteq> l"
  shows "ep_inv l (st(c \<mapsto> ch')) ep"
proof -
  have nochan: "ep_channels ep fd \<noteq> Some c" for fd
    using ep_invD(2) [OF inv, of fd c] ch by auto
  then have "ep_view (st(c \<mapsto> ch')) ep = ep_view st ep"
    by (auto simp: ep_view_def fun_eq_iff split: option.splits)
  with inv nochan ch show ?thesis by (auto simp: ep_inv_def chan_ok_def)
qed

lemma rx_inv_replace:
  assumes inv: "rx_inv w" and ch: "rx_channels w c = Some ch" and l: "ch_loop ch' = ch_loop ch"
    and ep: "ep_inv (ch_loop ch) ((rx_channels w)(c \<mapsto> ch')) (el_poller el)"
  shows "rx_inv (put_loop (ch_loop ch) el (put_channel c ch' w))"
  unfolding rx_inv_def
proof (intro allI impI)
  fix k ek assume k: "rx_loops (put_loop (ch_loop ch) el (put_channel c ch' w)) k = Some ek"
  show "ep_inv k (rx_channels (put_loop (ch_loop ch) el (put_channel c ch' w))) (el_poller ek)"
  proof (cases "k = ch_loop ch")
    case True
    with k ep show ?thesis by simp
  next
    case False
    with k inv have "ep_inv k (rx_channels w) (el_poller ek)" by (auto simp: rx_inv_def)
    from ep_inv_other [OF this ch, of ch'] False l show ?thesis by simp
  qed
qed

text \<open>Changes to a loop that leave its poller alone, and to a channel that leave what the
  poller reads alone.\<close>

lemma rx_inv_put_loop [wf_intros]:
  "rx_inv w \<Longrightarrow> rx_loops w l = Some el \<Longrightarrow> el_poller el' = el_poller el \<Longrightarrow> rx_inv (put_loop l el' w)"
  by (auto simp: rx_inv_def)

lemma rx_inv_put_channel [wf_intros]:
  "rx_inv w \<Longrightarrow> rx_channels w c = Some ch \<Longrightarrow> ch_loop ch' = ch_loop ch \<Longrightarrow> ch_fd ch' = ch_fd ch \<Longrightarrow>
   ch_events ch' = ch_events ch \<Longrightarrow> ch_index ch' = ch_index ch \<Longrightarrow> rx_inv (put_channel c ch' w)"
  by (auto simp: rx_inv_def intro: ep_inv_frame)

section \<open>Changing the interest set\<close>

lemma set_events_unfold:
  assumes ch: "rx_channels w c = Some ch" and el: "rx_loops w (ch_loop ch) = Some el"
  shows "set_events t c f w =
    bindE (assertE (t = el_tid el)) (\<lambda>_.
    bindE (Epoller_update_channel True c (ch\<lparr>ch_events := f (ch_events ch), ch_added_to_loop := True\<rparr>)
             (el_poller el)) (\<lambda>(ep, ch').
      Inr (put_loop (ch_loop ch) (el\<lparr>el_poller := ep\<rparr>) (put_channel c ch' w))))"
  using assms by (cases "t = el_tid el") (simp_all add: set_events_def upd_channel_def Channel_update_def
        EventLoop_update_channel_def EventLoop_is_in_loop_thread_def)

lemma set_events_ok:
  assumes inv: "rx_inv w" and ch: "rx_channels w c = Some ch" and el: "rx_loops w (ch_loop ch) = Some el"
    and t: "t = el_tid el" and free: "ch_index ch = kNew \<longrightarrow> ep_channels (el_poller el) (ch_fd ch) = None"
  shows "\<exists>ep' i. let ch' = ch\<lparr>ch_events := f (ch_events ch), ch_added_to_loop := True, ch_index := i\<rparr>;
      w' = put_loop (ch_loop ch) (el\<lparr>el_poller := ep'\<rparr>) (put_channel c ch' w)
    in set_events t c f w = Inr w' \<and> rx_inv w' \<and> i \<noteq> kNew \<and>
       (i = kDeleted \<longleftrightarrow> ch_index ch = kAdded \<and> f (ch_events ch) = kNoneEvent) \<and>
       ep_channels ep' = (ep_channels (el_poller el))(ch_fd ch \<mapsto> c) \<and>
       ep_events_size ep' = ep_events_size (el_poller el)"
proof -
  let ?ch1 = "ch\<lparr>ch_events := f (ch_events ch), ch_added_to_loop := True\<rparr>"
  let ?i = "if ch_index ch = kAdded \<and> Channel_is_none_event ?ch1 then kDeleted else kAdded"
  have "ep_inv (ch_loop ch) (rx_channels w) (el_poller el)" using inv el by (simp add: rx_inv_def)
  from update_channel_ok [OF this ch refl, of ?ch1] free obtain ep' where
    ep': "Epoller_update_channel True c ?ch1 (el_poller el) = Inr (ep', Channel_set_index ?i ?ch1)"
    "ep_channels ep' = (ep_channels (el_poller el))(ch_fd ch \<mapsto> c)"
    "ep_inv (ch_loop ch) ((rx_channels w)(c \<mapsto> Channel_set_index ?i ?ch1)) ep'"
    "ep_events_size ep' = ep_events_size (el_poller el)"
    by auto
  have "rx_inv (put_loop (ch_loop ch) (el\<lparr>el_poller := ep'\<rparr>) (put_channel c (Channel_set_index ?i ?ch1) w))"
    by (rule rx_inv_replace [OF inv ch]) (simp_all add: ep'(3), simp add: Channel_set_index_def)
  with set_events_unfold [OF ch el, of t f] t ep' show ?thesis
    by (intro exI [of _ ep'] exI [of _ ?i])
      (auto simp: Let_def Channel_set_index_def Channel_is_none_event_def)
qed

text \<open>Whenever the operation returns, whoever calls it, the invariant is kept.\<close>

lemma set_events_Inr:
  assumes inv: "rx_inv w" and ret: "set_events t c f w = Inr w'"
  shows "rx_inv w'"
proof -
  from ret obtain ch where ch: "rx_channels w c = Some ch"
    by (auto simp: set_events_def upd_channel_def bindE_Inr_iff)
  from ret ch obtain el where el: "rx_loops w (ch_loop ch) = Some el"
    by (auto simp: set_events_def upd_channel_def Channel_update_def EventLoop_update_channel_def bindE_Inr_iff)
  from ret set_events_unfold [OF ch el, of t f] have t: "t = el_tid el"
    and free: "ch_index ch = kNew \<longrightarrow> ep_channels (el_poller el) (ch_fd ch) = None"
    by (auto simp: bindE_Inr_iff Epoller_update_channel_def Let_def split: if_splits)
  from set_events_ok [OF inv ch el t free, of f] ret show ?thesis by (auto simp: Let_def)
qed

section \<open>Removing a channel\<close>

lemma Channel_remove_unfold:
  assumes ch: "rx_channels w c = Some ch" and el: "rx_loops w (ch_loop ch) = Some el"
  shows "Channel_remove t c w =
    bindE (assertE (Channel_is_none_event ch)) (\<lambda>_.
    bindE (assertE (t = el_tid el)) (\<lambda>_.
    bindE (assertE (el_event_handing el \<longrightarrow>
              el_current_active_channel el = Some c \<or> c \<notin> set (el_active_channels el))) (\<lambda>_.
    bindE (Epoller_remove_channel True c (ch\<lparr>ch_added_to_loop := False\<rparr>) (el_poller el)) (\<lambda>(ep, ch').
      Inr (put_loop (ch_loop ch) (el\<lparr>el_poller := ep\<rparr>) (put_channel c ch' w))))))"
  using assms by (cases "t = el_tid el") (simp_all add: Channel_remove_def EventLoop_remove_channel_def
        EventLoop_is_in_loop_thread_def)

lemma Channel_remove_ok:
  assumes inv: "rx_inv w" and ch: "rx_channels w c = Some ch" and el: "rx_loops w (ch_loop ch) = Some el"
    and t: "t = el_tid el" and none: "Channel_is_none_event ch" and reg: "ch_index ch \<noteq> kNew"
    and act: "el_event_handing el \<longrightarrow> el_current_active_channel el = Some c \<or> c \<notin> set (el_active_channels el)"
  shows "\<exists>ep'. let w' = put_loop (ch_loop ch) (el\<lparr>el_poller := ep'\<rparr>)
        (put_channel c (ch\<lparr>ch_added_to_loop := False, ch_index := kNew\<rparr>) w)
    in Channel_remove t c w = Inr w' \<and> rx_inv w' \<and>
       ep_channels ep' = (ep_channels (el_poller el))(ch_fd ch := None) \<and>
       ep_events_size ep' = ep_events_size (el_poller el)"
proof -
  let ?ch1 = "ch\<lparr>ch_added_to_loop := False\<rparr>"
  have "ep_inv (ch_loop ch) (rx_channels w) (el_poller el)" using inv el by (simp add: rx_inv_def)
  moreover have "Channel_is_none_event ?ch1" using none by (simp add: Channel_is_none_event_def)
  ultimately obtain ep' where
    ep': "Epoller_remove_channel True c ?ch1 (el_poller el) = Inr (ep', Channel_set_index kNew ?ch1)"
    "ep_channels ep' = (ep_channels (el_poller el))(ch_fd ch := None)"
    "ep_inv (ch_loop ch) ((rx_channels w)(c \<mapsto> Channel_set_index kNew ?ch1)) ep'"
    "ep_events_size ep' = ep_events_size (el_poller el)"
    using remove_channel_ok [of "ch_loop ch" "rx_channels w" "el_poller el" c ch ?ch1] ch reg by auto
  have "rx_inv (put_loop (ch_loop ch) (el\<lparr>el_poller := ep'\<rparr>) (put_channel c (Channel_set_index kNew ?ch1) w))"
    by (rule rx_inv_replace [OF inv ch]) (simp_all add: ep'(3), simp add: Channel_set_index_def)
  with Channel_remove_unfold [OF ch el, of t] t none act ep' show ?thesis
    by (intro exI [of _ ep']) (simp add: Let_def Channel_set_index_def)
qed

lemma Channel_remove_Inr:
  assumes inv: "rx_inv w" and ret: "Channel_remove t c w = Inr w'"
  shows "rx_inv w'"
proof -
  from ret obtain ch where ch: "rx_channels w c = Some ch"
    by (auto simp: Channel_remove_def bindE_Inr_iff)
  from ret ch obtain el where el: "rx_loops w (ch_loop ch) = Some el"
    by (auto simp: Channel_remove_def EventLoop_remove_channel_def bindE_Inr_iff)
  from ret Channel_remove_unfold [OF ch el, of t] have t: "t = el_tid el"
    and none: "Channel_is_none_event ch" and reg: "ch_index ch \<noteq> kNew"
    and act: "el_event_handing el \<longrightarrow> el_current_active_channel el = Some c \<or> c \<notin> set (el_active_channels el)"
    by (auto simp: bindE_Inr_iff Epoller_remove_channel_def)
  from Channel_remove_ok [OF inv ch el t none reg act] ret show ?thesis by (auto simp: Let_def)
qed

section \<open>Sequences of channel operations\<close>

datatype chan_op = Enable_reading addr | Disable_reading addr | Enable_writing addr
  | Disable_writing addr | Disable_all addr | Remove addr

fun run_chan_op :: "int \<Rightarrow> chan_op \<Rightarrow> ('cb, 'f, 'z) reactor_scheme \<Rightarrow> ('cb, 'f, 'z) reactor_scheme res" where
  "run_chan_op t (Enable_reading c) = Channel_enable_reading t c"
| "run_chan_op t (Disable_reading c) = Channel_disable_reading t c"
| "run_chan_op t (Enable_writing c) = Channel_enable_writing t c"
| "run_chan_op t (Disable_writing c) = Channel_disable_writing t c"
| "run_chan_op t (Disable_all c) = Channel_disable_all t c"
| "run_chan_op t (Remove c) = Channel_remove t c"

fun run_chan_ops :: "(int \<times> chan_op) list \<Rightarrow> ('cb, 'f, 'z) reactor_scheme \<Rightarrow> ('cb, 'f, 'z) reactor_scheme res" where
  "run_chan_ops [] w = Inr w"
| "run_chan_ops ((t, x) # xs) w = bindE (run_chan_op t x w) (run_chan_ops xs)"

lemmas Channel_set_events_defs = Channel_enable_reading_def Channel_disable_reading_def
  Channel_enable_writing_def Channel_disable_writing_def Channel_disable_all_def

lemma run_chan_op_Inr: "rx_inv w \<Longrightarrow> run_chan_op t x w = Inr w' \<Longrightarrow> rx_inv w'"
  by (cases x) (auto simp: Channel_set_events_defs intro: set_events_Inr Channel_remove_Inr)

lemma run_chan_ops_Inr: "rx_inv w \<Longrightarrow> run_chan_ops xs w = Inr w' \<Longrightarrow> rx_inv w'"
proof (induction xs arbitrary: w)
  case (Cons x xs)
  from Cons.prems(2) obtain w1 where w1: "run_chan_op (fst x) (snd x) w = Inr w1" "run_chan_ops xs w1 = Inr w'"
    by (cases x) (auto simp: bindE_Inr_iff)
  from Cons.IH [OF run_chan_op_Inr [OF Cons.prems(1) w1(1)] w1(2)] show ?case .
qed simp

lemma ep_view_iff:
  assumes "ep_inv l st ep"
  shows "ep_view st ep fd = Some (ev, c) \<longleftrightarrow>
    (\<exists>ch. st c = Some ch \<and> ch_loop ch = l \<and> ch_fd ch = fd \<and> ch_index ch = kAdded \<and> ch_events ch = ev)"
proof
  assume "ep_view st ep fd = Some (ev, c)"
  then obtain ch where c: "ep_channels ep fd = Some c" "st c = Some ch" "ch_index ch = kAdded" "ch_events ch = ev"
    by (auto simp: ep_view_def split: option.splits if_splits)
  with ep_invD(2) [OF assms c(1)] show "\<exists>ch. st c = Some ch \<and> ch_loop ch = l \<and> ch_fd ch = fd \<and>
      ch_index ch = kAdded \<and> ch_events ch = ev" by auto
next
  assume "\<exists>ch. st c = Some ch \<and> ch_loop ch = l \<and> ch_fd ch = fd \<and> ch_index ch = kAdded \<and> ch_events ch = ev"
  then obtain ch where ch: "st c = Some ch" "ch_loop ch = l" "ch_fd ch = fd" "ch_index ch = kAdded"
    "ch_events ch = ev" by blast
  with ep_invD(1) [OF assms ch(1)] show "ep_view st ep fd = Some (ev, c)"
    by (auto simp: ep_view_def chan_ok_def)
qed

section \<open>A new loop\<close>

lemma EventLoop_new_ok:
  assumes inv: "rx_inv w" and fresh: "rx_loops w l = None" "rx_channels w c = None"
    and noch: "\<forall>d ch. rx_channels w d = Some ch \<longrightarrow> ch_loop ch \<noteq> l"
    and fds: "fd \<noteq> - 1" "epfd \<noteq> - 1" and thr: "rx_loop_in_thread w t = None"
  shows "\<exists>w' el ch. EventLoop_new t l c fd epfd cb w = Inr w' \<and> rx_inv w' \<and>
    rx_loops w' = (rx_loops w)(l \<mapsto> el) \<and> rx_channels w' = (rx_channels w)(c \<mapsto> ch) \<and>
    rx_loop_in_thread w' = (rx_loop_in_thread w)(t \<mapsto> l) \<and>
    el_tid el = t \<and> el_wakeup_channel el = c \<and> el_pending_functors el = [] \<and> el_wakeups el = 0 \<and>
    \<not> el_looping el \<and> \<not> el_quit el \<and> \<not> el_calling_pending_functors el \<and> \<not> el_event_handing el \<and>
    ep_events_size (el_poller el) = kInitEventListSize \<and> ch_loop ch = l \<and> ch_fd ch = fd \<and> ch_read_callback ch = Some cb \<and> ch_events ch = kReadEvent \<and>
    ch_index ch = kAdded"
proof -
  obtain ep where ep: "Epoller_new epfd = Inr ep" "ep_channels ep = Map.empty" "ep_events_size ep = kInitEventListSize"
    using fds by (auto simp: Epoller_new_def)
  obtain ch0 :: "'a channel" where ch0: "Channel_new l fd = Inr ch0" "ch_loop ch0 = l" "ch_fd ch0 = fd"
    "ch_events ch0 = kNoneEvent" "ch_index ch0 = kNew"
    using fds by (auto simp: Channel_new_def kNoneEvent_def kNew_def)
  let ?el = "\<lparr>el_looping = False, el_quit = False, el_event_handing = False,
      el_calling_pending_functors = False, el_tid = t, el_wakeup_fd = fd, el_wakeup_channel = c,
      el_current_active_channel = None, el_poller = ep, el_active_channels = [],
      el_pending_functors = [], el_wakeups = 0\<rparr>"
  let ?ch = "Channel_set_read_callback cb ch0"
  let ?w1 = "put_channel c ?ch (put_loop l ?el (w\<lparr>rx_loop_in_thread := (rx_loop_in_thread w)(t := Some l)\<rparr>))"
  have ch: "ch_loop ?ch = l" "ch_fd ?ch = fd" "ch_events ?ch = kNoneEvent" "ch_index ?ch = kNew"
    using ch0 by (simp_all add: Channel_set_read_callback_def)
  have "ep_inv k ((rx_channels w)(c \<mapsto> ?ch)) (el_poller ek)"
    if "((rx_loops w)(l \<mapsto> ?el)) k = Some ek" for k ek
    using that ep_inv_new [OF ep(1) noch] rx_invD [OF inv, of k ek] fresh ch
    by (intro ep_inv_fresh) (auto split: if_splits)
  then have inv1: "rx_inv ?w1" by (simp add: rx_inv_def)
  have el1: "rx_loops ?w1 (ch_loop ?ch) = Some ?el" and ch1: "rx_channels ?w1 c = Some ?ch"
    using ch(1) by simp_all
  have free: "ch_index ?ch = kNew \<longrightarrow> ep_channels (el_poller ?el) (ch_fd ?ch) = None" using ep by simp
  from set_events_ok [OF inv1 ch1 el1 _ free, of t "\<lambda>e. e OR kReadEvent"] obtain ep' i where
    w': "set_events t c (\<lambda>e. e OR kReadEvent) ?w1 = Inr (put_loop l (?el\<lparr>el_poller := ep'\<rparr>) (put_channel c
           (?ch\<lparr>ch_events := kReadEvent, ch_added_to_loop := True, ch_index := i\<rparr>) ?w1))" and
    inv': "rx_inv (put_loop l (?el\<lparr>el_poller := ep'\<rparr>) (put_channel c
           (?ch\<lparr>ch_events := kReadEvent, ch_added_to_loop := True, ch_index := i\<rparr>) ?w1))" and
    i: "i \<noteq> kNew" "i \<noteq> kDeleted" and size: "ep_events_size ep' = kInitEventListSize"
    using ch ep(3) by (auto simp: Let_def kNoneEvent_def)
  have "ep_inv l (rx_channels (put_loop l (?el\<lparr>el_poller := ep'\<rparr>) (put_channel c
           (?ch\<lparr>ch_events := kReadEvent, ch_added_to_loop := True, ch_index := i\<rparr>) ?w1))) ep'"
    using rx_invD [OF inv', of l "?el\<lparr>el_poller := ep'\<rparr>"] by simp
  from ep_invD(1) [OF this, of c] i ch have "i = kAdded" by (auto simp: chan_ok_def)
  moreover have "EventLoop_new t l c fd epfd cb w = set_events t c (\<lambda>e. e OR kReadEvent) ?w1"
    using ep ch0 fds thr by (simp add: EventLoop_new_def Channel_enable_reading_def)
  ultimately have new: "EventLoop_new t l c fd epfd cb w = Inr (put_loop l (?el\<lparr>el_poller := ep'\<rparr>) (put_channel c
           (?ch\<lparr>ch_events := kReadEvent, ch_added_to_loop := True, ch_index := i\<rparr>) ?w1))" and "i = kAdded"
    using w' by simp_all
  then show ?thesis
    using inv' ch size by (intro exI [of _ "put_loop l (?el\<lparr>el_poller := ep'\<rparr>) (put_channel c
           (?ch\<lparr>ch_events := kReadEvent, ch_added_to_loop := True, ch_index := i\<rparr>) ?w1)"]
        exI [of _ "?el\<lparr>el_poller := ep'\<rparr>"]
        exI [of _ "?ch\<lparr>ch_events := kReadEvent, ch_added_to_loop := True, ch_index := i\<rparr>"] conjI)
      (simp_all add: Channel_set_read_callback_def)
qed

definition empty_reactor :: "('cb, 'f) reactor" where
  "empty_reactor = \<lparr>rx_channels = Map.empty, rx_loops = Map.empty, rx_loop_in_thread = Map.empty\<rparr>"

lemma empty_reactor_inv [wf_intros]: "rx_inv empty_reactor"
  by (simp add: rx_inv_def empty_reactor_def)

text \<open>A loop at address 0 of thread 7, with its wake-up channel at address 1.\<close>

lemma EventLoop_new_empty:
  "\<exists>w' el ch. EventLoop_new 7 0 1 5 6 cb (empty_reactor :: ('cb, 'f) reactor) = Inr w' \<and> rx_inv w' \<and>
    rx_loops w' = [0 \<mapsto> el] \<and> rx_channels w' = [1 \<mapsto> ch] \<and> el_tid el = 7 \<and> ch_loop ch = 0 \<and>
    ch_index ch = kAdded \<and> ch_events ch = kReadEvent \<and> \<not> el_looping el"
  using EventLoop_new_ok [OF empty_reactor_inv, of 0 1 5 6 7 cb]
  by (auto simp: empty_reactor_def)

section \<open>Properties of the channel operations\<close>

text \<open>
  C11. Whatever operations are performed on the channels of any number of loops, by whichever
  threads, as long as none of them fails an assertion every call of \<open>epoll_ctl\<close> the
  pollers issue is one the kernel accepts (no descriptor is added twice, none is changed or
  deleted that is not there), and the interest list of each loop consists exactly of the
  current events of those of its channels that are marked as added.
\<close>

theorem epoll_interest_in_step:
  assumes "rx_inv w" and "run_chan_ops ops w = Inr w'" and "rx_loops w' l = Some el"
  shows "\<exists>m. interest_list (ep_calls (el_poller el)) = Some m \<and>
    (\<forall>fd ev c. m fd = Some (ev, c) \<longleftrightarrow>
       (\<exists>ch. rx_channels w' c = Some ch \<and> ch_loop ch = l \<and> ch_fd ch = fd \<and> ch_index ch = kAdded \<and>
             ch_events ch = ev))"
proof -
  have "ep_inv l (rx_channels w') (el_poller el)"
    using run_chan_ops_Inr [OF assms(1,2)] assms(3) by (simp add: rx_inv_def)
  then show ?thesis using ep_view_iff [of l "rx_channels w'" "el_poller el"] ep_invD(3) by blast
qed

theorem epoll_interest_in_step_witness:
  "\<exists>w w' :: (unit, unit) reactor. EventLoop_new 7 0 1 5 6 () empty_reactor = Inr w \<and>
     run_chan_ops [(7, Enable_writing 1), (7, Disable_all 1)] w = Inr w' \<and>
     (\<exists>el m. rx_loops w' 0 = Some el \<and> interest_list (ep_calls (el_poller el)) = Some m)"
proof -
  obtain w :: "(unit, unit) reactor" and el ch where w: "EventLoop_new 7 0 1 5 6 () empty_reactor = Inr w" "rx_inv w"
    "rx_loops w = [0 \<mapsto> el]" "rx_channels w = [1 \<mapsto> ch]" "el_tid el = 7" "ch_loop ch = 0" "ch_index ch = kAdded"
    using EventLoop_new_empty [of "()"] by blast
  have "rx_channels w 1 = Some ch" "rx_loops w (ch_loop ch) = Some el" using w by simp_all
  note s1 = set_events_ok [OF w(2) this, of 7 "\<lambda>e. e OR kWriteEvent"]
  obtain w1 el1 ch1 where w1: "Channel_enable_writing 7 1 w = Inr w1" "rx_inv w1"
    "rx_loops w1 0 = Some el1" "rx_channels w1 1 = Some ch1" "el_tid el1 = 7" "ch_loop ch1 = 0" "ch_index ch1 \<noteq> kNew"
    using s1 w by (auto simp: Let_def Channel_enable_writing_def)
  have "rx_loops w1 (ch_loop ch1) = Some el1" using w1 by simp
  note s2 = set_events_ok [OF w1(2,4) this, of 7 "\<lambda>_. kNoneEvent"]
  obtain w2 el2 where w2: "Channel_disable_all 7 1 w1 = Inr w2" "rx_loops w2 0 = Some el2"
    using s2 w1 by (auto simp: Let_def Channel_disable_all_def)
  have run: "run_chan_ops [(7, Enable_writing 1), (7, Disable_all 1)] w = Inr w2"
    using w1 w2 by simp
  from epoll_interest_in_step [OF w(2) run w2(2)] w(1) run w2(2) show ?thesis by blast
qed

text \<open>
  An operation on the interest set, run in the loop's own thread on a channel whose
  descriptor no other channel of the loop is registered under, always succeeds, installs
  exactly the new set, and leaves the channel registered: the poller marks it as deleted
  precisely when it was added and the new set is empty.  In any other thread it fails the
  assertion.
\<close>

theorem Channel_set_events_spec:
  assumes "rx_inv w" and "rx_channels w c = Some ch" and "rx_loops w (ch_loop ch) = Some el"
    and "ch_index ch = kNew \<longrightarrow> ep_channels (el_poller el) (ch_fd ch) = None"
  shows "(t = el_tid el \<longrightarrow> (\<exists>w' ch'. set_events t c f w = Inr w' \<and> rx_inv w' \<and>
            rx_channels w' = (rx_channels w)(c \<mapsto> ch') \<and> ch_events ch' = f (ch_events ch) \<and>
            ch_added_to_loop ch' \<and> EventLoop_has_channel t (ch_loop ch) c w' = Inr True \<and>
            ch_index ch' = (if ch_index ch = kAdded \<and> f (ch_events ch) = kNoneEvent then kDeleted else kAdded))) \<and>
         (t \<noteq> el_tid el \<longrightarrow> set_events t c f w = Inl Assertion_failed)"
proof (cases "t = el_tid el")
  case True
  from set_events_ok [OF assms(1-3) this assms(4), of f] obtain ep' i where
    w': "set_events t c f w = Inr (put_loop (ch_loop ch) (el\<lparr>el_poller := ep'\<rparr>) (put_channel c
           (ch\<lparr>ch_events := f (ch_events ch), ch_added_to_loop := True, ch_index := i\<rparr>) w))"
    and inv: "rx_inv (put_loop (ch_loop ch) (el\<lparr>el_poller := ep'\<rparr>) (put_channel c
           (ch\<lparr>ch_events := f (ch_events ch), ch_added_to_loop := True, ch_index := i\<rparr>) w))"
    and i: "i \<noteq> kNew" "i = kDeleted \<longleftrightarrow> ch_index ch = kAdded \<and> f (ch_events ch) = kNoneEvent"
    and ep': "ep_channels ep' = (ep_channels (el_poller el))(ch_fd ch \<mapsto> c)"
    by (auto simp: Let_def)
  let ?ch' = "ch\<lparr>ch_events := f (ch_events ch), ch_added_to_loop := True, ch_index := i\<rparr>"
  let ?w' = "put_loop (ch_loop ch) (el\<lparr>el_poller := ep'\<rparr>) (put_channel c ?ch' w)"
  have "ep_inv (ch_loop ch) (rx_channels ?w') ep'"
    using rx_invD [OF inv, of "ch_loop ch" "el\<lparr>el_poller := ep'\<rparr>"] by simp
  then have "chan_ok (ch_loop ch) ep' c ?ch'" by (rule ep_invD(1)) simp
  then have "i = (if ch_index ch = kAdded \<and> f (ch_events ch) = kNoneEvent then kDeleted else kAdded)"
    using i by (auto simp: chan_ok_def)
  moreover have "EventLoop_has_channel t (ch_loop ch) c ?w' = Inr True"
    using True ep' by (simp add: EventLoop_has_channel_def Epoller_has_channel_def EventLoop_is_in_loop_thread_def)
  ultimately show ?thesis using True w' inv by (intro conjI impI exI [of _ ?w'] exI [of _ ?ch']) simp_all
next
  case False
  then show ?thesis using set_events_unfold [OF assms(2,3)] by simp
qed

theorem Channel_set_events_spec_witness:
  "\<exists>w w' :: (unit, unit) reactor. EventLoop_new 7 0 1 5 6 () empty_reactor = Inr w \<and>
     set_events 7 1 (\<lambda>_. kNoneEvent) w = Inr w' \<and> set_events 8 1 (\<lambda>_. kNoneEvent) w = Inl Assertion_failed"
proof -
  obtain w :: "(unit, unit) reactor" and el ch where w: "EventLoop_new 7 0 1 5 6 () empty_reactor = Inr w" "rx_inv w"
    "rx_loops w = [0 \<mapsto> el]" "rx_channels w = [1 \<mapsto> ch]" "el_tid el = 7" "ch_loop ch = 0" "ch_index ch = kAdded"
    using EventLoop_new_empty [of "()"] by blast
  have "rx_channels w 1 = Some ch" "rx_loops w (ch_loop ch) = Some el"
    "ch_index ch = kNew \<longrightarrow> ep_channels (el_poller el) (ch_fd ch) = None" using w by simp_all
  from Channel_set_events_spec [OF w(2) this, of 7] Channel_set_events_spec [OF w(2) this, of 8] w
  show ?thesis by auto
qed

end
