(* ===== verification/Loop_Functors.thy ===== *)
theory Loop_Functors
  imports Event_Loop
begin

text \<open>
  The hand-over of functors to an event loop (event_loop.cc: \<open>run_in_loop\<close>,
  \<open>queue_in_loop\<close>, \<open>wakeup\<close>, \<open>handle_read\<close>, \<open>do_pending_functors\<close>,
  \<open>loop\<close>, \<open>quit\<close>) under interleaving.  Other threads run \<open>queue_in_loop\<close> in two
  steps, since the mutex is released between the push and the wake-up; the loop thread blocks
  in \<open>epoll_wait\<close>, handles events, swaps the queue out and runs the functors one by one.
\<close>

section \<open>Steps\<close>

datatype 'f loop_pc =
    Blocked                  \<comment> \<open>in \<open>epoll_wait\<close>\<close>
  | Handling                 \<comment> \<open>dispatching to the active channels\<close>
  | Calling "'f list"        \<comment> \<open>in \<open>do_pending_functors\<close>, with these still to run\<close>
  | Returned                 \<comment> \<open>out of \<open>loop\<close>\<close>

text \<open>\<open>ls_waking\<close>: the threads between their push and their wake-up.  The last two fields
  are history.\<close>

record 'f loop_sys =
  ls_loop :: "'f event_loop"
  ls_pc :: "'f loop_pc"
  ls_waking :: "int set"
  ls_queued :: "'f list"
  ls_executed :: "'f list"

text \<open>The swap at the start of \<open>do_pending_functors\<close>.\<close>

definition EventLoop_swap_functors :: "'f event_loop \<Rightarrow> 'f list \<times> 'f event_loop" where
  "EventLoop_swap_functors el =
     (el_pending_functors el, el\<lparr>el_calling_pending_functors := True, el_pending_functors := []\<rparr>)"

inductive loop_step :: "'f loop_sys \<Rightarrow> 'f loop_sys \<Rightarrow> bool" where
  push: "t \<noteq> el_tid (ls_loop s) \<Longrightarrow> t \<notin> ls_waking s \<Longrightarrow>
    loop_step s (s\<lparr>ls_loop := EventLoop_queue_push f (ls_loop s), ls_waking := insert t (ls_waking s),
                   ls_queued := ls_queued s @ [f]\<rparr>)"
| wake: "t \<in> ls_waking s \<Longrightarrow>
    loop_step s (s\<lparr>ls_loop := EventLoop_queue_wake t (ls_loop s), ls_waking := ls_waking s - {t}\<rparr>)"
| quit: "loop_step s (s\<lparr>ls_loop := EventLoop_quit t (ls_loop s)\<rparr>)"
| own_queue: "ls_pc s = Handling \<or> (\<exists>fs. ls_pc s = Calling fs) \<Longrightarrow>
    loop_step s (s\<lparr>ls_loop := EventLoop_queue_in_loop (el_tid (ls_loop s)) f (ls_loop s),
                   ls_queued := ls_queued s @ [f]\<rparr>)"
| poll_return: "ls_pc s = Blocked \<Longrightarrow> loop_step s (s\<lparr>ls_pc := Handling\<rparr>)"
| handle_wakeup: "ls_pc s = Handling \<Longrightarrow> 0 < el_wakeups (ls_loop s) \<Longrightarrow>
    loop_step s (s\<lparr>ls_loop := EventLoop_handle_read (ls_loop s)\<rparr>)"
| swap: "ls_pc s = Handling \<Longrightarrow> EventLoop_swap_functors (ls_loop s) = (fs, el) \<Longrightarrow>
    loop_step s (s\<lparr>ls_loop := el, ls_pc := Calling fs\<rparr>)"
| call: "ls_pc s = Calling (f # fs) \<Longrightarrow>
    loop_step s (s\<lparr>ls_pc := Calling fs, ls_executed := ls_executed s @ [f]\<rparr>)"
| finish: "ls_pc s = Calling [] \<Longrightarrow>
    loop_step s (s\<lparr>ls_loop := (ls_loop s)\<lparr>el_calling_pending_functors := False\<rparr>,
                   ls_pc := if el_quit (ls_loop s) then Returned else Blocked\<rparr>)"

inductive_cases loop_stepE: "loop_step s s'"

text \<open>The state right after \<open>loop\<close> was entered on a loop nothing was queued on.\<close>

definition loop_start :: "'f event_loop \<Rightarrow> 'f loop_sys" where
  "loop_start el = \<lparr>ls_loop = el\<lparr>el_looping := True, el_quit := False\<rparr>, ls_pc = Blocked, ls_waking = {},
     ls_queued = [], ls_executed = []\<rparr>"

definition loop_ready :: "'f event_loop \<Rightarrow> bool" where
  "loop_ready el \<longleftrightarrow> el_pending_functors el = [] \<and> \<not> el_calling_pending_functors el"

section \<open>Invariant\<close>

definition running :: "'f loop_pc \<Rightarrow> 'f list" where
  "running pc = (case pc of Calling fs \<Rightarrow> fs | _ \<Rightarrow> [])"

definition loop_inv :: "'f loop_sys \<Rightarrow> bool" where
  "loop_inv s \<longleftrightarrow>
     ls_queued s = ls_executed s @ running (ls_pc s) @ el_pending_functors (ls_loop s) \<and>
     (el_calling_pending_functors (ls_loop s) \<longleftrightarrow> (\<exists>fs. ls_pc s = Calling fs)) \<and>
     el_tid (ls_loop s) \<notin> ls_waking s \<and>
     (ls_pc s \<noteq> Handling \<longrightarrow> el_pending_functors (ls_loop s) \<noteq> [] \<longrightarrow>
        0 < el_wakeups (ls_loop s) \<or> ls_waking s \<noteq> {})"

lemmas functor_defs = EventLoop_queue_push_def EventLoop_queue_wake_def EventLoop_quit_def
  EventLoop_queue_in_loop_def EventLoop_handle_read_def EventLoop_swap_functors_def EventLoop_wakeup_def
  EventLoop_is_in_loop_thread_def

lemma loop_inv_start: "loop_ready el \<Longrightarrow> loop_inv (loop_start el)"
  by (simp add: loop_inv_def loop_start_def loop_ready_def running_def)

lemma loop_inv_step: "loop_step s s' \<Longrightarrow> loop_inv s \<Longrightarrow> loop_inv s'"
proof (induction rule: loop_step.induct)
  case (push t s f)
  then show ?case by (auto simp: loop_inv_def functor_defs)
next
  case (wake t s)
  then show ?case by (auto simp: loop_inv_def functor_defs)
next
  case (quit s t)
  then show ?case by (auto simp: loop_inv_def functor_defs Let_def)
next
  case (own_queue s f)
  then show ?case by (auto simp: loop_inv_def functor_defs)
next
  case (handle_wakeup s)
  then show ?case by (simp add: loop_inv_def functor_defs)
qed (auto simp: loop_inv_def running_def functor_defs)

lemma loop_inv_steps: "loop_step\<^sup>*\<^sup>* s s' \<Longrightarrow> loop_inv s \<Longrightarrow> loop_inv s'"
  by (induction rule: rtranclp_induct) (auto dest: loop_inv_step)

section \<open>Properties\<close>

text \<open>
  C14. Functors are executed in the order in which they were queued, by whichever threads, each
  exactly once: in every reachable state the queued functors are those executed, followed by
  those of the batch being run, followed by those pending.
\<close>

theorem functors_fifo:
  assumes "loop_ready el" and "loop_step\<^sup>*\<^sup>* (loop_start el) s"
  shows "ls_queued s = ls_executed s @ running (ls_pc s) @ el_pending_functors (ls_loop s)"
  using loop_inv_steps [OF assms(2) loop_inv_start [OF assms(1)]] by (simp add: loop_inv_def)

definition idle_loop :: "nat event_loop" where
  "idle_loop = \<lparr>el_looping = False, el_quit = False, el_event_handing = False,
     el_calling_pending_functors = False, el_tid = 7, el_wakeup_fd = 5, el_wakeup_channel = 1,
     el_current_active_channel = None,
     el_poller = \<lparr>ep_events_size = 16, ep_channels = Map.empty, ep_calls = []\<rparr>, el_active_channels = [],
     el_pending_functors = [], el_wakeups = 0\<rparr>"

text \<open>Thread 8 has queued functor 42 and not yet woken the loop.\<close>

definition queued_42 :: "nat loop_sys" where
  "queued_42 = (loop_start idle_loop)\<lparr>ls_loop := EventLoop_queue_push 42 (ls_loop (loop_start idle_loop)),
     ls_waking := {8}, ls_queued := [42]\<rparr>"

lemma queued_42_reachable: "loop_ready idle_loop" "loop_step\<^sup>*\<^sup>* (loop_start idle_loop) queued_42"
proof -
  show "loop_ready idle_loop" by (simp add: loop_ready_def idle_loop_def)
  have "loop_step (loop_start idle_loop) queued_42"
    using loop_step.push [of 8 "loop_start idle_loop" 42]
    by (simp add: queued_42_def loop_start_def idle_loop_def)
  then show "loop_step\<^sup>*\<^sup>* (loop_start idle_loop) queued_42" by blast
qed

theorem functors_fifo_witness:
  "ls_queued queued_42 = ls_executed queued_42 @ running (ls_pc queued_42) @ el_pending_functors (ls_loop queued_42)"
  by (rule functors_fifo [OF queued_42_reachable])



text \<open>
  \<open>loop\<close> clears the quit flag when it starts, so a \<open>quit\<close> that comes before it has
  no effect on it: the loop behaves exactly as if \<open>quit\<close> had not been called, except for
  the wake-up another thread leaves behind, and with nothing more reported it is blocked in
  \<open>epoll_wait\<close> with the flag down.
\<close>

theorem quit_before_loop_is_lost:
  assumes "rx_loops w l = Some el" and "el_tid el = t" and "\<not> el_looping el"
  shows "EventLoop_loop alive run runf destroy t l rs (put_loop l (EventLoop_quit t el) w) =
         EventLoop_loop alive run runf destroy t l rs w \<and>
         (\<exists>w' el'. EventLoop_loop alive run runf destroy t l [] (put_loop l (EventLoop_quit t' el) w) = Inr w' \<and>
            rx_loops w' l = Some el' \<and> el_looping el' \<and> \<not> el_quit el')"
proof -
  have put2: "put_loop l a (put_loop l b w) = put_loop l a w" for a b by (simp add: put_loop_def)
  have "EventLoop_loop alive run runf destroy t l rs (put_loop l (EventLoop_quit t el) w) =
        EventLoop_loop alive run runf destroy t l rs w"
    using assms by (simp add: EventLoop_loop_def functor_defs Let_def put2)
  moreover have "EventLoop_loop alive run runf destroy t l [] (put_loop l (EventLoop_quit t' el) w) =
      Inr (put_loop l ((EventLoop_quit t' el)\<lparr>el_looping := True, el_quit := False\<rparr>) w)"
    using assms by (simp add: EventLoop_loop_def EventLoop_loop_body.simps functor_defs Let_def put2)
  ultimately show ?thesis by simp
qed

theorem quit_before_loop_is_lost_witness:
  "\<exists>w' el'. EventLoop_loop (\<lambda>_ _. True) (\<lambda>_ w. Inr w) (\<lambda>_ w. Inr w) (\<lambda>_ _ w. Inr w) 7 0 []
      (put_loop 0 (EventLoop_quit 8 idle_loop)
        (\<lparr>rx_channels = Map.empty, rx_loops = [0 \<mapsto> idle_loop], rx_loop_in_thread = Map.empty\<rparr> :: (nat, nat) reactor)) =
      Inr w' \<and> rx_loops w' 0 = Some el' \<and> el_looping el' \<and> \<not> el_quit el'"
  using quit_before_loop_is_lost [of "\<lparr>rx_channels = Map.empty, rx_loops = [0 \<mapsto> idle_loop],
      rx_loop_in_thread = Map.empty\<rparr> :: (nat, nat) reactor" 0 idle_loop 7 "\<lambda>_ _. True"
      "\<lambda>_ w. Inr w" "\<lambda>_ w. Inr w" "\<lambda>_ _ w. Inr w" "[]" 8]
  by (simp add: idle_loop_def)

end
