(* ===== verification/Inet_Address.thy ===== *)
theory Inet_Address
  imports Clia_Prelude Str_Func
begin

text \<open>
  \<open>clia::net::InetAddress\<close> (net/inet_address.h, net/inet_address.cc): a union of a
  \<open>sockaddr_in\<close> (16 bytes) and a \<open>sockaddr_in6\<close> (28 bytes).  The two structures share
  their first two fields, the family and the port in network byte order; what follows is kept
  as the 24 bytes behind them, in which the IPv4 address is at offset 0 and the IPv6 address at
  offset 4 (behind the flow label).  \<open>inet_pton\<close> and \<open>inet_ntop\<close> are arguments.
\<close>

section \<open>The class\<close>

type_synonym port = "16 word"

definition AF_INET :: "16 word" where "AF_INET = 2"
definition AF_INET6 :: "16 word" where "AF_INET6 = 10"
definition INET_ADDRSTRLEN :: nat where "INET_ADDRSTRLEN = 16"
definition INET6_ADDRSTRLEN :: nat where "INET6_ADDRSTRLEN = 46"

record inet_address =
  ia_family :: "16 word"
  ia_port :: port              \<comment> \<open>as stored: in network byte order\<close>
  ia_rest :: "byte list"       \<comment> \<open>the 24 bytes behind the port\<close>

text \<open>On a little-endian machine \<open>htobe16\<close> and \<open>be16toh\<close> both exchange the bytes.\<close>

definition htobe16 :: "port \<Rightarrow> port" where
  "htobe16 p = of_nat (unat p mod 256 * 256 + unat p div 256)"

definition be16toh :: "port \<Rightarrow> port" where
  "be16toh p = htobe16 p"

text \<open>Storing an address in the bytes behind the port.\<close>

definition write_sin_addr :: "byte list \<Rightarrow> inet_address \<Rightarrow> inet_address" where
  "write_sin_addr bs a = a\<lparr>ia_rest := bs @ drop 4 (ia_rest a)\<rparr>"

definition write_sin6_addr :: "byte list \<Rightarrow> inet_address \<Rightarrow> inet_address" where
  "write_sin6_addr bs a = a\<lparr>ia_rest := take 4 (ia_rest a) @ bs @ drop 20 (ia_rest a)\<rparr>"

definition sin_addr :: "inet_address \<Rightarrow> byte list" where
  "sin_addr a = take 4 (ia_rest a)"

definition sin6_addr :: "inet_address \<Rightarrow> byte list" where
  "sin6_addr a = take 16 (drop 4 (ia_rest a))"

definition InetAddress_default :: inet_address where
  "InetAddress_default = \<lparr>ia_family = 0, ia_port = 0, ia_rest = replicate 24 0\<rparr>"

text \<open>\<open>pton fam ip\<close> is \<open>None\<close> when \<open>inet_pton\<close> fails; the address then stays zero.
  The IPv4 branch clears the 16 bytes of the \<open>sockaddr_in\<close> only: \<open>junk\<close> is what was in
  the last 12 bytes of the union.\<close>

definition InetAddress_new ::
    "(16 word \<Rightarrow> string \<Rightarrow> byte list option) \<Rightarrow> byte list \<Rightarrow> string \<Rightarrow> port \<Rightarrow> bool \<Rightarrow> inet_address" where
  "InetAddress_new pton junk ip port is_ipv6 =
     (if is_ipv6 \<or> CHR '':'' \<in> set ip
      then let a = \<lparr>ia_family = AF_INET6, ia_port = htobe16 port, ia_rest = replicate 24 0\<rparr>
           in (case pton AF_INET6 ip of None \<Rightarrow> a | Some bs \<Rightarrow> write_sin6_addr bs a)
      else let a = \<lparr>ia_family = AF_INET, ia_port = htobe16 port, ia_rest = replicate 12 0 @ junk\<rparr>
           in (case pton AF_INET ip of None \<Rightarrow> a | Some bs \<Rightarrow> write_sin_addr bs a))"

definition InetAddress_family :: "inet_address \<Rightarrow> 16 word" where
  "InetAddress_family a = ia_family a"

text \<open>The text is what \<open>inet_ntop\<close> left in the caller's buffer of size \<open>sz\<close>;
  \<open>None\<close> means that it returned a null pointer.\<close>

definition InetAddress_get_ipaddr ::
    "(16 word \<Rightarrow> byte list \<Rightarrow> string option) \<Rightarrow> nat \<Rightarrow> inet_address \<Rightarrow> (int \<times> string option) res" where
  "InetAddress_get_ipaddr ntop sz a =
     (if InetAddress_family a = AF_INET
      then bindE (assertE (INET_ADDRSTRLEN < sz)) (\<lambda>_.
             let p = ntop AF_INET (sin_addr a) in Inr (if p \<noteq> None then 0 else - 1, p))
      else if InetAddress_family a = AF_INET6
      then bindE (assertE (INET6_ADDRSTRLEN < sz)) (\<lambda>_. Inr (- 1, ntop AF_INET6 (sin6_addr a)))
      else Inr (- 1, None))"

text \<open>The buffer of \<open>get_addr\<close> is zeroed first, so a failing \<open>inet_ntop\<close> leaves the
  empty string there.\<close>

definition ntop_text :: "string option \<Rightarrow> string" where
  "ntop_text r = (case r of None \<Rightarrow> [] | Some s \<Rightarrow> s)"

definition InetAddress_get_addr :: "(16 word \<Rightarrow> byte list \<Rightarrow> string option) \<Rightarrow> inet_address \<Rightarrow> string" where
  "InetAddress_get_addr ntop a =
     (if InetAddress_family a = AF_INET6
      then ''['' @ ntop_text (ntop AF_INET6 (sin6_addr a)) @ '']:'' @ decimal (unat (be16toh (ia_port a)))
      else ntop_text (ntop AF_INET (sin_addr a)) @ '':'' @ decimal (unat (be16toh (ia_port a))))"

section \<open>Ports and addresses come back\<close>

lemma swap_bytes_nat: "(n mod 256 * 256 + n div 256) mod 256 * 256 + (n mod 256 * 256 + n div 256) div 256 = n"
  if "n < 65536" for n :: nat
proof -
  have "n div 256 < 256" using that by simp
  then show ?thesis by simp
qed

lemma be16toh_htobe16 [simp]: "be16toh (htobe16 p) = p"
proof -
  have n: "unat p < 65536" using unsigned_less [of p] by simp
  have "unat p mod 256 * 256 + unat p div 256 < 65536"
    using n mod_less_divisor [of 256 "unat p"] by (simp add: less_mult_imp_div_less)
  then have "unat (htobe16 p) = unat p mod 256 * 256 + unat p div 256"
    unfolding htobe16_def unat_of_nat by (simp del: of_nat_add of_nat_mult)
  then show ?thesis
    using swap_bytes_nat [OF n] by (simp add: be16toh_def htobe16_def [of "htobe16 p"] del: of_nat_add of_nat_mult)
qed

lemma family_distinct [simp]: "AF_INET \<noteq> AF_INET6" "AF_INET6 \<noteq> AF_INET"
  by (simp_all add: AF_INET_def AF_INET6_def)

lemma InetAddress_new_v6:
  assumes "is_ipv6 \<or> CHR '':'' \<in> set ip" and "pton AF_INET6 ip = Some bs" and "length bs = 16"
  shows "ia_family (InetAddress_new pton junk ip port is_ipv6) = AF_INET6 \<and>
    ia_port (InetAddress_new pton junk ip port is_ipv6) = htobe16 port \<and>
    sin6_addr (InetAddress_new pton junk ip port is_ipv6) = bs"
  using assms by (simp add: InetAddress_new_def write_sin6_addr_def sin6_addr_def)

lemma InetAddress_new_v4:
  assumes "\<not> is_ipv6" "CHR '':'' \<notin> set ip" and "pton AF_INET ip = Some bs" and "length bs = 4"
  shows "ia_family (InetAddress_new pton junk ip port is_ipv6) = AF_INET \<and>
    ia_port (InetAddress_new pton junk ip port is_ipv6) = htobe16 port \<and>
    sin_addr (InetAddress_new pton junk ip port is_ipv6) = bs"
  using assms by (simp add: InetAddress_new_def write_sin_addr_def sin_addr_def)

section \<open>Properties\<close>

text \<open>
  C33. Constructing an address from a text and a port and printing it gives the text and the
  port back, for both families, whatever was in the memory before: in brackets for IPv6.  The
  hypotheses are what is documented of \<open>inet_pton\<close> (it accepts the text and stores 4 or
  16 bytes) and that the text is the one \<open>inet_ntop\<close> prints.
\<close>

theorem InetAddress_roundtrip:
  assumes "pton (if is_ipv6 \<or> CHR '':'' \<in> set ip then AF_INET6 else AF_INET) ip = Some bs"
    and "length bs = (if is_ipv6 \<or> CHR '':'' \<in> set ip then 16 else 4)"
    and "ntop (if is_ipv6 \<or> CHR '':'' \<in> set ip then AF_INET6 else AF_INET) bs = Some ip"
  shows "InetAddress_get_addr ntop (InetAddress_new pton junk ip port is_ipv6) =
    (if is_ipv6 \<or> CHR '':'' \<in> set ip then ''['' @ ip @ '']:'' @ decimal (unat port)
     else ip @ '':'' @ decimal (unat port))"
proof (cases "is_ipv6 \<or> CHR '':'' \<in> set ip")
  case True
  with assms InetAddress_new_v6 [OF True, of pton bs junk port] show ?thesis
    by (simp add: InetAddress_get_addr_def InetAddress_family_def ntop_text_def)
next
  case False
  with assms InetAddress_new_v4 [of is_ipv6 ip pton bs junk port] show ?thesis
    by (simp add: InetAddress_get_addr_def InetAddress_family_def ntop_text_def)
qed

theorem InetAddress_roundtrip_witness:
  "InetAddress_get_addr (\<lambda>_ _. Some ''0.0.0.0'')
     (InetAddress_new (\<lambda>_ _. Some [0, 0, 0, 0]) [] ''0.0.0.0'' 1818 False) = ''0.0.0.0:1818''"
proof -
  have "decimal (unat (1818 :: port)) = ''1818''" by code_simp
  with InetAddress_roundtrip [of "\<lambda>_ _. Some [0, 0, 0, 0]" False "''0.0.0.0''" "[0, 0, 0, 0]"
      "\<lambda>_ _. Some ''0.0.0.0''" "[]" 1818]
  show ?thesis by simp
qed

text \<open>
  \<open>get_ipaddr\<close> reports success exactly for an IPv4 address that \<open>inet_ntop\<close> can
  print: for an IPv6 address it reports failure although the text was produced.
\<close>

theorem InetAddress_get_ipaddr_result:
  assumes "INET6_ADDRSTRLEN < sz"
  shows "\<exists>p. InetAddress_get_ipaddr ntop sz a =
      Inr (if ia_family a = AF_INET \<and> ntop AF_INET (sin_addr a) \<noteq> None then 0 else - 1, p) \<and>
    (ia_family a = AF_INET6 \<longrightarrow> p = ntop AF_INET6 (sin6_addr a))"
  using assms by (auto simp: InetAddress_get_ipaddr_def InetAddress_family_def INET6_ADDRSTRLEN_def
      INET_ADDRSTRLEN_def)

theorem InetAddress_get_ipaddr_result_witness:
  "InetAddress_get_ipaddr (\<lambda>_ _. Some ''::1'') 64
     (InetAddress_new (\<lambda>_ _. Some (replicate 15 0 @ [1])) [] ''::1'' 80 True) = Inr (- 1, Some ''::1'')"
proof -
  have "INET6_ADDRSTRLEN < 64" by (simp add: INET6_ADDRSTRLEN_def)
  from InetAddress_get_ipaddr_result [OF this, of "\<lambda>_ _. Some ''::1''"
      "InetAddress_new (\<lambda>_ _. Some (replicate 15 0 @ [1])) [] ''::1'' 80 True"]
  show ?thesis by (auto simp: InetAddress_new_def write_sin6_addr_def Let_def)
qed

end
