(* ===== verification/Socket.thy ===== *)
theory Socket
  imports Net_Buffer Inet_Address
begin

text \<open>
  \<open>clia::net::Socket\<close> (net/socket.h, net/socket.cc) and the system calls the network layer
  makes.  The kernel is not part of the program: it is an argument of every operation that
  makes a system call, a record of functions that give the result of a call from the calls
  made before it, so that every sequence of results is the behaviour of some kernel.
  \<open>kernel_ok\<close> states what is documented of the results.  The operations return the
  sequence of calls made so far, extended by their own.
\<close>

section \<open>System calls\<close>

datatype sys_call =
    Sys_socket "16 word" int
  | Sys_bind int inet_address nat int
  | Sys_listen int int
  | Sys_accept4 int "(int \<times> inet_address) io_result"
  | Sys_setsockopt int int int int
  | Sys_getsockopt int
  | Sys_shutdown int
  | Sys_close int
  | Sys_write int "byte list" "nat io_result"
  | Sys_readv int "byte list io_result"

type_synonym trace = "sys_call list"

record kernel =
  k_socket :: "trace \<Rightarrow> 16 word \<Rightarrow> int"
  k_bind :: "trace \<Rightarrow> int \<Rightarrow> inet_address \<Rightarrow> nat \<Rightarrow> int"
  k_listen :: "trace \<Rightarrow> int \<Rightarrow> int"
  k_accept4 :: "trace \<Rightarrow> int \<Rightarrow> (int \<times> inet_address) io_result"
  k_write :: "trace \<Rightarrow> int \<Rightarrow> byte list \<Rightarrow> nat io_result"
  k_readv :: "trace \<Rightarrow> int \<Rightarrow> nat \<Rightarrow> byte list io_result"

text \<open>A call transfers no more than it was asked to, and an accepted descriptor is not
  negative.\<close>

definition kernel_ok :: "kernel \<Rightarrow> bool" where
  "kernel_ok k \<longleftrightarrow>
     (\<forall>tr fd bs n. k_write k tr fd bs = Io_ok n \<longrightarrow> n \<le> length bs) \<and>
     (\<forall>tr fd cap bs. k_readv k tr fd cap = Io_ok bs \<longrightarrow> length bs \<le> cap) \<and>
     (\<forall>tr fd cfd peer. k_accept4 k tr fd = Io_ok (cfd, peer) \<longrightarrow> 0 \<le> cfd)"

lemma kernel_okD:
  "kernel_ok k \<Longrightarrow> k_write k tr fd bs = Io_ok n \<Longrightarrow> n \<le> length bs"
  "kernel_ok k \<Longrightarrow> k_readv k tr fd cap = Io_ok xs \<Longrightarrow> length xs \<le> cap"
  "kernel_ok k \<Longrightarrow> k_accept4 k tr fd = Io_ok (cfd, peer) \<Longrightarrow> 0 \<le> cfd"
  unfolding kernel_ok_def by blast+

text \<open>The bytes of a call that reached the socket, and all of them.\<close>

fun call_bytes :: "int \<Rightarrow> sys_call \<Rightarrow> byte list" where
  "call_bytes fd (Sys_write fd' bs (Io_ok n)) = (if fd = fd' then take n bs else [])"
| "call_bytes fd _ = []"

definition wire :: "int \<Rightarrow> trace \<Rightarrow> byte list" where
  "wire fd tr = concat (map (call_bytes fd) tr)"

lemma wire_simps [simp]: "wire fd [] = []" "wire fd (tr @ tr') = wire fd tr @ wire fd tr'"
  "wire fd (c # tr) = call_bytes fd c @ wire fd tr"
  by (simp_all add: wire_def)

section \<open>Error numbers and options\<close>

definition EPERM :: int where "EPERM = 1"
definition EINTR :: int where "EINTR = 4"
definition EBADF :: int where "EBADF = 9"
definition EAGAIN :: int where "EAGAIN = 11"
definition EWOULDBLOCK :: int where "EWOULDBLOCK = 11"
definition ENOMEM :: int where "ENOMEM = 12"
definition EFAULT :: int where "EFAULT = 14"
definition EINVAL :: int where "EINVAL = 22"
definition ENFILE :: int where "ENFILE = 23"
definition EMFILE :: int where "EMFILE = 24"
definition EPIPE :: int where "EPIPE = 32"
definition EPROTO :: int where "EPROTO = 71"
definition ENOTSOCK :: int where "ENOTSOCK = 88"
definition EOPNOTSUPP :: int where "EOPNOTSUPP = 95"
definition ECONNABORTED :: int where "ECONNABORTED = 103"
definition ECONNRESET :: int where "ECONNRESET = 104"
definition ENOBUFS :: int where "ENOBUFS = 105"

lemmas errno_defs = EPERM_def EINTR_def EBADF_def EAGAIN_def EWOULDBLOCK_def ENOMEM_def EFAULT_def
  EINVAL_def ENFILE_def EMFILE_def EPIPE_def EPROTO_def ENOTSOCK_def EOPNOTSUPP_def ECONNABORTED_def
  ECONNRESET_def ENOBUFS_def

definition SOL_SOCKET :: int where "SOL_SOCKET = 1"
definition SO_REUSEADDR :: int where "SO_REUSEADDR = 2"
definition SO_KEEPALIVE :: int where "SO_KEEPALIVE = 9"
definition SO_REUSEPORT :: int where "SO_REUSEPORT = 15"
definition IPPROTO_TCP :: int where "IPPROTO_TCP = 6"
definition TCP_NODELAY :: int where "TCP_NODELAY = 1"

section \<open>The class\<close>

text \<open>A socket object is its descriptor.\<close>

definition Socket_new :: "int \<Rightarrow> int res" where
  "Socket_new sockfd = bindE (assertE (sockfd \<noteq> - 1)) (\<lambda>_. Inr sockfd)"

definition Socket_destroy :: "int \<Rightarrow> trace \<Rightarrow> trace" where
  "Socket_destroy sockfd tr = tr @ [Sys_close sockfd]"

definition sizeof_sockaddr_in :: nat where "sizeof_sockaddr_in = 16"
definition sizeof_sockaddr_in6 :: nat where "sizeof_sockaddr_in6 = 28"

definition Socket_bind_address :: "kernel \<Rightarrow> inet_address \<Rightarrow> int \<Rightarrow> trace \<Rightarrow> trace res" where
  "Socket_bind_address k local_addr sockfd tr =
     (let call = (\<lambda>len. let ret = k_bind k tr sockfd local_addr len
                        in if ret < 0 then Inl Abort_called
                           else Inr (tr @ [Sys_bind sockfd local_addr len ret]))
      in if InetAddress_family local_addr = AF_INET then call sizeof_sockaddr_in
         else if InetAddress_family local_addr = AF_INET6 then call sizeof_sockaddr_in6
         else Inl Abort_called)"

definition Socket_listen :: "kernel \<Rightarrow> int \<Rightarrow> trace \<Rightarrow> trace res" where
  "Socket_listen k sockfd tr =
     (let ret = k_listen k tr sockfd
      in if ret < 0 then Inl Abort_called else Inr (tr @ [Sys_listen sockfd ret]))"

text \<open>The first two groups of cases of the switch on \<open>errno\<close> are logged; any other error
  ends the process.  The result is the descriptor with the peer's address, or -1.\<close>

definition accept_logged :: "int \<Rightarrow> bool" where
  "accept_logged e \<longleftrightarrow>
     e \<in> {EAGAIN, ECONNABORTED, EINTR, EPROTO, EPERM, EMFILE} \<or>
     e \<in> {EBADF, EFAULT, EINVAL, ENFILE, ENOBUFS, ENOMEM, ENOTSOCK, EOPNOTSUPP}"

definition Socket_accept :: "kernel \<Rightarrow> int \<Rightarrow> trace \<Rightarrow> (int \<times> inet_address option \<times> trace) res" where
  "Socket_accept k sockfd tr =
     (let r = k_accept4 k tr sockfd; tr' = tr @ [Sys_accept4 sockfd r]
      in case r of
           Io_error e \<Rightarrow> if accept_logged e then Inr (- 1, None, tr') else Inl Abort_called
         | Io_ok (connfd, peer) \<Rightarrow> Inr (connfd, Some peer, tr'))"

definition Socket_shutdown_write :: "int \<Rightarrow> trace \<Rightarrow> trace" where
  "Socket_shutdown_write sockfd tr = tr @ [Sys_shutdown sockfd]"

definition optval :: "bool \<Rightarrow> int" where "optval on = (if on then 1 else 0)"

definition Socket_set_tcp_nodelay :: "bool \<Rightarrow> int \<Rightarrow> trace \<Rightarrow> trace" where
  "Socket_set_tcp_nodelay on sockfd tr = tr @ [Sys_setsockopt sockfd IPPROTO_TCP TCP_NODELAY (optval on)]"

definition Socket_set_reuse_addr :: "bool \<Rightarrow> int \<Rightarrow> trace \<Rightarrow> trace" where
  "Socket_set_reuse_addr on sockfd tr = tr @ [Sys_setsockopt sockfd SOL_SOCKET SO_REUSEADDR (optval on)]"

definition Socket_set_reuse_port :: "bool \<Rightarrow> int \<Rightarrow> trace \<Rightarrow> trace" where
  "Socket_set_reuse_port on sockfd tr = tr @ [Sys_setsockopt sockfd SOL_SOCKET SO_REUSEPORT (optval on)]"

definition Socket_set_keeyalive :: "bool \<Rightarrow> int \<Rightarrow> trace \<Rightarrow> trace" where
  "Socket_set_keeyalive on sockfd tr = tr @ [Sys_setsockopt sockfd SOL_SOCKET SO_KEEPALIVE (optval on)]"

lemmas socket_option_defs = Socket_set_tcp_nodelay_def Socket_set_reuse_addr_def
  Socket_set_reuse_port_def Socket_set_keeyalive_def Socket_shutdown_write_def

lemma socket_calls_wire [simp]:
  "wire fd (Socket_set_tcp_nodelay on s tr) = wire fd tr"
  "wire fd (Socket_set_reuse_addr on s tr) = wire fd tr"
  "wire fd (Socket_set_reuse_port on s tr) = wire fd tr"
  "wire fd (Socket_set_keeyalive on s tr) = wire fd tr"
  "wire fd (Socket_shutdown_write s tr) = wire fd tr"
  "wire fd (Socket_destroy s tr) = wire fd tr"
  by (simp_all add: socket_option_defs Socket_destroy_def)

lemma Socket_accept_fd:
  assumes "kernel_ok k" and "Socket_accept k s tr = Inr (fd, peer, tr')"
  shows "(0 \<le> fd) = (peer \<noteq> None)"
  using assms kernel_okD(3) [OF assms(1)]
  by (auto simp: Socket_accept_def Let_def split: io_result.splits if_splits)

end
