(* ===== verification/Tcp_Connection.thy ===== *)
theory Tcp_Connection
  imports Event_Loop Socket
begin

unbundle bit_operations_syntax

text \<open>
  \<open>clia::net::TcpConnection\<close> (net/tcp_connection.h, net/tcp_connection.cc): the state of a
  connection, the handlers its channel calls, and sending through the output buffer.  The store
  of the reactor is extended with the connections, the memory that callers pass to \<open>send\<close>
  by pointer, and the sequence of system calls made.  The callbacks a program installs are
  values of a type \<open>'u\<close>; what they do is an argument \<open>u\<close>, run on the whole store, so
  that a callback may itself send, shut down or queue.
\<close>

section \<open>The store\<close>

text \<open>The callbacks bound to channels (event_loop.cc, tcp_connection.cc, acceptor.cc) and the
  functors bound for event loops (tcp_connection.cc, tcp_server.cc), by the objects bound in
  them.  \<open>Send_in_loop a p len\<close> holds the pointer \<open>p\<close>, not a copy of the data.\<close>

datatype chan_cb = Loop_read addr | Conn_read addr | Conn_write addr | Conn_close addr
  | Conn_error addr | Accept_read addr

datatype 'u net_functor = Send_in_loop addr addr nat | Shutdown_in_loop addr
  | Connect_established addr | Connect_destoryed addr | Write_complete 'u addr
  | Acceptor_listen_in_loop addr | Remove_connection_in_loop addr addr

datatype 'u user_call = On_connection 'u addr | On_message 'u addr | On_write_complete 'u addr
  | On_close 'u addr

datatype conn_state = kDisconnected | kConnecting | kConnected | kDisconnecting

record 'u tcp_connection =
  tc_loop :: addr
  tc_fd :: int
  tc_state :: conn_state
  tc_reading :: bool
  tc_socket :: int
  tc_channel :: addr
  tc_peer_addr :: inet_address
  tc_connection_callback :: "'u option"
  tc_message_callback :: "'u option"
  tc_write_complete_callback :: "'u option"
  tc_close_callback :: "'u option"
  tc_input_buffer :: net_buffer
  tc_output_buffer :: net_buffer

record 'u net = "(chan_cb, 'u net_functor) reactor" +
  nx_conns :: "addr \<Rightarrow> 'u tcp_connection option"
  nx_memory :: "addr \<Rightarrow> byte list option"
  nx_trace :: trace

definition get_conn :: "addr \<Rightarrow> ('u, 'z) net_scheme \<Rightarrow> 'u tcp_connection res" where
  "get_conn a w = deref (nx_conns w) a"

definition put_conn :: "addr \<Rightarrow> 'u tcp_connection \<Rightarrow> ('u, 'z) net_scheme \<Rightarrow> ('u, 'z) net_scheme" where
  "put_conn a tc w = w\<lparr>nx_conns := (nx_conns w)(a \<mapsto> tc)\<rparr>"

definition upd_conn :: "addr \<Rightarrow> ('u tcp_connection \<Rightarrow> 'u tcp_connection) \<Rightarrow> ('u, 'z) net_scheme \<Rightarrow>
    ('u, 'z) net_scheme res" where
  "upd_conn a f w = bindE (get_conn a w) (\<lambda>tc. Inr (put_conn a (f tc) w))"

definition read_memory :: "addr \<Rightarrow> nat \<Rightarrow> ('u, 'z) net_scheme \<Rightarrow> byte list res" where
  "read_memory p len w = bindE (deref (nx_memory w) p) (\<lambda>bs. read_range bs 0 len)"

text \<open>The assertion at the start of the handlers.\<close>

definition assert_in_loop :: "int \<Rightarrow> addr \<Rightarrow> ('u, 'z) net_scheme \<Rightarrow> unit res" where
  "assert_in_loop t l w = bindE (get_loop l w) (\<lambda>el. assertE (EventLoop_is_in_loop_thread t el))"

text \<open>A callback that may be unset.\<close>

definition call_user :: "('u user_call \<Rightarrow> ('u, 'z) net_scheme \<Rightarrow> ('u, 'z) net_scheme res) \<Rightarrow>
    ('u \<Rightarrow> addr \<Rightarrow> 'u user_call) \<Rightarrow> 'u option \<Rightarrow> addr \<Rightarrow> ('u, 'z) net_scheme \<Rightarrow> ('u, 'z) net_scheme res" where
  "call_user u ev cb a w = (case cb of None \<Rightarrow> Inr w | Some f \<Rightarrow> u (ev f a) w)"

section \<open>Construction and destruction\<close>

text \<open>\<open>a\<close> and \<open>c\<close> are the addresses of the connection and of its channel.\<close>

definition TcpConnection_new ::
    "addr \<Rightarrow> addr \<Rightarrow> addr \<Rightarrow> int \<Rightarrow> inet_address \<Rightarrow> ('u, 'z) net_scheme \<Rightarrow> ('u, 'z) net_scheme res" where
  "TcpConnection_new a c loop sockfd peer w =
     bindE (Socket_new sockfd) (\<lambda>s.
     bindE (Channel_new loop sockfd) (\<lambda>ch.
     bindE (Buffer_new kInitialSize) (\<lambda>b.
       let ch' = Channel_set_error_callback (Conn_error a) (Channel_set_close_callback (Conn_close a)
                   (Channel_set_write_callback (Conn_write a) (Channel_set_read_callback (Conn_read a) ch)));
           w1 = put_conn a \<lparr>tc_loop = loop, tc_fd = sockfd, tc_state = kConnecting, tc_reading = True,
                  tc_socket = s, tc_channel = c, tc_peer_addr = peer, tc_connection_callback = None,
                  tc_message_callback = None, tc_write_complete_callback = None,
                  tc_close_callback = None, tc_input_buffer = b, tc_output_buffer = b\<rparr> (put_channel c ch' w)
       in Inr (w1\<lparr>nx_trace := Socket_set_keeyalive True s (nx_trace w1)\<rparr>))))"

text \<open>The destructor, with the members in the reverse order of their declaration.\<close>

definition TcpConnection_destroy :: "int \<Rightarrow> addr \<Rightarrow> ('u, 'z) net_scheme \<Rightarrow> ('u, 'z) net_scheme res" where
  "TcpConnection_destroy t a w =
     bindE (get_conn a w) (\<lambda>tc.
     bindE (assertE (kDisconnected = tc_state tc)) (\<lambda>_.
     bindE (Channel_destroy t (tc_channel tc) w) (\<lambda>w1.
       Inr (w1\<lparr>nx_conns := (nx_conns w1)(a := None), nx_trace := Socket_destroy (tc_socket tc) (nx_trace w1)\<rparr>))))"

definition TcpConnection_connected :: "'u tcp_connection \<Rightarrow> bool" where
  "TcpConnection_connected tc \<longleftrightarrow> kConnected = tc_state tc"

definition TcpConnection_set_connection_callback :: "'u \<Rightarrow> 'u tcp_connection \<Rightarrow> 'u tcp_connection" where
  "TcpConnection_set_connection_callback cb tc = tc\<lparr>tc_connection_callback := Some cb\<rparr>"

definition TcpConnection_set_message_callback :: "'u \<Rightarrow> 'u tcp_connection \<Rightarrow> 'u tcp_connection" where
  "TcpConnection_set_message_callback cb tc = tc\<lparr>tc_message_callback := Some cb\<rparr>"

definition TcpConnection_set_write_complete_callback :: "'u \<Rightarrow> 'u tcp_connection \<Rightarrow> 'u tcp_connection" where
  "TcpConnection_set_write_complete_callback cb tc = tc\<lparr>tc_write_complete_callback := Some cb\<rparr>"

definition TcpConnection_set_close_callback :: "'u \<Rightarrow> 'u tcp_connection \<Rightarrow> 'u tcp_connection" where
  "TcpConnection_set_close_callback cb tc = tc\<lparr>tc_close_callback := Some cb\<rparr>"

definition TcpConnection_set_state :: "conn_state \<Rightarrow> 'u tcp_connection \<Rightarrow> 'u tcp_connection" where
  "TcpConnection_set_state st tc = tc\<lparr>tc_state := st\<rparr>"

section \<open>Sending\<close>

text \<open>The two occurrences of \<open>queue_in_loop(bind(write_complete_callback_, ...))\<close>.\<close>

definition queue_write_complete :: "int \<Rightarrow> addr \<Rightarrow> 'u tcp_connection \<Rightarrow> ('u, 'z) net_scheme \<Rightarrow> ('u, 'z) net_scheme res" where
  "queue_write_complete t a tc w =
     (case tc_write_complete_callback tc of
        None \<Rightarrow> Inr w
      | Some cb \<Rightarrow> upd_loop (tc_loop tc) (EventLoop_queue_in_loop t (Write_complete cb a)) w)"

definition TcpConnection_shutdown_in_loop :: "int \<Rightarrow> addr \<Rightarrow> ('u, 'z) net_scheme \<Rightarrow> ('u, 'z) net_scheme res" where
  "TcpConnection_shutdown_in_loop t a w =
     bindE (get_conn a w) (\<lambda>tc. bindE (assert_in_loop t (tc_loop tc) w) (\<lambda>_.
     bindE (get_channel (tc_channel tc) w) (\<lambda>ch.
       if \<not> Channel_is_writing ch
       then Inr (w\<lparr>nx_trace := Socket_shutdown_write (tc_socket tc) (nx_trace w)\<rparr>) else Inr w)))"

text \<open>The direct \<open>write\<close>: the number of bytes written, whether an error other than
  \<open>EWOULDBLOCK\<close> occurred that counts as fatal, and the store after it.\<close>

definition TcpConnection_write_directly ::
    "kernel \<Rightarrow> int \<Rightarrow> addr \<Rightarrow> 'u tcp_connection \<Rightarrow> byte list \<Rightarrow> ('u, 'z) net_scheme \<Rightarrow>
     (nat \<times> bool \<times> ('u, 'z) net_scheme) res" where
  "TcpConnection_write_directly k t a tc data w =
     (let r = k_write k (nx_trace w) (tc_fd tc) data;
          w1 = w\<lparr>nx_trace := nx_trace w @ [Sys_write (tc_fd tc) data r]\<rparr>
      in case r of
           Io_ok n \<Rightarrow> bindE (if length data = n then queue_write_complete t a tc w1 else Inr w1) (\<lambda>w2.
                        Inr (n, False, w2))
         | Io_error e \<Rightarrow> Inr (0, e \<noteq> EWOULDBLOCK \<and> (EPIPE = e \<or> ECONNRESET \<noteq> 0), w1))"

text \<open>The rest goes to the output buffer, and the channel waits for the socket.\<close>

definition TcpConnection_buffer_rest ::
    "int \<Rightarrow> addr \<Rightarrow> 'u tcp_connection \<Rightarrow> chan_cb channel \<Rightarrow> byte list \<Rightarrow> nat \<Rightarrow> bool \<Rightarrow>
     ('u, 'z) net_scheme \<Rightarrow> ('u, 'z) net_scheme res" where
  "TcpConnection_buffer_rest t a tc ch data nwrote fault_error w =
     (if \<not> fault_error \<and> nwrote < length data
      then bindE (Buffer_append (drop nwrote data) (tc_output_buffer tc)) (\<lambda>b.
           bindE (upd_conn a (\<lambda>tc. tc\<lparr>tc_output_buffer := b\<rparr>) w) (\<lambda>w2.
             if \<not> Channel_is_writing ch then Channel_enable_writing t (tc_channel tc) w2
             else Inr w2))
      else Inr w)"

definition TcpConnection_send_in_loop ::
    "kernel \<Rightarrow> int \<Rightarrow> addr \<Rightarrow> addr \<Rightarrow> nat \<Rightarrow> ('u, 'z) net_scheme \<Rightarrow> ('u, 'z) net_scheme res" where
  "TcpConnection_send_in_loop k t a p len w =
     bindE (get_conn a w) (\<lambda>tc. bindE (assert_in_loop t (tc_loop tc) w) (\<lambda>_.
       if kDisconnected = tc_state tc then Inr w
       else bindE (get_channel (tc_channel tc) w) (\<lambda>ch.
            bindE (read_memory p len w) (\<lambda>data.
            bindE (if \<not> Channel_is_writing ch \<and> Buffer_readable_bytes (tc_output_buffer tc) = 0
                   then TcpConnection_write_directly k t a tc data w else Inr (0, False, w)) (\<lambda>(nwrote, fault_error, w1).
            bindE (assertE (nwrote \<le> len)) (\<lambda>_.
              TcpConnection_buffer_rest t a tc ch data nwrote fault_error w1))))))"

text \<open>\<open>run_in_loop\<close> runs the functor at once in the loop's own thread; the interpreter it is
  given runs the function bound in that functor.\<close>

definition TcpConnection_send ::
    "kernel \<Rightarrow> int \<Rightarrow> addr \<Rightarrow> addr \<Rightarrow> nat \<Rightarrow> ('u, 'z) net_scheme \<Rightarrow> ('u, 'z) net_scheme res" where
  "TcpConnection_send k t a p len w =
     bindE (get_conn a w) (\<lambda>tc.
       if kConnected = tc_state tc
       then bindE (get_loop (tc_loop tc) w) (\<lambda>el.
              if EventLoop_is_in_loop_thread t el then TcpConnection_send_in_loop k t a p len w
              else EventLoop_run_in_loop (\<lambda>_. TcpConnection_send_in_loop k t a p len) t (tc_loop tc)
                     (Send_in_loop a p len) w)
       else Inr w)"

definition TcpConnection_shutdown :: "int \<Rightarrow> addr \<Rightarrow> ('u, 'z) net_scheme \<Rightarrow> ('u, 'z) net_scheme res" where
  "TcpConnection_shutdown t a w =
     bindE (get_conn a w) (\<lambda>tc.
       if kConnected = tc_state tc
       then EventLoop_run_in_loop (\<lambda>_. TcpConnection_shutdown_in_loop t a) t (tc_loop tc) (Shutdown_in_loop a)
              (put_conn a (TcpConnection_set_state kDisconnecting tc) w)
       else Inr w)"

section \<open>Handlers\<close>

definition TcpConnection_connect_established ::
    "('u user_call \<Rightarrow> ('u, 'z) net_scheme \<Rightarrow> ('u, 'z) net_scheme res) \<Rightarrow> int \<Rightarrow> addr \<Rightarrow>
     ('u, 'z) net_scheme \<Rightarrow> ('u, 'z) net_scheme res" where
  "TcpConnection_connect_established u t a w =
     bindE (get_conn a w) (\<lambda>tc. bindE (assert_in_loop t (tc_loop tc) w) (\<lambda>_.
     bindE (assertE (kConnecting = tc_state tc)) (\<lambda>_.
     bindE (upd_channel (tc_channel tc) (Channel_tie a)
              (put_conn a (TcpConnection_set_state kConnected tc) w)) (\<lambda>w1.
     bindE (Channel_enable_reading t (tc_channel tc) w1)
       (call_user u On_connection (tc_connection_callback tc) a)))))"

definition TcpConnection_connect_destoryed ::
    "('u user_call \<Rightarrow> ('u, 'z) net_scheme \<Rightarrow> ('u, 'z) net_scheme res) \<Rightarrow> int \<Rightarrow> addr \<Rightarrow>
     ('u, 'z) net_scheme \<Rightarrow> ('u, 'z) net_scheme res" where
  "TcpConnection_connect_destoryed u t a w =
     bindE (get_conn a w) (\<lambda>tc. bindE (assert_in_loop t (tc_loop tc) w) (\<lambda>_.
     bindE (if kConnected = tc_state tc
            then bindE (Channel_disable_all t (tc_channel tc)
                          (put_conn a (TcpConnection_set_state kDisconnected tc) w))
                   (call_user u On_connection (tc_connection_callback tc) a)
            else Inr w)
       (Channel_remove t (tc_channel tc))))"

definition TcpConnection_handle_close ::
    "('u user_call \<Rightarrow> ('u, 'z) net_scheme \<Rightarrow> ('u, 'z) net_scheme res) \<Rightarrow> int \<Rightarrow> addr \<Rightarrow>
     ('u, 'z) net_scheme \<Rightarrow> ('u, 'z) net_scheme res" where
  "TcpConnection_handle_close u t a w =
     bindE (get_conn a w) (\<lambda>tc. bindE (assert_in_loop t (tc_loop tc) w) (\<lambda>_.
     bindE (assertE (kConnected = tc_state tc \<or> kDisconnecting = tc_state tc)) (\<lambda>_.
     bindE (Channel_disable_all t (tc_channel tc)
              (put_conn a (TcpConnection_set_state kDisconnected tc) w)) (\<lambda>w1.
     bindE (call_user u On_connection (tc_connection_callback tc) a w1) (\<lambda>w2.
     bindE (get_conn a w2) (\<lambda>tc2. call_user u On_close (tc_close_callback tc2) a w2))))))"

text \<open>\<open>handle_error\<close> asks for the pending error and logs it.\<close>

definition TcpConnection_handle_error :: "addr \<Rightarrow> ('u, 'z) net_scheme \<Rightarrow> ('u, 'z) net_scheme res" where
  "TcpConnection_handle_error a w =
     bindE (get_conn a w) (\<lambda>tc. Inr (w\<lparr>nx_trace := nx_trace w @ [Sys_getsockopt (tc_fd tc)]\<rparr>))"

definition TcpConnection_handle_read ::
    "kernel \<Rightarrow> ('u user_call \<Rightarrow> ('u, 'z) net_scheme \<Rightarrow> ('u, 'z) net_scheme res) \<Rightarrow> int \<Rightarrow> addr \<Rightarrow>
     ('u, 'z) net_scheme \<Rightarrow> ('u, 'z) net_scheme res" where
  "TcpConnection_handle_read k u t a w =
     bindE (get_conn a w) (\<lambda>tc. bindE (assert_in_loop t (tc_loop tc) w) (\<lambda>_.
       let r = k_readv k (nx_trace w) (tc_fd tc)
                 (unat (Buffer_writable_bytes (tc_input_buffer tc)) + kExtraBuf)
       in bindE (Buffer_read_fd r (tc_input_buffer tc)) (\<lambda>(n, b).
            let w1 = put_conn a (tc\<lparr>tc_input_buffer := b\<rparr>)
                       (w\<lparr>nx_trace := nx_trace w @ [Sys_readv (tc_fd tc) r]\<rparr>)
            in if 0 < n then call_user u On_message (tc_message_callback tc) a w1
               else if 0 = n then TcpConnection_handle_close u t a w1
               else TcpConnection_handle_error a w1)))"

definition TcpConnection_handle_write ::
    "kernel \<Rightarrow> int \<Rightarrow> addr \<Rightarrow> ('u, 'z) net_scheme \<Rightarrow> ('u, 'z) net_scheme res" where
  "TcpConnection_handle_write k t a w =
     bindE (get_conn a w) (\<lambda>tc. bindE (assert_in_loop t (tc_loop tc) w) (\<lambda>_.
     bindE (get_channel (tc_channel tc) w) (\<lambda>ch.
       if Channel_is_writing ch
       then let data = nb_contents (tc_output_buffer tc); r = k_write k (nx_trace w) (tc_fd tc) data
            in bindE (Buffer_write_fd r (tc_output_buffer tc)) (\<lambda>(n, b).
                 let w1 = put_conn a (tc\<lparr>tc_output_buffer := b\<rparr>)
                            (w\<lparr>nx_trace := nx_trace w @ [Sys_write (tc_fd tc) data r]\<rparr>)
                 in if 0 < n \<and> Buffer_readable_bytes b = 0
                    then bindE (Channel_disable_writing t (tc_channel tc) w1) (\<lambda>w2.
                         bindE (queue_write_complete t a tc w2) (\<lambda>w3.
                           if kDisconnecting = tc_state tc then TcpConnection_shutdown_in_loop t a w3
                           else Inr w3))
                    else Inr w1)
       else Inr w)))"

section \<open>Invariant of a connection\<close>

lemma net_store_simps [simp]:
  "nx_conns (put_channel c ch w) = nx_conns w" "nx_conns (put_loop l el w) = nx_conns w"
  "nx_memory (put_channel c ch w) = nx_memory w" "nx_memory (put_loop l el w) = nx_memory w"
  "nx_trace (put_channel c ch w) = nx_trace w" "nx_trace (put_loop l el w) = nx_trace w"
  "nx_conns (put_conn a tc w) = (nx_conns w)(a \<mapsto> tc)"
  "nx_memory (put_conn a tc w) = nx_memory w" "nx_trace (put_conn a tc w) = nx_trace w"
  "rx_channels (put_conn a tc w) = rx_channels w" "rx_loops (put_conn a tc w) = rx_loops w"
  "rx_loop_in_thread (put_conn a tc w) = rx_loop_in_thread w"
  "get_channel c (put_conn a tc w) = get_channel c w" "get_loop l (put_conn a tc w) = get_loop l w"
  "get_channel c (w\<lparr>nx_trace := tr\<rparr>) = get_channel c w" "get_loop l (w\<lparr>nx_trace := tr\<rparr>) = get_loop l w"
  "rx_inv (put_conn a tc w) = rx_inv w" "rx_inv (w\<lparr>nx_trace := tr\<rparr>) = rx_inv w"
  by (simp_all add: put_channel_def put_loop_def put_conn_def get_channel_def get_loop_def rx_inv_def)

lemma get_conn_Inr_iff [simp]: "get_conn a w = Inr tc \<longleftrightarrow> nx_conns w a = Some tc"
  by (auto simp: get_conn_def deref_def split: option.splits)

lemma get_conn_ok [simp]: "nx_conns w a = Some tc \<Longrightarrow> get_conn a w = Inr tc"
  by simp

text \<open>The connection \<open>tc\<close> at \<open>a\<close>, its channel \<open>ch\<close>, registered with its loop
  \<open>el\<close>.\<close>

definition conn_base :: "addr \<Rightarrow> 'u tcp_connection \<Rightarrow> chan_cb channel \<Rightarrow> 'u net_functor event_loop \<Rightarrow>
    ('u, 'z) net_scheme \<Rightarrow> bool" where
  "conn_base a tc ch el w \<longleftrightarrow> rx_inv w \<and> nx_conns w a = Some tc \<and>
     rx_channels w (tc_channel tc) = Some ch \<and> rx_loops w (tc_loop tc) = Some el \<and>
     ch_loop ch = tc_loop tc \<and> ch_fd ch = tc_fd tc \<and> ch_index ch \<noteq> kNew \<and>
     nb_inv (tc_input_buffer tc) \<and> nb_inv (tc_output_buffer tc)"

text \<open>A live connection waits for the socket to become writable exactly when bytes wait in the
  output buffer.\<close>

definition conn_live :: "'u tcp_connection \<Rightarrow> chan_cb channel \<Rightarrow> bool" where
  "conn_live tc ch \<longleftrightarrow> tc_state tc \<in> {kConnected, kDisconnecting} \<and>
     (Channel_is_writing ch \<longleftrightarrow> nb_contents (tc_output_buffer tc) \<noteq> [])"

lemma conn_baseD:
  assumes "conn_base a tc ch el w"
  shows "rx_inv w" "nx_conns w a = Some tc" "rx_channels w (tc_channel tc) = Some ch"
    "rx_loops w (tc_loop tc) = Some el" "ch_loop ch = tc_loop tc" "ch_fd ch = tc_fd tc"
    "ch_index ch \<noteq> kNew" "nb_inv (tc_input_buffer tc)" "nb_inv (tc_output_buffer tc)"
  using assms by (simp_all add: conn_base_def)

lemma conn_base_assert [simp]:
  "conn_base a tc ch el w \<Longrightarrow> assert_in_loop t (tc_loop tc) w = assertE (t = el_tid el)"
  by (simp add: assert_in_loop_def conn_baseD EventLoop_is_in_loop_thread_def)

lemma conn_base_assert_ok:
  "conn_base a tc ch el w \<Longrightarrow> t = el_tid el \<Longrightarrow> assert_in_loop t (tc_loop tc) w = Inr ()"
  by simp

lemma conn_base_trace [simp]: "conn_base a tc ch el (w\<lparr>nx_trace := tr\<rparr>) = conn_base a tc ch el w"
  by (simp add: conn_base_def)

lemma conn_base_queue:
  "conn_base a tc ch el w \<Longrightarrow> conn_base a tc ch (EventLoop_queue_in_loop t f el)
     (put_loop (tc_loop tc) (EventLoop_queue_in_loop t f el) w)"
  using rx_inv_put_loop [of w "tc_loop tc" el "EventLoop_queue_in_loop t f el"]
  by (simp add: conn_base_def EventLoop_queue_in_loop_def EventLoop_queue_wake_def EventLoop_queue_push_def
      EventLoop_wakeup_def)

lemma queue_in_loop_tid [simp]: "el_tid (EventLoop_queue_in_loop t f el) = el_tid el"
  by (simp add: EventLoop_queue_in_loop_def EventLoop_queue_wake_def EventLoop_queue_push_def
      EventLoop_wakeup_def)

lemma conn_base_put:
  "conn_base a tc ch el w \<Longrightarrow> tc_channel tc' = tc_channel tc \<Longrightarrow> tc_loop tc' = tc_loop tc \<Longrightarrow>
   tc_fd tc' = tc_fd tc \<Longrightarrow> nb_inv (tc_input_buffer tc') \<Longrightarrow> nb_inv (tc_output_buffer tc') \<Longrightarrow>
   conn_base a tc' ch el (put_conn a tc' w)"
  by (simp add: conn_base_def)

text \<open>Changing the interest set of the connection's channel.\<close>

lemma conn_set_events:
  assumes base: "conn_base a tc ch el w" and t: "t = el_tid el"
  shows "\<exists>w' ch' el'. set_events t (tc_channel tc) f w = Inr w' \<and> conn_base a tc ch' el' w' \<and>
    ch_events ch' = f (ch_events ch) \<and> ch' = ch\<lparr>ch_events := f (ch_events ch), ch_added_to_loop := True,
      ch_index := ch_index ch'\<rparr> \<and>
    el' = el\<lparr>el_poller := el_poller el'\<rparr> \<and> nx_trace w' = nx_trace w \<and> nx_memory w' = nx_memory w \<and>
    nx_conns w' = nx_conns w \<and> rx_loops w' = (rx_loops w)(tc_loop tc \<mapsto> el')"
proof -
  note D = conn_baseD [OF base]
  have l: "rx_loops w (ch_loop ch) = Some el" using D by simp
  from set_events_ok [OF D(1,3) l t, of f] D(7) obtain ep' i where
    w': "set_events t (tc_channel tc) f w = Inr (put_loop (ch_loop ch) (el\<lparr>el_poller := ep'\<rparr>)
      (put_channel (tc_channel tc) (ch\<lparr>ch_events := f (ch_events ch), ch_added_to_loop := True, ch_index := i\<rparr>) w))"
    and inv: "rx_inv (put_loop (ch_loop ch) (el\<lparr>el_poller := ep'\<rparr>)
      (put_channel (tc_channel tc) (ch\<lparr>ch_events := f (ch_events ch), ch_added_to_loop := True, ch_index := i\<rparr>) w))"
    and i: "i \<noteq> kNew" by (auto simp: Let_def)
  then show ?thesis
    using D by (intro exI [of _ "put_loop (ch_loop ch) (el\<lparr>el_poller := ep'\<rparr>)
      (put_channel (tc_channel tc) (ch\<lparr>ch_events := f (ch_events ch), ch_added_to_loop := True, ch_index := i\<rparr>) w)"]
      exI [of _ "ch\<lparr>ch_events := f (ch_events ch), ch_added_to_loop := True, ch_index := i\<rparr>"]
      exI [of _ "el\<lparr>el_poller := ep'\<rparr>"]) (simp add: conn_base_def)
qed

section \<open>Sending, branch by branch\<close>

text \<open>What the operations on the output side leave alone.\<close>

definition same_conn :: "addr \<Rightarrow> 'u tcp_connection \<Rightarrow> 'u net_functor event_loop \<Rightarrow> ('u, 'z) net_scheme \<Rightarrow>
    'u tcp_connection \<Rightarrow> 'u net_functor event_loop \<Rightarrow> ('u, 'z) net_scheme \<Rightarrow> bool" where
  "same_conn a tc el w tc' el' w' \<longleftrightarrow> tc' = tc\<lparr>tc_output_buffer := tc_output_buffer tc'\<rparr> \<and>
     el_tid el' = el_tid el \<and> nx_memory w' = nx_memory w"

lemma same_connD:
  assumes "same_conn a tc el w tc' el' w'"
  shows "tc_state tc' = tc_state tc" "tc_fd tc' = tc_fd tc" "tc_loop tc' = tc_loop tc"
    "tc_channel tc' = tc_channel tc" "tc_input_buffer tc' = tc_input_buffer tc"
    "tc_socket tc' = tc_socket tc" "el_tid el' = el_tid el" "nx_memory w' = nx_memory w"
proof -
  obtain b where "tc' = tc\<lparr>tc_output_buffer := b\<rparr>" using assms by (auto simp: same_conn_def)
  then show "tc_state tc' = tc_state tc" "tc_fd tc' = tc_fd tc" "tc_loop tc' = tc_loop tc"
    "tc_channel tc' = tc_channel tc" "tc_input_buffer tc' = tc_input_buffer tc"
    "tc_socket tc' = tc_socket tc" by simp_all
  show "el_tid el' = el_tid el" "nx_memory w' = nx_memory w" using assms by (simp_all add: same_conn_def)
qed

lemma same_conn_start:
  "same_conn a tc el1 w1 tc' el' w' \<Longrightarrow> el_tid el1 = el_tid el \<Longrightarrow> nx_memory w1 = nx_memory w \<Longrightarrow>
   same_conn a tc el w tc' el' w'"
  by (simp add: same_conn_def)

lemma readable_zero: "nb_inv b \<Longrightarrow> (Buffer_readable_bytes b = 0) = (nb_contents b = [])"
  using unat_readable [of b] by (metis length_0_conv unat_eq_zero)

text \<open>Bytes go to the output buffer.\<close>

lemma conn_buffer:
  assumes base: "conn_base a tc ch el w" and t: "t = el_tid el" and xs: "xs \<noteq> []"
    and room: "unat (nb_writer (tc_output_buffer tc)) + length xs \<le> vector_max_size"
  shows "\<exists>w' tc' ch' el'.
    bindE (Buffer_append xs (tc_output_buffer tc)) (\<lambda>b.
      bindE (upd_conn a (\<lambda>tc. tc\<lparr>tc_output_buffer := b\<rparr>) w) (\<lambda>w2.
        if \<not> Channel_is_writing ch then Channel_enable_writing t (tc_channel tc) w2 else Inr w2)) = Inr w' \<and>
    conn_base a tc' ch' el' w' \<and> Channel_is_writing ch' \<and> same_conn a tc el w tc' el' w' \<and>
    nb_contents (tc_output_buffer tc') = nb_contents (tc_output_buffer tc) @ xs \<and>
    unat (nb_writer (tc_output_buffer tc')) \<le> unat (nb_writer (tc_output_buffer tc)) + length xs \<and>
    nx_trace w' = nx_trace w"
proof -
  note D = conn_baseD [OF base]
  obtain b where b: "Buffer_append xs (tc_output_buffer tc) = Inr b" "nb_inv b"
    "nb_contents b = nb_contents (tc_output_buffer tc) @ xs"
    "unat (nb_writer b) \<le> unat (nb_writer (tc_output_buffer tc)) + length xs"
    using Buffer_append_ok [OF D(9) room] by auto
  let ?tc = "tc\<lparr>tc_output_buffer := b\<rparr>"
  have base1: "conn_base a ?tc ch el (put_conn a ?tc w)"
    by (rule conn_base_put [OF base]) (use b D in simp_all)
  have upd: "upd_conn a (\<lambda>tc. tc\<lparr>tc_output_buffer := b\<rparr>) w = Inr (put_conn a ?tc w)"
    using D by (simp add: upd_conn_def)
  show ?thesis
  proof (cases "Channel_is_writing ch")
    case True
    then show ?thesis
      using b upd base1 by (intro exI [of _ "put_conn a ?tc w"] exI [of _ ?tc] exI [of _ ch] exI [of _ el])
        (simp add: same_conn_def)
  next
    case False
    from conn_set_events [OF base1 t, of "\<lambda>e. e OR kWriteEvent"] obtain w' ch' el' where
      w': "set_events t (tc_channel tc) (\<lambda>e. e OR kWriteEvent) (put_conn a ?tc w) = Inr w'"
      "conn_base a ?tc ch' el' w'" "ch_events ch' = ch_events ch OR kWriteEvent"
      "el' = el\<lparr>el_poller := el_poller el'\<rparr>" "nx_trace w' = nx_trace w" "nx_memory w' = nx_memory w"
      by auto
    have wr: "Channel_is_writing ch'"
      using w'(3) interest_bits(3) [of ch] by (simp add: Channel_is_writing_def)
    have tid: "el_tid el' = el_tid el" by (subst w'(4)) simp
    from False b upd w' wr tid show ?thesis
      by (intro exI [of _ w'] exI [of _ ?tc] exI [of _ ch'] exI [of _ el'])
        (simp add: same_conn_def Channel_enable_writing_def)
  qed
qed

lemma queue_write_complete_ok:
  assumes "conn_base a tc ch el w"
  shows "\<exists>w' el'. queue_write_complete t a tc w = Inr w' \<and> conn_base a tc ch el' w' \<and>
    el_tid el' = el_tid el \<and> nx_trace w' = nx_trace w \<and> nx_memory w' = nx_memory w \<and>
    el_pending_functors el' = el_pending_functors el @
      (case tc_write_complete_callback tc of None \<Rightarrow> [] | Some cb \<Rightarrow> [Write_complete cb a])"
proof (cases "tc_write_complete_callback tc")
  case None
  with assms show ?thesis by (auto simp: queue_write_complete_def)
next
  case (Some cb)
  note D = conn_baseD [OF assms]
  have "el_pending_functors (EventLoop_queue_in_loop t (Write_complete cb a) el) =
        el_pending_functors el @ [Write_complete cb a]"
    by (simp add: EventLoop_queue_in_loop_def EventLoop_queue_wake_def EventLoop_queue_push_def
        EventLoop_wakeup_def)
  with Some conn_base_queue [OF assms, of t "Write_complete cb a"] D show ?thesis
    by (simp add: queue_write_complete_def upd_loop_def) (blast intro: queue_in_loop_tid)
qed

lemma buffer_rest_ok:
  assumes base: "conn_base a tc ch el1 w1" and live: "conn_live tc ch" and t: "t = el_tid el1"
    and n: "n \<le> length data"
    and room: "unat (nb_writer (tc_output_buffer tc)) + length data \<le> vector_max_size"
  shows "\<exists>w' tc' ch' el'. TcpConnection_buffer_rest t a tc ch data n False w1 = Inr w' \<and>
    conn_base a tc' ch' el' w' \<and> conn_live tc' ch' \<and> same_conn a tc el1 w1 tc' el' w' \<and>
    unat (nb_writer (tc_output_buffer tc')) \<le> unat (nb_writer (tc_output_buffer tc)) + length data \<and>
    nx_trace w' = nx_trace w1 \<and>
    nb_contents (tc_output_buffer tc') = nb_contents (tc_output_buffer tc) @ drop n data"
proof (cases "n < length data")
  case True
  then have ne: "drop n data \<noteq> []" by simp
  have room1: "unat (nb_writer (tc_output_buffer tc)) + length (drop n data) \<le> vector_max_size"
    using room by simp
  from conn_buffer [OF base t ne room1] True obtain w' tc' ch' el' where
    w': "TcpConnection_buffer_rest t a tc ch data n False w1 = Inr w'" "conn_base a tc' ch' el' w'"
    "Channel_is_writing ch'" "same_conn a tc el1 w1 tc' el' w'" "nx_trace w' = nx_trace w1"
    "nb_contents (tc_output_buffer tc') = nb_contents (tc_output_buffer tc) @ drop n data"
    "unat (nb_writer (tc_output_buffer tc')) \<le> unat (nb_writer (tc_output_buffer tc)) + length data"
    by (auto simp: TcpConnection_buffer_rest_def)
  have "conn_live tc' ch'" using live w'(3,6) ne same_connD(1) [OF w'(4)] by (simp add: conn_live_def)
  with w' show ?thesis by blast
next
  case False
  with n base live show ?thesis
    by (intro exI [of _ w1] exI [of _ tc] exI [of _ ch] exI [of _ el1])
      (simp add: same_conn_def TcpConnection_buffer_rest_def)
qed

text \<open>The direct write: all the cases of the kernel's answer.\<close>

lemma write_directly_ok:
  assumes k: "kernel_ok k" and base: "conn_base a tc ch el w"
  shows "\<exists>n fault w1 el1. TcpConnection_write_directly k t a tc data w = Inr (n, fault, w1) \<and>
    n \<le> length data \<and> conn_base a tc ch el1 w1 \<and> el_tid el1 = el_tid el \<and> nx_memory w1 = nx_memory w \<and>
    wire (tc_fd tc) (nx_trace w1) = wire (tc_fd tc) (nx_trace w) @ take n data \<and>
    (fault \<longrightarrow> n = 0 \<and> (\<exists>e. k_write k (nx_trace w) (tc_fd tc) data = Io_error e \<and> e \<noteq> EWOULDBLOCK))"
proof -
  let ?r = "k_write k (nx_trace w) (tc_fd tc) data"
  let ?w1 = "w\<lparr>nx_trace := nx_trace w @ [Sys_write (tc_fd tc) data ?r]\<rparr>"
  have base1: "conn_base a tc ch el ?w1" using base by simp
  show ?thesis
  proof (cases ?r)
    case (Io_error e)
    with base1 show ?thesis by (simp add: TcpConnection_write_directly_def) blast
  next
    case (Io_ok n)
    then have n: "n \<le> length data" using kernel_okD(1) [OF k] by blast
    obtain w2 el2 where w2: "(if length data = n then queue_write_complete t a tc ?w1 else Inr ?w1) = Inr w2"
      "conn_base a tc ch el2 w2" "el_tid el2 = el_tid el" "nx_trace w2 = nx_trace ?w1" "nx_memory w2 = nx_memory w"
      using queue_write_complete_ok [OF base1, of t] base1 by (cases "length data = n") auto
    have "TcpConnection_write_directly k t a tc data w = Inr (n, False, w2)"
      using w2(1) unfolding TcpConnection_write_directly_def Let_def Io_ok io_result.case
      by (simp split: if_splits)
    with n w2 Io_ok show ?thesis
      by (intro exI [of _ n] exI [of _ False] exI [of _ w2] exI [of _ el2]) simp
  qed
qed

text \<open>The outcome of \<open>send_in_loop\<close> on a live connection in its own thread.  In the last
  case the direct write failed with an error other than \<open>EWOULDBLOCK\<close>.\<close>

lemma send_in_loop_ok:
  assumes k: "kernel_ok k" and base: "conn_base a tc ch el w" and live: "conn_live tc ch"
    and t: "t = el_tid el" and mem: "read_memory p len w = Inr data"
    and room: "unat (nb_writer (tc_output_buffer tc)) + length data \<le> vector_max_size"
  shows "\<exists>w' tc' ch' el'. TcpConnection_send_in_loop k t a p len w = Inr w' \<and>
    conn_base a tc' ch' el' w' \<and> conn_live tc' ch' \<and> same_conn a tc el w tc' el' w' \<and>
    unat (nb_writer (tc_output_buffer tc')) \<le> unat (nb_writer (tc_output_buffer tc)) + length data \<and>
    (wire (tc_fd tc) (nx_trace w') @ nb_contents (tc_output_buffer tc') =
       wire (tc_fd tc) (nx_trace w) @ nb_contents (tc_output_buffer tc) @ data \<or>
     wire (tc_fd tc) (nx_trace w') = wire (tc_fd tc) (nx_trace w) \<and>
       nb_contents (tc_output_buffer tc') = [] \<and> nb_contents (tc_output_buffer tc) = [] \<and>
       (\<exists>e. k_write k (nx_trace w) (tc_fd tc) data = Io_error e \<and> e \<noteq> EWOULDBLOCK))"
proof -
  note D = conn_baseD [OF base]
  have len: "length data = len" using mem by (auto simp: read_memory_def bindE_Inr_iff read_range_def split: if_splits)
  have st: "kDisconnected \<noteq> tc_state tc" using live by (auto simp: conn_live_def)
  have send: "TcpConnection_send_in_loop k t a p len w =
     bindE (if \<not> Channel_is_writing ch \<and> nb_contents (tc_output_buffer tc) = []
            then TcpConnection_write_directly k t a tc data w else Inr (0, False, w)) (\<lambda>(nwrote, fault, w1).
     bindE (assertE (nwrote \<le> len)) (\<lambda>_. TcpConnection_buffer_rest t a tc ch data nwrote fault w1))"
    using conn_base_assert_ok [OF base t] D(2,3) st mem readable_zero [OF D(9)]
    unfolding TcpConnection_send_in_loop_def by simp
  show ?thesis
  proof (cases "Channel_is_writing ch")
    case True
    with send have "TcpConnection_send_in_loop k t a p len w = TcpConnection_buffer_rest t a tc ch data 0 False w" by simp
    with buffer_rest_ok [OF base live t _ room, of 0] show ?thesis by fastforce
  next
    case False
    then have out: "nb_contents (tc_output_buffer tc) = []" using live by (simp add: conn_live_def)
    obtain n fault w1 el1 where w1: "TcpConnection_write_directly k t a tc data w = Inr (n, fault, w1)"
      "n \<le> length data" "conn_base a tc ch el1 w1" "el_tid el1 = el_tid el" "nx_memory w1 = nx_memory w"
      "wire (tc_fd tc) (nx_trace w1) = wire (tc_fd tc) (nx_trace w) @ take n data"
      "fault \<longrightarrow> n = 0 \<and> (\<exists>e. k_write k (nx_trace w) (tc_fd tc) data = Io_error e \<and> e \<noteq> EWOULDBLOCK)"
      using write_directly_ok [OF k base, of t data] by blast
    have eq: "TcpConnection_send_in_loop k t a p len w = TcpConnection_buffer_rest t a tc ch data n fault w1"
      using send False out w1(1,2) len by simp
    show ?thesis
    proof (cases fault)
      case True
      with eq w1 live out show ?thesis
        by (intro exI [of _ w1] exI [of _ tc] exI [of _ ch] exI [of _ el1])
          (simp add: same_conn_def TcpConnection_buffer_rest_def)
    next
      case nofault: False
      have t1: "t = el_tid el1" using t w1(4) by simp
      from buffer_rest_ok [OF w1(3) live t1 w1(2) room] eq nofault obtain w' tc' ch' el' where
        "TcpConnection_send_in_loop k t a p len w = Inr w'" "conn_base a tc' ch' el' w'" "conn_live tc' ch'"
        "same_conn a tc el1 w1 tc' el' w'" "nx_trace w' = nx_trace w1"
        "unat (nb_writer (tc_output_buffer tc')) \<le> unat (nb_writer (tc_output_buffer tc)) + length data"
        "nb_contents (tc_output_buffer tc') = drop n data"
        using out by auto
      moreover from this(5,7) w1(6) out have "wire (tc_fd tc) (nx_trace w') @ nb_contents (tc_output_buffer tc') =
          wire (tc_fd tc) (nx_trace w) @ nb_contents (tc_output_buffer tc) @ data" by simp
      ultimately show ?thesis using same_conn_start [OF _ w1(4,5)] by blast
    qed
  qed
qed

section \<open>Writing when the socket is writable\<close>

lemma shutdown_in_loop_eq:
  assumes "conn_base a tc ch el w" and "t = el_tid el"
  shows "TcpConnection_shutdown_in_loop t a w =
    (if Channel_is_writing ch then Inr w
     else Inr (w\<lparr>nx_trace := nx_trace w @ [Sys_shutdown (tc_socket tc)]\<rparr>))"
  using conn_base_assert_ok [OF assms] conn_baseD [OF assms(1)]
  by (simp add: TcpConnection_shutdown_in_loop_def Socket_shutdown_write_def)

text \<open>Whatever the kernel answers, the bytes on the wire followed by the bytes still buffered
  stay the same; the write side is shut down only by a connection that is disconnecting, and
  only when nothing is left to send.\<close>

text \<open>What a \<open>write\<close> took, and the buffer after it.\<close>

definition io_count :: "nat io_result \<Rightarrow> nat" where
  "io_count r = (case r of Io_error _ \<Rightarrow> 0 | Io_ok n \<Rightarrow> n)"

lemma io_count_le: "kernel_ok k \<Longrightarrow> io_count (k_write k tr fd bs) \<le> length bs"
  using kernel_okD(1) [of k tr fd bs] by (auto simp: io_count_def split: io_result.splits)

lemma call_bytes_count: "call_bytes fd (Sys_write fd bs r) = take (io_count r) bs"
  by (cases r) (simp_all add: io_count_def)

lemma Buffer_write_fd_ok:
  assumes inv: "nb_inv b0" and m: "io_count r \<le> length (nb_contents b0)"
  shows "\<exists>n b. Buffer_write_fd r b0 = Inr (n, b) \<and> nb_inv b \<and> nb_contents b = drop (io_count r) (nb_contents b0) \<and>
    unat (nb_writer b) \<le> unat (nb_writer b0) \<and> (0 < n \<longleftrightarrow> 0 < io_count r)"
proof (cases r)
  case (Io_error e)
  then show ?thesis using inv by (simp add: Buffer_write_fd_def io_count_def)
next
  case (Io_ok j)
  have "unat (of_nat j :: size_t) = j"
    using le_less_trans [OF m net_queue.bounded [OF inv]] Io_ok by (intro unat_of_nat_size_t) (simp add: io_count_def)
  with Buffer_retrieve_ok [OF inv, of "of_nat j"] m Io_ok obtain b where
    "Buffer_retrieve (of_nat j) b0 = Inr b" "nb_inv b" "nb_contents b = drop j (nb_contents b0)"
    "unat (nb_writer b) \<le> unat (nb_writer b0)" by (auto simp: io_count_def)
  with Io_ok show ?thesis by (simp add: Buffer_write_fd_def io_count_def)
qed

text \<open>After the last byte was written.\<close>

definition after_drained :: "int \<Rightarrow> addr \<Rightarrow> 'u tcp_connection \<Rightarrow> ('u, 'z) net_scheme \<Rightarrow> ('u, 'z) net_scheme res" where
  "after_drained t a tc w =
     bindE (Channel_disable_writing t (tc_channel tc) w) (\<lambda>w2.
     bindE (queue_write_complete t a tc w2) (\<lambda>w3.
       if kDisconnecting = tc_state tc then TcpConnection_shutdown_in_loop t a w3 else Inr w3))"

lemma after_drained_ok:
  assumes base: "conn_base a tc ch el w" and live: "tc_state tc \<in> {kConnected, kDisconnecting}" and t: "t = el_tid el"
    and out: "nb_contents (tc_output_buffer tc) = []"
  shows "\<exists>w' ch' el'. after_drained t a tc w = Inr w' \<and> conn_base a tc ch' el' w' \<and> conn_live tc ch' \<and>
    el_tid el' = el_tid el \<and> nx_memory w' = nx_memory w \<and>
    nx_trace w' = nx_trace w @ (if tc_state tc = kDisconnecting then [Sys_shutdown (tc_socket tc)] else [])"
proof -
  from conn_set_events [OF base t, of "\<lambda>e. e AND NOT kWriteEvent"] obtain w2 ch' el' where
    w2: "Channel_disable_writing t (tc_channel tc) w = Inr w2" "conn_base a tc ch' el' w2"
    "ch_events ch' = ch_events ch AND NOT kWriteEvent" "el' = el\<lparr>el_poller := el_poller el'\<rparr>" "nx_trace w2 = nx_trace w"
    "nx_memory w2 = nx_memory w" by (auto simp: Channel_disable_writing_def)
  have wr: "\<not> Channel_is_writing ch'" using w2(3) interest_bits(4) [of ch] by (simp add: Channel_is_writing_def)
  have tid: "el_tid el' = el_tid el" by (subst w2(4)) simp
  from queue_write_complete_ok [OF w2(2), of t] obtain w3 el3 where
    w3: "queue_write_complete t a tc w2 = Inr w3" "conn_base a tc ch' el3 w3" "el_tid el3 = el_tid el'"
    "nx_trace w3 = nx_trace w2" "nx_memory w3 = nx_memory w2" by auto
  let ?w4 = "if kDisconnecting = tc_state tc then w3\<lparr>nx_trace := nx_trace w3 @ [Sys_shutdown (tc_socket tc)]\<rparr> else w3"
  have t3: "t = el_tid el3" using t tid w3(3) by simp
  have "after_drained t a tc w = Inr ?w4"
    using w2(1) w3(1) shutdown_in_loop_eq [OF w3(2) t3] wr by (simp add: after_drained_def)
  moreover have "conn_live tc ch'" using live wr out by (simp add: conn_live_def)
  ultimately show ?thesis
    using w2 w3 tid by (intro exI [of _ ?w4] exI [of _ ch'] exI [of _ el3]) auto
qed

lemma handle_write_ok:
  assumes k: "kernel_ok k" and base: "conn_base a tc ch el w" and live: "conn_live tc ch" and t: "t = el_tid el"
  shows "\<exists>w' tc' ch' el' tr. TcpConnection_handle_write k t a w = Inr w' \<and>
    conn_base a tc' ch' el' w' \<and> conn_live tc' ch' \<and> same_conn a tc el w tc' el' w' \<and>
    unat (nb_writer (tc_output_buffer tc')) \<le> unat (nb_writer (tc_output_buffer tc)) \<and>
    wire (tc_fd tc) (nx_trace w') @ nb_contents (tc_output_buffer tc') =
      wire (tc_fd tc) (nx_trace w) @ nb_contents (tc_output_buffer tc) \<and>
    nx_trace w' = nx_trace w @ tr \<and>
    (Sys_shutdown (tc_socket tc) \<in> set tr \<longleftrightarrow>
       tc_state tc = kDisconnecting \<and> nb_contents (tc_output_buffer tc) \<noteq> [] \<and>
       nb_contents (tc_output_buffer tc') = [])"
proof (cases "Channel_is_writing ch")
  case False
  then have "TcpConnection_handle_write k t a w = Inr w"
    using conn_base_assert_ok [OF base t] conn_baseD [OF base] by (simp add: TcpConnection_handle_write_def)
  with base live False show ?thesis
    by (intro exI [of _ w] exI [of _ tc] exI [of _ ch] exI [of _ el] exI [of _ "[]"])
      (simp add: same_conn_def conn_live_def)
next
  case True
  note D = conn_baseD [OF base]
  let ?data = "nb_contents (tc_output_buffer tc)"
  let ?r = "k_write k (nx_trace w) (tc_fd tc) ?data"
  let ?call = "Sys_write (tc_fd tc) ?data ?r"
  let ?w1 = "\<lambda>b. put_conn a (tc\<lparr>tc_output_buffer := b\<rparr>) (w\<lparr>nx_trace := nx_trace w @ [?call]\<rparr>)"
  have ne: "?data \<noteq> []" using True live by (simp add: conn_live_def)
  note m = io_count_le [OF k, of "nx_trace w" "tc_fd tc" ?data]
  from Buffer_write_fd_ok [OF D(9) m] obtain n b where b: "Buffer_write_fd ?r (tc_output_buffer tc) = Inr (n, b)" "nb_inv b"
    "nb_contents b = drop (io_count ?r) ?data" "unat (nb_writer b) \<le> unat (nb_writer (tc_output_buffer tc))"
    "0 < n \<longleftrightarrow> 0 < io_count ?r" by (elim exE conjE) (rule that; assumption)
  let ?tc = "tc\<lparr>tc_output_buffer := b\<rparr>"
  have base1: "conn_base a ?tc ch el (?w1 b)" by (rule conn_base_put) (use base b D in simp_all)
  have "after_drained t a tc (?w1 b) = after_drained t a ?tc (?w1 b)"
    by (simp add: after_drained_def queue_write_complete_def cong: option.case_cong)
  then have eq: "TcpConnection_handle_write k t a w =
      (if 0 < io_count ?r \<and> nb_contents b = [] then after_drained t a ?tc (?w1 b) else Inr (?w1 b))"
    using conn_base_assert_ok [OF base t] D True b readable_zero [OF b(2)]
    by (simp add: TcpConnection_handle_write_def Let_def after_drained_def)
  show ?thesis
  proof (cases "0 < io_count ?r \<and> nb_contents b = []")
    case False
    then have "nb_contents b \<noteq> []" using b(3) ne by (cases "io_count ?r") simp_all
    with False eq base1 True live b(3,4) call_bytes_count ne show ?thesis
      by (intro exI [of _ "?w1 b"] exI [of _ ?tc] exI [of _ ch] exI [of _ el] exI [of _ "[?call]"])
        (simp add: same_conn_def conn_live_def)
  next
    case drained: True
    have "tc_state ?tc \<in> {kConnected, kDisconnecting}" using live by (simp add: conn_live_def)
    from after_drained_ok [OF base1 this t] drained obtain w' ch' el' where
      w': "after_drained t a ?tc (?w1 b) = Inr w'" "conn_base a ?tc ch' el' w'" "conn_live ?tc ch'" "el_tid el' = el_tid el"
      "nx_memory w' = nx_memory w"
      "nx_trace w' = nx_trace w @ ?call # (if tc_state tc = kDisconnecting then [Sys_shutdown (tc_socket tc)] else [])"
      by auto
    have "take (io_count ?r) ?data = ?data" using drained b(3) by simp
    with w' eq drained ne b(4) call_bytes_count [of "tc_fd tc" ?data ?r] show ?thesis
      by (intro exI [of _ w'] exI [of _ ?tc] exI [of _ ch'] exI [of _ el']
          exI [of _ "?call # (if tc_state tc = kDisconnecting then [Sys_shutdown (tc_socket tc)] else [])"])
        (auto simp: same_conn_def)
  qed
qed

section \<open>Runs of a connection\<close>

text \<open>What happens on the output side of a connection: the loop thread runs a \<open>send_in_loop\<close>
  (called directly or queued by another thread), or the channel reports the socket writable, or
  the program calls \<open>shutdown\<close> in the loop thread.\<close>

datatype conn_event = Ev_send addr nat | Ev_writable | Ev_shutdown

fun run_conn_event :: "kernel \<Rightarrow> int \<Rightarrow> addr \<Rightarrow> conn_event \<Rightarrow> ('u, 'z) net_scheme \<Rightarrow> ('u, 'z) net_scheme res" where
  "run_conn_event k t a (Ev_send p len) w = TcpConnection_send_in_loop k t a p len w"
| "run_conn_event k t a Ev_writable w = TcpConnection_handle_write k t a w"
| "run_conn_event k t a Ev_shutdown w = TcpConnection_shutdown t a w"

fun run_conn_events :: "kernel \<Rightarrow> int \<Rightarrow> addr \<Rightarrow> conn_event list \<Rightarrow> ('u, 'z) net_scheme \<Rightarrow> ('u, 'z) net_scheme res" where
  "run_conn_events k t a [] w = Inr w"
| "run_conn_events k t a (e # es) w = bindE (run_conn_event k t a e w) (run_conn_events k t a es)"

text \<open>The bytes handed over, read from the callers' memory.\<close>

fun sent_bytes :: "(addr \<Rightarrow> byte list option) \<Rightarrow> conn_event list \<Rightarrow> byte list" where
  "sent_bytes mem [] = []"
| "sent_bytes mem (Ev_send p len # es) = take len (the (mem p)) @ sent_bytes mem es"
| "sent_bytes mem (_ # es) = sent_bytes mem es"

fun events_ok :: "(addr \<Rightarrow> byte list option) \<Rightarrow> conn_event list \<Rightarrow> bool" where
  "events_ok mem [] \<longleftrightarrow> True"
| "events_ok mem (Ev_send p len # es) \<longleftrightarrow>
     (case mem p of None \<Rightarrow> False | Some bs \<Rightarrow> len \<le> length bs) \<and> events_ok mem es"
| "events_ok mem (_ # es) \<longleftrightarrow> events_ok mem es"

lemma read_memory_ok:
  "nx_memory w p = Some bs \<Longrightarrow> len \<le> length bs \<Longrightarrow> read_memory p len w = Inr (take len bs)"
  by (simp add: read_memory_def deref_def read_range_def)

text \<open>A call of \<open>shutdown\<close> in the loop thread changes the state and nothing on the wire.\<close>

lemma shutdown_ok:
  assumes base: "conn_base a tc ch el w" and live: "conn_live tc ch" and t: "t = el_tid el"
  shows "\<exists>w' tc'. TcpConnection_shutdown t a w = Inr w' \<and>
    conn_base a tc' ch el w' \<and> conn_live tc' ch \<and> nx_memory w' = nx_memory w \<and>
    tc' = tc\<lparr>tc_state := kDisconnecting\<rparr> \<and>
    nx_trace w' = nx_trace w @ (if tc_state tc = kConnected \<and> nb_contents (tc_output_buffer tc) = []
                                then [Sys_shutdown (tc_socket tc)] else [])"
proof (cases "tc_state tc = kConnected")
  case False
  then have st: "tc_state tc = kDisconnecting" using live by (simp add: conn_live_def)
  then have "TcpConnection_shutdown t a w = Inr w"
    using conn_baseD [OF base] by (simp add: TcpConnection_shutdown_def)
  with base live st show ?thesis
    by (intro exI [of _ w] exI [of _ tc]) simp
next
  case True
  note D = conn_baseD [OF base]
  let ?tc = "tc\<lparr>tc_state := kDisconnecting\<rparr>"
  have base1: "conn_base a ?tc ch el (put_conn a ?tc w)"
    by (rule conn_base_put [OF base]) (use D in simp_all)
  have "TcpConnection_shutdown t a w = TcpConnection_shutdown_in_loop t a (put_conn a ?tc w)"
    using True D t by (simp add: TcpConnection_shutdown_def EventLoop_run_in_loop_def
        EventLoop_is_in_loop_thread_def TcpConnection_set_state_def)
  with shutdown_in_loop_eq [OF base1 t] base1 live True show ?thesis
    by (auto simp: conn_live_def)
qed

text \<open>One event.\<close>

lemma run_conn_event_ok:
  assumes k: "kernel_ok k" and soft: "\<forall>tr fd bs e. k_write k tr fd bs = Io_error e \<longrightarrow> e = EWOULDBLOCK"
    and base: "conn_base a tc ch el w" and live: "conn_live tc ch" and t: "t = el_tid el"
    and ok: "events_ok (nx_memory w) [e]"
    and room: "unat (nb_writer (tc_output_buffer tc)) + length (sent_bytes (nx_memory w) [e]) \<le> vector_max_size"
  shows "\<exists>w1 tc1 ch1 el1. run_conn_event k t a e w = Inr w1 \<and> conn_base a tc1 ch1 el1 w1 \<and>
      conn_live tc1 ch1 \<and> tc_fd tc1 = tc_fd tc \<and> el_tid el1 = el_tid el \<and> nx_memory w1 = nx_memory w \<and>
      unat (nb_writer (tc_output_buffer tc1)) \<le>
        unat (nb_writer (tc_output_buffer tc)) + length (sent_bytes (nx_memory w) [e]) \<and>
      wire (tc_fd tc) (nx_trace w1) @ nb_contents (tc_output_buffer tc1) =
        wire (tc_fd tc) (nx_trace w) @ nb_contents (tc_output_buffer tc) @ sent_bytes (nx_memory w) [e]"
proof (cases e)
  case (Ev_send p len)
  with ok obtain bs where bs: "nx_memory w p = Some bs" "len \<le> length bs"
    by (auto split: option.splits)
  have "unat (nb_writer (tc_output_buffer tc)) + length (take len bs) \<le> vector_max_size"
    using room Ev_send bs by simp
  from send_in_loop_ok [OF k base live t read_memory_ok [OF bs] this] soft obtain w1 tc1 ch1 el1 where
    w1: "TcpConnection_send_in_loop k t a p len w = Inr w1" "conn_base a tc1 ch1 el1 w1" "conn_live tc1 ch1"
    "same_conn a tc el w tc1 el1 w1"
    "unat (nb_writer (tc_output_buffer tc1)) \<le> unat (nb_writer (tc_output_buffer tc)) + length (take len bs)"
    "wire (tc_fd tc) (nx_trace w1) @ nb_contents (tc_output_buffer tc1) =
       wire (tc_fd tc) (nx_trace w) @ nb_contents (tc_output_buffer tc) @ take len bs"
    by blast
  with same_connD(2,7,8) [OF w1(4)] Ev_send bs show ?thesis
    by (intro exI [of _ w1] exI [of _ tc1] exI [of _ ch1] exI [of _ el1]) simp
next
  case Ev_writable
  from handle_write_ok [OF k base live t] obtain w1 tc1 ch1 el1 where
    w1: "TcpConnection_handle_write k t a w = Inr w1" "conn_base a tc1 ch1 el1 w1" "conn_live tc1 ch1"
    "same_conn a tc el w tc1 el1 w1"
    "unat (nb_writer (tc_output_buffer tc1)) \<le> unat (nb_writer (tc_output_buffer tc))"
    "wire (tc_fd tc) (nx_trace w1) @ nb_contents (tc_output_buffer tc1) =
       wire (tc_fd tc) (nx_trace w) @ nb_contents (tc_output_buffer tc)"
    by blast
  with same_connD(2,7,8) [OF w1(4)] Ev_writable show ?thesis
    by (intro exI [of _ w1] exI [of _ tc1] exI [of _ ch1] exI [of _ el1]) simp
next
  case Ev_shutdown
  from shutdown_ok [OF base live t] obtain w' where w': "TcpConnection_shutdown t a w = Inr w'"
    "conn_base a (tc\<lparr>tc_state := kDisconnecting\<rparr>) ch el w'" "conn_live (tc\<lparr>tc_state := kDisconnecting\<rparr>) ch"
    "nx_memory w' = nx_memory w" "wire (tc_fd tc) (nx_trace w') = wire (tc_fd tc) (nx_trace w)"
    by (auto split: if_splits)
  with Ev_shutdown show ?thesis
    by (intro exI [of _ w'] exI [of _ "tc\<lparr>tc_state := kDisconnecting\<rparr>"] exI [of _ ch] exI [of _ el]) simp
qed

lemma sent_bytes_Cons: "sent_bytes mem (e # es) = sent_bytes mem [e] @ sent_bytes mem es"
  by (cases e) simp_all

lemma events_ok_Cons: "events_ok mem (e # es) \<longleftrightarrow> events_ok mem [e] \<and> events_ok mem es"
  by (cases e) simp_all

lemma run_conn_events_ok:
  assumes k: "kernel_ok k" and soft: "\<forall>tr fd bs e. k_write k tr fd bs = Io_error e \<longrightarrow> e = EWOULDBLOCK"
  shows "conn_base a tc ch el w \<Longrightarrow> conn_live tc ch \<Longrightarrow> t = el_tid el \<Longrightarrow> events_ok (nx_memory w) es \<Longrightarrow>
    unat (nb_writer (tc_output_buffer tc)) + length (sent_bytes (nx_memory w) es) \<le> vector_max_size \<Longrightarrow>
    \<exists>w' tc' ch' el'. run_conn_events k t a es w = Inr w' \<and> conn_base a tc' ch' el' w' \<and>
      conn_live tc' ch' \<and>
      wire (tc_fd tc) (nx_trace w') @ nb_contents (tc_output_buffer tc') =
        wire (tc_fd tc) (nx_trace w) @ nb_contents (tc_output_buffer tc) @ sent_bytes (nx_memory w) es"
proof (induction es arbitrary: w tc ch el)
  case Nil
  then show ?case by auto
next
  case (Cons e es)
  let ?mem = "nx_memory w"
  have ok: "events_ok ?mem [e]" "events_ok ?mem es" using Cons.prems(4) events_ok_Cons by blast+
  have len: "length (sent_bytes ?mem (e # es)) = length (sent_bytes ?mem [e]) + length (sent_bytes ?mem es)"
    by (simp add: sent_bytes_Cons [of _ e es])
  with Cons.prems(5) have "unat (nb_writer (tc_output_buffer tc)) + length (sent_bytes ?mem [e]) \<le> vector_max_size"
    by linarith
  from run_conn_event_ok [OF k soft Cons.prems(1-3) ok(1) this]
  obtain w1 tc1 ch1 el1 where w1: "run_conn_event k t a e w = Inr w1" "conn_base a tc1 ch1 el1 w1"
    "conn_live tc1 ch1" "tc_fd tc1 = tc_fd tc" "el_tid el1 = el_tid el" "nx_memory w1 = ?mem"
    "unat (nb_writer (tc_output_buffer tc1)) \<le>
        unat (nb_writer (tc_output_buffer tc)) + length (sent_bytes ?mem [e])"
    "wire (tc_fd tc) (nx_trace w1) @ nb_contents (tc_output_buffer tc1) =
        wire (tc_fd tc) (nx_trace w) @ nb_contents (tc_output_buffer tc) @ sent_bytes ?mem [e]"
    by blast
  have "t = el_tid el1" "events_ok (nx_memory w1) es" using Cons.prems(3) w1(5,6) ok(2) by simp_all
  moreover have "unat (nb_writer (tc_output_buffer tc1)) + length (sent_bytes (nx_memory w1) es) \<le> vector_max_size"
    using w1(6,7) Cons.prems(5) len by simp
  ultimately obtain w' tc' ch' el' where w': "run_conn_events k t a es w1 = Inr w'" "conn_base a tc' ch' el' w'"
    "conn_live tc' ch'" "wire (tc_fd tc) (nx_trace w') @ nb_contents (tc_output_buffer tc') =
      (wire (tc_fd tc) (nx_trace w1) @ nb_contents (tc_output_buffer tc1)) @ sent_bytes ?mem es"
    using Cons.IH [OF w1(2,3)] w1(4,6) by auto
  have "wire (tc_fd tc) (nx_trace w') @ nb_contents (tc_output_buffer tc') =
      wire (tc_fd tc) (nx_trace w) @ nb_contents (tc_output_buffer tc) @ sent_bytes ?mem (e # es)"
    unfolding w'(4) w1(8) by (simp add: sent_bytes_Cons [of _ e es])
  with w1(1) w' show ?case by auto
qed

section \<open>Opening and closing\<close>

text \<open>A connection that was constructed and not yet established: its channel is not registered
  and the descriptor is free in the poller.\<close>

definition conn_fresh :: "addr \<Rightarrow> 'u tcp_connection \<Rightarrow> chan_cb channel \<Rightarrow> 'u net_functor event_loop \<Rightarrow>
    ('u, 'z) net_scheme \<Rightarrow> bool" where
  "conn_fresh a tc ch el w \<longleftrightarrow> rx_inv w \<and> nx_conns w a = Some tc \<and> tc_state tc = kConnecting \<and>
     rx_channels w (tc_channel tc) = Some ch \<and> rx_loops w (tc_loop tc) = Some el \<and>
     ch_loop ch = tc_loop tc \<and> ch_fd ch = tc_fd tc \<and> ch_index ch = kNew \<and> ch_events ch = kNoneEvent \<and>
     ep_channels (el_poller el) (tc_fd tc) = None \<and>
     nb_inv (tc_input_buffer tc) \<and> nb_inv (tc_output_buffer tc) \<and> nb_contents (tc_output_buffer tc) = []"

lemma TcpConnection_new_ok:
  assumes inv: "rx_inv w" and fresh: "rx_channels w c = None" and el: "rx_loops w l = Some el"
    and free: "ep_channels (el_poller el) fd = None" and fd: "fd \<noteq> - 1"
  shows "\<exists>w' tc ch. TcpConnection_new a c l fd peer w = Inr w' \<and> conn_fresh a tc ch el w' \<and>
    tc_loop tc = l \<and> tc_fd tc = fd \<and> tc_channel tc = c \<and> tc_socket tc = fd \<and> tc_peer_addr tc = peer \<and>
    tc_connection_callback tc = None \<and> tc_message_callback tc = None \<and>
    tc_write_complete_callback tc = None \<and> tc_close_callback tc = None \<and>
    ch_read_callback ch = Some (Conn_read a) \<and> ch_write_callback ch = Some (Conn_write a) \<and>
    ch_close_callback ch = Some (Conn_close a) \<and> ch_error_callback ch = Some (Conn_error a) \<and>
    \<not> ch_event_handling ch \<and> \<not> ch_added_to_loop ch \<and>
    nx_conns w' = (nx_conns w)(a \<mapsto> tc) \<and> rx_channels w' = (rx_channels w)(c \<mapsto> ch) \<and>
    rx_loops w' = rx_loops w \<and> nx_memory w' = nx_memory w \<and>
    nx_trace w' = nx_trace w @ [Sys_setsockopt fd SOL_SOCKET SO_KEEPALIVE 1] \<and>
    Buffer_new kInitialSize = Inr (tc_input_buffer tc) \<and> tc_output_buffer tc = tc_input_buffer tc"
proof -
  obtain b where b: "Buffer_new kInitialSize = Inr b" "nb_inv b" "nb_contents b = []"
    using Buffer_new_ok [of kInitialSize] by (auto simp: kInitialSize_def vector_max_size_def)
  let ?ch = "\<lparr>ch_loop = l, ch_fd = fd, ch_events = 0, ch_revents = 0, ch_index = - 1,
            ch_event_handling = False, ch_added_to_loop = False, ch_tied = False, ch_tie = None,
            ch_read_callback = Some (Conn_read a), ch_write_callback = Some (Conn_write a),
            ch_close_callback = Some (Conn_close a), ch_error_callback = Some (Conn_error a)\<rparr>"
  have "ep_inv k ((rx_channels w)(c \<mapsto> ?ch)) (el_poller ek)" if "rx_loops w k = Some ek" for k ek
    by (rule ep_inv_fresh) (use that rx_invD [OF inv] fresh in \<open>simp_all add: kNew_def kNoneEvent_def\<close>)
  then have "rx_inv (put_channel c ?ch w)" by (simp add: rx_inv_def)
  with b el free fd show ?thesis
    by (simp add: TcpConnection_new_def Socket_new_def Channel_new_def Channel_set_read_callback_def
        Channel_set_write_callback_def Channel_set_close_callback_def Channel_set_error_callback_def Let_def
        conn_fresh_def kNew_def kNoneEvent_def Socket_set_keeyalive_def optval_def)
qed

lemma connect_established_ok:
  assumes fresh: "conn_fresh a tc ch el w" and t: "t = el_tid el"
  shows "\<exists>w1 tc1 ch1 el1. TcpConnection_connect_established u t a w =
      call_user u On_connection (tc_connection_callback tc) a w1 \<and>
    conn_base a tc1 ch1 el1 w1 \<and> conn_live tc1 ch1 \<and> tc1 = tc\<lparr>tc_state := kConnected\<rparr> \<and>
    ch_tie ch1 = Some a \<and> ch_tied ch1 \<and> Channel_is_reading ch1 \<and>
    ch1 = ch\<lparr>ch_tie := Some a, ch_tied := True, ch_events := kReadEvent, ch_added_to_loop := True, ch_index := ch_index ch1\<rparr> \<and>
    el1 = el\<lparr>el_poller := el_poller el1\<rparr> \<and> nx_trace w1 = nx_trace w \<and> nx_memory w1 = nx_memory w"
proof -
  have D: "rx_inv w" "nx_conns w a = Some tc" "tc_state tc = kConnecting" "rx_channels w (tc_channel tc) = Some ch"
    "rx_loops w (tc_loop tc) = Some el" "ch_loop ch = tc_loop tc" "ch_fd ch = tc_fd tc" "ch_index ch = kNew"
    "ch_events ch = kNoneEvent" "ep_channels (el_poller el) (tc_fd tc) = None" "nb_inv (tc_input_buffer tc)"
    "nb_inv (tc_output_buffer tc)" "nb_contents (tc_output_buffer tc) = []"
    using fresh by (simp_all add: conn_fresh_def)
  let ?tc = "tc\<lparr>tc_state := kConnected\<rparr>" and ?ch = "ch\<lparr>ch_tie := Some a, ch_tied := True\<rparr>"
  let ?w = "put_channel (tc_channel tc) ?ch (put_conn a ?tc w)"
  have inv: "rx_inv ?w"
    by (rule rx_inv_put_channel [where ch = ch]) (use D in simp_all)
  have ch: "rx_channels ?w (tc_channel tc) = Some ?ch" and el: "rx_loops ?w (ch_loop ?ch) = Some el"
    and free: "ch_index ?ch = kNew \<longrightarrow> ep_channels (el_poller el) (ch_fd ?ch) = None" using D by simp_all
  let ?ch1 = "\<lambda>i. ?ch\<lparr>ch_events := kReadEvent, ch_added_to_loop := True, ch_index := i\<rparr>"
  let ?w1 = "\<lambda>ep i. put_loop (tc_loop tc) (el\<lparr>el_poller := ep\<rparr>) (put_channel (tc_channel tc) (?ch1 i) ?w)"
  from set_events_ok [OF inv ch el t free, of "\<lambda>e. e OR kReadEvent"] D(6,9) obtain ep' i where
    w1: "set_events t (tc_channel tc) (\<lambda>e. e OR kReadEvent) ?w = Inr (?w1 ep' i)"
    and inv1: "rx_inv (?w1 ep' i)" and i: "i \<noteq> kNew"
    by (auto simp: Let_def kNoneEvent_def)
  have "TcpConnection_connect_established u t a w =
      bindE (Channel_enable_reading t (tc_channel tc) ?w) (call_user u On_connection (tc_connection_callback tc) a)"
    using D t by (simp add: TcpConnection_connect_established_def assert_in_loop_def upd_channel_def
        Channel_tie_def TcpConnection_set_state_def EventLoop_is_in_loop_thread_def)
  moreover have "conn_base a ?tc (?ch1 i) (el\<lparr>el_poller := ep'\<rparr>) (?w1 ep' i)"
    using inv1 i D by (simp add: conn_base_def)
  ultimately show ?thesis
    using w1 D(13) by (intro exI [of _ "?w1 ep' i"] exI [of _ ?tc] exI [of _ "?ch1 i"]
        exI [of _ "el\<lparr>el_poller := ep'\<rparr>"])
      (simp add: Channel_enable_reading_def conn_live_def Channel_is_writing_def Channel_is_reading_def truth_def)
qed

text \<open>Closing: the state, the interest set, and then the two callbacks in this order.\<close>

lemma handle_close_ok:
  assumes base: "conn_base a tc ch el w" and t: "t = el_tid el"
    and st: "tc_state tc \<in> {kConnected, kDisconnecting}"
  shows "\<exists>w1 tc1 ch1 el1. TcpConnection_handle_close u t a w =
      bindE (call_user u On_connection (tc_connection_callback tc) a w1) (\<lambda>w2.
      bindE (get_conn a w2) (\<lambda>tc2. call_user u On_close (tc_close_callback tc2) a w2)) \<and>
    conn_base a tc1 ch1 el1 w1 \<and> tc1 = tc\<lparr>tc_state := kDisconnected\<rparr> \<and>
    ch1 = ch\<lparr>ch_events := kNoneEvent, ch_added_to_loop := True, ch_index := ch_index ch1\<rparr> \<and>
    el1 = el\<lparr>el_poller := el_poller el1\<rparr> \<and> nx_trace w1 = nx_trace w"
proof -
  note D = conn_baseD [OF base]
  let ?tc = "tc\<lparr>tc_state := kDisconnected\<rparr>"
  have base1: "conn_base a ?tc ch el (put_conn a ?tc w)" by (rule conn_base_put [OF base]) (use D in simp_all)
  from conn_set_events [OF base1 t, of "\<lambda>_. kNoneEvent"] obtain w1 ch1 el1 where
    "set_events t (tc_channel tc) (\<lambda>_. kNoneEvent) (put_conn a ?tc w) = Inr w1" "conn_base a ?tc ch1 el1 w1"
    "ch1 = ch\<lparr>ch_events := kNoneEvent, ch_added_to_loop := True, ch_index := ch_index ch1\<rparr>"
    "el1 = el\<lparr>el_poller := el_poller el1\<rparr>" "nx_trace w1 = nx_trace w"
    by auto
  moreover have "TcpConnection_handle_close u t a w =
      bindE (Channel_disable_all t (tc_channel tc) (put_conn a ?tc w)) (\<lambda>w1.
      bindE (call_user u On_connection (tc_connection_callback tc) a w1) (\<lambda>w2.
      bindE (get_conn a w2) (\<lambda>tc2. call_user u On_close (tc_close_callback tc2) a w2)))"
    using D st conn_base_assert_ok [OF base t]
    by (auto simp: TcpConnection_handle_close_def TcpConnection_set_state_def)
  ultimately show ?thesis by (simp add: Channel_disable_all_def) blast
qed

lemma connect_destoryed_closed:
  assumes base: "conn_base a tc ch el w" and t: "t = el_tid el" and st: "tc_state tc = kDisconnected"
    and none: "ch_events ch = kNoneEvent" and idle: "\<not> el_event_handing el"
  shows "\<exists>ep. let w' = put_loop (tc_loop tc) (el\<lparr>el_poller := ep\<rparr>)
        (put_channel (tc_channel tc) (ch\<lparr>ch_added_to_loop := False, ch_index := kNew\<rparr>) w)
    in TcpConnection_connect_destoryed u t a w = Inr w' \<and> rx_inv w' \<and> ep_channels ep (tc_fd tc) = None \<and>
       ep_events_size ep = ep_events_size (el_poller el)"
proof -
  note D = conn_baseD [OF base]
  have "rx_loops w (ch_loop ch) = Some el" "Channel_is_none_event ch"
    using D none by (simp_all add: Channel_is_none_event_def)
  from Channel_remove_ok [OF D(1,3) this(1) t this(2) D(7)] idle obtain ep where
    "Channel_remove t (tc_channel tc) w = Inr (put_loop (tc_loop tc) (el\<lparr>el_poller := ep\<rparr>)
        (put_channel (tc_channel tc) (ch\<lparr>ch_added_to_loop := False, ch_index := kNew\<rparr>) w))"
    "rx_inv (put_loop (tc_loop tc) (el\<lparr>el_poller := ep\<rparr>)
        (put_channel (tc_channel tc) (ch\<lparr>ch_added_to_loop := False, ch_index := kNew\<rparr>) w))"
    "ep_channels ep (tc_fd tc) = None" "ep_events_size ep = ep_events_size (el_poller el)"
    using D by (auto simp: Let_def)
  then show ?thesis
    using D st conn_base_assert_ok [OF base t] by (auto simp: TcpConnection_connect_destoryed_def Let_def)
qed

lemma TcpConnection_destroy_ok:
  assumes inv: "rx_inv w" and tc: "nx_conns w a = Some tc" "tc_state tc = kDisconnected"
    and ch: "rx_channels w (tc_channel tc) = Some ch" "ch_index ch = kNew" "\<not> ch_event_handling ch"
      "\<not> ch_added_to_loop ch" "ch_loop ch = tc_loop tc" "ch_fd ch = tc_fd tc"
    and el: "rx_loops w (tc_loop tc) = Some el" "ep_channels (el_poller el) (tc_fd tc) = None"
  shows "\<exists>w'. TcpConnection_destroy t a w = Inr w' \<and> rx_inv w' \<and> nx_conns w' = (nx_conns w)(a := None) \<and>
    rx_channels w' = (rx_channels w)(tc_channel tc := None) \<and> rx_loops w' = rx_loops w \<and>
    nx_trace w' = nx_trace w @ [Sys_close (tc_socket tc)]"
proof -
  have "rx_inv (w\<lparr>rx_channels := (rx_channels w)(tc_channel tc := None)\<rparr>)"
    using rx_invD [OF inv] ch(1,2) by (auto simp: rx_inv_def intro: ep_inv_destroy)
  with assms show ?thesis
    by (simp add: TcpConnection_destroy_def Channel_destroy_def EventLoop_has_channel_def
        EventLoop_is_in_loop_thread_def Epoller_has_channel_def Socket_destroy_def rx_inv_def)
qed

section \<open>A connection to evaluate on\<close>

text \<open>A loop of thread 7 at address 0, a connection on descriptor 9 at address 2, and the
  caller's memory.\<close>

definition empty_net :: "'u net" where
  "empty_net = \<lparr>rx_channels = Map.empty, rx_loops = Map.empty, rx_loop_in_thread = Map.empty,
     nx_conns = Map.empty, nx_memory = Map.empty, nx_trace = []\<rparr>"

text \<open>A kernel that writes one byte at a time, and one on which every call fails with
  \<open>ECONNRESET\<close>.\<close>

definition slow_kernel :: kernel where
  "slow_kernel = \<lparr>k_socket = \<lambda>_ _. 3, k_bind = \<lambda>_ _ _ _. 0, k_listen = \<lambda>_ _. 0,
     k_accept4 = \<lambda>_ _. Io_ok (9, InetAddress_default),
     k_write = \<lambda>_ _ bs. Io_ok (min 1 (length bs)), k_readv = \<lambda>_ _ _. Io_ok []\<rparr>"

definition reset_kernel :: kernel where
  "reset_kernel = slow_kernel\<lparr>k_write := \<lambda>_ _ _. Io_error ECONNRESET\<rparr>"

lemma slow_kernel_ok: "kernel_ok slow_kernel" "kernel_ok reset_kernel"
  "\<forall>tr fd bs e. k_write slow_kernel tr fd bs = Io_error e \<longrightarrow> e = EWOULDBLOCK"
  by (simp_all add: kernel_ok_def slow_kernel_def reset_kernel_def)

lemma conn_base_memory [simp]: "conn_base a tc ch el (w\<lparr>nx_memory := m\<rparr>) = conn_base a tc ch el w"
  by (simp add: conn_base_def rx_inv_def)

lemma established_from:
  fixes init :: "('u, 'z) net_scheme"
  assumes init: "rx_channels init = Map.empty" "rx_loops init = Map.empty" "rx_loop_in_thread init = Map.empty"
  shows "\<exists>w0 w1 w tc ch el. EventLoop_new 7 0 1 5 6 (Loop_read 0) init = Inr w0 \<and>
     TcpConnection_new 2 3 0 9 InetAddress_default w0 = Inr w1 \<and>
     TcpConnection_connect_established u 7 2 w1 = Inr w \<and>
     conn_base 2 tc ch el w \<and> conn_live tc ch \<and> tc_state tc = kConnected \<and> el_tid el = 7 \<and> tc_fd tc = 9 \<and>
     tc_loop tc = 0 \<and> tc_channel tc = 3 \<and> tc_output_buffer tc = tc_input_buffer tc \<and>
     nb_contents (tc_output_buffer tc) = [] \<and> nb_writer (tc_output_buffer tc) = 8 \<and>
     Channel_is_reading ch \<and> \<not> ch_event_handling ch \<and> \<not> el_event_handing el \<and>
     ch_close_callback ch = Some (Conn_close 2) \<and> ch_read_callback ch = Some (Conn_read 2) \<and>
     ch_tied ch \<and> ch_tie ch = Some 2 \<and> tc_connection_callback tc = None \<and> tc_close_callback tc = None \<and>
     Buffer_new kInitialSize = Inr (tc_input_buffer tc)"
proof -
  have inv: "rx_inv init" using init by (simp add: rx_inv_def)
  obtain w0 el c where w0: "EventLoop_new 7 0 1 5 6 (Loop_read 0) init = Inr w0" "rx_inv w0"
    "rx_loops w0 = [0 \<mapsto> el]" "rx_channels w0 = [1 \<mapsto> c]" "el_tid el = 7" "ch_loop c = 0" "ch_fd c = 5"
    "ch_index c = kAdded" "\<not> el_event_handing el"
    using EventLoop_new_ok [OF inv, of 0 1 5 6 7 "Loop_read 0"] init by auto
  have "ep_inv 0 (rx_channels w0) (el_poller el)" using rx_invD [OF w0(2), of 0 el] w0 by simp
  then have free: "ep_channels (el_poller el) 9 = None"
    using ep_invD(2) [of 0 "rx_channels w0" "el_poller el" 9] w0 by (cases "ep_channels (el_poller el) 9") (auto split: if_splits)
  have "rx_channels w0 3 = None" "rx_loops w0 0 = Some el" using w0 by simp_all
  from TcpConnection_new_ok [OF w0(2) this free, of 2 InetAddress_default] obtain w1 tc ch where
    w1: "TcpConnection_new 2 3 0 9 InetAddress_default w0 = Inr w1" "conn_fresh 2 tc ch el w1" "tc_loop tc = 0"
    "tc_fd tc = 9" "tc_channel tc = 3" "tc_connection_callback tc = None" "tc_close_callback tc = None"
    "\<not> ch_event_handling ch" "ch_close_callback ch = Some (Conn_close 2)" "ch_read_callback ch = Some (Conn_read 2)"
    "nx_conns w1 = (nx_conns w0)(2 \<mapsto> tc)" by auto
  have tc: "tc_output_buffer tc = tc_input_buffer tc \<and> nb_writer (tc_input_buffer tc) = 8"
    using w1(1,11) by (auto simp: TcpConnection_new_def bindE_Inr_iff Let_def Buffer_new_def kCheapPrepend_def
        put_conn_def put_channel_def dest!: fun_cong [of _ _ 2])
  have new: "Buffer_new kInitialSize = Inr (tc_input_buffer tc)"
    using w1(1,11) by (auto simp: TcpConnection_new_def bindE_Inr_iff Let_def put_conn_def put_channel_def
        dest!: fun_cong [of _ _ 2])
  have "7 = el_tid el" using w0 by simp
  from connect_established_ok [OF w1(2) this, of u] obtain w ch1 el1 where
    w: "TcpConnection_connect_established u 7 2 w1 = Inr w" "conn_base 2 (tc\<lparr>tc_state := kConnected\<rparr>) ch1 el1 w"
    "conn_live (tc\<lparr>tc_state := kConnected\<rparr>) ch1" "Channel_is_reading ch1" "ch_tied ch1" "ch_tie ch1 = Some 2"
    and ch1: "ch1 = ch\<lparr>ch_tie := Some 2, ch_tied := True, ch_events := kReadEvent, ch_added_to_loop := True,
      ch_index := ch_index ch1\<rparr>" and el1: "el1 = el\<lparr>el_poller := el_poller el1\<rparr>"
    using w1 by (auto simp: call_user_def)
  have c1: "ch_event_handling ch1 = ch_event_handling ch" "ch_close_callback ch1 = ch_close_callback ch"
    "ch_read_callback ch1 = ch_read_callback ch" by (subst ch1, simp)+
  have c2: "el_tid el1 = 7" "\<not> el_event_handing el1" by (subst el1, simp add: w0)+
  have c3: "nb_contents (tc_output_buffer tc) = []" using w1(2) by (simp add: conn_fresh_def)
  show ?thesis
    by (rule exI [of _ w0], rule exI [of _ w1], rule exI [of _ w], rule exI [of _ "tc\<lparr>tc_state := kConnected\<rparr>"],
        rule exI [of _ ch1], rule exI [of _ el1]) (use w0(1) w1 w tc new c1 c2 c3 in simp)
qed

lemma established_example:
  "\<exists>(w :: 'u net) tc ch el. conn_base 2 tc ch el w \<and> conn_live tc ch \<and> tc_state tc = kConnected \<and>
     el_tid el = 7 \<and> tc_fd tc = 9 \<and> nb_contents (tc_output_buffer tc) = [] \<and>
     nb_writer (tc_output_buffer tc) = 8 \<and> Channel_is_reading ch \<and> \<not> ch_event_handling ch \<and> \<not> el_event_handing el"
  using established_from [of empty_net "\<lambda>_. Inr"] by (auto simp: empty_net_def)

section \<open>Properties\<close>

text \<open>
  C8. On a live connection, whatever mixture of sends, of writability events and of a shutdown
  its loop thread runs, and however the kernel splits the writes, every operation succeeds and
  the bytes that reached the socket followed by the bytes in the output buffer are the bytes
  handed to \<open>send\<close>, in order, behind those that were there before.  The channel waits for
  writability exactly as long as bytes are left.  (The kernel's only write errors are assumed
  to be \<open>EWOULDBLOCK\<close>; what the others do is stated separately.)
\<close>

theorem TcpConnection_bytes_in_order:
  assumes "kernel_ok k" and "\<forall>tr fd bs e. k_write k tr fd bs = Io_error e \<longrightarrow> e = EWOULDBLOCK"
    and "conn_base a tc ch el w" and "conn_live tc ch" and "t = el_tid el"
    and "events_ok (nx_memory w) es"
    and "unat (nb_writer (tc_output_buffer tc)) + length (sent_bytes (nx_memory w) es) \<le> vector_max_size"
  shows "\<exists>w' tc' ch'. run_conn_events k t a es w = Inr w' \<and> nx_conns w' a = Some tc' \<and>
    rx_channels w' (tc_channel tc') = Some ch' \<and>
    wire (tc_fd tc) (nx_trace w') @ nb_contents (tc_output_buffer tc') =
      wire (tc_fd tc) (nx_trace w) @ nb_contents (tc_output_buffer tc) @ sent_bytes (nx_memory w) es \<and>
    (Channel_is_writing ch' \<longleftrightarrow> nb_contents (tc_output_buffer tc') \<noteq> [])"
  using run_conn_events_ok [OF assms(1,2,3,4,5,6,7)] conn_baseD(2,3) conn_live_def by metis

theorem TcpConnection_bytes_in_order_witness:
  "\<exists>(w :: unit net) w' tc'.
     run_conn_events slow_kernel 7 2 [Ev_send 0 3, Ev_writable, Ev_shutdown, Ev_writable] w = Inr w' \<and>
     nx_conns w' 2 = Some tc' \<and>
     wire 9 (nx_trace w') @ nb_contents (tc_output_buffer tc') = wire 9 (nx_trace w) @ [1, 2, 3]"
proof -
  obtain w :: "unit net" and tc ch el where w: "conn_base 2 tc ch el w" "conn_live tc ch" "el_tid el = 7"
    "tc_fd tc = 9" "nb_contents (tc_output_buffer tc) = []" "nb_writer (tc_output_buffer tc) = 8"
    using established_example by blast
  let ?es = "[Ev_send 0 3, Ev_writable, Ev_shutdown, Ev_writable]"
  let ?w = "w\<lparr>nx_memory := [0 \<mapsto> [1, 2, 3]]\<rparr>"
  have base: "conn_base 2 tc ch el ?w" using w(1) by simp
  have "7 = el_tid el" "events_ok (nx_memory ?w) ?es"
    "unat (nb_writer (tc_output_buffer tc)) + length (sent_bytes (nx_memory ?w) ?es) \<le> vector_max_size"
    using w(3,6) by (simp_all add: vector_max_size_def numeral_3_eq_3)
  from TcpConnection_bytes_in_order [OF slow_kernel_ok(1,3) base w(2) this] w(4,5) obtain w' tc' where
    "run_conn_events slow_kernel 7 2 ?es ?w = Inr w'" "nx_conns w' 2 = Some tc'"
    "wire 9 (nx_trace w') @ nb_contents (tc_output_buffer tc') = wire 9 (nx_trace ?w) @ [1, 2, 3]"
    by (auto simp: numeral_3_eq_3)
  then show ?thesis by blast
qed

text \<open>
  C15. When the socket becomes writable the handler never loses, duplicates or reorders a byte,
  whatever the kernel answers, errors included; it stops waiting for writability exactly when
  everything was written, and it shuts the write side down in exactly one case: the connection
  is disconnecting and this call wrote the last buffered byte.
\<close>

theorem TcpConnection_handle_write_spec:
  assumes "kernel_ok k" and "conn_base a tc ch el w" and "conn_live tc ch" and "t = el_tid el"
  shows "\<exists>w' tc' ch' tr. TcpConnection_handle_write k t a w = Inr w' \<and> nx_conns w' a = Some tc' \<and>
    rx_channels w' (tc_channel tc') = Some ch' \<and>
    wire (tc_fd tc) (nx_trace w') @ nb_contents (tc_output_buffer tc') =
      wire (tc_fd tc) (nx_trace w) @ nb_contents (tc_output_buffer tc) \<and>
    (Channel_is_writing ch' \<longleftrightarrow> nb_contents (tc_output_buffer tc') \<noteq> []) \<and>
    nx_trace w' = nx_trace w @ tr \<and>
    (Sys_shutdown (tc_socket tc) \<in> set tr \<longleftrightarrow>
       tc_state tc = kDisconnecting \<and> nb_contents (tc_output_buffer tc) \<noteq> [] \<and>
       nb_contents (tc_output_buffer tc') = [])"
proof -
  from handle_write_ok [OF assms] obtain w' tc' ch' el' tr where w':
    "TcpConnection_handle_write k t a w = Inr w'" "conn_base a tc' ch' el' w'" "conn_live tc' ch'"
    "wire (tc_fd tc) (nx_trace w') @ nb_contents (tc_output_buffer tc') =
       wire (tc_fd tc) (nx_trace w) @ nb_contents (tc_output_buffer tc)"
    "nx_trace w' = nx_trace w @ tr"
    "Sys_shutdown (tc_socket tc) \<in> set tr \<longleftrightarrow> tc_state tc = kDisconnecting \<and>
       nb_contents (tc_output_buffer tc) \<noteq> [] \<and> nb_contents (tc_output_buffer tc') = []"
    by blast
  then show ?thesis using conn_baseD(2,3) [OF w'(2)] unfolding conn_live_def by blast
qed

theorem TcpConnection_handle_write_spec_witness:
  "\<exists>(w :: unit net) w'. TcpConnection_handle_write slow_kernel 7 2 w = Inr w' \<and>
     wire 9 (nx_trace w') = wire 9 (nx_trace w)"
proof -
  obtain w :: "unit net" and tc ch el where w: "conn_base 2 tc ch el w" "conn_live tc ch" "el_tid el = 7"
    "tc_fd tc = 9" "nb_contents (tc_output_buffer tc) = []"
    using established_example by blast
  have "7 = el_tid el" using w(3) by simp
  from TcpConnection_handle_write_spec [OF slow_kernel_ok(1) w(1,2) this] w(4,5) obtain w' where
    "TcpConnection_handle_write slow_kernel 7 2 w = Inr w'" "wire 9 (nx_trace w') = wire 9 (nx_trace w)"
    by auto
  then show ?thesis by blast
qed

text \<open>
  C35. A direct write that fails with any error but \<open>EWOULDBLOCK\<close> silently drops the
  message: nothing reaches the socket or the buffer, the connection stays connected, and the
  caller is not told.  This covers errors such as \<open>EINTR\<close>, after which the write could be
  repeated: the condition of the source names \<open>EPIPE\<close> and \<open>ECONNRESET\<close> and holds for
  all of them.
\<close>

theorem TcpConnection_write_error_drops:
  assumes "conn_base a tc ch el w" and "conn_live tc ch" and "t = el_tid el"
    and "nb_contents (tc_output_buffer tc) = []" and "read_memory p len w = Inr data"
    and "k_write k (nx_trace w) (tc_fd tc) data = Io_error e" and "e \<noteq> EWOULDBLOCK"
  shows "\<exists>w'. TcpConnection_send_in_loop k t a p len w = Inr w' \<and> nx_conns w' = nx_conns w \<and>
    wire (tc_fd tc) (nx_trace w') = wire (tc_fd tc) (nx_trace w)"
proof -
  note D = conn_baseD [OF assms(1)]
  let ?w1 = "w\<lparr>nx_trace := nx_trace w @ [Sys_write (tc_fd tc) data (Io_error e)]\<rparr>"
  have "TcpConnection_write_directly k t a tc data w = Inr (0, True, ?w1)"
    using assms(6,7) by (simp add: TcpConnection_write_directly_def ECONNRESET_def)
  with D assms(2,4,5) conn_base_assert_ok [OF assms(1,3)] readable_zero [OF D(9)]
  have "TcpConnection_send_in_loop k t a p len w = Inr ?w1"
    by (auto simp: TcpConnection_send_in_loop_def conn_live_def TcpConnection_buffer_rest_def)
  then show ?thesis by simp
qed

theorem TcpConnection_write_error_drops_witness:
  "\<exists>(w :: unit net) w'.
     TcpConnection_send_in_loop (slow_kernel\<lparr>k_write := \<lambda>_ _ _. Io_error EINTR\<rparr>) 7 2 0 3 w = Inr w' \<and>
     nx_conns w' = nx_conns w \<and> wire 9 (nx_trace w') = wire 9 (nx_trace w)"
proof -
  obtain w :: "unit net" and tc ch el where w: "conn_base 2 tc ch el w" "conn_live tc ch" "el_tid el = 7"
    "tc_fd tc = 9" "nb_contents (tc_output_buffer tc) = []"
    using established_example by blast
  let ?w = "w\<lparr>nx_memory := [0 \<mapsto> [1, 2, 3]]\<rparr>"
  have base: "conn_base 2 tc ch el ?w" and t: "7 = el_tid el" using w(1,3) by simp_all
  have mem: "read_memory 0 3 ?w = Inr [1, 2, 3]" by (simp add: read_memory_def deref_def read_range_def)
  have err: "EINTR \<noteq> EWOULDBLOCK" by (simp add: errno_defs)
  note drops = TcpConnection_write_error_drops [OF base w(2) t w(5) mem _ err,
      of "slow_kernel\<lparr>k_write := \<lambda>_ _ _. Io_error EINTR\<rparr>"]
  show ?thesis by (rule exI [of _ ?w]) (use drops w(4) in simp)
qed

text \<open>
  C36. \<open>send\<close> from another thread queues the caller's pointer, not the bytes: if the caller
  releases the memory before the loop runs the functor, the loop reads through a dangling
  pointer.
\<close>

theorem TcpConnection_send_other_thread:
  assumes "conn_base a tc ch el w" and "tc_state tc = kConnected" and "t \<noteq> el_tid el"
  shows "\<exists>w'. TcpConnection_send k t a p len w = Inr w' \<and>
    (\<exists>el'. rx_loops w' (tc_loop tc) = Some el' \<and>
           el_pending_functors el' = el_pending_functors el @ [Send_in_loop a p len]) \<and>
    TcpConnection_send_in_loop k (el_tid el) a p len (w'\<lparr>nx_memory := (nx_memory w')(p := None)\<rparr>) =
      Inl Undefined_behaviour"
proof -
  note D = conn_baseD [OF assms(1)]
  let ?el = "EventLoop_queue_in_loop t (Send_in_loop a p len) el"
  let ?w = "put_loop (tc_loop tc) ?el w"
  let ?w' = "?w\<lparr>nx_memory := (nx_memory ?w)(p := None)\<rparr>"
  have send: "TcpConnection_send k t a p len w = Inr ?w"
    using D assms(2,3) by (simp add: TcpConnection_send_def EventLoop_run_in_loop_def
        EventLoop_is_in_loop_thread_def)
  have base: "conn_base a tc ch ?el ?w'" using conn_base_queue [OF assms(1)] by simp
  have "read_memory p len ?w' = Inl Undefined_behaviour" by (simp add: read_memory_def deref_def)
  moreover have tid: "el_tid el = el_tid ?el" by simp
  ultimately have "TcpConnection_send_in_loop k (el_tid el) a p len ?w' = Inl Undefined_behaviour"
    using conn_baseD [OF base] assms(2) conn_base_assert_ok [OF base tid]
    by (simp add: TcpConnection_send_in_loop_def)
  moreover have "el_pending_functors ?el = el_pending_functors el @ [Send_in_loop a p len]"
    by (simp add: EventLoop_queue_in_loop_def EventLoop_queue_wake_def EventLoop_queue_push_def EventLoop_wakeup_def)
  ultimately show ?thesis using send by (intro exI [of _ ?w]) simp
qed

theorem TcpConnection_send_other_thread_witness:
  "\<exists>(w :: unit net) w'. TcpConnection_send slow_kernel 8 2 0 3 w = Inr w' \<and>
     TcpConnection_send_in_loop slow_kernel 7 2 0 3 (w'\<lparr>nx_memory := (nx_memory w')(0 := None)\<rparr>) =
       Inl Undefined_behaviour"
proof -
  obtain w :: "unit net" and tc ch el where w: "conn_base 2 tc ch el w" "tc_state tc = kConnected" "el_tid el = 7"
    using established_example by blast
  have "8 \<noteq> el_tid el" using w(3) by simp
  from TcpConnection_send_other_thread [OF w(1,2) this, of slow_kernel 0 3] w(3) show ?thesis by auto
qed

text \<open>
  The way down: a connection that is closed by its handler, then removed by
  \<open>connect_destoryed\<close> outside the dispatch of events, and then destroyed passes every
  assertion on the way; afterwards its descriptor is free in the poller, no object of it is
  left, and the descriptor was closed last, after it was unregistered.  (The callbacks installed by
  the program are taken to leave the store alone.)
\<close>

theorem TcpConnection_close_and_destroy:
  assumes "conn_base a tc ch el w" and "t = el_tid el" and "tc_state tc \<in> {kConnected, kDisconnecting}"
    and "\<not> el_event_handing el" and "\<not> ch_event_handling ch" and "\<forall>e w. u e w = Inr w"
  shows "\<exists>w1 w2 w3 el3. TcpConnection_handle_close u t a w = Inr w1 \<and>
    TcpConnection_connect_destoryed u t a w1 = Inr w2 \<and> TcpConnection_destroy t a w2 = Inr w3 \<and>
    rx_inv w3 \<and> nx_conns w3 a = None \<and> rx_channels w3 (tc_channel tc) = None \<and>
    rx_loops w3 (tc_loop tc) = Some el3 \<and> ep_channels (el_poller el3) (tc_fd tc) = None \<and>
    nx_trace w3 = nx_trace w @ [Sys_close (tc_socket tc)]"
proof -
  let ?tc = "tc\<lparr>tc_state := kDisconnected\<rparr>"
  obtain w1 ch1 el1 where w1: "TcpConnection_handle_close u t a w = Inr w1" "conn_base a ?tc ch1 el1 w1"
    "ch1 = ch\<lparr>ch_events := kNoneEvent, ch_added_to_loop := True, ch_index := ch_index ch1\<rparr>"
    "el1 = el\<lparr>el_poller := el_poller el1\<rparr>" "nx_trace w1 = nx_trace w"
    using handle_close_ok [OF assms(1,2,3), of u] assms(6) conn_baseD(2)
    by (fastforce simp: call_user_def split: option.splits)
  have t1: "t = el_tid el1" and idle: "\<not> el_event_handing el1" using assms(2,4) by (subst w1(4), simp)+
  have ch1: "ch_events ch1 = kNoneEvent" "\<not> ch_event_handling ch1" using assms(5) by (subst w1(3), simp)+
  let ?ch2 = "ch1\<lparr>ch_added_to_loop := False, ch_index := kNew\<rparr>"
  obtain ep where w2: "TcpConnection_connect_destoryed u t a w1 =
      Inr (put_loop (tc_loop tc) (el1\<lparr>el_poller := ep\<rparr>) (put_channel (tc_channel tc) ?ch2 w1))"
    "rx_inv (put_loop (tc_loop tc) (el1\<lparr>el_poller := ep\<rparr>) (put_channel (tc_channel tc) ?ch2 w1))"
    "ep_channels ep (tc_fd tc) = None"
    using connect_destoryed_closed [OF w1(2) t1 _ ch1(1) idle, of u] by (auto simp: Let_def)
  from TcpConnection_destroy_ok [OF w2(2), of a ?tc ?ch2 "el1\<lparr>el_poller := ep\<rparr>" t] obtain w3 where
    "TcpConnection_destroy t a (put_loop (tc_loop tc) (el1\<lparr>el_poller := ep\<rparr>) (put_channel (tc_channel tc) ?ch2 w1)) = Inr w3"
    "rx_inv w3" "nx_conns w3 a = None" "rx_channels w3 (tc_channel tc) = None"
    "rx_loops w3 (tc_loop tc) = Some (el1\<lparr>el_poller := ep\<rparr>)" "nx_trace w3 = nx_trace w @ [Sys_close (tc_socket tc)]"
    using conn_baseD [OF w1(2)] w2(3) ch1 w1(5) by auto
  with w1(1) w2(1,3) show ?thesis by fastforce
qed

theorem TcpConnection_close_and_destroy_witness:
  "\<exists>(w :: unit net) w1 w2 w3. TcpConnection_handle_close (\<lambda>_. Inr) 7 2 w = Inr w1 \<and>
     TcpConnection_connect_destoryed (\<lambda>_. Inr) 7 2 w1 = Inr w2 \<and> TcpConnection_destroy 7 2 w2 = Inr w3"
proof -
  obtain w :: "unit net" and tc ch el where w: "conn_base 2 tc ch el w" "tc_state tc = kConnected" "el_tid el = 7"
    "\<not> el_event_handing el" "\<not> ch_event_handling ch"
    using established_example by blast
  have "7 = el_tid el" "tc_state tc \<in> {kConnected, kDisconnecting}" using w(2,3) by simp_all
  from TcpConnection_close_and_destroy [OF w(1) this w(4,5), of "\<lambda>_. Inr"] show ?thesis by auto
qed

text \<open>
  C37. \<open>connect_destoryed\<close> handles a connected connection, but not one that is
  disconnecting: it does not disable the channel then, and the removal of the channel fails its
  assertion as long as any event is enabled.  (A server that is destroyed while a connection is
  shutting down does this.)
\<close>

theorem TcpConnection_destoryed_while_disconnecting:
  assumes "conn_base a tc ch el w" and "tc_state tc = kDisconnecting" and "ch_events ch \<noteq> kNoneEvent"
  shows "TcpConnection_connect_destoryed u t a w = Inl Assertion_failed"
  using conn_baseD [OF assms(1)] assms Channel_remove_unfold [of w "tc_channel tc" ch el t]
  by (cases "t = el_tid el") (auto simp: TcpConnection_connect_destoryed_def Channel_is_none_event_def)

theorem TcpConnection_destoryed_while_disconnecting_witness:
  "\<exists>(w :: unit net) w'. TcpConnection_shutdown 7 2 w = Inr w' \<and>
     TcpConnection_connect_destoryed (\<lambda>_. Inr) 7 2 w' = Inl Assertion_failed"
proof -
  obtain w :: "unit net" and tc ch el where w: "conn_base 2 tc ch el w" "conn_live tc ch" "el_tid el = 7"
    "Channel_is_reading ch"
    using established_example by blast
  have "7 = el_tid el" using w(3) by simp
  from shutdown_ok [OF w(1,2) this] obtain w' where w': "TcpConnection_shutdown 7 2 w = Inr w'"
    "conn_base 2 (tc\<lparr>tc_state := kDisconnecting\<rparr>) ch el w'" by auto
  have "tc_state (tc\<lparr>tc_state := kDisconnecting\<rparr>) = kDisconnecting" "ch_events ch \<noteq> kNoneEvent"
    using w(4) by (auto simp: Channel_is_reading_def kNoneEvent_def truth_def)
  from TcpConnection_destoryed_while_disconnecting [OF w'(2) this] w'(1) show ?thesis by blast
qed

end
