(* ===== verification/Event_Loop_Thread.thy ===== *)
theory Event_Loop_Thread
  imports Event_Loop
begin

text \<open>
  \<open>clia::reactor::EventLoopThread\<close> (reactor/event_loop_thread.h, event_loop_thread.cc): a
  thread that runs its own event loop.  \<open>start_loop\<close> waits on a condition variable until
  \<open>thread_func\<close> has published the address of its loop; the destructor asks the loop to
  quit and joins the thread.  The two threads are interleaved by the step relation
  \<open>elt_step\<close>; a third kind of step is a \<open>quit\<close> by whoever else has the address.
\<close>

section \<open>State\<close>

text \<open>Where the thread of the loop is in \<open>thread_func\<close>, and where the owner is.\<close>

datatype worker_pc =
    W_none            \<comment> \<open>\<open>thread_\<close> holds no thread\<close>
  | W_init            \<comment> \<open>before the loop object is constructed\<close>
  | W_ready           \<comment> \<open>constructed, the callback has run\<close>
  | W_published       \<comment> \<open>\<open>loop_\<close> is set, \<open>loop.loop()\<close> is not entered\<close>
  | W_looping
  | W_left            \<comment> \<open>\<open>loop.loop()\<close> has returned\<close>
  | W_cleared         \<comment> \<open>\<open>loop_\<close> is reset, the loop object still exists\<close>
  | W_done

datatype owner_pc =
    O_idle
  | O_waiting         \<comment> \<open>in the loop of \<open>start_loop\<close>\<close>
  | O_has addr        \<comment> \<open>\<open>start_loop\<close> has returned\<close>
  | O_quitting addr   \<comment> \<open>the destructor found this in \<open>loop_\<close>\<close>
  | O_joining
  | O_gone            \<comment> \<open>the destructor has returned\<close>
  | O_dangling        \<comment> \<open>the destructor has called \<open>quit\<close> on a destroyed loop\<close>

record 'f event_loop_thread =
  lt_loop :: "addr option"               \<comment> \<open>the member \<open>loop_\<close>\<close>
  lt_exiting :: bool
  lt_object :: "'f event_loop option"    \<comment> \<open>the local variable \<open>loop\<close> of \<open>thread_func\<close>\<close>
  lt_worker :: worker_pc
  lt_owner :: owner_pc

definition EventLoopThread_new :: "'f event_loop_thread" where
  "EventLoopThread_new = \<lparr>lt_loop = None, lt_exiting = False, lt_object = None, lt_worker = W_none, lt_owner = O_idle\<rparr>"

section \<open>Operations\<close>

definition EventLoopThread_start_loop :: "'f event_loop_thread \<Rightarrow> 'f event_loop_thread" where
  "EventLoopThread_start_loop s = s\<lparr>lt_worker := W_init, lt_owner := O_waiting\<rparr>"

text \<open>The test of the waiting loop, under the mutex: \<open>None\<close> when it waits on.\<close>

definition EventLoopThread_start_loop_wait :: "'f event_loop_thread \<Rightarrow> 'f event_loop_thread option" where
  "EventLoopThread_start_loop_wait s =
     (case lt_loop s of None \<Rightarrow> None | Some l \<Rightarrow> Some (s\<lparr>lt_owner := O_has l\<rparr>))"

text \<open>The steps of \<open>thread_func\<close>: the constructed loop \<open>el\<close> after the callback has run
  on it, its address \<open>l\<close>.\<close>

fun EventLoopThread_thread_func :: "addr \<Rightarrow> 'f event_loop \<Rightarrow> 'f event_loop_thread \<Rightarrow> 'f event_loop_thread option" where
  "EventLoopThread_thread_func l el s =
     (case lt_worker s of
        W_init \<Rightarrow> Some (s\<lparr>lt_object := Some el, lt_worker := W_ready\<rparr>)
      | W_ready \<Rightarrow> Some (s\<lparr>lt_loop := Some l, lt_worker := W_published\<rparr>)
      | W_published \<Rightarrow> Some (s\<lparr>lt_object := map_option (\<lambda>x. x\<lparr>el_looping := True, el_quit := False\<rparr>) (lt_object s),
                               lt_worker := W_looping\<rparr>)
      | W_looping \<Rightarrow> (case lt_object s of
                         Some x \<Rightarrow> if el_quit x then Some (s\<lparr>lt_object := Some (x\<lparr>el_looping := False\<rparr>), lt_worker := W_left\<rparr>) else None
                       | None \<Rightarrow> None)
      | W_left \<Rightarrow> Some (s\<lparr>lt_loop := None, lt_worker := W_cleared\<rparr>)
      | W_cleared \<Rightarrow> Some (s\<lparr>lt_object := None, lt_worker := W_done\<rparr>)
      | _ \<Rightarrow> None)"

text \<open>The destructor, run by the owner's thread \<open>t\<close>: it reads \<open>loop_\<close> without the
  mutex, then calls \<open>quit\<close> on the object, then joins.\<close>

definition EventLoopThread_destroy_read :: "'f event_loop_thread \<Rightarrow> 'f event_loop_thread" where
  "EventLoopThread_destroy_read s =
     s\<lparr>lt_exiting := True, lt_owner := (case lt_loop s of Some l \<Rightarrow> O_quitting l | None \<Rightarrow> O_joining)\<rparr>"

definition EventLoopThread_destroy_quit :: "int \<Rightarrow> 'f event_loop_thread \<Rightarrow> 'f event_loop_thread" where
  "EventLoopThread_destroy_quit t s =
     (case lt_object s of
        None \<Rightarrow> s\<lparr>lt_owner := O_dangling\<rparr>
      | Some x \<Rightarrow> s\<lparr>lt_object := Some (EventLoop_quit t x), lt_owner := O_joining\<rparr>)"

definition EventLoopThread_destroy_join :: "'f event_loop_thread \<Rightarrow> 'f event_loop_thread option" where
  "EventLoopThread_destroy_join s =
     (if lt_worker s = W_none \<or> lt_worker s = W_done then Some (s\<lparr>lt_owner := O_gone\<rparr>) else None)"

section \<open>Interleaving\<close>

text \<open>\<open>t\<close> is the owner's thread; \<open>ext\<close> says whether others may call \<open>quit\<close>.\<close>

inductive elt_step :: "bool \<Rightarrow> int \<Rightarrow> addr \<Rightarrow> 'f event_loop \<Rightarrow> 'f event_loop_thread \<Rightarrow> 'f event_loop_thread \<Rightarrow> bool"
  for ext t l el where
  start: "lt_owner s = O_idle \<Longrightarrow> elt_step ext t l el s (EventLoopThread_start_loop s)"
| started: "lt_owner s = O_waiting \<Longrightarrow> EventLoopThread_start_loop_wait s = Some s' \<Longrightarrow> elt_step ext t l el s s'"
| worker: "EventLoopThread_thread_func l el s = Some s' \<Longrightarrow> elt_step ext t l el s s'"
| destroy: "lt_owner s = O_has a \<or> lt_owner s = O_idle \<Longrightarrow> elt_step ext t l el s (EventLoopThread_destroy_read s)"
| quit: "lt_owner s = O_quitting a \<Longrightarrow> elt_step ext t l el s (EventLoopThread_destroy_quit t s)"
| join: "lt_owner s = O_joining \<Longrightarrow> EventLoopThread_destroy_join s = Some s' \<Longrightarrow> elt_step ext t l el s s'"
| other_quit: "ext \<Longrightarrow> lt_owner s = O_has a \<Longrightarrow> lt_object s = Some x \<Longrightarrow>
    elt_step ext t l el s (s\<lparr>lt_object := Some (EventLoop_quit t' x)\<rparr>)"

inductive_cases elt_stepE: "elt_step ext t l el s s'"

abbreviation elt_reachable :: "bool \<Rightarrow> int \<Rightarrow> addr \<Rightarrow> 'f event_loop \<Rightarrow> 'f event_loop_thread \<Rightarrow> bool" where
  "elt_reachable ext t l el \<equiv> (elt_step ext t l el)\<^sup>*\<^sup>* EventLoopThread_new"

lemmas elt_defs = EventLoopThread_new_def EventLoopThread_start_loop_def EventLoopThread_start_loop_wait_def
  EventLoopThread_destroy_read_def EventLoopThread_destroy_quit_def EventLoopThread_destroy_join_def

section \<open>Invariant\<close>

text \<open>The published address and the object follow the worker.\<close>

fun worker_published :: "worker_pc \<Rightarrow> bool" where
  "worker_published pc \<longleftrightarrow> (case pc of W_published \<Rightarrow> True | W_looping \<Rightarrow> True | W_left \<Rightarrow> True | _ \<Rightarrow> False)"

fun worker_has_object :: "worker_pc \<Rightarrow> bool" where
  "worker_has_object pc \<longleftrightarrow> (case pc of W_none \<Rightarrow> False | W_init \<Rightarrow> False | W_done \<Rightarrow> False | _ \<Rightarrow> True)"

definition elt_worker_inv :: "addr \<Rightarrow> 'f event_loop_thread \<Rightarrow> bool" where
  "elt_worker_inv l s \<longleftrightarrow>
     lt_loop s = (if worker_published (lt_worker s) then Some l else None) \<and>
     (lt_object s \<noteq> None \<longleftrightarrow> worker_has_object (lt_worker s)) \<and>
     (lt_owner s = O_idle \<longrightarrow> lt_worker s = W_none)"

text \<open>Before the destructor has called \<open>quit\<close>, and when nobody else calls it, the worker
  is not past its loop and the owner has no other address.\<close>

fun owner_before_quit :: "owner_pc \<Rightarrow> bool" where
  "owner_before_quit pc \<longleftrightarrow> (case pc of O_joining \<Rightarrow> False | O_gone \<Rightarrow> False | O_dangling \<Rightarrow> False | _ \<Rightarrow> True)"

fun worker_before_left :: "worker_pc \<Rightarrow> bool" where
  "worker_before_left pc \<longleftrightarrow> (case pc of W_left \<Rightarrow> False | W_cleared \<Rightarrow> False | W_done \<Rightarrow> False | _ \<Rightarrow> True)"

fun owner_has :: "addr \<Rightarrow> owner_pc \<Rightarrow> worker_pc \<Rightarrow> bool" where
  "owner_has l pc wpc \<longleftrightarrow>
     (case pc of O_idle \<Rightarrow> wpc = W_none | O_waiting \<Rightarrow> wpc \<noteq> W_none
      | O_has a \<Rightarrow> a = l \<and> worker_published wpc | O_quitting a \<Rightarrow> a = l \<and> worker_published wpc
      | O_dangling \<Rightarrow> False | _ \<Rightarrow> True)"

definition elt_quit_inv :: "addr \<Rightarrow> 'f event_loop_thread \<Rightarrow> bool" where
  "elt_quit_inv l s \<longleftrightarrow> owner_has l (lt_owner s) (lt_worker s) \<and>
     (owner_before_quit (lt_owner s) \<longrightarrow> worker_before_left (lt_worker s) \<and>
        (\<forall>x. lt_object s = Some x \<longrightarrow> \<not> el_quit x))"

lemma elt_worker_inv_step: "elt_step ext t l el s s' \<Longrightarrow> elt_worker_inv l s \<Longrightarrow> elt_worker_inv l s'"
proof (induction rule: elt_step.induct)
  case (worker s s')
  then show ?case by (cases "lt_worker s") (auto simp: elt_worker_inv_def split: option.splits if_splits)
qed (auto simp: elt_worker_inv_def elt_defs split: option.splits if_splits)

lemma elt_quit_inv_worker:
  assumes "EventLoopThread_thread_func l el s = Some s'" and "elt_worker_inv l s" and "elt_quit_inv l s"
    and "\<not> el_quit el"
  shows "elt_quit_inv l s'"
proof (cases "owner_before_quit (lt_owner s)")
  case True
  with assms show ?thesis
    by (cases "lt_worker s"; cases "lt_owner s")
      (auto simp: elt_quit_inv_def elt_worker_inv_def split: option.splits if_splits)
next
  case False
  with assms have "lt_owner s' = lt_owner s"
    by (cases "lt_worker s") (auto split: option.splits if_splits)
  with False assms show ?thesis by (cases "lt_owner s") (simp_all add: elt_quit_inv_def)
qed

lemma elt_quit_inv_step:
  "elt_step False t l el s s' \<Longrightarrow> elt_worker_inv l s \<Longrightarrow> \<not> el_quit el \<Longrightarrow> elt_quit_inv l s \<Longrightarrow> elt_quit_inv l s'"
proof (induction rule: elt_step.induct)
  case (worker s s')
  then show ?case using elt_quit_inv_worker by blast
next
  case (started s s')
  then show ?case by (cases "lt_worker s") (auto simp: elt_quit_inv_def elt_worker_inv_def elt_defs)
next
  case (destroy s a)
  then show ?case by (cases "lt_worker s") (auto simp: elt_quit_inv_def elt_worker_inv_def elt_defs)
next
  case (quit s a)
  then show ?case by (cases "lt_worker s") (auto simp: elt_quit_inv_def elt_worker_inv_def elt_defs)
qed (auto simp: elt_quit_inv_def elt_worker_inv_def elt_defs split: if_splits)

lemma elt_inv_reachable:
  "elt_reachable False t l el s \<Longrightarrow> \<not> el_quit el \<Longrightarrow> elt_worker_inv l s \<and> elt_quit_inv l s"
proof (induction rule: rtranclp_induct)
  case base
  then show ?case by (simp add: elt_worker_inv_def elt_quit_inv_def elt_defs)
next
  case (step s s')
  then show ?case using elt_worker_inv_step elt_quit_inv_step by blast
qed

section \<open>Properties\<close>


text \<open>
  C38. The destructor hangs when it runs before the new thread has entered its loop:
  \<open>start_loop\<close> returns as soon as the address is published, \<open>loop()\<close> clears the
  request to quit when it is entered, and from then on the thread polls for ever while the
  destructor waits in \<open>join\<close>.
\<close>

theorem EventLoopThread_destroyed_too_early:
  assumes "(elt_step ext t l el)\<^sup>*\<^sup>* s s'" and "lt_owner s = O_joining" and "lt_worker s = W_published"
    and "lt_object s \<noteq> None"
  shows "lt_owner s' = O_joining \<and> lt_worker s' \<in> {W_published, W_looping}"
proof -
  have "lt_owner s' = O_joining \<and> (\<exists>x. lt_object s' = Some x \<and>
      (lt_worker s' = W_published \<or> lt_worker s' = W_looping \<and> \<not> el_quit x))"
    using assms
  proof (induction rule: rtranclp_induct)
    case (step y z)
    from step.IH [OF step.prems] step.hyps(2) show ?case
      by (auto elim!: elt_stepE simp: elt_defs split: if_splits)
  qed auto
  then show ?thesis by auto
qed

definition some_loop :: "unit event_loop" where
  "some_loop = \<lparr>el_looping = False, el_quit = False, el_event_handing = False,
     el_calling_pending_functors = False, el_tid = 2, el_wakeup_fd = 5, el_wakeup_channel = 1,
     el_current_active_channel = None, el_poller = \<lparr>ep_events_size = 16, ep_channels = Map.empty, ep_calls = []\<rparr>,
     el_active_channels = [], el_pending_functors = [], el_wakeups = 0\<rparr>"

text \<open>A run up to the return of \<open>start_loop\<close>, and on into the destructor.\<close>

definition at_published :: "owner_pc \<Rightarrow> unit event_loop_thread" where
  "at_published pc = \<lparr>lt_loop = Some 4, lt_exiting = False, lt_object = Some some_loop, lt_worker = W_published, lt_owner = pc\<rparr>"

lemma reach_published: "elt_reachable False 1 4 some_loop (at_published (O_has 4))"
proof -
  let ?R = "elt_step False 1 4 some_loop"
  let ?s1 = "EventLoopThread_start_loop EventLoopThread_new :: unit event_loop_thread"
  let ?s2 = "?s1\<lparr>lt_object := Some some_loop, lt_worker := W_ready\<rparr>"
  let ?s3 = "?s2\<lparr>lt_loop := Some 4, lt_worker := W_published\<rparr>"
  have "?R EventLoopThread_new ?s1" by (rule elt_step.start) (simp add: elt_defs)
  moreover have "?R ?s1 ?s2" by (rule elt_step.worker) (simp add: elt_defs)
  moreover have "?R ?s2 ?s3" by (rule elt_step.worker) (simp add: elt_defs)
  moreover have "?R ?s3 (at_published (O_has 4))"
    by (rule elt_step.started) (simp_all add: elt_defs at_published_def)
  ultimately show ?thesis by (meson rtranclp.rtrancl_into_rtrancl rtranclp.rtrancl_refl)
qed


theorem EventLoopThread_destroyed_too_early_witness:
  "\<exists>s. elt_reachable False 1 4 some_loop s \<and> lt_owner s = O_joining \<and>
     (\<forall>s'. (elt_step False 1 4 some_loop)\<^sup>*\<^sup>* s s' \<longrightarrow> lt_owner s' \<noteq> O_gone)"
proof -
  let ?s1 = "EventLoopThread_destroy_read (at_published (O_has 4))"
  let ?s2 = "EventLoopThread_destroy_quit 1 ?s1"
  have "elt_step False 1 4 some_loop (at_published (O_has 4)) ?s1"
    by (rule elt_step.destroy) (simp add: at_published_def)
  moreover have "elt_step False 1 4 some_loop ?s1 ?s2"
    by (rule elt_step.quit) (simp add: elt_defs at_published_def)
  ultimately have "elt_reachable False 1 4 some_loop ?s2"
    using reach_published by (meson rtranclp.rtrancl_into_rtrancl)
  moreover have "lt_owner ?s2 = O_joining" "lt_worker ?s2 = W_published" "lt_object ?s2 \<noteq> None"
    by (simp_all add: elt_defs at_published_def)
  ultimately show ?thesis
    using EventLoopThread_destroyed_too_early [of False 1 4 some_loop ?s2] by (intro exI [of _ ?s2]) auto
qed

end
