(* ===== verification/Event_Loop_Thread_Pool.thy ===== *)
theory Event_Loop_Thread_Pool
  imports Event_Loop_Thread
begin

text \<open>
  \<open>clia::reactor::EventLoopThreadPool\<close> (reactor/event_loop_thread_pool.h,
  event_loop_thread_pool.cc): the loops among which a server spreads its connections, in turn.
  The locale \<open>loop_pool\<close> is what the server relies on: a pick always succeeds, gives one of
  the pool's loops, and leaves the pool's loops alone.
\<close>

section \<open>The class\<close>

record event_loop_thread_pool =
  tp_base_loop :: addr
  tp_started :: bool
  tp_num_threads :: int
  tp_next :: int
  tp_threads :: nat                \<comment> \<open>\<open>threads_.size()\<close>\<close>
  tp_loops :: "addr list"

text \<open>A null base loop is \<open>None\<close>.\<close>

definition EventLoopThreadPool_new :: "addr option \<Rightarrow> event_loop_thread_pool res" where
  "EventLoopThreadPool_new base_loop =
     (case base_loop of
        None \<Rightarrow> Inl Assertion_failed
      | Some l \<Rightarrow> Inr \<lparr>tp_base_loop = l, tp_started = False, tp_num_threads = 0, tp_next = 0,
                     tp_threads = 0, tp_loops = []\<rparr>)"

definition EventLoopThreadPool_set_thread_num :: "int \<Rightarrow> event_loop_thread_pool \<Rightarrow> event_loop_thread_pool" where
  "EventLoopThreadPool_set_thread_num num p = p\<lparr>tp_num_threads := num\<rparr>"

text \<open>The loop of \<open>start\<close>: \<open>loop_of i\<close> is the address that the \<open>start_loop\<close> of the
  \<open>i\<close>-th thread returned.\<close>

fun start_threads :: "(nat \<Rightarrow> addr) \<Rightarrow> nat \<Rightarrow> event_loop_thread_pool \<Rightarrow> event_loop_thread_pool" where
  "start_threads loop_of 0 p = p"
| "start_threads loop_of (Suc n) p =
     (let q = start_threads loop_of n p
      in q\<lparr>tp_threads := Suc (tp_threads q), tp_loops := tp_loops q @ [loop_of n]\<rparr>)"

text \<open>\<open>in_loop\<close> is \<open>base_loop_->is_in_loop_thread()\<close>, \<open>cb\<close> says whether a callback was
  given.  The second component is the loop the callback is run on by \<open>start\<close> itself, if
  any; each thread runs it on its own loop.  (A negative number of threads starts none.)\<close>

definition EventLoopThreadPool_start ::
    "bool \<Rightarrow> (nat \<Rightarrow> addr) \<Rightarrow> bool \<Rightarrow> event_loop_thread_pool \<Rightarrow> (event_loop_thread_pool \<times> addr option) res" where
  "EventLoopThreadPool_start in_loop loop_of cb p =
     bindE (assertE (\<not> tp_started p)) (\<lambda>_. bindE (assertE in_loop) (\<lambda>_.
       Inr (start_threads loop_of (nat (tp_num_threads p)) (p\<lparr>tp_started := True\<rparr>),
            if 0 = tp_num_threads p \<and> cb then Some (tp_base_loop p) else None)))"

definition EventLoopThreadPool_get_next_loop ::
    "bool \<Rightarrow> event_loop_thread_pool \<Rightarrow> (addr \<times> event_loop_thread_pool) res" where
  "EventLoopThreadPool_get_next_loop in_loop p =
     bindE (assertE (in_loop \<and> tp_started p)) (\<lambda>_.
       if tp_loops p \<noteq> []
       then if tp_next p < 0 then Inl Out_of_bounds
            else bindE (load (tp_loops p) (nat (tp_next p))) (\<lambda>loop.
                   let next = tp_next p + 1
                   in Inr (loop, p\<lparr>tp_next := if length (tp_loops p) \<le> nat next then 0 else next\<rparr>))
       else Inr (tp_base_loop p, p))"

definition EventLoopThreadPool_get_all_loops :: "bool \<Rightarrow> event_loop_thread_pool \<Rightarrow> addr list res" where
  "EventLoopThreadPool_get_all_loops in_loop p =
     bindE (assertE (in_loop \<and> tp_started p)) (\<lambda>_.
       Inr (if tp_loops p = [] then [tp_base_loop p] else tp_loops p))"

section \<open>The contract of a pool\<close>

fun pick_n :: "('s \<Rightarrow> ('l \<times> 's) res) \<Rightarrow> nat \<Rightarrow> 's \<Rightarrow> ('l list \<times> 's) res" where
  "pick_n pick 0 s = Inr ([], s)"
| "pick_n pick (Suc n) s =
     bindE (pick s) (\<lambda>(x, s1). bindE (pick_n pick n s1) (\<lambda>(xs, s2). Inr (x # xs, s2)))"

text \<open>\<open>at s\<close> is the position of the next pick among \<open>all s\<close>.\<close>

locale loop_pool =
  fixes pick :: "'s \<Rightarrow> ('l \<times> 's) res"
    and all :: "'s \<Rightarrow> 'l list"
    and at :: "'s \<Rightarrow> nat"
    and invar :: "'s \<Rightarrow> bool"
  assumes at_bound: "invar s \<Longrightarrow> at s < length (all s)"
    and pick_ok: "invar s \<Longrightarrow> \<exists>s'. pick s = Inr (all s ! at s, s') \<and> invar s' \<and> all s' = all s \<and>
      at s' = (at s + 1) mod length (all s)"
begin

lemma pick_member: "invar s \<Longrightarrow> pick s = Inr (x, s') \<Longrightarrow> x \<in> set (all s) \<and> invar s' \<and> all s' = all s"
  using pick_ok [of s] at_bound [of s] by auto

lemma pick_n_round_robin:
  "invar s \<Longrightarrow> \<exists>s'. pick_n pick n s = Inr (map (\<lambda>i. all s ! ((at s + i) mod length (all s))) [0..<n], s') \<and>
     invar s' \<and> all s' = all s"
proof (induction n arbitrary: s)
  case (Suc n)
  from pick_ok [OF Suc.prems] obtain s1 where s1: "pick s = Inr (all s ! at s, s1)" "invar s1" "all s1 = all s"
    "at s1 = (at s + 1) mod length (all s)" by blast
  from Suc.IH [OF s1(2)] obtain s2 where s2: "pick_n pick n s1 =
      Inr (map (\<lambda>i. all s ! (((at s + 1) mod length (all s) + i) mod length (all s))) [0..<n], s2)"
    "invar s2" "all s2 = all s" using s1(3,4) by auto
  have "map (\<lambda>i. all s ! ((at s + i) mod length (all s))) [0..<Suc n] =
      all s ! at s # map (\<lambda>i. all s ! (((at s + 1) mod length (all s) + i) mod length (all s))) [0..<n]"
    using at_bound [OF Suc.prems] unfolding upt_conv_Cons [OF zero_less_Suc]
    by (simp add: map_Suc_upt [symmetric] mod_add_left_eq del: upt_Suc)
  with s1(1) s2 show ?case by simp
qed simp

end

section \<open>The pool keeps the contract\<close>

definition pool_loops :: "event_loop_thread_pool \<Rightarrow> addr list" where
  "pool_loops p = (if tp_loops p = [] then [tp_base_loop p] else tp_loops p)"

definition pool_at :: "event_loop_thread_pool \<Rightarrow> nat" where
  "pool_at p = (if tp_loops p = [] then 0 else nat (tp_next p))"

definition pool_inv :: "event_loop_thread_pool \<Rightarrow> bool" where
  "pool_inv p \<longleftrightarrow> tp_started p \<and> 0 \<le> tp_next p \<and> (tp_loops p \<noteq> [] \<longrightarrow> tp_next p < int (length (tp_loops p))) \<and>
     tp_threads p = length (tp_loops p)"

lemma get_next_loop_ok:
  assumes "pool_inv p"
  shows "\<exists>p'. EventLoopThreadPool_get_next_loop True p = Inr (pool_loops p ! pool_at p, p') \<and> pool_inv p' \<and>
    pool_loops p' = pool_loops p \<and> pool_at p' = (pool_at p + 1) mod length (pool_loops p)"
proof (cases "tp_loops p = []")
  case True
  with assms show ?thesis
    by (auto simp: EventLoopThreadPool_get_next_loop_def pool_inv_def pool_loops_def pool_at_def)
next
  case False
  define n where "n = nat (tp_next p)"
  have n: "n < length (tp_loops p)" "0 \<le> tp_next p" "tp_next p = int n"
    using assms False by (auto simp: pool_inv_def n_def)
  let ?p = "p\<lparr>tp_next := if length (tp_loops p) \<le> Suc n then 0 else int (Suc n)\<rparr>"
  have "EventLoopThreadPool_get_next_loop True p = Inr (tp_loops p ! n, ?p)"
    using assms False n by (simp add: EventLoopThreadPool_get_next_loop_def pool_inv_def load_def Let_def)
  moreover have "pool_at ?p = (n + 1) mod length (tp_loops p)"
  proof (cases "length (tp_loops p) \<le> Suc n")
    case True
    then have "Suc n = length (tp_loops p)" using n by simp
    then show ?thesis by (simp add: pool_at_def)
  next
    case le: False
    then show ?thesis using False by (simp add: pool_at_def)
  qed
  moreover have "pool_inv ?p" using assms n by (auto simp: pool_inv_def)
  ultimately show ?thesis using False n by (simp add: pool_loops_def pool_at_def)
qed

interpretation thread_pool: loop_pool "EventLoopThreadPool_get_next_loop True" pool_loops pool_at pool_inv
proof (unfold_locales, goal_cases)
  case (1 p)
  then show ?case by (auto simp: pool_inv_def pool_at_def pool_loops_def)
next
  case (2 p)
  then show ?case by (rule get_next_loop_ok)
qed

lemma start_threads_eq:
  "tp_loops (start_threads f n p) = tp_loops p @ map f [0..<n] \<and>
   tp_threads (start_threads f n p) = tp_threads p + n \<and> tp_next (start_threads f n p) = tp_next p \<and>
   tp_started (start_threads f n p) = tp_started p \<and> tp_base_loop (start_threads f n p) = tp_base_loop p"
  by (induction n) (simp_all add: Let_def)

lemma pool_start_ok:
  assumes "EventLoopThreadPool_new (Some base) = Inr p"
  shows "\<exists>q cbl. EventLoopThreadPool_start True loop_of cb (EventLoopThreadPool_set_thread_num num p) = Inr (q, cbl) \<and>
    pool_inv q \<and> pool_at q = 0 \<and>
    pool_loops q = (if 0 < num then map loop_of [0..<nat num] else [base])"
  using assms start_threads_eq [of loop_of "nat num" "p\<lparr>tp_num_threads := num, tp_started := True\<rparr>"]
  by (auto simp: EventLoopThreadPool_new_def EventLoopThreadPool_start_def
      EventLoopThreadPool_set_thread_num_def pool_inv_def pool_at_def pool_loops_def)

section \<open>Properties\<close>

text \<open>
  A pool started with \<open>num\<close> threads hands out its loops in turn: the \<open>i\<close>-th pick
  is the loop of thread \<open>i mod num\<close>, for ever and without failing; with no thread every
  pick is the base loop.  \<open>get_all_loops\<close> gives the same loops, and a pool that was started
  cannot be started again.
\<close>

theorem EventLoopThreadPool_round_robin:
  assumes "EventLoopThreadPool_new (Some base) = Inr p"
  shows "\<exists>q q' cbl. EventLoopThreadPool_start True loop_of cb (EventLoopThreadPool_set_thread_num num p) = Inr (q, cbl) \<and>
    pick_n (EventLoopThreadPool_get_next_loop True) n q =
      Inr (map (\<lambda>i. if 0 < num then loop_of (i mod nat num) else base) [0..<n], q') \<and>
    EventLoopThreadPool_get_all_loops True q' = Inr (if 0 < num then map loop_of [0..<nat num] else [base]) \<and>
    EventLoopThreadPool_start True loop_of cb q' = Inl Assertion_failed"
proof -
  obtain q cbl where q: "EventLoopThreadPool_start True loop_of cb (EventLoopThreadPool_set_thread_num num p) = Inr (q, cbl)"
    "pool_inv q" "pool_at q = 0" "pool_loops q = (if 0 < num then map loop_of [0..<nat num] else [base])"
    using pool_start_ok [OF assms, of loop_of cb num] by blast
  from thread_pool.pick_n_round_robin [OF q(2), of n] obtain q' where
    q': "pick_n (EventLoopThreadPool_get_next_loop True) n q =
      Inr (map (\<lambda>i. pool_loops q ! (i mod length (pool_loops q))) [0..<n], q')" "pool_inv q'"
    "pool_loops q' = pool_loops q" using q(3) by auto
  have "map (\<lambda>i. pool_loops q ! (i mod length (pool_loops q))) [0..<n] =
      map (\<lambda>i. if 0 < num then loop_of (i mod nat num) else base) [0..<n]"
    using q(4) by (auto simp: nth_append)
  moreover have "EventLoopThreadPool_get_all_loops True q' = Inr (pool_loops q')"
    using q'(2) by (simp add: EventLoopThreadPool_get_all_loops_def pool_inv_def pool_loops_def)
  moreover have "EventLoopThreadPool_start True loop_of cb q' = Inl Assertion_failed"
    using q'(2) by (simp add: EventLoopThreadPool_start_def pool_inv_def)
  ultimately show ?thesis using q q' by auto
qed

theorem EventLoopThreadPool_round_robin_witness:
  "\<exists>p q q' cbl. EventLoopThreadPool_new (Some 0) = Inr p \<and>
     EventLoopThreadPool_start True (\<lambda>i. 10 + i) True (EventLoopThreadPool_set_thread_num 3 p) = Inr (q, cbl) \<and>
     pick_n (EventLoopThreadPool_get_next_loop True) 5 q = Inr ([10, 11, 12, 10, 11], q')"
proof -
  obtain p where p: "EventLoopThreadPool_new (Some 0) = Inr p" by (simp add: EventLoopThreadPool_new_def)
  have "map (\<lambda>i. if 0 < (3 :: int) then 10 + i mod nat 3 else 0) [0..<5] = [10, 11, 12, 10, 11]" by code_simp
  with EventLoopThreadPool_round_robin [OF p, of "\<lambda>i. 10 + i" True 3 5] p show ?thesis by auto
qed

end
