(* ===== verification/Tcp_Server.thy ===== *)
theory Tcp_Server
  imports Tcp_Connection Event_Loop_Thread_Pool
begin

text \<open>
  \<open>clia::net::Acceptor\<close> (net/acceptor.h, net/acceptor.cc) and \<open>clia::net::TcpServer\<close>
  (net/tcp_server.h, net/tcp_server.cc): a listening socket whose readability accepts a
  connection, and the server that spreads the accepted connections over the loops of its pool
  and keeps them by descriptor until they are closed.  The store of the network layer is
  extended with the acceptors and the servers.  At the end stand the two interpreters that tie
  the layers together: what a callback bound to a channel runs, and what a functor queued on a
  loop runs.
\<close>

section \<open>The store\<close>

text \<open>The callbacks of a connection are those of the program, except that the server binds
  \<open>TcpServer::remove_connection\<close> as the close callback.\<close>

datatype 'v server_cb = User 'v | Remove_connection addr

record acceptor =
  ac_loop :: addr
  ac_listening :: bool
  ac_socket :: int
  ac_channel :: addr
  ac_new_connection_callback :: "addr option"    \<comment> \<open>the server bound in it\<close>

text \<open>\<open>connections_\<close> is a \<open>std::map\<close>: an association list in the order of the
  descriptors.\<close>

record 'v tcp_server =
  ts_loop :: addr
  ts_acceptor :: addr
  ts_threadpool :: event_loop_thread_pool
  ts_next_conn_id :: int
  ts_started :: int
  ts_connection_callback :: "'v option"
  ts_message_callback :: "'v option"
  ts_write_complete_callback :: "'v option"
  ts_thread_init_callback :: bool
  ts_connections :: "(int \<times> addr) list"

record 'v server_net = "'v server_cb net" +
  nx_acceptors :: "addr \<Rightarrow> acceptor option"
  nx_servers :: "addr \<Rightarrow> 'v tcp_server option"

definition get_acceptor :: "addr \<Rightarrow> ('v, 'z) server_net_scheme \<Rightarrow> acceptor res" where
  "get_acceptor a w = deref (nx_acceptors w) a"

definition put_acceptor :: "addr \<Rightarrow> acceptor \<Rightarrow> ('v, 'z) server_net_scheme \<Rightarrow> ('v, 'z) server_net_scheme" where
  "put_acceptor a x w = w\<lparr>nx_acceptors := (nx_acceptors w)(a \<mapsto> x)\<rparr>"

definition get_server :: "addr \<Rightarrow> ('v, 'z) server_net_scheme \<Rightarrow> 'v tcp_server res" where
  "get_server s w = deref (nx_servers w) s"

definition put_server :: "addr \<Rightarrow> 'v tcp_server \<Rightarrow> ('v, 'z) server_net_scheme \<Rightarrow> ('v, 'z) server_net_scheme" where
  "put_server s x w = w\<lparr>nx_servers := (nx_servers w)(s \<mapsto> x)\<rparr>"

section \<open>Acceptor\<close>

definition Acceptor_new ::
    "kernel \<Rightarrow> addr \<Rightarrow> addr \<Rightarrow> addr \<Rightarrow> inet_address \<Rightarrow> bool \<Rightarrow>
     ('v, 'z) server_net_scheme \<Rightarrow> ('v, 'z) server_net_scheme res" where
  "Acceptor_new k a c loop listen_addr reuseport w =
     (let fd = k_socket k (nx_trace w) (InetAddress_family listen_addr);
          tr0 = nx_trace w @ [Sys_socket (InetAddress_family listen_addr) fd]
      in if fd = - 1 then Inl Abort_called
         else bindE (Socket_new fd) (\<lambda>s.
              bindE (Socket_bind_address k listen_addr s
                       (Socket_set_reuse_port reuseport s (Socket_set_reuse_addr True s tr0))) (\<lambda>tr.
              bindE (Channel_new loop s) (\<lambda>ch.
                Inr (put_acceptor a \<lparr>ac_loop = loop, ac_listening = False, ac_socket = s, ac_channel = c,
                                     ac_new_connection_callback = None\<rparr>
                      (put_channel c (Channel_set_read_callback (Accept_read a) ch) (w\<lparr>nx_trace := tr\<rparr>)))))))"

definition Acceptor_destroy :: "int \<Rightarrow> addr \<Rightarrow> ('v, 'z) server_net_scheme \<Rightarrow> ('v, 'z) server_net_scheme res" where
  "Acceptor_destroy t a w =
     bindE (get_acceptor a w) (\<lambda>ac.
     bindE (Channel_disable_all t (ac_channel ac) w) (\<lambda>w1.
     bindE (Channel_remove t (ac_channel ac) w1) (\<lambda>w2.
     bindE (Channel_destroy t (ac_channel ac) w2) (\<lambda>w3.
       Inr (w3\<lparr>nx_trace := Socket_destroy (ac_socket ac) (nx_trace w3),
               nx_acceptors := (nx_acceptors w3)(a := None)\<rparr>)))))"

definition Acceptor_set_new_connection_callback :: "addr \<Rightarrow> acceptor \<Rightarrow> acceptor" where
  "Acceptor_set_new_connection_callback s ac = ac\<lparr>ac_new_connection_callback := Some s\<rparr>"

definition Acceptor_listen :: "kernel \<Rightarrow> int \<Rightarrow> addr \<Rightarrow> ('v, 'z) server_net_scheme \<Rightarrow> ('v, 'z) server_net_scheme res" where
  "Acceptor_listen k t a w =
     bindE (get_acceptor a w) (\<lambda>ac.
     bindE (assert_in_loop t (ac_loop ac) w) (\<lambda>_.
     bindE (Socket_listen k (ac_socket ac) (nx_trace w)) (\<lambda>tr.
       Channel_enable_reading t (ac_channel ac)
         (put_acceptor a (ac\<lparr>ac_listening := True\<rparr>) (w\<lparr>nx_trace := tr\<rparr>)))))"

text \<open>\<open>newc s connfd peer\<close> runs the callback bound to the server \<open>s\<close>.\<close>

definition Acceptor_handle_read ::
    "kernel \<Rightarrow> (addr \<Rightarrow> int \<Rightarrow> inet_address \<Rightarrow> ('v, 'z) server_net_scheme \<Rightarrow> ('v, 'z) server_net_scheme res) \<Rightarrow>
     int \<Rightarrow> addr \<Rightarrow> ('v, 'z) server_net_scheme \<Rightarrow> ('v, 'z) server_net_scheme res" where
  "Acceptor_handle_read k newc t a w =
     bindE (get_acceptor a w) (\<lambda>ac.
     bindE (assert_in_loop t (ac_loop ac) w) (\<lambda>_.
     bindE (Socket_accept k (ac_socket ac) (nx_trace w)) (\<lambda>(connfd, peer, tr).
       let w1 = w\<lparr>nx_trace := tr\<rparr>; peer_addr = (case peer of Some p \<Rightarrow> p | None \<Rightarrow> InetAddress_default)
       in if 0 \<le> connfd
          then (case ac_new_connection_callback ac of
                  Some s \<Rightarrow> newc s connfd peer_addr w1
                | None \<Rightarrow> Inr (w1\<lparr>nx_trace := nx_trace w1 @ [Sys_close connfd]\<rparr>))
          else Inr w1)))"

section \<open>TcpServer\<close>

text \<open>\<open>a\<close> and \<open>c\<close> are the addresses of the acceptor and of its channel.\<close>

definition TcpServer_new ::
    "kernel \<Rightarrow> addr \<Rightarrow> addr \<Rightarrow> addr \<Rightarrow> addr \<Rightarrow> inet_address \<Rightarrow> bool \<Rightarrow>
     ('v, 'z) server_net_scheme \<Rightarrow> ('v, 'z) server_net_scheme res" where
  "TcpServer_new k s a c loop listen_addr reuse_port w =
     bindE (Acceptor_new k a c loop listen_addr reuse_port w) (\<lambda>w1.
     bindE (EventLoopThreadPool_new (Some loop)) (\<lambda>pool.
     bindE (get_acceptor a w1) (\<lambda>ac.
       Inr (put_server s \<lparr>ts_loop = loop, ts_acceptor = a, ts_threadpool = pool, ts_next_conn_id = 1,
              ts_started = 0, ts_connection_callback = None, ts_message_callback = None,
              ts_write_complete_callback = None, ts_thread_init_callback = False, ts_connections = []\<rparr>
            (put_acceptor a (Acceptor_set_new_connection_callback s ac) w1)))))"

definition TcpServer_set_thread_init_callback :: "'v tcp_server \<Rightarrow> 'v tcp_server" where
  "TcpServer_set_thread_init_callback ts = ts\<lparr>ts_thread_init_callback := True\<rparr>"

definition TcpServer_set_connection_callback :: "'v \<Rightarrow> 'v tcp_server \<Rightarrow> 'v tcp_server" where
  "TcpServer_set_connection_callback cb ts = ts\<lparr>ts_connection_callback := Some cb\<rparr>"

definition TcpServer_set_message_callback :: "'v \<Rightarrow> 'v tcp_server \<Rightarrow> 'v tcp_server" where
  "TcpServer_set_message_callback cb ts = ts\<lparr>ts_message_callback := Some cb\<rparr>"

definition TcpServer_set_write_complete_callback :: "'v \<Rightarrow> 'v tcp_server \<Rightarrow> 'v tcp_server" where
  "TcpServer_set_write_complete_callback cb ts = ts\<lparr>ts_write_complete_callback := Some cb\<rparr>"

definition TcpServer_set_thread_num :: "int \<Rightarrow> 'v tcp_server \<Rightarrow> 'v tcp_server" where
  "TcpServer_set_thread_num num ts = ts\<lparr>ts_threadpool := EventLoopThreadPool_set_thread_num num (ts_threadpool ts)\<rparr>"

text \<open>\<open>loop_of\<close> gives the loops the pool's threads start, \<open>init\<close> runs the thread
  initialisation callback on a loop.\<close>

definition TcpServer_start ::
    "kernel \<Rightarrow> (nat \<Rightarrow> addr) \<Rightarrow> (addr \<Rightarrow> ('v, 'z) server_net_scheme \<Rightarrow> ('v, 'z) server_net_scheme res) \<Rightarrow> int \<Rightarrow> addr \<Rightarrow> ('v, 'z) server_net_scheme \<Rightarrow> ('v, 'z) server_net_scheme res" where
  "TcpServer_start k loop_of init t s w =
     bindE (get_server s w) (\<lambda>ts.
       let w1 = put_server s (ts\<lparr>ts_started := ts_started ts + 1\<rparr>) w
       in if ts_started ts = 0
          then bindE (get_loop (tp_base_loop (ts_threadpool ts)) w1) (\<lambda>el.
               bindE (EventLoopThreadPool_start (EventLoop_is_in_loop_thread t el) loop_of
                        (ts_thread_init_callback ts) (ts_threadpool ts)) (\<lambda>(pool, base).
               bindE (let w2 = put_server s (ts\<lparr>ts_started := ts_started ts + 1, ts_threadpool := pool\<rparr>) w1
                      in case base of None \<Rightarrow> Inr w2 | Some l \<Rightarrow> init l w2) (\<lambda>w2.
               bindE (get_acceptor (ts_acceptor ts) w2) (\<lambda>ac.
               bindE (assertE (\<not> ac_listening ac)) (\<lambda>_.
                 EventLoop_run_in_loop (\<lambda>_. Acceptor_listen k t (ts_acceptor ts)) t (ts_loop ts)
                   (Acceptor_listen_in_loop (ts_acceptor ts)) w2)))))
          else Inr w1)"

text \<open>The callbacks that are set are handed to the connection.\<close>

definition install :: "('v server_cb \<Rightarrow> 'c \<Rightarrow> 'c) \<Rightarrow> 'v option \<Rightarrow> 'c \<Rightarrow> 'c" where
  "install setter cb tc = (case cb of None \<Rightarrow> tc | Some f \<Rightarrow> setter (User f) tc)"

definition TcpServer_install_callbacks ::
    "addr \<Rightarrow> 'v tcp_server \<Rightarrow> 'v server_cb tcp_connection \<Rightarrow> 'v server_cb tcp_connection" where
  "TcpServer_install_callbacks s ts tc =
     TcpConnection_set_close_callback (Remove_connection s)
       (install TcpConnection_set_write_complete_callback (ts_write_complete_callback ts)
       (install TcpConnection_set_message_callback (ts_message_callback ts)
       (install TcpConnection_set_connection_callback (ts_connection_callback ts) tc)))"

text \<open>\<open>u\<close> runs the callbacks of a connection; \<open>a\<close> and \<open>c\<close> are the addresses of the new
  connection and of its channel.\<close>

definition TcpServer_new_connection ::
    "('v server_cb user_call \<Rightarrow> ('v, 'z) server_net_scheme \<Rightarrow> ('v, 'z) server_net_scheme res) \<Rightarrow>
     int \<Rightarrow> addr \<Rightarrow> addr \<Rightarrow> addr \<Rightarrow> int \<Rightarrow> inet_address \<Rightarrow>
     ('v, 'z) server_net_scheme \<Rightarrow> ('v, 'z) server_net_scheme res" where
  "TcpServer_new_connection u t s a c sockfd peer_addr w =
     bindE (get_server s w) (\<lambda>ts.
     bindE (assert_in_loop t (ts_loop ts) w) (\<lambda>_.
     bindE (get_loop (tp_base_loop (ts_threadpool ts)) w) (\<lambda>el.
     bindE (EventLoopThreadPool_get_next_loop (EventLoop_is_in_loop_thread t el) (ts_threadpool ts)) (\<lambda>(io_loop, pool).
     bindE (TcpConnection_new a c io_loop sockfd peer_addr w) (\<lambda>w1.
     bindE (assertE (map_of (ts_connections ts) sockfd = None)) (\<lambda>_.
     bindE (upd_conn a (TcpServer_install_callbacks s ts)
            (put_server s (ts\<lparr>ts_threadpool := pool, ts_next_conn_id := ts_next_conn_id ts + 1,
                ts_connections := insort_key fst (sockfd, a) (ts_connections ts)\<rparr>) w1)) (\<lambda>w2.
       EventLoop_run_in_loop (\<lambda>_. TcpConnection_connect_established u t a) t io_loop
         (Connect_established a) w2)))))))"

definition TcpServer_remove_connection_in_loop ::
    "int \<Rightarrow> addr \<Rightarrow> addr \<Rightarrow> ('v, 'z) server_net_scheme \<Rightarrow> ('v, 'z) server_net_scheme res" where
  "TcpServer_remove_connection_in_loop t s conn w =
     bindE (get_server s w) (\<lambda>ts.
     bindE (assert_in_loop t (ts_loop ts) w) (\<lambda>_.
     bindE (get_conn conn w) (\<lambda>tc.
     bindE (assertE (map_of (ts_connections ts) (tc_fd tc) = Some conn)) (\<lambda>_.
     let rest = filter (\<lambda>x. fst x \<noteq> tc_fd tc) (ts_connections ts)
     in bindE (assertE (length (ts_connections ts) - length rest = 1)) (\<lambda>_.
          upd_loop (tc_loop tc) (EventLoop_queue_in_loop t (Connect_destoryed conn))
            (put_server s (ts\<lparr>ts_connections := rest\<rparr>) w))))))"

definition TcpServer_remove_connection ::
    "int \<Rightarrow> addr \<Rightarrow> addr \<Rightarrow> ('v, 'z) server_net_scheme \<Rightarrow> ('v, 'z) server_net_scheme res" where
  "TcpServer_remove_connection t s conn w =
     bindE (get_server s w) (\<lambda>ts.
       EventLoop_run_in_loop (\<lambda>_. TcpServer_remove_connection_in_loop t s conn) t (ts_loop ts)
         (Remove_connection_in_loop s conn) w)"

section \<open>The owners of a connection\<close>

text \<open>A connection is owned through \<open>TcpConnectionPtr\<close>, a shared pointer: by the maps of the
  servers and by the functors it is bound in.  The functors of \<open>send\<close> and \<open>shutdown\<close> are
  bound to \<open>this\<close> and own nothing.\<close>

fun holds :: "'u net_functor \<Rightarrow> addr option" where
  "holds (Connect_established a) = Some a"
| "holds (Connect_destoryed a) = Some a"
| "holds (Write_complete cb a) = Some a"
| "holds (Remove_connection_in_loop s a) = Some a"
| "holds _ = None"

text \<open>\<open>ss\<close> and \<open>ls\<close> are the servers and the loops of the program, \<open>fs\<close> functors
  that were taken out of a loop and not yet destroyed.\<close>

definition referenced ::
    "addr list \<Rightarrow> addr list \<Rightarrow> 'v server_cb net_functor list \<Rightarrow> addr \<Rightarrow> ('v, 'z) server_net_scheme \<Rightarrow> bool" where
  "referenced ss ls fs a w \<longleftrightarrow>
     list_ex (\<lambda>s. case nx_servers w s of None \<Rightarrow> False | Some ts \<Rightarrow> a \<in> snd ` set (ts_connections ts)) ss \<or>
     list_ex (\<lambda>l. case rx_loops w l of None \<Rightarrow> False | Some el \<Rightarrow> Some a \<in> holds ` set (el_pending_functors el)) ls \<or>
     Some a \<in> holds ` set fs"

text \<open>An owner lets go: the last one destroys the connection.\<close>

definition release ::
    "addr list \<Rightarrow> addr list \<Rightarrow> 'v server_cb net_functor list \<Rightarrow> int \<Rightarrow> addr \<Rightarrow>
     ('v, 'z) server_net_scheme \<Rightarrow> ('v, 'z) server_net_scheme res" where
  "release ss ls fs t a w = (if referenced ss ls fs a w then Inr w else TcpConnection_destroy t a w)"

definition destroy_net_functor ::
    "addr list \<Rightarrow> addr list \<Rightarrow> int \<Rightarrow> 'v server_cb net_functor list \<Rightarrow> 'v server_cb net_functor \<Rightarrow>
     ('v, 'z) server_net_scheme \<Rightarrow> ('v, 'z) server_net_scheme res" where
  "destroy_net_functor ss ls t fs f w =
     (case holds f of None \<Rightarrow> Inr w | Some a \<Rightarrow> release ss ls fs t a w)"

text \<open>The loop of the server's destructor over its connections: the pointer in the map is
  reset (its entry, which nothing reads any more, is taken out), the functor is run or queued,
  and the local pointer goes.\<close>

fun destroy_connections ::
    "addr list \<Rightarrow> addr list \<Rightarrow> ('v server_cb user_call \<Rightarrow> ('v, 'z) server_net_scheme \<Rightarrow> ('v, 'z) server_net_scheme res) \<Rightarrow>
     int \<Rightarrow> addr \<Rightarrow> (int \<times> addr) list \<Rightarrow> ('v, 'z) server_net_scheme \<Rightarrow> ('v, 'z) server_net_scheme res" where
  "destroy_connections ss ls u t s [] w = Inr w"
| "destroy_connections ss ls u t s ((fd, a) # cs) w =
     bindE (get_server s w) (\<lambda>ts. bindE (get_conn a w) (\<lambda>tc.
     bindE (EventLoop_run_in_loop (\<lambda>_. TcpConnection_connect_destoryed u t a) t (tc_loop tc) (Connect_destoryed a)
              (put_server s (ts\<lparr>ts_connections := filter (\<lambda>x. fst x \<noteq> fd) (ts_connections ts)\<rparr>) w)) (\<lambda>w1.
     bindE (release ss ls [] t a w1) (destroy_connections ss ls u t s cs))))"

text \<open>After the body the members are destroyed, the acceptor among them.\<close>

definition TcpServer_destroy ::
    "addr list \<Rightarrow> addr list \<Rightarrow> ('v server_cb user_call \<Rightarrow> ('v, 'z) server_net_scheme \<Rightarrow> ('v, 'z) server_net_scheme res) \<Rightarrow>
     int \<Rightarrow> addr \<Rightarrow> ('v, 'z) server_net_scheme \<Rightarrow> ('v, 'z) server_net_scheme res" where
  "TcpServer_destroy ss ls u t s w =
     bindE (get_server s w) (\<lambda>ts.
     bindE (assert_in_loop t (ts_loop ts) w) (\<lambda>_.
     bindE (destroy_connections ss ls u t s (ts_connections ts) w) (\<lambda>w1.
     bindE (Acceptor_destroy t (ts_acceptor ts) w1) (\<lambda>w2.
       Inr (w2\<lparr>nx_servers := (nx_servers w2)(s := None)\<rparr>)))))"

section \<open>What callbacks and functors run\<close>

text \<open>\<open>v\<close> is the program's own code.\<close>

definition run_user ::
    "('v server_cb user_call \<Rightarrow> ('v, 'z) server_net_scheme \<Rightarrow> ('v, 'z) server_net_scheme res) \<Rightarrow> int \<Rightarrow>
     'v server_cb user_call \<Rightarrow> ('v, 'z) server_net_scheme \<Rightarrow> ('v, 'z) server_net_scheme res" where
  "run_user v t e w =
     (case e of On_close (Remove_connection s) a \<Rightarrow> TcpServer_remove_connection t s a w | _ \<Rightarrow> v e w)"

text \<open>\<open>fresh\<close> is the allocator: the addresses of a new connection and of its channel.\<close>

definition run_chan_cb ::
    "kernel \<Rightarrow> (('v, 'z) server_net_scheme \<Rightarrow> addr \<times> addr) \<Rightarrow>
     ('v server_cb user_call \<Rightarrow> ('v, 'z) server_net_scheme \<Rightarrow> ('v, 'z) server_net_scheme res) \<Rightarrow> int \<Rightarrow>
     chan_cb \<Rightarrow> ('v, 'z) server_net_scheme \<Rightarrow> ('v, 'z) server_net_scheme res" where
  "run_chan_cb k fresh v t cb w =
     (case cb of
        Loop_read l \<Rightarrow> upd_loop l EventLoop_handle_read w
      | Conn_read a \<Rightarrow> TcpConnection_handle_read k (run_user v t) t a w
      | Conn_write a \<Rightarrow> TcpConnection_handle_write k t a w
      | Conn_close a \<Rightarrow> TcpConnection_handle_close (run_user v t) t a w
      | Conn_error a \<Rightarrow> TcpConnection_handle_error a w
      | Accept_read ac \<Rightarrow> Acceptor_handle_read k
          (\<lambda>s fd peer w. TcpServer_new_connection (run_user v t) t s (fst (fresh w)) (snd (fresh w)) fd peer w) t ac w)"

definition run_net_functor ::
    "kernel \<Rightarrow> ('v server_cb user_call \<Rightarrow> ('v, 'z) server_net_scheme \<Rightarrow> ('v, 'z) server_net_scheme res) \<Rightarrow> int \<Rightarrow>
     'v server_cb net_functor \<Rightarrow> ('v, 'z) server_net_scheme \<Rightarrow> ('v, 'z) server_net_scheme res" where
  "run_net_functor k v t f w =
     (case f of
        Send_in_loop a p len \<Rightarrow> TcpConnection_send_in_loop k t a p len w
      | Shutdown_in_loop a \<Rightarrow> TcpConnection_shutdown_in_loop t a w
      | Connect_established a \<Rightarrow> TcpConnection_connect_established (run_user v t) t a w
      | Connect_destoryed a \<Rightarrow> TcpConnection_connect_destoryed (run_user v t) t a w
      | Write_complete cb a \<Rightarrow> run_user v t (On_write_complete cb a) w
      | Acceptor_listen_in_loop a \<Rightarrow> Acceptor_listen k t a w
      | Remove_connection_in_loop s a \<Rightarrow> TcpServer_remove_connection_in_loop t s a w)"

text \<open>Whether the object a channel is tied to still exists.\<close>

definition conn_alive :: "addr \<Rightarrow> ('u, 'z) net_scheme \<Rightarrow> bool" where
  "conn_alive a w \<longleftrightarrow> nx_conns w a \<noteq> None"

section \<open>The connection map\<close>

lemma server_store_simps [simp]:
  "nx_servers (put_channel c ch w) = nx_servers w" "nx_servers (put_loop l el w) = nx_servers w"
  "nx_servers (put_conn a tc w) = nx_servers w" "nx_servers (put_server s ts w) = (nx_servers w)(s \<mapsto> ts)"
  "nx_conns (put_server s ts w) = nx_conns w" "nx_trace (put_server s ts w) = nx_trace w"
  "nx_memory (put_server s ts w) = nx_memory w" "rx_channels (put_server s ts w) = rx_channels w"
  "rx_loops (put_server s ts w) = rx_loops w" "get_loop l (put_server s ts w) = get_loop l w"
  "get_channel c (put_server s ts w) = get_channel c w" "rx_inv (put_server s ts w) = rx_inv w"
  by (simp_all add: put_channel_def put_loop_def put_conn_def put_server_def get_loop_def get_channel_def rx_inv_def)

lemma get_server_Inr_iff [simp]: "get_server s w = Inr ts \<longleftrightarrow> nx_servers w s = Some ts"
  by (auto simp: get_server_def deref_def split: option.splits)

lemma get_server_ok [simp]: "nx_servers w s = Some ts \<Longrightarrow> get_server s w = Inr ts"
  by simp

lemma conn_base_server [simp]: "conn_base a tc ch el (put_server s ts w) = conn_base a tc ch el w"
  by (simp add: conn_base_def)

lemma conn_fresh_server [simp]: "conn_fresh a tc ch el (put_server s ts w) = conn_fresh a tc ch el w"
  by (simp add: conn_fresh_def)

lemma map_of_insort:
  "map_of xs k = None \<Longrightarrow> map_of (insort_key fst (k, x) xs) = (map_of xs)(k \<mapsto> x)"
  by (induction xs) (auto split: if_splits)

lemma map_of_erase: "map_of (filter (\<lambda>x. fst x \<noteq> k) xs) = (map_of xs)(k := None)"
  by (induction xs) auto

lemma erase_one:
  assumes "distinct (map fst xs)" and "map_of xs k = Some x"
  shows "length xs - length (filter (\<lambda>x. fst x \<noteq> k) xs) = 1"
  using assms
proof (induction xs)
  case (Cons y ys)
  have len: "length (filter (\<lambda>x. fst x \<noteq> k) ys) \<le> length ys" by simp
  show ?case
  proof (cases "fst y = k")
    case True
    then have "k \<notin> fst ` set ys" using Cons.prems(1) by auto
    then have "filter (\<lambda>x. fst x \<noteq> k) ys = ys" unfolding filter_id_conv by (metis imageI)
    with True show ?thesis by simp
  next
    case False
    with Cons show ?thesis by (cases y) simp
  qed
qed simp

lemma distinct_insort_fst:
  "distinct (map fst xs) \<Longrightarrow> k \<notin> fst ` set xs \<Longrightarrow> distinct (map fst (insort_key fst (k, x) xs))"
  by (induction xs) (auto simp: set_insort_key)

text \<open>Each connection is kept under its own descriptor, once, in order.\<close>

definition conns_ok :: "(int \<times> addr) list \<Rightarrow> ('u, 'z) net_scheme \<Rightarrow> bool" where
  "conns_ok cs w \<longleftrightarrow> sorted (map fst cs) \<and> distinct (map fst cs) \<and>
     (\<forall>fd a. (fd, a) \<in> set cs \<longrightarrow> (\<exists>tc. nx_conns w a = Some tc \<and> tc_fd tc = fd))"

lemma conns_ok_insert:
  assumes "conns_ok cs w" and "map_of cs fd = None" and "nx_conns w' a = Some tc" and "tc_fd tc = fd"
    and "\<forall>b. nx_conns w b \<noteq> None \<longrightarrow> nx_conns w' b = nx_conns w b"
  shows "conns_ok (insort_key fst (fd, a) cs) w'"
proof -
  have "distinct (map fst (insort_key fst (fd, a) cs))"
    using assms(1,2) by (intro distinct_insort_fst) (simp_all add: conns_ok_def map_of_eq_None_iff)
  moreover have "sorted (map fst (insort_key fst (fd, a) cs))"
    using assms(1) by (simp add: conns_ok_def sorted_insort_key)
  moreover have "\<exists>tc. nx_conns w' b = Some tc \<and> tc_fd tc = k" if "(k, b) \<in> set cs" for k b
    using that assms(1,5) unfolding conns_ok_def by (metis option.distinct(1))
  ultimately show ?thesis using assms(3,4) by (auto simp: conns_ok_def set_insort_key)
qed

lemma conns_ok_erase:
  "conns_ok cs w \<Longrightarrow> nx_conns w' = nx_conns w \<Longrightarrow> conns_ok (filter P cs) w'"
  by (auto simp: conns_ok_def sorted_filter distinct_map_filter)

section \<open>Accepting\<close>

lemma TcpConnection_new_server:
  "TcpConnection_new a c l fd peer w = Inr w' \<Longrightarrow> nx_servers w' = nx_servers w \<and> nx_acceptors w' = nx_acceptors w"
  by (auto simp: TcpConnection_new_def bindE_Inr_iff Let_def put_conn_def put_channel_def)

lemma get_next_loop_base:
  "EventLoopThreadPool_get_next_loop b tp = Inr (l, tp') \<Longrightarrow> tp_base_loop tp' = tp_base_loop tp"
  by (auto simp: EventLoopThreadPool_get_next_loop_def bindE_Inr_iff Let_def split: if_splits)

text \<open>Two states of a server that differ in its connections and counters only.\<close>

definition same_setup :: "'v tcp_server \<Rightarrow> 'v tcp_server \<Rightarrow> bool" where
  "same_setup ts' ts \<longleftrightarrow> ts_loop ts' = ts_loop ts \<and> ts_acceptor ts' = ts_acceptor ts \<and>
     tp_base_loop (ts_threadpool ts') = tp_base_loop (ts_threadpool ts) \<and>
     ts_connection_callback ts' = ts_connection_callback ts \<and> ts_message_callback ts' = ts_message_callback ts \<and>
     ts_write_complete_callback ts' = ts_write_complete_callback ts"

lemma conn_fresh_put:
  "conn_fresh a tc ch el w \<Longrightarrow> tc_state tc' = tc_state tc \<Longrightarrow> tc_channel tc' = tc_channel tc \<Longrightarrow>
   tc_loop tc' = tc_loop tc \<Longrightarrow> tc_fd tc' = tc_fd tc \<Longrightarrow> tc_input_buffer tc' = tc_input_buffer tc \<Longrightarrow>
   tc_output_buffer tc' = tc_output_buffer tc \<Longrightarrow> conn_fresh a tc' ch el (put_conn a tc' w)"
  by (simp add: conn_fresh_def)

text \<open>The callbacks a server installs on a connection.\<close>

definition installed :: "addr \<Rightarrow> 'v tcp_server \<Rightarrow> 'v server_cb tcp_connection \<Rightarrow> bool" where
  "installed s ts tc \<longleftrightarrow>
     tc_close_callback tc = Some (Remove_connection s) \<and>
     tc_connection_callback tc = map_option User (ts_connection_callback ts) \<and>
     tc_message_callback tc = map_option User (ts_message_callback ts) \<and>
     tc_write_complete_callback tc = map_option User (ts_write_complete_callback ts)"

lemma install_ok:
  fixes tc :: "'v server_cb tcp_connection"
  assumes "tc_connection_callback tc = None" "tc_message_callback tc = None" "tc_write_complete_callback tc = None"
    and "tc' = TcpServer_install_callbacks s ts tc"
  shows "installed s ts tc' \<and> tc_state tc' = tc_state tc \<and> tc_channel tc' = tc_channel tc \<and>
    tc_loop tc' = tc_loop tc \<and> tc_fd tc' = tc_fd tc \<and> tc_socket tc' = tc_socket tc \<and>
    tc_input_buffer tc' = tc_input_buffer tc \<and>
    tc_output_buffer tc' = tc_output_buffer tc \<and> tc_peer_addr tc' = tc_peer_addr tc"
  using assms(1-3) unfolding assms(4) installed_def
  by (simp add: TcpServer_install_callbacks_def install_def TcpConnection_set_close_callback_def TcpConnection_set_write_complete_callback_def
      TcpConnection_set_message_callback_def TcpConnection_set_connection_callback_def split: option.split)

lemma new_connection_ok:
  assumes inv: "rx_inv w" and srv: "nx_servers w s = Some ts" and ok: "conns_ok (ts_connections ts) w"
    and pool: "pool_inv (ts_threadpool ts)" and base: "tp_base_loop (ts_threadpool ts) = ts_loop ts"
    and el0: "rx_loops w (ts_loop ts) = Some el0" "el_tid el0 = t"
    and loop: "rx_loops w (pool_loops (ts_threadpool ts) ! pool_at (ts_threadpool ts)) = Some el"
    and free: "ep_channels (el_poller el) fd = None" "map_of (ts_connections ts) fd = None" "fd \<noteq> - 1"
    and fresh: "nx_conns w a = None" "rx_channels w c = None"
  shows "\<exists>w2 ts2 tc ch. nx_servers w2 s = Some ts2 \<and> conns_ok (ts_connections ts2) w2 \<and>
    map_of (ts_connections ts2) = (map_of (ts_connections ts))(fd \<mapsto> a) \<and> pool_inv (ts_threadpool ts2) \<and>
    pool_loops (ts_threadpool ts2) = pool_loops (ts_threadpool ts) \<and>
    pool_at (ts_threadpool ts2) = (pool_at (ts_threadpool ts) + 1) mod length (pool_loops (ts_threadpool ts)) \<and>
    conn_fresh a tc ch el w2 \<and> installed s ts tc \<and> tc_fd tc = fd \<and> tc_peer_addr tc = peer \<and>
    nx_trace w2 = nx_trace w @ [Sys_setsockopt fd SOL_SOCKET SO_KEEPALIVE 1] \<and>
    Buffer_new kInitialSize = Inr (tc_input_buffer tc) \<and> tc_output_buffer tc = tc_input_buffer tc \<and>
    tc_channel tc = c \<and> rx_channels w2 = (rx_channels w)(c \<mapsto> ch) \<and> rx_loops w2 = rx_loops w \<and>
    ch_read_callback ch = Some (Conn_read a) \<and> ch_write_callback ch = Some (Conn_write a) \<and>
    ch_close_callback ch = Some (Conn_close a) \<and> ch_error_callback ch = Some (Conn_error a) \<and> \<not> ch_event_handling ch \<and>
    nx_conns w2 = (nx_conns w)(a \<mapsto> tc) \<and> nx_acceptors w2 = nx_acceptors w \<and> same_setup ts2 ts \<and> tc_socket tc = fd \<and>
    ts_connections ts2 = insort_key fst (fd, a) (ts_connections ts) \<and>
    tc_loop tc = pool_loops (ts_threadpool ts) ! pool_at (ts_threadpool ts) \<and>
    TcpServer_new_connection u t s a c fd peer w =
      (if el_tid el = t then TcpConnection_connect_established u t a w2
       else Inr (put_loop (tc_loop tc) (EventLoop_queue_in_loop t (Connect_established a) el) w2))"
proof -
  let ?l = "pool_loops (ts_threadpool ts) ! pool_at (ts_threadpool ts)"
  obtain pl where pl: "EventLoopThreadPool_get_next_loop True (ts_threadpool ts) = Inr (?l, pl)" "pool_inv pl"
    "pool_loops pl = pool_loops (ts_threadpool ts)"
    "pool_at pl = (pool_at (ts_threadpool ts) + 1) mod length (pool_loops (ts_threadpool ts))"
    using thread_pool.pick_ok [OF pool] by blast
  from TcpConnection_new_ok [OF inv fresh(2) loop free(1,3), of a peer] obtain w1 tc0 ch where
    w1: "TcpConnection_new a c ?l fd peer w = Inr w1" "conn_fresh a tc0 ch el w1" "tc_loop tc0 = ?l" "tc_fd tc0 = fd"
    "tc_peer_addr tc0 = peer" "tc_connection_callback tc0 = None" "tc_message_callback tc0 = None"
    "tc_write_complete_callback tc0 = None" "nx_conns w1 = (nx_conns w)(a \<mapsto> tc0)" "rx_loops w1 = rx_loops w"
    "nx_trace w1 = nx_trace w @ [Sys_setsockopt fd SOL_SOCKET SO_KEEPALIVE 1]"
    "Buffer_new kInitialSize = Inr (tc_input_buffer tc0)" "tc_output_buffer tc0 = tc_input_buffer tc0"
    "tc_channel tc0 = c" "rx_channels w1 = (rx_channels w)(c \<mapsto> ch)" "ch_read_callback ch = Some (Conn_read a)"
    "ch_write_callback ch = Some (Conn_write a)" "ch_close_callback ch = Some (Conn_close a)"
    "ch_error_callback ch = Some (Conn_error a)" "\<not> ch_event_handling ch" "tc_socket tc0 = fd"
    by blast
  let ?ts = "ts\<lparr>ts_threadpool := pl, ts_next_conn_id := ts_next_conn_id ts + 1,
                ts_connections := insort_key fst (fd, a) (ts_connections ts)\<rparr>"
  define tc where "tc = TcpServer_install_callbacks s ts tc0"
  note tc = install_ok [OF w1(6,7,8) tc_def]
  let ?w2 = "put_conn a tc (put_server s ?ts w1)"
  have fresh2: "conn_fresh a tc ch el ?w2" by (rule conn_fresh_put [of _ tc0]) (use w1(2) tc in simp_all)
  have ok2: "conns_ok (insort_key fst (fd, a) (ts_connections ts)) ?w2"
    by (rule conns_ok_insert [OF ok free(2), of _ _ tc]) (use tc w1(4,9) fresh(1) in auto)
  have srv1: "nx_acceptors w1 = nx_acceptors w" using TcpConnection_new_server [OF w1(1)] by blast
  have cfg: "same_setup ?ts ts" using get_next_loop_base [OF pl(1)] by (simp add: same_setup_def)
  have acc: "nx_acceptors ?w2 = nx_acceptors w" using srv1 by (simp add: put_conn_def put_server_def)
  have "TcpServer_new_connection u t s a c fd peer w =
      EventLoop_run_in_loop (\<lambda>_. TcpConnection_connect_established u t a) t ?l (Connect_established a) ?w2"
    using srv el0 base pl(1) w1(1,9) free(2)
    by (simp add: TcpServer_new_connection_def assert_in_loop_def EventLoop_is_in_loop_thread_def upd_conn_def tc_def)
  moreover have "get_loop ?l ?w2 = Inr el" using w1(10) loop by simp
  ultimately have run: "TcpServer_new_connection u t s a c fd peer w =
      (if el_tid el = t then TcpConnection_connect_established u t a ?w2
       else Inr (put_loop ?l (EventLoop_queue_in_loop t (Connect_established a) el) ?w2))"
    by (auto simp: EventLoop_run_in_loop_def EventLoop_is_in_loop_thread_def)
  show ?thesis
    by (rule exI [of _ ?w2], rule exI [of _ ?ts], rule exI [of _ tc], rule exI [of _ ch])
      (use run fresh2 ok2 pl tc w1(3,4,5,9-21) cfg acc map_of_insort [OF free(2), of a] in simp)
qed

section \<open>Properties\<close>

text \<open>
  C16. Accepting a connection in the server's thread never fails an assertion, given that the
  kernel's descriptor is not in use and the allocator's addresses are new: the connection gets
  the next loop of the pool in turn and the server's callbacks, is entered in the map under its
  descriptor beside the others, and \<open>connect_established\<close> is run at once when its loop
  is in this thread, or queued on its loop (behind what is queued there, exactly once) when it
  is not.
\<close>

theorem TcpServer_new_connection_spec:
  assumes inv: "rx_inv w" and srv: "nx_servers w s = Some ts" and ok: "conns_ok (ts_connections ts) w"
    and pool: "pool_inv (ts_threadpool ts)" and base: "tp_base_loop (ts_threadpool ts) = ts_loop ts"
    and el0: "rx_loops w (ts_loop ts) = Some el0" "el_tid el0 = t"
    and loop: "rx_loops w (pool_loops (ts_threadpool ts) ! pool_at (ts_threadpool ts)) = Some el"
    and free: "ep_channels (el_poller el) fd = None" "map_of (ts_connections ts) fd = None" "fd \<noteq> - 1"
    and fresh: "nx_conns w a = None" "rx_channels w c = None"
  shows "\<exists>w2 ts2 tc ch. nx_servers w2 s = Some ts2 \<and> conns_ok (ts_connections ts2) w2 \<and>
    map_of (ts_connections ts2) = (map_of (ts_connections ts))(fd \<mapsto> a) \<and> pool_inv (ts_threadpool ts2) \<and>
    pool_loops (ts_threadpool ts2) = pool_loops (ts_threadpool ts) \<and>
    pool_at (ts_threadpool ts2) = (pool_at (ts_threadpool ts) + 1) mod length (pool_loops (ts_threadpool ts)) \<and>
    conn_fresh a tc ch el w2 \<and> installed s ts tc \<and> tc_fd tc = fd \<and> tc_peer_addr tc = peer \<and>
    tc_loop tc = pool_loops (ts_threadpool ts) ! pool_at (ts_threadpool ts) \<and>
    TcpServer_new_connection u t s a c fd peer w =
      (if el_tid el = t then TcpConnection_connect_established u t a w2
       else Inr (put_loop (tc_loop tc) (EventLoop_queue_in_loop t (Connect_established a) el) w2))"
  using new_connection_ok [OF assms, of peer u] by blast

text \<open>
  Removing a connection takes exactly it out of the map and queues
  \<open>connect_destoryed\<close> on its loop, once, behind everything queued there before; the
  connection itself stays alive and registered until then.  A second removal of the same
  connection fails the assertion.
\<close>

theorem TcpServer_remove_connection_spec:
  assumes srv: "nx_servers w s = Some ts" and ok: "conns_ok (ts_connections ts) w"
    and el0: "rx_loops w (ts_loop ts) = Some el0" "el_tid el0 = t"
    and conn: "nx_conns w a = Some tc" "map_of (ts_connections ts) (tc_fd tc) = Some a"
    and el: "rx_loops w (tc_loop tc) = Some el"
  shows "\<exists>w' ts' el'. TcpServer_remove_connection_in_loop t s a w = Inr w' \<and>
    nx_servers w' = (nx_servers w)(s \<mapsto> ts') \<and> conns_ok (ts_connections ts') w' \<and>
    map_of (ts_connections ts') = (map_of (ts_connections ts))(tc_fd tc := None) \<and>
    nx_conns w' = nx_conns w \<and> rx_channels w' = rx_channels w \<and>
    rx_loops w' = (rx_loops w)(tc_loop tc \<mapsto> el') \<and>
    el_pending_functors el' = el_pending_functors el @ [Connect_destoryed a] \<and> el_poller el' = el_poller el \<and>
    TcpServer_remove_connection_in_loop t s a w' = Inl Assertion_failed"
proof -
  let ?rest = "filter (\<lambda>x. fst x \<noteq> tc_fd tc) (ts_connections ts)"
  let ?ts = "ts\<lparr>ts_connections := ?rest\<rparr>"
  let ?el = "EventLoop_queue_in_loop t (Connect_destoryed a) el"
  let ?w' = "put_loop (tc_loop tc) ?el (put_server s ?ts w)"
  have one: "length (ts_connections ts) - length ?rest = 1"
    using ok conn(2) by (intro erase_one) (simp_all add: conns_ok_def)
  have rem: "TcpServer_remove_connection_in_loop t s a w = Inr ?w'"
    using srv el0 conn el one
    by (simp add: TcpServer_remove_connection_in_loop_def assert_in_loop_def EventLoop_is_in_loop_thread_def
        Let_def upd_loop_def)
  have q: "el_pending_functors ?el = el_pending_functors el @ [Connect_destoryed a]" "el_poller ?el = el_poller el"
    by (simp_all add: EventLoop_queue_in_loop_def EventLoop_queue_wake_def EventLoop_queue_push_def EventLoop_wakeup_def)
  obtain e where e: "rx_loops ?w' (ts_loop ts) = Some e" "el_tid e = t"
    using el0 el by (cases "ts_loop ts = tc_loop tc") auto
  have "TcpServer_remove_connection_in_loop t s a ?w' = Inl Assertion_failed"
    using e conn(1) by (simp add: TcpServer_remove_connection_in_loop_def assert_in_loop_def
        EventLoop_is_in_loop_thread_def map_of_erase)
  with rem q conns_ok_erase [OF ok, of ?w'] show ?thesis
    by (intro exI [of _ ?w'] exI [of _ ?ts] exI [of _ ?el]) (simp add: map_of_erase)
qed

section \<open>A server to evaluate on\<close>

text \<open>A loop of thread 7 at address 0 and a started server without threads at address 20.\<close>

definition empty_server_net :: "'v server_net" where
  "empty_server_net = \<lparr>rx_channels = Map.empty, rx_loops = Map.empty, rx_loop_in_thread = Map.empty,
     nx_conns = Map.empty, nx_memory = Map.empty, nx_trace = [], nx_acceptors = Map.empty, nx_servers = Map.empty\<rparr>"

definition example_server :: "(int \<times> addr) list \<Rightarrow> 'v tcp_server" where
  "example_server cs = \<lparr>ts_loop = 0, ts_acceptor = 21,
     ts_threadpool = \<lparr>tp_base_loop = 0, tp_started = True, tp_num_threads = 0, tp_next = 0, tp_threads = 0, tp_loops = []\<rparr>,
     ts_next_conn_id = 1, ts_started = 1, ts_connection_callback = None, ts_message_callback = None,
     ts_write_complete_callback = None, ts_thread_init_callback = False, ts_connections = cs\<rparr>"

lemma EventLoop_new_conns:
  fixes w :: "('u, 'z) net_scheme"
  shows "EventLoop_new t l c fd epfd cb w = Inr w' \<Longrightarrow> nx_conns w' = nx_conns w"
  by (auto simp: EventLoop_new_def Channel_enable_reading_def set_events_def upd_channel_def Channel_update_def
      EventLoop_update_channel_def bindE_Inr_iff)

lemma server_loop_example:
  "\<exists>w el c. EventLoop_new 7 0 1 5 6 (Loop_read 0) (empty_server_net :: 'v server_net) = Inr w \<and> rx_inv w \<and>
     rx_loops w = [0 \<mapsto> el] \<and> rx_channels w = [1 \<mapsto> c] \<and> el_tid el = 7 \<and>
     ep_channels (el_poller el) 9 = None \<and> nx_conns w = Map.empty"
proof -
  have inv: "rx_inv (empty_server_net :: 'v server_net)" by (simp add: rx_inv_def empty_server_net_def)
  obtain w el c where w: "EventLoop_new 7 0 1 5 6 (Loop_read 0) (empty_server_net :: 'v server_net) = Inr w"
    "rx_inv w" "rx_loops w = [0 \<mapsto> el]" "rx_channels w = [1 \<mapsto> c]" "el_tid el = 7" "ch_fd c = 5"
    using EventLoop_new_ok [OF inv, of 0 1 5 6 7 "Loop_read 0"] by (auto simp: empty_server_net_def)
  have "ep_inv 0 (rx_channels w) (el_poller el)" using rx_invD [OF w(2), of 0 el] w by simp
  then have "ep_channels (el_poller el) 9 = None"
    using ep_invD(2) [of 0 "rx_channels w" "el_poller el" 9] w
    by (cases "ep_channels (el_poller el) 9") (auto split: if_splits)
  then show ?thesis using w EventLoop_new_conns [OF w(1)] by (auto simp: empty_server_net_def)
qed

theorem TcpServer_new_connection_spec_witness:
  "\<exists>(w :: unit server_net) w2 w3 ts2. nx_servers w2 20 = Some ts2 \<and> map_of (ts_connections ts2) = [9 \<mapsto> 2] \<and>
     TcpServer_new_connection (\<lambda>_. Inr) 7 20 2 3 9 InetAddress_default w = Inr w3 \<and>
     TcpConnection_connect_established (\<lambda>_. Inr) 7 2 w2 = Inr w3"
proof -
  obtain w0 :: "unit server_net" and el c where w0: "rx_inv w0" "rx_loops w0 = [0 \<mapsto> el]" "rx_channels w0 = [1 \<mapsto> c]"
    "el_tid el = 7" "ep_channels (el_poller el) 9 = None" "nx_conns w0 = Map.empty"
    using server_loop_example by blast
  let ?ts = "example_server [] :: unit tcp_server"
  let ?w = "put_server 20 ?ts w0"
  have "pool_inv (ts_threadpool ?ts)" "tp_base_loop (ts_threadpool ?ts) = ts_loop ?ts" "ts_loop ?ts = 0"
    "pool_loops (ts_threadpool ?ts) = [0]" "pool_at (ts_threadpool ?ts) = 0" "ts_connections ?ts = []"
    by (simp_all add: example_server_def pool_inv_def pool_loops_def pool_at_def)
  with TcpServer_new_connection_spec [of ?w 20 ?ts el 7 el 9 2 3 InetAddress_default "\<lambda>_. Inr"] w0
  obtain w2 ts2 tc ch where w2: "nx_servers w2 20 = Some ts2" "map_of (ts_connections ts2) = [9 \<mapsto> 2]"
    "conn_fresh 2 tc ch el w2" "installed 20 ?ts tc"
    "TcpServer_new_connection (\<lambda>_. Inr) 7 20 2 3 9 InetAddress_default ?w = TcpConnection_connect_established (\<lambda>_. Inr) 7 2 w2"
    by (auto simp: conns_ok_def)
  from w2(4) have "tc_connection_callback tc = None" by (simp add: installed_def example_server_def)
  with connect_established_ok [OF w2(3), of 7 "\<lambda>_. Inr"] w0(4) obtain w3 where
    "TcpConnection_connect_established (\<lambda>_. Inr) 7 2 w2 = Inr w3" by (auto simp: call_user_def)
  with w2 show ?thesis by metis
qed

theorem TcpServer_remove_connection_spec_witness:
  "\<exists>(w :: unit server_net) w'. TcpServer_remove_connection_in_loop 7 20 2 w = Inr w' \<and>
     TcpServer_remove_connection_in_loop 7 20 2 w' = Inl Assertion_failed"
proof -
  obtain w0 :: "unit server_net" and tc ch el where w0: "conn_base 2 tc ch el w0" "el_tid el = 7" "tc_fd tc = 9" "tc_loop tc = 0"
    using established_from [of "empty_server_net :: unit server_net" "\<lambda>_. Inr"] by (auto simp: empty_server_net_def)
  let ?ts = "example_server [(9, 2)] :: unit tcp_server"
  let ?w = "put_server 20 ?ts w0"
  note D = conn_baseD [OF w0(1)]
  have "ts_loop ?ts = 0" "ts_connections ?ts = [(9, 2)]" by (simp_all add: example_server_def)
  with TcpServer_remove_connection_spec [of ?w 20 ?ts el 7 2 tc el] D w0 show ?thesis
    by (auto simp: conns_ok_def)
qed

end
