(* ===== verification/Server_Startup.thy ===== *)
theory Server_Startup
  imports Tcp_Server
begin

unbundle bit_operations_syntax

text \<open>
  Putting a server up (\<open>TcpServer::TcpServer\<close>, \<open>TcpServer::start\<close> and
  \<open>Acceptor::listen\<close>): the relation between a server, its acceptor and the acceptor's
  channel before and after \<open>start\<close>, and the lemmas that the two operations establish it.
\<close>

section \<open>A server and its acceptor\<close>

lemma acceptor_store_simps [simp]:
  "rx_channels (put_acceptor a x w) = rx_channels w" "rx_loops (put_acceptor a x w) = rx_loops w"
  "nx_trace (put_acceptor a x w) = nx_trace w" "nx_conns (put_acceptor a x w) = nx_conns w"
  "nx_memory (put_acceptor a x w) = nx_memory w" "nx_servers (put_acceptor a x w) = nx_servers w"
  "nx_acceptors (put_acceptor a x w) = (nx_acceptors w)(a \<mapsto> x)"
  "nx_acceptors (put_server s ts w) = nx_acceptors w" "nx_acceptors (put_channel c ch w) = nx_acceptors w"
  "nx_acceptors (put_loop l el w) = nx_acceptors w" "rx_inv (put_acceptor a x w) = rx_inv w"
  "get_loop l (put_acceptor a x w) = get_loop l w" "get_channel c (put_acceptor a x w) = get_channel c w"
  by (simp_all add: put_acceptor_def put_server_def put_channel_def put_loop_def get_loop_def get_channel_def rx_inv_def)

lemma get_acceptor_ok [simp]: "nx_acceptors w a = Some ac \<Longrightarrow> get_acceptor a w = Inr ac"
  by (simp add: get_acceptor_def deref_def)

lemma trace_update_simps [simp]:
  "nx_acceptors (w\<lparr>nx_trace := tr\<rparr>) = nx_acceptors w" "nx_servers (w\<lparr>nx_trace := tr\<rparr>) = nx_servers w"
  "rx_inv (w\<lparr>nx_trace := tr\<rparr>) = rx_inv w"
  by (simp_all add: rx_inv_def)

text \<open>The server \<open>s\<close> of the loop \<open>l\<close> owns the acceptor \<open>a\<close>, whose channel \<open>c\<close>
  is that of the descriptor \<open>lfd\<close>; \<open>up\<close> says whether it listens.\<close>

definition server_up :: "bool \<Rightarrow> addr \<Rightarrow> addr \<Rightarrow> addr \<Rightarrow> addr \<Rightarrow> int \<Rightarrow> 'v tcp_server \<Rightarrow>
    ('v, 'z) server_net_scheme \<Rightarrow> bool" where
  "server_up up s a c l lfd ts w \<longleftrightarrow> nx_servers w s = Some ts \<and> ts_loop ts = l \<and> ts_acceptor ts = a \<and>
     tp_base_loop (ts_threadpool ts) = l \<and>
     nx_acceptors w a = Some \<lparr>ac_loop = l, ac_listening = up, ac_socket = lfd, ac_channel = c,
                              ac_new_connection_callback = Some s\<rparr> \<and>
     (\<exists>ch. rx_channels w c = Some ch \<and> ch_loop ch = l \<and> ch_fd ch = lfd \<and> ch_read_callback ch = Some (Accept_read a) \<and>
        \<not> ch_tied ch \<and> ch_events ch = (if up then kReadEvent else kNoneEvent) \<and> ch_index ch = (if up then kAdded else kNew))"

lemma server_upD:
  assumes "server_up up s a c l lfd ts w"
  shows "nx_servers w s = Some ts" "ts_loop ts = l" "ts_acceptor ts = a" "tp_base_loop (ts_threadpool ts) = l"
    "nx_acceptors w a = Some \<lparr>ac_loop = l, ac_listening = up, ac_socket = lfd, ac_channel = c,
                              ac_new_connection_callback = Some s\<rparr>"
  using assms by (simp_all add: server_up_def)

lemma server_up_configure:
  assumes "server_up up s a c l lfd ts w" and "ts_loop ts' = ts_loop ts" "ts_acceptor ts' = ts_acceptor ts"
    "tp_base_loop (ts_threadpool ts') = tp_base_loop (ts_threadpool ts)"
  shows "server_up up s a c l lfd ts' (put_server s ts' w)"
  using assms by (simp add: server_up_def)

section \<open>Construction\<close>

definition fresh_server :: "addr \<Rightarrow> addr \<Rightarrow> 'v tcp_server" where
  "fresh_server l a = \<lparr>ts_loop = l, ts_acceptor = a,
     ts_threadpool = \<lparr>tp_base_loop = l, tp_started = False, tp_num_threads = 0, tp_next = 0, tp_threads = 0, tp_loops = []\<rparr>,
     ts_next_conn_id = 1, ts_started = 0, ts_connection_callback = None, ts_message_callback = None,
     ts_write_complete_callback = None, ts_thread_init_callback = False, ts_connections = []\<rparr>"

text \<open>The system calls up to \<open>bind\<close>, which takes place on an IPv4 address.\<close>

definition bind_calls :: "kernel \<Rightarrow> inet_address \<Rightarrow> bool \<Rightarrow> int \<Rightarrow> trace \<Rightarrow> trace" where
  "bind_calls k listen_addr reuse lfd tr =
     (let calls = [Sys_socket AF_INET lfd, Sys_setsockopt lfd SOL_SOCKET SO_REUSEADDR 1,
                   Sys_setsockopt lfd SOL_SOCKET SO_REUSEPORT (optval reuse)]
      in calls @ [Sys_bind lfd listen_addr sizeof_sockaddr_in (k_bind k (tr @ calls) lfd listen_addr sizeof_sockaddr_in)])"

lemma Socket_bind_v4:
  assumes "InetAddress_family addr = AF_INET" and "0 \<le> k_bind k tr fd addr sizeof_sockaddr_in"
  shows "Socket_bind_address k addr fd tr =
    Inr (tr @ [Sys_bind fd addr sizeof_sockaddr_in (k_bind k tr fd addr sizeof_sockaddr_in)])"
  using assms by (simp add: Socket_bind_address_def Let_def)

lemma TcpServer_new_ok:
  fixes w :: "('v, 'z) server_net_scheme"
  assumes inv: "rx_inv w" and fresh: "rx_channels w c = None"
    and fam: "InetAddress_family addr = AF_INET"
    and lfd: "k_socket k (nx_trace w) AF_INET = lfd" "lfd \<noteq> - 1"
    and bind: "\<forall>tr. 0 \<le> k_bind k tr lfd addr sizeof_sockaddr_in"
  shows "\<exists>w'. TcpServer_new k s a c l addr reuse w = Inr w' \<and> rx_inv w' \<and>
    server_up False s a c l lfd (fresh_server l a) w' \<and> rx_loops w' = rx_loops w \<and> nx_conns w' = nx_conns w \<and>
    (\<forall>d. d \<noteq> c \<longrightarrow> rx_channels w' d = rx_channels w d) \<and>
    nx_trace w' = nx_trace w @ bind_calls k addr reuse lfd (nx_trace w)"
proof -
  let ?tr = "nx_trace w @ bind_calls k addr reuse lfd (nx_trace w)"
  let ?ch = "\<lparr>ch_loop = l, ch_fd = lfd, ch_events = 0, ch_revents = 0, ch_index = - 1,
            ch_event_handling = False, ch_added_to_loop = False, ch_tied = False, ch_tie = None,
            ch_read_callback = Some (Accept_read a), ch_write_callback = None, ch_close_callback = None,
            ch_error_callback = None\<rparr>"
  let ?w1 = "put_channel c ?ch (w\<lparr>nx_trace := ?tr\<rparr>)"
  have calls: "Socket_bind_address k addr lfd (Socket_set_reuse_port reuse lfd (Socket_set_reuse_addr True lfd
      (nx_trace w @ [Sys_socket AF_INET lfd]))) = Inr ?tr"
    using Socket_bind_v4 [OF fam] bind by (simp add: socket_option_defs bind_calls_def Let_def optval_def)
  have "ep_inv k' ((rx_channels w)(c \<mapsto> ?ch)) (el_poller ek)" if "rx_loops w k' = Some ek" for k' ek
    by (rule ep_inv_fresh) (use that rx_invD [OF inv] fresh in \<open>simp_all add: kNew_def kNoneEvent_def\<close>)
  then have inv1: "rx_inv ?w1" by (simp add: rx_inv_def)
  let ?ac = "\<lparr>ac_loop = l, ac_listening = False, ac_socket = lfd, ac_channel = c, ac_new_connection_callback = None\<rparr>"
  have "Acceptor_new k a c l addr reuse w = Inr (put_acceptor a ?ac ?w1)"
    using calls lfd unfolding Acceptor_new_def fam
    by (simp add: Let_def Socket_new_def Channel_new_def Channel_set_read_callback_def)
  then have "TcpServer_new k s a c l addr reuse w = Inr (put_server s (fresh_server l a)
      (put_acceptor a (?ac\<lparr>ac_new_connection_callback := Some s\<rparr>) (put_acceptor a ?ac ?w1)))"
    by (simp add: TcpServer_new_def EventLoopThreadPool_new_def Acceptor_set_new_connection_callback_def fresh_server_def)
  then show ?thesis
    using inv1 by (simp add: server_up_def fresh_server_def kNew_def kNoneEvent_def)
qed

section \<open>Starting\<close>

text \<open>A server whose pool was configured and not started.\<close>

definition not_started :: "'v tcp_server \<Rightarrow> bool" where
  "not_started ts \<longleftrightarrow> ts_started ts = 0 \<and> \<not> ts_thread_init_callback ts \<and> \<not> tp_started (ts_threadpool ts) \<and>
     tp_next (ts_threadpool ts) = 0 \<and> tp_threads (ts_threadpool ts) = 0 \<and> tp_loops (ts_threadpool ts) = []"

lemma Acceptor_listen_ok:
  fixes w :: "('v, 'z) server_net_scheme"
  assumes inv: "rx_inv w" and up: "server_up False s a c l lfd ts w"
    and el: "rx_loops w l = Some el" "t = el_tid el" "ep_channels (el_poller el) lfd = None"
    and ls: "0 \<le> k_listen k (nx_trace w) lfd"
  shows "\<exists>w' ep. Acceptor_listen k t a w = Inr w' \<and> rx_inv w' \<and> ep_events_size ep = ep_events_size (el_poller el) \<and> server_up True s a c l lfd ts w' \<and>
    rx_loops w' = (rx_loops w)(l \<mapsto> el\<lparr>el_poller := ep\<rparr>) \<and> nx_conns w' = nx_conns w \<and>
    ep_channels ep = (ep_channels (el_poller el))(lfd \<mapsto> c) \<and>
    (\<forall>d. d \<noteq> c \<longrightarrow> rx_channels w' d = rx_channels w d) \<and>
    nx_trace w' = nx_trace w @ [Sys_listen lfd (k_listen k (nx_trace w) lfd)]"
proof -
  note D = server_upD [OF up]
  let ?ac = "\<lparr>ac_loop = l, ac_listening = True, ac_socket = lfd, ac_channel = c, ac_new_connection_callback = Some s\<rparr>"
  let ?w1 = "put_acceptor a ?ac (w\<lparr>nx_trace := nx_trace w @ [Sys_listen lfd (k_listen k (nx_trace w) lfd)]\<rparr>)"
  obtain ch where ch: "rx_channels w c = Some ch" "ch_loop ch = l" "ch_fd ch = lfd" "ch_read_callback ch = Some (Accept_read a)"
    "ch_events ch = kNoneEvent" "ch_index ch = kNew" "\<not> ch_tied ch" using up by (auto simp: server_up_def)
  have st: "rx_channels ?w1 c = Some ch" "rx_loops ?w1 (ch_loop ch) = Some el" "rx_inv ?w1"
    "ch_index ch = kNew \<longrightarrow> ep_channels (el_poller el) (ch_fd ch) = None" using ch el inv by simp_all
  from set_events_ok [OF st(3,1,2) el(2) st(4), of "\<lambda>e. e OR kReadEvent"] ch obtain ep i where
    w': "set_events t c (\<lambda>e. e OR kReadEvent) ?w1 = Inr (put_loop l (el\<lparr>el_poller := ep\<rparr>) (put_channel c
           (ch\<lparr>ch_events := kNoneEvent OR kReadEvent, ch_added_to_loop := True, ch_index := i\<rparr>) ?w1))"
    "rx_inv (put_loop l (el\<lparr>el_poller := ep\<rparr>) (put_channel c
           (ch\<lparr>ch_events := kNoneEvent OR kReadEvent, ch_added_to_loop := True, ch_index := i\<rparr>) ?w1))"
    "i \<noteq> kNew" "i \<noteq> kDeleted" "ep_channels ep = (ep_channels (el_poller el))(lfd \<mapsto> c)"
    "ep_events_size ep = ep_events_size (el_poller el)"
    by (auto simp: Let_def kNew_def kAdded_def)
  let ?ch = "ch\<lparr>ch_events := kNoneEvent OR kReadEvent, ch_added_to_loop := True, ch_index := i\<rparr>"
  let ?w2 = "put_loop l (el\<lparr>el_poller := ep\<rparr>) (put_channel c ?ch ?w1)"
  have "ep_inv l (rx_channels ?w2) ep" using rx_invD [OF w'(2), of l "el\<lparr>el_poller := ep\<rparr>"] by simp
  from ep_invD(1) [OF this, of c] w'(3,4) ch have i: "i = kAdded" by (auto simp: chan_ok_def)
  have "Acceptor_listen k t a w = Inr ?w2"
    using D el ls w'(1) by (simp add: Acceptor_listen_def assert_in_loop_def EventLoop_is_in_loop_thread_def
        Socket_listen_def Let_def Channel_enable_reading_def)
  then show ?thesis
    using w'(2,5,6) D ch i by (intro exI [of _ ?w2] exI [of _ ep]) (simp add: server_up_def kNoneEvent_def)
qed

lemma pool_start_fresh:
  assumes "not_started ts"
  shows "\<exists>q. EventLoopThreadPool_start True loop_of (ts_thread_init_callback ts) (ts_threadpool ts) = Inr (q, None) \<and>
    pool_inv q \<and> pool_at q = 0 \<and> tp_base_loop q = tp_base_loop (ts_threadpool ts) \<and>
    pool_loops q = (if 0 < tp_num_threads (ts_threadpool ts)
      then map loop_of [0..<nat (tp_num_threads (ts_threadpool ts))] else [tp_base_loop (ts_threadpool ts)])"
  using assms start_threads_eq [of loop_of "nat (tp_num_threads (ts_threadpool ts))" "(ts_threadpool ts)\<lparr>tp_started := True\<rparr>"]
  by (auto simp: EventLoopThreadPool_start_def not_started_def pool_inv_def pool_at_def pool_loops_def)

lemma TcpServer_start_ok:
  fixes w :: "('v, 'z) server_net_scheme"
  assumes inv: "rx_inv w" and up: "server_up False s a c l lfd ts w" and ns: "not_started ts"
    and el: "rx_loops w l = Some el" "t = el_tid el" "ep_channels (el_poller el) lfd = None"
    and ls: "0 \<le> k_listen k (nx_trace w) lfd"
  shows "\<exists>w' ep q. TcpServer_start k loop_of init t s w = Inr w' \<and> rx_inv w' \<and> ep_events_size ep = ep_events_size (el_poller el) \<and>
    server_up True s a c l lfd (ts\<lparr>ts_started := 1, ts_threadpool := q\<rparr>) w' \<and> pool_inv q \<and> pool_at q = 0 \<and>
    pool_loops q = (if 0 < tp_num_threads (ts_threadpool ts)
      then map loop_of [0..<nat (tp_num_threads (ts_threadpool ts))] else [l]) \<and>
    rx_loops w' = (rx_loops w)(l \<mapsto> el\<lparr>el_poller := ep\<rparr>) \<and> nx_conns w' = nx_conns w \<and>
    ep_channels ep = (ep_channels (el_poller el))(lfd \<mapsto> c) \<and>
    (\<forall>d. d \<noteq> c \<longrightarrow> rx_channels w' d = rx_channels w d) \<and>
    nx_trace w' = nx_trace w @ [Sys_listen lfd (k_listen k (nx_trace w) lfd)] \<and>
    TcpServer_start k loop_of init t s w' =
      Inr (put_server s (ts\<lparr>ts_threadpool := q, ts_started := 2\<rparr>) w')"
proof -
  note D = server_upD [OF up]
  from pool_start_fresh [OF ns, of loop_of] D(4) obtain q where
    q: "EventLoopThreadPool_start True loop_of (ts_thread_init_callback ts) (ts_threadpool ts) = Inr (q, None)"
    "pool_inv q" "pool_at q = 0" "tp_base_loop q = l" "pool_loops q = (if 0 < tp_num_threads (ts_threadpool ts)
      then map loop_of [0..<nat (tp_num_threads (ts_threadpool ts))] else [l])" by auto
  let ?ts = "ts\<lparr>ts_started := 1, ts_threadpool := q\<rparr>"
  let ?w1 = "put_server s ?ts (put_server s (ts\<lparr>ts_started := 1\<rparr>) w)"
  have up1: "server_up False s a c l lfd ?ts ?w1" using up q(4) by (simp add: server_up_def)
  have "rx_inv ?w1" "rx_loops ?w1 l = Some el" "0 \<le> k_listen k (nx_trace ?w1) lfd" using inv el ls by simp_all
  from Acceptor_listen_ok [OF this(1) up1 this(2) el(2,3) this(3)] obtain w' ep where
    w': "Acceptor_listen k t a ?w1 = Inr w'" "rx_inv w'" "server_up True s a c l lfd ?ts w'"
    "rx_loops w' = (rx_loops w)(l \<mapsto> el\<lparr>el_poller := ep\<rparr>)" "nx_conns w' = nx_conns w"
    "ep_channels ep = (ep_channels (el_poller el))(lfd \<mapsto> c)"
    "nx_trace w' = nx_trace w @ [Sys_listen lfd (k_listen k (nx_trace w) lfd)]"
    "\<forall>d. d \<noteq> c \<longrightarrow> rx_channels w' d = rx_channels w d"
    "ep_events_size ep = ep_events_size (el_poller el)" by auto
  have s0: "ts_started ts = 0" using ns by (simp add: not_started_def)
  have "TcpServer_start k loop_of init t s w = Inr w'"
    using D el q(1) w'(1) s0
    by (simp add: TcpServer_start_def EventLoop_is_in_loop_thread_def EventLoop_run_in_loop_def)
  moreover have "TcpServer_start k loop_of init t s w' = Inr (put_server s (ts\<lparr>ts_threadpool := q, ts_started := 2\<rparr>) w')"
    using server_upD(1) [OF w'(3)] by (simp add: TcpServer_start_def)
  ultimately show ?thesis
    by (intro exI [of _ w'] exI [of _ ep] exI [of _ q]) (use w' q in simp)
qed

end
