(* ===== verification/Echo_Server.thy ===== *)
theory Echo_Server
  imports Server_Startup
begin

text \<open>
  The echo server of test/test_server.cc on top of the library: its message callback takes all
  received bytes out of the input buffer as a string and sends the string back, its connection
  callback only logs.  The string lives in the caller's memory at the address \<open>p\<close> for the
  duration of the call of \<open>send\<close>.  The program's \<open>main\<close> builds a loop and the server
  on it, starts the server and runs the loop; the logger it sets up first is in the theories of
  the loggers.
\<close>

section \<open>The callbacks\<close>

datatype echo_cb = Handle_connect | Handle_message

text \<open>Both branches of \<open>handle_connect\<close> only log the peer's address.\<close>

definition EchoServer_handle_connect :: "addr \<Rightarrow> ('u, 'z) net_scheme \<Rightarrow> ('u, 'z) net_scheme res" where
  "EchoServer_handle_connect conn w = bindE (get_conn conn w) (\<lambda>_. Inr w)"

definition EchoServer_handle_message ::
    "kernel \<Rightarrow> int \<Rightarrow> addr \<Rightarrow> addr \<Rightarrow> ('u, 'z) net_scheme \<Rightarrow> ('u, 'z) net_scheme res" where
  "EchoServer_handle_message k t p conn w =
     bindE (get_conn conn w) (\<lambda>tc.
     bindE (Buffer_retrieve_all_as_string (tc_input_buffer tc)) (\<lambda>(msg, b).
     bindE (TcpConnection_send k t conn p (length msg)
              (put_conn conn (tc\<lparr>tc_input_buffer := b\<rparr>) (w\<lparr>nx_memory := (nx_memory w)(p \<mapsto> msg)\<rparr>))) (\<lambda>w1.
       Inr (w1\<lparr>nx_memory := (nx_memory w1)(p := None)\<rparr>))))"

definition EchoServer_callbacks ::
    "kernel \<Rightarrow> int \<Rightarrow> addr \<Rightarrow> echo_cb server_cb user_call \<Rightarrow> (echo_cb, 'z) server_net_scheme \<Rightarrow>
     (echo_cb, 'z) server_net_scheme res" where
  "EchoServer_callbacks k t p e w =
     (case e of
        On_connection (User Handle_connect) conn \<Rightarrow> EchoServer_handle_connect conn w
      | On_message (User Handle_message) conn \<Rightarrow> EchoServer_handle_message k t p conn w
      | _ \<Rightarrow> Inr w)"

section \<open>The program\<close>

text \<open>\<open>s\<close>, \<open>a\<close> and \<open>c\<close> are the addresses of the server, of its acceptor and of the
  acceptor's channel; \<open>num\<close> is what \<open>std::thread::hardware_concurrency\<close> returns, the
  default argument of \<open>set_thread_num\<close>.\<close>

definition EchoServer_new ::
    "kernel \<Rightarrow> addr \<Rightarrow> addr \<Rightarrow> addr \<Rightarrow> addr \<Rightarrow> inet_address \<Rightarrow> int \<Rightarrow>
     (echo_cb, 'z) server_net_scheme \<Rightarrow> (echo_cb, 'z) server_net_scheme res" where
  "EchoServer_new k s a c loop addr num w =
     bindE (TcpServer_new k s a c loop addr False w) (\<lambda>w1.
     bindE (get_server s w1) (\<lambda>ts.
       Inr (put_server s (TcpServer_set_thread_num num
              (TcpServer_set_message_callback Handle_message
              (TcpServer_set_connection_callback Handle_connect ts))) w1)))"

definition EchoServer_start ::
    "kernel \<Rightarrow> (nat \<Rightarrow> addr) \<Rightarrow> int \<Rightarrow> addr \<Rightarrow> (echo_cb, 'z) server_net_scheme \<Rightarrow>
     (echo_cb, 'z) server_net_scheme res" where
  "EchoServer_start k loop_of t s w = TcpServer_start k loop_of (\<lambda>_. Inr) t s w"

text \<open>\<open>main\<close> up to the call of \<open>loop\<close>, and with it; \<open>l\<close> and \<open>wc\<close> are the addresses
  of the loop and of its wake-up channel, \<open>wfd\<close> and \<open>epfd\<close> their descriptors, and
  \<open>rs\<close> what \<open>epoll_wait\<close> reports.  Nothing in the program calls \<open>quit\<close>.\<close>

definition main_setup ::
    "kernel \<Rightarrow> (16 word \<Rightarrow> string \<Rightarrow> byte list option) \<Rightarrow> byte list \<Rightarrow> int \<Rightarrow> (nat \<Rightarrow> addr) \<Rightarrow> int \<Rightarrow>
     int \<Rightarrow> int \<Rightarrow> addr \<Rightarrow> addr \<Rightarrow> addr \<Rightarrow> addr \<Rightarrow> addr \<Rightarrow>
     (echo_cb, 'z) server_net_scheme \<Rightarrow> (echo_cb, 'z) server_net_scheme res" where
  "main_setup k pton junk num loop_of t wfd epfd l wc s a c w =
     bindE (EventLoop_new t l wc wfd epfd (Loop_read l) w) (\<lambda>w1.
     bindE (EchoServer_new k s a c l (InetAddress_new pton junk ''0.0.0.0'' 1818 False) num w1)
       (EchoServer_start k loop_of t s))"

definition main_program ::
    "kernel \<Rightarrow> (16 word \<Rightarrow> string \<Rightarrow> byte list option) \<Rightarrow> byte list \<Rightarrow> int \<Rightarrow> (nat \<Rightarrow> addr) \<Rightarrow> int \<Rightarrow>
     int \<Rightarrow> int \<Rightarrow> addr \<Rightarrow> addr \<Rightarrow> addr \<Rightarrow> addr \<Rightarrow> addr \<Rightarrow>
     ((echo_cb, 'z) server_net_scheme \<Rightarrow> addr \<times> addr) \<Rightarrow> addr \<Rightarrow> (addr \<times> events) list option list \<Rightarrow>
     (echo_cb, 'z) server_net_scheme \<Rightarrow> (echo_cb, 'z) server_net_scheme res" where
  "main_program k pton junk num loop_of t wfd epfd l wc s a c fresh p rs w =
     bindE (main_setup k pton junk num loop_of t wfd epfd l wc s a c w)
       (EventLoop_loop conn_alive (run_chan_cb k fresh (EchoServer_callbacks k t p) t)
         (run_net_functor k (EchoServer_callbacks k t p) t)
         (destroy_net_functor [s] (l # map loop_of [0..<nat num]) t) t l rs)"

section \<open>Reading and answering\<close>

lemma read_fd_ok:
  assumes "nb_inv b" and "0 < Buffer_writable_bytes b" and "unat (nb_writer b) + length bs \<le> vector_max_size"
    and "length (nb_contents b) + length bs < kExtraBuf"
  shows "\<exists>b'. Buffer_read_fd (Io_ok bs) b = Inr (int (length bs), b') \<and> nb_inv b' \<and> nb_contents b' = nb_contents b @ bs"
  using Buffer_take_read_ok [OF assms(1,3)] assms(2,4) extrabuf_copy by (fastforce simp: Buffer_read_fd_def)

lemma retrieve_all_ok:
  assumes "nb_inv b"
  shows "\<exists>b'. Buffer_retrieve_all_as_string b = Inr (nb_contents b, b') \<and> nb_inv b' \<and> nb_contents b' = []"
proof -
  have "unat (Buffer_readable_bytes b) = length (nb_contents b)" using unat_readable [OF assms] .
  with Buffer_retrieve_as_string_ok [OF assms, of "Buffer_readable_bytes b"] show ?thesis
    by (auto simp: Buffer_retrieve_all_as_string_def)
qed

section \<open>What was received\<close>

fun call_input :: "int \<Rightarrow> sys_call \<Rightarrow> byte list" where
  "call_input fd (Sys_readv fd' (Io_ok bs)) = (if fd = fd' then bs else [])"
| "call_input fd _ = []"

definition received :: "int \<Rightarrow> trace \<Rightarrow> byte list" where
  "received fd tr = concat (map (call_input fd) tr)"

lemma received_simps [simp]: "received fd [] = []" "received fd (tr @ tr') = received fd tr @ received fd tr'"
  "received fd (c # tr) = call_input fd c @ received fd tr"
  by (simp_all add: received_def)

text \<open>Changing the interest set and queueing a functor make no system call on the socket, and
  sending reads nothing.\<close>

lemma set_events_trace:
  fixes w :: "('u, 'z) net_scheme"
  shows "set_events t c f w = Inr w' \<Longrightarrow> nx_trace w' = nx_trace w"
  by (auto simp: set_events_def upd_channel_def Channel_update_def EventLoop_update_channel_def bindE_Inr_iff)

lemma queue_write_complete_trace: "queue_write_complete t a tc w = Inr w' \<Longrightarrow> nx_trace w' = nx_trace w"
  by (auto simp: queue_write_complete_def upd_loop_def bindE_Inr_iff split: option.splits)

lemma write_directly_received:
  "TcpConnection_write_directly k t a tc data w = Inr (n, fault, w') \<Longrightarrow> received fd (nx_trace w') = received fd (nx_trace w)"
  by (auto simp: TcpConnection_write_directly_def Let_def bindE_Inr_iff dest!: queue_write_complete_trace
      split: io_result.splits if_splits)

lemma buffer_rest_trace:
  "TcpConnection_buffer_rest t a tc ch data n fault w = Inr w' \<Longrightarrow> nx_trace w' = nx_trace w"
  by (auto simp: TcpConnection_buffer_rest_def upd_conn_def Channel_enable_writing_def bindE_Inr_iff
      dest!: set_events_trace split: if_splits)

lemma send_in_loop_received:
  "TcpConnection_send_in_loop k t a p len w = Inr w' \<Longrightarrow> received fd (nx_trace w') = received fd (nx_trace w)"
  by (auto simp: TcpConnection_send_in_loop_def bindE_Inr_iff dest!: buffer_rest_trace
      dest: write_directly_received split: if_splits)

lemma shutdown_in_loop_received:
  "TcpConnection_shutdown_in_loop t a w = Inr w' \<Longrightarrow> received fd (nx_trace w') = received fd (nx_trace w)"
  by (auto simp: TcpConnection_shutdown_in_loop_def Socket_shutdown_write_def bindE_Inr_iff split: if_splits)

lemma disable_writing_trace:
  fixes w :: "('u, 'z) net_scheme"
  shows "Channel_disable_writing t c w = Inr w' \<Longrightarrow> nx_trace w' = nx_trace w"
  unfolding Channel_disable_writing_def by (rule set_events_trace)

lemma handle_write_received:
  assumes "TcpConnection_handle_write k t a w = Inr w'"
  shows "received fd (nx_trace w') = received fd (nx_trace w)"
proof -
  obtain tc ch where tc: "get_conn a w = Inr tc" "assert_in_loop t (tc_loop tc) w = Inr ()" "get_channel (tc_channel tc) w = Inr ch"
    using assms unfolding TcpConnection_handle_write_def bindE_Inr_iff by auto
  show ?thesis
  proof (cases "Channel_is_writing ch")
    case False
    then show ?thesis using assms tc by (simp add: TcpConnection_handle_write_def)
  next
    case True
    let ?data = "nb_contents (tc_output_buffer tc)"
    let ?r = "k_write k (nx_trace w) (tc_fd tc) ?data"
    obtain n b where nb: "Buffer_write_fd ?r (tc_output_buffer tc) = Inr (n, b)"
      using assms tc True by (auto simp: TcpConnection_handle_write_def Let_def bindE_Inr_iff simp del: get_conn_Inr_iff)
    define w1 where "w1 = put_conn a (tc\<lparr>tc_output_buffer := b\<rparr>) (w\<lparr>nx_trace := nx_trace w @ [Sys_write (tc_fd tc) ?data ?r]\<rparr>)"
    have w1: "received fd (nx_trace w1) = received fd (nx_trace w)" by (simp add: w1_def)
    have "(if 0 < n \<and> Buffer_readable_bytes b = 0
           then bindE (Channel_disable_writing t (tc_channel tc) w1) (\<lambda>w2. bindE (queue_write_complete t a tc w2) (\<lambda>w3.
                  if kDisconnecting = tc_state tc then TcpConnection_shutdown_in_loop t a w3 else Inr w3))
           else Inr w1) = Inr w'"
      using assms tc True nb unfolding w1_def by (simp add: TcpConnection_handle_write_def Let_def del: get_conn_Inr_iff)
    then show ?thesis
      using w1 by (auto simp: bindE_Inr_iff dest!: disable_writing_trace queue_write_complete_trace
          dest: shutdown_in_loop_received [where fd = fd] split: if_splits)
  qed
qed

section \<open>The echo invariant\<close>

text \<open>A buffer that was just emptied has its storage behind the reserved bytes free.\<close>

definition drained :: "net_buffer \<Rightarrow> bool" where
  "drained b \<longleftrightarrow> nb_inv b \<and> nb_contents b = [] \<and> nb_writer b = 8 \<and> 8 < length (nb_buffer b)"

lemma drained_writable: "drained b \<Longrightarrow> 0 < Buffer_writable_bytes b"
  using nb_unat(2) [of b] by (auto simp: drained_def word_less_nat_alt)

lemma retrieve_all_drained:
  assumes "nb_inv b" and "nb_contents b \<noteq> []"
  shows "\<exists>b'. Buffer_retrieve_all_as_string b = Inr (nb_contents b, b') \<and> drained b'"
proof -
  have r: "unat (Buffer_readable_bytes b) = length (nb_contents b)" using unat_readable [OF assms(1)] .
  have big: "8 < length (nb_buffer b)"
    using nb_invD [OF assms(1)] assms(2) by (auto simp: nb_contents_def)
  have "nb_inv (Buffer_retrieve_all b)"
    using nb_invD [OF assms(1)] big by (simp add: nb_inv_def Buffer_retrieve_all_def kCheapPrepend_def)
  then have "drained (Buffer_retrieve_all b)"
    using big by (simp add: drained_def nb_contents_def Buffer_retrieve_all_def kCheapPrepend_def)
  moreover have "Buffer_retrieve_all_as_string b = Inr (nb_contents b, Buffer_retrieve_all b)"
    using Buffer_retrieve_as_string_ok [OF assms(1), of "Buffer_readable_bytes b"] r
    by (auto simp: Buffer_retrieve_all_as_string_def Buffer_retrieve_as_string_def Buffer_retrieve_def bindE_Inr_iff)
  ultimately show ?thesis by blast
qed

text \<open>An echoing connection: connected, with the message callback installed and nothing unread;
  \<open>X\<close> is what was on the wire or on its way there before the first byte of \<open>Y\<close> was
  received.\<close>

definition echo_inv :: "addr \<Rightarrow> int \<Rightarrow> int \<Rightarrow> byte list \<Rightarrow> byte list \<Rightarrow> nat \<Rightarrow>
    (echo_cb server_cb, 'z) net_scheme \<Rightarrow> bool" where
  "echo_inv a t fd X Y bound w \<longleftrightarrow> (\<exists>tc ch el. conn_base a tc ch el w \<and> conn_live tc ch \<and> tc_state tc = kConnected \<and>
     t = el_tid el \<and> tc_fd tc = fd \<and> tc_message_callback tc = Some (User Handle_message) \<and> drained (tc_input_buffer tc) \<and>
     unat (nb_writer (tc_output_buffer tc)) \<le> bound \<and>
     (\<exists>Z. received fd (nx_trace w) = Y @ Z \<and>
        wire fd (nx_trace w) @ nb_contents (tc_output_buffer tc) = X @ Z))"

lemma echo_inv_mono: "echo_inv a t fd X Y bound w \<Longrightarrow> bound \<le> bound' \<Longrightarrow> echo_inv a t fd X Y bound' w"
  unfolding echo_inv_def by (blast intro: le_trans)

lemma echo_write:
  assumes k: "kernel_ok k" and inv: "echo_inv a t fd X Y bound w"
  shows "\<exists>w'. TcpConnection_handle_write k t a w = Inr w' \<and> echo_inv a t fd X Y bound w'"
proof -
  from inv obtain tc ch el Z where I: "conn_base a tc ch el w" "conn_live tc ch" "tc_state tc = kConnected" "t = el_tid el"
    "tc_fd tc = fd" "tc_message_callback tc = Some (User Handle_message)" "drained (tc_input_buffer tc)"
    "unat (nb_writer (tc_output_buffer tc)) \<le> bound" "received fd (nx_trace w) = Y @ Z"
    "wire fd (nx_trace w) @ nb_contents (tc_output_buffer tc) = X @ Z" unfolding echo_inv_def by blast
  from handle_write_ok [OF k I(1,2,4)] obtain w' tc' ch' el' where w':
    "TcpConnection_handle_write k t a w = Inr w'" "conn_base a tc' ch' el' w'" "conn_live tc' ch'"
    "same_conn a tc el w tc' el' w'" "unat (nb_writer (tc_output_buffer tc')) \<le> unat (nb_writer (tc_output_buffer tc))"
    "wire fd (nx_trace w') @ nb_contents (tc_output_buffer tc') = X @ Z" using I(5,10) by auto
  obtain b where tc': "tc' = tc\<lparr>tc_output_buffer := b\<rparr>" using w'(4) by (auto simp: same_conn_def)
  have "echo_inv a t fd X Y bound w'"
    unfolding echo_inv_def using I w' handle_write_received [OF w'(1), of fd] same_connD(7) [OF w'(4)]
    by (intro exI [of _ tc'] exI [of _ ch'] exI [of _ el'] conjI exI [of _ Z]) (simp_all add: tc')
  with w'(1) show ?thesis by blast
qed

lemma echo_message:
  assumes k: "kernel_ok k" and soft: "\<forall>tr fd bs e. k_write k tr fd bs = Io_error e \<longrightarrow> e = EWOULDBLOCK"
    and base: "conn_base a tc ch el w" and live: "conn_live tc ch" and st: "tc_state tc = kConnected"
    and t: "t = el_tid el" and fd: "tc_fd tc = fd" and cb: "tc_message_callback tc = Some (User Handle_message)"
    and msg: "nb_contents (tc_input_buffer tc) \<noteq> []"
    and bound: "unat (nb_writer (tc_output_buffer tc)) + length (nb_contents (tc_input_buffer tc)) \<le> bound"
      "bound \<le> vector_max_size"
    and rec: "received fd (nx_trace w) = Y @ Z"
      "wire fd (nx_trace w) @ nb_contents (tc_output_buffer tc) @ nb_contents (tc_input_buffer tc) = X @ Z"
  shows "\<exists>w'. EchoServer_handle_message k t p a w = Inr w' \<and> echo_inv a t fd X Y bound w'"
proof -
  note D = conn_baseD [OF base]
  let ?msg = "nb_contents (tc_input_buffer tc)"
  obtain b where b: "Buffer_retrieve_all_as_string (tc_input_buffer tc) = Inr (?msg, b)" "drained b"
    using retrieve_all_drained [OF D(8) msg] by blast
  let ?tc = "tc\<lparr>tc_input_buffer := b\<rparr>"
  let ?w1 = "put_conn a ?tc (w\<lparr>nx_memory := (nx_memory w)(p \<mapsto> ?msg)\<rparr>)"
  have base1: "conn_base a ?tc ch el ?w1"
    by (rule conn_base_put) (use base b D in \<open>simp_all add: drained_def\<close>)
  have live1: "conn_live ?tc ch" using live by (simp add: conn_live_def)
  have mem: "read_memory p (length ?msg) ?w1 = Inr ?msg" using read_memory_ok [of ?w1 p ?msg "length ?msg"] by simp
  have room1: "unat (nb_writer (tc_output_buffer ?tc)) + length ?msg \<le> vector_max_size" using bound by simp
  from send_in_loop_ok [OF k base1 live1 t mem room1] soft obtain w2 tc2 ch2 el2 where w2:
    "TcpConnection_send_in_loop k t a p (length ?msg) ?w1 = Inr w2" "conn_base a tc2 ch2 el2 w2"
    "conn_live tc2 ch2" "same_conn a ?tc el ?w1 tc2 el2 w2"
    "unat (nb_writer (tc_output_buffer tc2)) \<le> unat (nb_writer (tc_output_buffer ?tc)) + length ?msg"
    "wire (tc_fd ?tc) (nx_trace w2) @ nb_contents (tc_output_buffer tc2) =
       wire (tc_fd ?tc) (nx_trace ?w1) @ nb_contents (tc_output_buffer ?tc) @ ?msg"
    by blast
  have send: "TcpConnection_send k t a p (length ?msg) ?w1 = Inr w2"
    using conn_baseD [OF base1] t st w2(1) by (simp add: TcpConnection_send_def EventLoop_is_in_loop_thread_def)
  let ?w' = "w2\<lparr>nx_memory := (nx_memory w2)(p := None)\<rparr>"
  have res: "EchoServer_handle_message k t p a w = Inr ?w'"
    unfolding EchoServer_handle_message_def using D(2) b(1) send by simp
  obtain c where tc2: "tc2 = tc\<lparr>tc_input_buffer := b, tc_output_buffer := c\<rparr>"
    using w2(4) by (auto simp: same_conn_def)
  have "conn_base a tc2 ch2 el2 ?w'" using w2(2) by simp
  then have "echo_inv a t fd X Y bound ?w'"
    unfolding echo_inv_def
    using w2(3,5,6) send_in_loop_received [OF w2(1), of fd] same_connD(7) [OF w2(4)] st t fd cb b(2) bound(1) rec
    by (intro exI [of _ tc2] exI [of _ ch2] exI [of _ el2] conjI exI [of _ Z]) (simp_all add: tc2)
  with res show ?thesis by blast
qed

text \<open>One event of the connection's channel; \<open>peer_sends\<close> is a peer that neither closes nor
  fails and a kernel that delivers less than the size of \<open>extrabuf\<close> at a time.\<close>

definition peer_sends :: "kernel \<Rightarrow> bool" where
  "peer_sends k \<longleftrightarrow> (\<forall>tr fd n. 0 < n \<longrightarrow> (\<exists>bs. k_readv k tr fd n = Io_ok bs \<and> bs \<noteq> [] \<and> length bs < kExtraBuf))"

lemma echo_read:
  fixes w :: "(echo_cb, 'z) server_net_scheme"
  assumes k: "kernel_ok k" and soft: "\<forall>tr fd bs e. k_write k tr fd bs = Io_error e \<longrightarrow> e = EWOULDBLOCK"
    and peer: "peer_sends k" and inv: "echo_inv a t fd X Y bound w" and max: "bound + kExtraBuf \<le> vector_max_size"
  shows "\<exists>w'. TcpConnection_handle_read k (run_user (EchoServer_callbacks k t p) t) t a w = Inr w' \<and>
    echo_inv a t fd X Y (bound + kExtraBuf) w'"
proof -
  from inv obtain tc ch el Z where I: "conn_base a tc ch el w" "conn_live tc ch" "tc_state tc = kConnected" "t = el_tid el"
    "tc_fd tc = fd" "tc_message_callback tc = Some (User Handle_message)" "drained (tc_input_buffer tc)"
    "unat (nb_writer (tc_output_buffer tc)) \<le> bound" "received fd (nx_trace w) = Y @ Z"
    "wire fd (nx_trace w) @ nb_contents (tc_output_buffer tc) = X @ Z" unfolding echo_inv_def by blast
  have "0 < unat (Buffer_writable_bytes (tc_input_buffer tc)) + kExtraBuf" by (simp add: kExtraBuf_def)
  from peer [unfolded peer_sends_def, rule_format, OF this, of "nx_trace w" "tc_fd tc"] obtain bs where bs: "k_readv k (nx_trace w) (tc_fd tc)
      (unat (Buffer_writable_bytes (tc_input_buffer tc)) + kExtraBuf) = Io_ok bs" "bs \<noteq> []" "length bs < kExtraBuf"
    by blast
  have dr: "nb_inv (tc_input_buffer tc)" "nb_contents (tc_input_buffer tc) = []" "nb_writer (tc_input_buffer tc) = 8"
    using I(7) by (simp_all add: drained_def)
  have "unat (nb_writer (tc_input_buffer tc)) + length bs \<le> vector_max_size"
    using bs(3) by (simp add: dr(3) kExtraBuf_def vector_max_size_def)
  from read_fd_ok [OF dr(1) drained_writable [OF I(7)] this] bs(3) dr(2) obtain b where
    b: "Buffer_read_fd (Io_ok bs) (tc_input_buffer tc) = Inr (int (length bs), b)" "nb_inv b" "nb_contents b = bs" by auto
  let ?tc = "tc\<lparr>tc_input_buffer := b\<rparr>" and ?tr = "nx_trace w @ [Sys_readv (tc_fd tc) (Io_ok bs)]"
  let ?w1 = "put_conn a ?tc (w\<lparr>nx_trace := ?tr\<rparr>)"
  have read: "TcpConnection_handle_read k (run_user (EchoServer_callbacks k t p) t) t a w = EchoServer_handle_message k t p a ?w1"
    using conn_base_assert_ok [OF I(1,4)] conn_baseD(2) [OF I(1)] bs(2) I(6)
    by (simp add: TcpConnection_handle_read_def bs(1) b(1) call_user_def run_user_def EchoServer_callbacks_def)
  have base: "conn_base a ?tc ch el ?w1"
    by (rule conn_base_put) (use I(1) b(2) conn_baseD(9) [OF I(1)] in \<open>simp_all add: conn_base_def\<close>)
  have live: "conn_live ?tc ch" using I(2) by (simp add: conn_live_def)
  have "\<exists>w'. EchoServer_handle_message k t p a ?w1 = Inr w' \<and> echo_inv a t fd X Y (bound + kExtraBuf) w'"
    by (rule echo_message [OF k soft base live _ I(4), where Z = "Z @ bs"])
      (use I b bs max in \<open>simp_all add: append_assoc [symmetric] del: append_assoc\<close>)
  then show ?thesis using read by simp
qed

lemma new_buffer_drained: "Buffer_new kInitialSize = Inr b \<Longrightarrow> drained b"
  using Buffer_new_ok [of kInitialSize]
  by (auto simp: drained_def Buffer_new_def vector_resize_def kInitialSize_def kCheapPrepend_def vector_max_size_def Let_def
      bindE_Inr_iff split: if_splits)

section \<open>A sequence of events\<close>

fun run_chan_cbs ::
    "kernel \<Rightarrow> (('v, 'z) server_net_scheme \<Rightarrow> addr \<times> addr) \<Rightarrow>
     ('v server_cb user_call \<Rightarrow> ('v, 'z) server_net_scheme \<Rightarrow> ('v, 'z) server_net_scheme res) \<Rightarrow> int \<Rightarrow>
     chan_cb list \<Rightarrow> ('v, 'z) server_net_scheme \<Rightarrow> ('v, 'z) server_net_scheme res" where
  "run_chan_cbs k fresh v t [] w = Inr w"
| "run_chan_cbs k fresh v t (cb # cbs) w = bindE (run_chan_cb k fresh v t cb w) (run_chan_cbs k fresh v t cbs)"

lemma echo_events:
  fixes w :: "(echo_cb, 'z) server_net_scheme"
  assumes k: "kernel_ok k" and soft: "\<forall>tr fd bs e. k_write k tr fd bs = Io_error e \<longrightarrow> e = EWOULDBLOCK"
    and peer: "peer_sends k"
  shows "set cbs \<subseteq> {Conn_read a, Conn_write a} \<Longrightarrow> echo_inv a t fd X Y bound w \<Longrightarrow>
    bound + length cbs * kExtraBuf \<le> vector_max_size \<Longrightarrow>
    \<exists>w'. run_chan_cbs k fresh (EchoServer_callbacks k t p) t cbs w = Inr w' \<and>
      echo_inv a t fd X Y (bound + length cbs * kExtraBuf) w'"
proof (induction cbs arbitrary: bound w)
  case (Cons cb cbs)
  have max: "bound + kExtraBuf \<le> vector_max_size" using Cons.prems(3) by simp
  have "\<exists>w1. run_chan_cb k fresh (EchoServer_callbacks k t p) t cb w = Inr w1 \<and> echo_inv a t fd X Y (bound + kExtraBuf) w1"
    using Cons.prems(1) echo_read [OF k soft peer Cons.prems(2) max, of p] echo_write [OF k Cons.prems(2)]
      echo_inv_mono [of a t fd X Y bound _ "bound + kExtraBuf"]
    by (fastforce simp: run_chan_cb_def)
  then obtain w1 where w1: "run_chan_cb k fresh (EchoServer_callbacks k t p) t cb w = Inr w1"
    "echo_inv a t fd X Y (bound + kExtraBuf) w1" by blast
  from Cons.IH [OF _ w1(2)] Cons.prems(1,3) w1(1) show ?case by (auto simp: algebra_simps)
qed simp

section \<open>Start-up\<close>

lemma EventLoop_new_trace:
  fixes w :: "('u, 'z) net_scheme"
  shows "EventLoop_new t l c fd epfd cb w = Inr w' \<Longrightarrow> nx_trace w' = nx_trace w"
  by (auto simp: EventLoop_new_def Channel_enable_reading_def bindE_Inr_iff dest!: set_events_trace)

text \<open>The poller of a loop knows the descriptors of the loop's channels only.\<close>

lemma poller_free:
  assumes "rx_inv w" and "rx_loops w l = Some el" and "\<forall>d ch. rx_channels w d = Some ch \<and> ch_loop ch = l \<longrightarrow> ch_fd ch \<noteq> fd"
  shows "ep_channels (el_poller el) fd = None"
  using ep_invD(2) [OF rx_invD [OF assms(1,2)], of fd] assms(3) by (cases "ep_channels (el_poller el) fd") fastforce+

lemma EchoServer_new_ok:
  fixes w :: "(echo_cb, 'z) server_net_scheme"
  assumes "rx_inv w" and "rx_channels w c = None" and "InetAddress_family addr = AF_INET"
    and "k_socket k (nx_trace w) AF_INET = lfd" and "lfd \<noteq> - 1"
    and "\<forall>tr. 0 \<le> k_bind k tr lfd addr sizeof_sockaddr_in"
  shows "\<exists>w' ts. EchoServer_new k s a c l addr num w = Inr w' \<and> rx_inv w' \<and> server_up False s a c l lfd ts w' \<and>
    not_started ts \<and> ts_write_complete_callback ts = None \<and> tp_num_threads (ts_threadpool ts) = num \<and> ts_connections ts = [] \<and>
    ts_connection_callback ts = Some Handle_connect \<and> ts_message_callback ts = Some Handle_message \<and>
    rx_loops w' = rx_loops w \<and> nx_conns w' = nx_conns w \<and>
    (\<forall>d. d \<noteq> c \<longrightarrow> rx_channels w' d = rx_channels w d) \<and>
    nx_trace w' = nx_trace w @ bind_calls k addr False lfd (nx_trace w)"
proof -
  from TcpServer_new_ok [OF assms, of s a l False] obtain w1 where
    w1: "TcpServer_new k s a c l addr False w = Inr w1" "rx_inv w1" "server_up False s a c l lfd (fresh_server l a) w1"
    "rx_loops w1 = rx_loops w" "nx_conns w1 = nx_conns w"
    "nx_trace w1 = nx_trace w @ bind_calls k addr False lfd (nx_trace w)"
    "\<forall>d. d \<noteq> c \<longrightarrow> rx_channels w1 d = rx_channels w d" by blast
  define ts where "ts = TcpServer_set_thread_num num (TcpServer_set_message_callback Handle_message
      (TcpServer_set_connection_callback Handle_connect (fresh_server l a)))"
  note setters = ts_def TcpServer_set_thread_num_def TcpServer_set_message_callback_def
    TcpServer_set_connection_callback_def EventLoopThreadPool_set_thread_num_def fresh_server_def
  have "server_up False s a c l lfd ts (put_server s ts w1)"
    by (rule server_up_configure [OF w1(3)]) (simp_all add: setters)
  moreover have "EchoServer_new k s a c l addr num w = Inr (put_server s ts w1)"
    using w1(1) server_upD(1) [OF w1(3)] by (simp add: EchoServer_new_def ts_def)
  moreover have "not_started ts" by (simp add: not_started_def setters)
  ultimately show ?thesis
    using w1(2,4,5,6,7) by (intro exI [of _ "put_server s ts w1"] exI [of _ ts]) (simp add: setters)
qed

lemma main_setup_ok:
  fixes w :: "(echo_cb, 'z) server_net_scheme"
  assumes "rx_inv w" and "rx_loops w l = None" and "rx_channels w wc = None" and "rx_channels w c = None" and "wc \<noteq> c"
    and "\<forall>d ch. rx_channels w d = Some ch \<longrightarrow> ch_loop ch \<noteq> l" and "rx_loop_in_thread w t = None"
    and "wfd \<noteq> - 1" and "epfd \<noteq> - 1" and "k_socket k (nx_trace w) AF_INET = lfd" and "lfd \<noteq> - 1" and "lfd \<noteq> wfd"
    and "\<forall>tr addr len. 0 \<le> k_bind k tr lfd addr len" and "\<forall>tr. 0 \<le> k_listen k tr lfd"
  shows "\<exists>w' ts el addr ret ret'. main_setup k pton junk num loop_of t wfd epfd l wc s a c w = Inr w' \<and>
    nx_trace w' = nx_trace w @ [Sys_socket AF_INET lfd, Sys_setsockopt lfd SOL_SOCKET SO_REUSEADDR 1,
      Sys_setsockopt lfd SOL_SOCKET SO_REUSEPORT 0, Sys_bind lfd addr 16 ret, Sys_listen lfd ret'] \<and>
    be16toh (ia_port addr) = 1818 \<and>
    server_up True s a c l lfd ts w' \<and> ts_connections ts = [] \<and> pool_inv (ts_threadpool ts) \<and>
    pool_loops (ts_threadpool ts) = (if 0 < num then map loop_of [0..<nat num] else [l]) \<and>
    ts_connection_callback ts = Some Handle_connect \<and> ts_message_callback ts = Some Handle_message \<and>
    rx_inv w' \<and> rx_loops w' = (rx_loops w)(l \<mapsto> el) \<and> el_tid el = t \<and> ep_channels (el_poller el) lfd = Some c \<and>
    pool_at (ts_threadpool ts) = 0 \<and> ts_write_complete_callback ts = None \<and>
    el_pending_functors el = [] \<and> \<not> el_looping el \<and> \<not> el_quit el \<and> 0 < ep_events_size (el_poller el) \<and> nx_conns w' = nx_conns w \<and>
    (\<forall>d. d \<noteq> c \<and> d \<noteq> wc \<longrightarrow> rx_channels w' d = rx_channels w d) \<and>
    el_wakeup_channel el = wc \<and> \<not> el_event_handing el \<and>
    (\<exists>ch. rx_channels w' wc = Some ch \<and> ch_fd ch = wfd \<and> ch_read_callback ch = Some (Loop_read l) \<and> ch_loop ch = l \<and> ch_index ch = kAdded) \<and>
    (\<forall>fd. fd \<noteq> lfd \<and> fd \<noteq> wfd \<longrightarrow> ep_channels (el_poller el) fd = None) \<and>
    (\<exists>ts'. EchoServer_start k loop_of t s w' = Inr (put_server s ts' w') \<and> ts' = ts\<lparr>ts_started := 2\<rparr>)"
proof -
  from EventLoop_new_ok [OF assms(1,2,3,6,8,9,7), of "Loop_read l"] obtain w1 el0 ch where
    w1: "EventLoop_new t l wc wfd epfd (Loop_read l) w = Inr w1" "rx_inv w1" "rx_loops w1 = (rx_loops w)(l \<mapsto> el0)"
    "rx_channels w1 = (rx_channels w)(wc \<mapsto> ch)" "el_tid el0 = t" "ch_fd ch = wfd" "el_pending_functors el0 = []"
    "\<not> el_looping el0" "\<not> el_quit el0" "ep_events_size (el_poller el0) = kInitEventListSize"
    "ch_read_callback ch = Some (Loop_read l)" "ch_loop ch = l" "ch_index ch = kAdded" "el_wakeup_channel el0 = wc" "\<not> el_event_handing el0" by blast
  let ?addr = "InetAddress_new pton junk ''0.0.0.0'' 1818 False"
  have addr: "InetAddress_family ?addr = AF_INET" "be16toh (ia_port ?addr) = 1818"
    by (auto simp: InetAddress_new_def InetAddress_family_def write_sin_addr_def Let_def split: option.split)
  have tr1: "nx_trace w1 = nx_trace w" by (rule EventLoop_new_trace [OF w1(1)])
  have "rx_channels w1 c = None" "k_socket k (nx_trace w1) AF_INET = lfd" "\<forall>tr. 0 \<le> k_bind k tr lfd ?addr sizeof_sockaddr_in"
    using w1(4) assms(4,5,10,13) tr1 by simp_all
  from EchoServer_new_ok [OF w1(2) this(1) addr(1) this(2) assms(11) this(3), of s a l num] obtain w2 ts where
    w2: "EchoServer_new k s a c l ?addr num w1 = Inr w2" "rx_inv w2" "server_up False s a c l lfd ts w2" "not_started ts"
    "tp_num_threads (ts_threadpool ts) = num" "ts_connections ts = []" "ts_connection_callback ts = Some Handle_connect"
    "ts_message_callback ts = Some Handle_message" "rx_loops w2 = rx_loops w1"
    "nx_trace w2 = nx_trace w1 @ bind_calls k ?addr False lfd (nx_trace w1)"
    "nx_conns w2 = nx_conns w1" "ts_write_complete_callback ts = None" "\<forall>d. d \<noteq> c \<longrightarrow> rx_channels w2 d = rx_channels w1 d" by blast
  have el2: "rx_loops w2 l = Some el0" "t = el_tid el0" using w1 w2(9) by simp_all
  have free: "ep_channels (el_poller el0) fd = None" if "fd \<noteq> wfd" for fd
    by (rule poller_free [OF w1(2), of l]) (use w1(3,4,6) assms(6) that in auto)
  from TcpServer_start_ok [OF w2(2,3,4) el2 free [OF assms(12)], of k loop_of "\<lambda>_. Inr"] assms(14) w2(5) obtain w' ep q where
    w': "TcpServer_start k loop_of (\<lambda>_. Inr) t s w2 = Inr w'" "rx_inv w'"
    "server_up True s a c l lfd (ts\<lparr>ts_started := 1, ts_threadpool := q\<rparr>) w'" "pool_inv q"
    "pool_loops q = (if 0 < num then map loop_of [0..<nat num] else [l])"
    "rx_loops w' = (rx_loops w2)(l \<mapsto> el0\<lparr>el_poller := ep\<rparr>)" "ep_channels ep = (ep_channels (el_poller el0))(lfd \<mapsto> c)"
    "nx_trace w' = nx_trace w2 @ [Sys_listen lfd (k_listen k (nx_trace w2) lfd)]"
    "TcpServer_start k loop_of (\<lambda>_. Inr) t s w' = Inr (put_server s (ts\<lparr>ts_threadpool := q, ts_started := 2\<rparr>) w')"
    "pool_at q = 0" "nx_conns w' = nx_conns w2" "ep_events_size ep = ep_events_size (el_poller el0)" "\<forall>d. d \<noteq> c \<longrightarrow> rx_channels w' d = rx_channels w2 d"
    by auto
  have "main_setup k pton junk num loop_of t wfd epfd l wc s a c w = Inr w'"
    using w1(1) w2(1) w'(1) by (simp add: main_setup_def EchoServer_start_def)
  then show ?thesis
    using w' w2(6,7,8) w1(3-15) w2(9-13) assms(5) tr1 addr(2) free EventLoop_new_conns [OF w1(1)]
    by (intro exI [of _ w'] exI [of _ "ts\<lparr>ts_started := 1, ts_threadpool := q\<rparr>"] exI [of _ "el0\<lparr>el_poller := ep\<rparr>"]
        exI [of _ ?addr] exI) (simp add: bind_calls_def Let_def optval_def sizeof_sockaddr_in_def EchoServer_start_def kInitEventListSize_def)
qed

text \<open>
  C13. The program comes up: in a thread without a loop, with descriptors and addresses that are
  not in use and a kernel that grants the calls, \<open>main\<close> reaches the call of \<open>loop\<close>
  with exactly the calls \<open>socket\<close>, two \<open>setsockopt\<close>, \<open>bind\<close> and \<open>listen\<close>,
  in this order, on port 1818; the acceptor listens, its channel is registered with the poller
  for reading, the server's two callbacks are set, and the connections will go to the loops of
  the threads, or to the main loop when there are none.  Starting the server again does nothing.
\<close>

theorem EchoServer_comes_up:
  fixes w :: "(echo_cb, 'z) server_net_scheme"
  assumes "rx_inv w" and "rx_loops w l = None" and "rx_channels w wc = None" and "rx_channels w c = None" and "wc \<noteq> c"
    and "\<forall>d ch. rx_channels w d = Some ch \<longrightarrow> ch_loop ch \<noteq> l" and "rx_loop_in_thread w t = None"
    and "wfd \<noteq> - 1" and "epfd \<noteq> - 1" and "k_socket k (nx_trace w) AF_INET = lfd" and "lfd \<noteq> - 1" and "lfd \<noteq> wfd"
    and "\<forall>tr addr len. 0 \<le> k_bind k tr lfd addr len" and "\<forall>tr. 0 \<le> k_listen k tr lfd"
  shows "\<exists>w' ts el addr ret ret'. main_setup k pton junk num loop_of t wfd epfd l wc s a c w = Inr w' \<and>
    nx_trace w' = nx_trace w @ [Sys_socket AF_INET lfd, Sys_setsockopt lfd SOL_SOCKET SO_REUSEADDR 1,
      Sys_setsockopt lfd SOL_SOCKET SO_REUSEPORT 0, Sys_bind lfd addr 16 ret, Sys_listen lfd ret'] \<and>
    be16toh (ia_port addr) = 1818 \<and>
    server_up True s a c l lfd ts w' \<and> ts_connections ts = [] \<and> pool_inv (ts_threadpool ts) \<and>
    pool_loops (ts_threadpool ts) = (if 0 < num then map loop_of [0..<nat num] else [l]) \<and>
    ts_connection_callback ts = Some Handle_connect \<and> ts_message_callback ts = Some Handle_message \<and>
    rx_inv w' \<and> rx_loops w' = (rx_loops w)(l \<mapsto> el) \<and> el_tid el = t \<and> ep_channels (el_poller el) lfd = Some c \<and>
    (\<exists>ts'. EchoServer_start k loop_of t s w' = Inr (put_server s ts' w') \<and> ts' = ts\<lparr>ts_started := 2\<rparr>)"
  using main_setup_ok [OF assms, of pton junk num loop_of s a] by blast

theorem EchoServer_comes_up_witness:
  "\<exists>(w' :: echo_cb server_net) ts. main_setup slow_kernel (\<lambda>_ _. Some [0, 0, 0, 0]) [] 2 (\<lambda>i. 50 + i) 7 5 6 0 1 20 21 22 empty_server_net = Inr w' \<and>
     server_up True 20 21 22 0 3 ts w' \<and> pool_loops (ts_threadpool ts) = [50, 51]"
proof -
  have "rx_inv (empty_server_net :: echo_cb server_net)" by (simp add: rx_inv_def empty_server_net_def)
  from EchoServer_comes_up [OF this, of 0 1 22 7 5 6 slow_kernel 3 "\<lambda>_ _. Some [0, 0, 0, 0]" "[]" 2 "\<lambda>i. 50 + i" 20 21]
  show ?thesis by (auto simp: empty_server_net_def slow_kernel_def upt_rec)
qed

section \<open>From the accept to the first event\<close>

text \<open>An established connection whose loop is changed apart from its poller.\<close>

lemma conn_base_put_loop:
  assumes "conn_base a tc ch el w" and "el_poller el' = el_poller el"
  shows "conn_base a tc ch el' (put_loop (tc_loop tc) el' w)"
  using assms rx_inv_put_loop [of w "tc_loop tc" el el'] by (simp add: conn_base_def)

lemma conn_fresh_put_loop:
  assumes "conn_fresh a tc ch el w" and "el_poller el' = el_poller el"
  shows "conn_fresh a tc ch el' (put_loop (tc_loop tc) el' w)"
  using assms rx_inv_put_loop [of w "tc_loop tc" el el'] by (simp add: conn_fresh_def)

lemma queue_in_loop_fields [simp]:
  "el_poller (EventLoop_queue_in_loop t f el) = el_poller el"
  "el_pending_functors (EventLoop_queue_in_loop t f el) = el_pending_functors el @ [f]"
  by (simp_all add: EventLoop_queue_in_loop_def EventLoop_queue_wake_def EventLoop_queue_push_def EventLoop_wakeup_def)

text \<open>What the connection callback leaves is an echoing connection.\<close>

lemma established_echoes:
  fixes w :: "(echo_cb, 'z) server_net_scheme"
  assumes fresh: "conn_fresh a tc ch el w" and t: "t = el_tid el"
    and cbs: "tc_connection_callback tc = Some (User Handle_connect)" "tc_message_callback tc = Some (User Handle_message)"
    and buf: "Buffer_new kInitialSize = Inr (tc_input_buffer tc)" "tc_output_buffer tc = tc_input_buffer tc"
  shows "\<exists>w1 tc1. TcpConnection_connect_established (run_user (EchoServer_callbacks k t p) t) t a w = Inr w1 \<and>
    nx_trace w1 = nx_trace w \<and> tc_loop tc1 = tc_loop tc \<and> nx_conns w1 a = Some tc1 \<and>
    echo_inv a t (tc_fd tc) (wire (tc_fd tc) (nx_trace w)) (received (tc_fd tc) (nx_trace w)) 8 w1"
proof -
  from connect_established_ok [OF fresh t, of "run_user (EchoServer_callbacks k t p) t"] cbs(1) obtain w1 ch1 el1 where
    w1: "TcpConnection_connect_established (run_user (EchoServer_callbacks k t p) t) t a w =
        EchoServer_handle_connect a w1"
    "conn_base a (tc\<lparr>tc_state := kConnected\<rparr>) ch1 el1 w1" "conn_live (tc\<lparr>tc_state := kConnected\<rparr>) ch1"
    "el1 = el\<lparr>el_poller := el_poller el1\<rparr>" "nx_trace w1 = nx_trace w"
    by (auto simp: call_user_def run_user_def EchoServer_callbacks_def)
  have tid: "el_tid el1 = t" using t by (subst w1(4)) simp
  have dr: "drained (tc_input_buffer tc)" by (rule new_buffer_drained [OF buf(1)])
  have "echo_inv a t (tc_fd tc) (wire (tc_fd tc) (nx_trace w)) (received (tc_fd tc) (nx_trace w)) 8 w1"
    unfolding echo_inv_def using w1(2,3,5) tid dr cbs(2) buf(2)
    by (intro exI [of _ "tc\<lparr>tc_state := kConnected\<rparr>"] exI [of _ ch1] exI [of _ el1] conjI exI [of _ "[]"])
      (simp_all add: drained_def)
  with w1(1,5) conn_baseD(2) [OF w1(2)] show ?thesis
    by (intro exI [of _ w1] exI [of _ "tc\<lparr>tc_state := kConnected\<rparr>"]) (simp add: EchoServer_handle_connect_def)
qed

lemma echo_inv_put_loop:
  assumes "echo_inv a t fd X Y bound w" and "nx_conns w a = Some tc" and "rx_loops w (tc_loop tc) = Some el"
    and "el_poller el' = el_poller el" and "el_tid el' = el_tid el"
  shows "echo_inv a t fd X Y bound (put_loop (tc_loop tc) el' w)"
proof -
  from assms(1) obtain tc' ch el0 where I: "conn_base a tc' ch el0 w" "conn_live tc' ch" "tc_state tc' = kConnected"
    "t = el_tid el0" "tc_fd tc' = fd" "tc_message_callback tc' = Some (User Handle_message)" "drained (tc_input_buffer tc')"
    "unat (nb_writer (tc_output_buffer tc')) \<le> bound"
    "\<exists>Z. received fd (nx_trace w) = Y @ Z \<and> wire fd (nx_trace w) @ nb_contents (tc_output_buffer tc') = X @ Z"
    unfolding echo_inv_def by blast
  have eq: "tc' = tc" "el0 = el" using conn_baseD [OF I(1)] assms(2,3) by auto
  have "conn_base a tc ch el' (put_loop (tc_loop tc) el' w)" by (rule conn_base_put_loop) (use I(1) eq assms(4) in simp_all)
  then show ?thesis
    unfolding echo_inv_def using I(2-9) assms(5) unfolding eq
    by (intro exI [of _ tc] exI [of _ ch] exI [of _ el'] conjI) simp_all
qed

text \<open>Establishing a connection does not touch the servers, so the map keeps it alive when
  the functor goes.\<close>

lemma set_events_servers:
  fixes w :: "('v, 'z) server_net_scheme"
  shows "set_events t c f w = Inr w' \<Longrightarrow> nx_servers w' = nx_servers w"
  by (auto simp: set_events_def upd_channel_def Channel_update_def EventLoop_update_channel_def bindE_Inr_iff)

lemma connect_established_servers:
  fixes w :: "(echo_cb, 'z) server_net_scheme"
  assumes "TcpConnection_connect_established (run_user (EchoServer_callbacks k t p) t) t a w = Inr w'"
    and "nx_conns w a = Some tc" and "tc_connection_callback tc = Some (User Handle_connect)"
  shows "nx_servers w' = nx_servers w"
  using assms by (auto simp: TcpConnection_connect_established_def upd_channel_def Channel_enable_reading_def bindE_Inr_iff
      call_user_def run_user_def EchoServer_callbacks_def EchoServer_handle_connect_def dest!: set_events_servers)

lemma destroy_kept:
  assumes "nx_servers w s = Some ts" and "map_of (ts_connections ts) fd = Some a" and "s \<in> set ss" and "holds f = Some a"
  shows "destroy_net_functor ss ls t fs f w = Inr w"
proof -
  have "a \<in> snd ` set (ts_connections ts)" using map_of_SomeD [OF assms(2)] by force
  then have "case nx_servers w s of None \<Rightarrow> False | Some ts \<Rightarrow> a \<in> snd ` set (ts_connections ts)"
    using assms(1) by simp
  then have "referenced ss ls fs a w" unfolding referenced_def list_ex_iff using assms(3) by blast
  with assms(4) show ?thesis by (simp add: destroy_net_functor_def release_def)
qed

text \<open>The connection's loop, in another thread, finds \<open>connect_established\<close> as its only
  functor.\<close>

lemma pending_established:
  fixes w :: "(echo_cb, 'z) server_net_scheme"
  assumes fresh: "conn_fresh a tc ch el w" and t: "t = el_tid el" and pend: "el_pending_functors el = [Connect_established a]"
    and cbs: "tc_connection_callback tc = Some (User Handle_connect)" "tc_message_callback tc = Some (User Handle_message)"
    and buf: "Buffer_new kInitialSize = Inr (tc_input_buffer tc)" "tc_output_buffer tc = tc_input_buffer tc"
    and srv: "nx_servers w s = Some ts" "map_of (ts_connections ts) fd = Some a" "s \<in> set ss"
  shows "\<exists>w1. EventLoop_do_pending_functors (run_net_functor k (EchoServer_callbacks k t p) t) (destroy_net_functor ss ls t)
      (tc_loop tc) w = Inr w1 \<and>
    echo_inv a t (tc_fd tc) (wire (tc_fd tc) (nx_trace w)) (received (tc_fd tc) (nx_trace w)) 8 w1"
proof -
  let ?el = "el\<lparr>el_calling_pending_functors := True, el_pending_functors := []\<rparr>"
  let ?w = "put_loop (tc_loop tc) ?el w"
  have fresh1: "conn_fresh a tc ch ?el ?w" by (rule conn_fresh_put_loop [OF fresh]) simp
  have "t = el_tid ?el" using t by simp
  from established_echoes [OF fresh1 this cbs buf, of k p] obtain w1 tc1 where
    w1: "TcpConnection_connect_established (run_user (EchoServer_callbacks k t p) t) t a ?w = Inr w1"
    "nx_trace w1 = nx_trace w" "tc_loop tc1 = tc_loop tc" "nx_conns w1 a = Some tc1"
    "echo_inv a t (tc_fd tc) (wire (tc_fd tc) (nx_trace w)) (received (tc_fd tc) (nx_trace w)) 8 w1" by auto
  obtain el1 where el1: "rx_loops w1 (tc_loop tc1) = Some el1"
    using w1(4,5) by (auto simp: echo_inv_def conn_base_def)
  let ?w2 = "put_loop (tc_loop tc1) (el1\<lparr>el_calling_pending_functors := False\<rparr>) w1"
  have "echo_inv a t (tc_fd tc) (wire (tc_fd tc) (nx_trace w)) (received (tc_fd tc) (nx_trace w)) 8 ?w2"
    by (rule echo_inv_put_loop [OF w1(5,4) el1]) simp_all
  moreover have E: "rx_loops w (tc_loop tc) = Some el" "nx_conns ?w a = Some tc" using fresh by (simp_all add: conn_fresh_def)
  have "nx_servers ?w2 s = Some ts"
    using connect_established_servers [OF w1(1) E(2) cbs(1)] srv(1) by simp
  then have "destroy_net_functor ss ls t [] (Connect_established a) ?w2 = Inr ?w2"
    by (rule destroy_kept [OF _ srv(2,3)]) simp
  with E(1) have "EventLoop_do_pending_functors (run_net_functor k (EchoServer_callbacks k t p) t) (destroy_net_functor ss ls t)
      (tc_loop tc) w = Inr ?w2"
    using pend w1(1) el1 w1(3)
    by (simp add: EventLoop_do_pending_functors_def run_net_functor_def upd_loop_def)
  ultimately show ?thesis by blast
qed

text \<open>The readable event of the acceptor, up to the establishing of the connection.\<close>

lemma accept_connection:
  fixes w :: "(echo_cb, 'z) server_net_scheme"
  assumes inv: "rx_inv w" and up: "server_up True s ac c l lfd ts w" and el0: "rx_loops w l = Some el0"
    and conns: "conns_ok (ts_connections ts) w" and pool: "pool_inv (ts_threadpool ts)"
    and cbs: "ts_connection_callback ts = Some Handle_connect" "ts_message_callback ts = Some Handle_message"
    and io: "io = pool_loops (ts_threadpool ts) ! pool_at (ts_threadpool ts)" "rx_loops w io = Some el"
    and acc: "k_accept4 k (nx_trace w) lfd = Io_ok (fd, peer)" "0 \<le> fd"
    and free: "ep_channels (el_poller el) fd = None" "map_of (ts_connections ts) fd = None"
    and fresh: "nx_conns w a = None" "rx_channels w cc = None"
  shows "\<exists>w2 tc ch. conn_fresh a tc ch el w2 \<and> tc_connection_callback tc = Some (User Handle_connect) \<and>
    tc_message_callback tc = Some (User Handle_message) \<and>
    tc_write_complete_callback tc = map_option User (ts_write_complete_callback ts) \<and>
    tc_fd tc = fd \<and> tc_loop tc = io \<and> tc_channel tc = cc \<and>
    wire fd (nx_trace w2) = wire fd (nx_trace w) \<and> received fd (nx_trace w2) = received fd (nx_trace w) \<and>
    Buffer_new kInitialSize = Inr (tc_input_buffer tc) \<and> tc_output_buffer tc = tc_input_buffer tc \<and>
    rx_channels w2 = (rx_channels w)(cc \<mapsto> ch) \<and> rx_loops w2 = rx_loops w \<and>
    ch_read_callback ch = Some (Conn_read a) \<and> ch_write_callback ch = Some (Conn_write a) \<and>
    (\<exists>ts2. nx_servers w2 s = Some ts2 \<and> map_of (ts_connections ts2) fd = Some a) \<and>
    run_chan_cb k (\<lambda>_. (a, cc)) (EchoServer_callbacks k (el_tid el0) p) (el_tid el0) (Accept_read ac) w =
      (if el_tid el = el_tid el0
       then TcpConnection_connect_established (run_user (EchoServer_callbacks k (el_tid el0) p) (el_tid el0)) (el_tid el0) a w2
       else Inr (put_loop io (EventLoop_queue_in_loop (el_tid el0) (Connect_established a) el) w2))"
proof -
  note D = server_upD [OF up]
  let ?m = "el_tid el0" and ?t = "el_tid el"
  let ?u = "run_user (EchoServer_callbacks k ?m p) ?m"
  let ?w = "w\<lparr>nx_trace := nx_trace w @ [Sys_accept4 lfd (Io_ok (fd, peer))]\<rparr>"
  have run: "run_chan_cb k (\<lambda>_. (a, cc)) (EchoServer_callbacks k ?m p) ?m (Accept_read ac) w =
      TcpServer_new_connection ?u ?m s a cc fd peer ?w"
    using D(5) el0 acc by (simp add: run_chan_cb_def Acceptor_handle_read_def assert_in_loop_def
        EventLoop_is_in_loop_thread_def Socket_accept_def Let_def)
  have pre: "rx_inv ?w" "nx_servers ?w s = Some ts" "conns_ok (ts_connections ts) ?w" "rx_loops ?w (ts_loop ts) = Some el0"
    "rx_loops ?w (pool_loops (ts_threadpool ts) ! pool_at (ts_threadpool ts)) = Some el"
    "nx_conns ?w a = None" "rx_channels ?w cc = None" "tp_base_loop (ts_threadpool ts) = ts_loop ts" "fd \<noteq> - 1"
    using inv D conns el0 io fresh acc(2) by (simp_all add: conns_ok_def)
  from new_connection_ok [OF pre(1,2,3) pool pre(8,4) refl pre(5) free(1,2) pre(9,6,7), of peer ?u] obtain w2 tc ch ts2 where
    w2: "conn_fresh a tc ch el w2" "installed s ts tc" "tc_fd tc = fd" "tc_loop tc = pool_loops (ts_threadpool ts) ! pool_at (ts_threadpool ts)"
    "nx_trace w2 = nx_trace ?w @ [Sys_setsockopt fd SOL_SOCKET SO_KEEPALIVE 1]"
    "Buffer_new kInitialSize = Inr (tc_input_buffer tc)" "tc_output_buffer tc = tc_input_buffer tc"
    "tc_channel tc = cc" "rx_channels w2 = (rx_channels ?w)(cc \<mapsto> ch)" "rx_loops w2 = rx_loops ?w"
    "ch_read_callback ch = Some (Conn_read a)" "ch_write_callback ch = Some (Conn_write a)"
    "TcpServer_new_connection ?u ?m s a cc fd peer ?w =
      (if ?t = ?m then TcpConnection_connect_established ?u ?m a w2
       else Inr (put_loop (tc_loop tc) (EventLoop_queue_in_loop ?m (Connect_established a) el) w2))"
    and ts2: "nx_servers w2 s = Some ts2" "map_of (ts_connections ts2) = (map_of (ts_connections ts))(fd \<mapsto> a)"
    by blast
  have loop: "tc_loop tc = io" using w2(4) io(1) by simp
  have "wire fd (nx_trace w2) = wire fd (nx_trace w)" "received fd (nx_trace w2) = received fd (nx_trace w)"
    using w2(5) by simp_all
  then show ?thesis
    by (intro exI [of _ w2] exI [of _ tc] exI [of _ ch])
      (use w2(1-3,6-12) w2(13) run loop cbs ts2 in \<open>simp add: installed_def\<close>)
qed

lemma echo_accept:
  fixes w :: "(echo_cb, 'z) server_net_scheme"
  assumes inv: "rx_inv w" and up: "server_up True s ac c l lfd ts w" and el0: "rx_loops w l = Some el0"
    and conns: "conns_ok (ts_connections ts) w" and pool: "pool_inv (ts_threadpool ts)"
    and cbs: "ts_connection_callback ts = Some Handle_connect" "ts_message_callback ts = Some Handle_message"
    and io: "io = pool_loops (ts_threadpool ts) ! pool_at (ts_threadpool ts)" "rx_loops w io = Some el" "el_pending_functors el = []"
    and acc: "k_accept4 k (nx_trace w) lfd = Io_ok (fd, peer)" "0 \<le> fd"
    and free: "ep_channels (el_poller el) fd = None" "map_of (ts_connections ts) fd = None"
    and fresh: "nx_conns w a = None" "rx_channels w cc = None" and s: "s \<in> set ss"
  shows "\<exists>w1 w2. run_chan_cb k (\<lambda>_. (a, cc)) (EchoServer_callbacks k (el_tid el0) p) (el_tid el0) (Accept_read ac) w = Inr w1 \<and>
    (if el_tid el = el_tid el0 then w2 = w1
     else EventLoop_do_pending_functors (run_net_functor k (EchoServer_callbacks k (el_tid el) p) (el_tid el))
            (destroy_net_functor ss ls (el_tid el)) io w1 = Inr w2) \<and>
    echo_inv a (el_tid el) fd (wire fd (nx_trace w)) (received fd (nx_trace w)) 8 w2"
proof -
  let ?m = "el_tid el0" and ?t = "el_tid el"
  from accept_connection [OF inv up el0 conns pool cbs io(1,2) acc free fresh, of p] obtain w2 tc ch ts2 where
    w2: "conn_fresh a tc ch el w2" "tc_connection_callback tc = Some (User Handle_connect)"
    "tc_message_callback tc = Some (User Handle_message)" "tc_fd tc = fd" "tc_loop tc = io"
    "wire fd (nx_trace w2) = wire fd (nx_trace w)" "received fd (nx_trace w2) = received fd (nx_trace w)"
    "Buffer_new kInitialSize = Inr (tc_input_buffer tc)" "tc_output_buffer tc = tc_input_buffer tc"
    "run_chan_cb k (\<lambda>_. (a, cc)) (EchoServer_callbacks k ?m p) ?m (Accept_read ac) w =
      (if ?t = ?m then TcpConnection_connect_established (run_user (EchoServer_callbacks k ?m p) ?m) ?m a w2
       else Inr (put_loop io (EventLoop_queue_in_loop ?m (Connect_established a) el) w2))"
    and ts2: "nx_servers w2 s = Some ts2" "map_of (ts_connections ts2) fd = Some a"
    by blast
  show ?thesis
  proof (cases "?t = ?m")
    case True
    with established_echoes [OF w2(1) refl w2(2,3,8,9), of k p] w2(4,6,7,10) show ?thesis by auto
  next
    case False
    let ?el = "EventLoop_queue_in_loop ?m (Connect_established a) el"
    have "conn_fresh a tc ch ?el (put_loop (tc_loop tc) ?el w2)" by (rule conn_fresh_put_loop [OF w2(1)]) simp
    from pending_established [OF this _ _ w2(2,3,8,9) _ ts2(2) s, of ?t k p ls] False w2(4-7,10) io(3) ts2(1) show ?thesis by auto
  qed
qed

lemma echo_inv_state:
  assumes "echo_inv a t fd X Y bound w"
  shows "\<exists>tc Z. nx_conns w a = Some tc \<and> received fd (nx_trace w) = Y @ Z \<and>
    wire fd (nx_trace w) @ nb_contents (tc_output_buffer tc) = X @ Z \<and> nb_contents (tc_input_buffer tc) = []"
  using assms unfolding echo_inv_def conn_base_def drained_def by blast

section \<open>A kernel to evaluate on\<close>

text \<open>A peer that sends three bytes at a time, and a kernel that takes one.\<close>

definition chatty_kernel :: kernel where
  "chatty_kernel = slow_kernel\<lparr>k_readv := \<lambda>_ _ cap. Io_ok (take 3 (replicate cap 7))\<rparr>"

lemma chatty_kernel_ok:
  "kernel_ok chatty_kernel" "\<forall>tr fd bs e. k_write chatty_kernel tr fd bs = Io_error e \<longrightarrow> e = EWOULDBLOCK"
  "peer_sends chatty_kernel" "\<And>tr fd. k_accept4 chatty_kernel tr fd = Io_ok (9, InetAddress_default)"
  "\<And>tr fam. k_socket chatty_kernel tr fam = 3" "\<And>tr fd addr len. 0 \<le> k_bind chatty_kernel tr fd addr len"
  "\<And>tr fd. 0 \<le> k_listen chatty_kernel tr fd"
  by (simp_all add: kernel_ok_def peer_sends_def chatty_kernel_def slow_kernel_def kExtraBuf_def min_less_iff_disj)


end
