(* ===== verification/Echo_Program.thy ===== *)
theory Echo_Program
  imports Echo_Server
begin

unbundle bit_operations_syntax

text \<open>
  The program test/test_server.cc as a whole, from \<open>main\<close> through the event loop: each
  report of \<open>epoll_wait\<close> goes through the poller, the dispatch of the channel and the
  handler of the connection to the echo callback and back, and the pending functors are run.
\<close>

section \<open>What the handlers of a connection leave alone\<close>

text \<open>Reading and writing on a connection changes buffers, the interest set of its channel and
  the poller's tables; everything else of the store is the core.\<close>

definition chan_core :: "'cb channel \<Rightarrow> 'cb channel" where
  "chan_core ch = ch\<lparr>ch_events := 0, ch_index := 0, ch_added_to_loop := False\<rparr>"

definition loop_core :: "'f event_loop \<Rightarrow> 'f event_loop" where
  "loop_core el = el\<lparr>el_poller := (el_poller el)\<lparr>ep_channels := Map.empty, ep_calls := []\<rparr>\<rparr>"

definition conn_core :: "'u tcp_connection \<Rightarrow> 'u tcp_connection" where
  "conn_core tc = tc\<lparr>tc_input_buffer := \<lparr>nb_buffer = [], nb_reader = 0, nb_writer = 0\<rparr>,
                     tc_output_buffer := \<lparr>nb_buffer = [], nb_reader = 0, nb_writer = 0\<rparr>\<rparr>"

definition net_core where
  "net_core (w :: ('u, 'z) net_scheme) =
     (map_option chan_core \<circ> rx_channels w, map_option loop_core \<circ> rx_loops w, map_option conn_core \<circ> nx_conns w)"

lemma core_simps [simp]:
  "net_core (w\<lparr>nx_trace := tr\<rparr>) = net_core w" "net_core (w\<lparr>nx_memory := m\<rparr>) = net_core w"
  by (simp_all add: net_core_def)

lemma core_put_conn:
  "nx_conns w a = Some tc \<Longrightarrow> conn_core tc' = conn_core tc \<Longrightarrow> net_core (put_conn a tc' w) = net_core w"
  by (auto simp: net_core_def fun_eq_iff)

lemma core_put_channel:
  fixes w :: "('u, 'z) net_scheme"
  shows "rx_channels w c = Some ch \<Longrightarrow> chan_core ch' = chan_core ch \<Longrightarrow> net_core (put_channel c ch' w) = net_core w"
  by (auto simp: net_core_def fun_eq_iff)

lemma core_put_loop:
  fixes w :: "('u, 'z) net_scheme"
  shows "rx_loops w l = Some el \<Longrightarrow> loop_core el' = loop_core el \<Longrightarrow> net_core (put_loop l el' w) = net_core w"
  by (auto simp: net_core_def fun_eq_iff)

lemma conn_core_buffers [simp]:
  "conn_core (tc\<lparr>tc_output_buffer := b\<rparr>) = conn_core tc" "conn_core (tc\<lparr>tc_input_buffer := b\<rparr>) = conn_core tc"
  by (simp_all add: conn_core_def)

lemma Epoller_update_channel_core:
  "Epoller_update_channel b c ch ep = Inr (ep', ch') \<Longrightarrow> chan_core ch' = chan_core ch \<and>
   ep'\<lparr>ep_channels := Map.empty, ep_calls := []\<rparr> = ep\<lparr>ep_channels := Map.empty, ep_calls := []\<rparr>"
  by (auto simp: Epoller_update_channel_def Let_def bindE_Inr_iff Epoller_update_def chan_core_def
      Channel_set_index_def split: if_splits)

lemma EventLoop_update_channel_core:
  fixes w :: "('u, 'z) net_scheme"
  assumes "EventLoop_update_channel t l c w = Inr w'"
  shows "net_core w' = net_core w"
proof -
  obtain el ch ep ch' where u: "rx_loops w l = Some el" "rx_channels w c = Some ch"
    "Epoller_update_channel (EventLoop_is_in_loop_thread t el) c ch (el_poller el) = Inr (ep, ch')"
    "w' = put_loop l (el\<lparr>el_poller := ep\<rparr>) (put_channel c ch' w)"
    using assms by (auto simp: EventLoop_update_channel_def bindE_Inr_iff)
  note core = Epoller_update_channel_core [OF u(3)]
  have "net_core (put_channel c ch' w) = net_core w" using core_put_channel [OF u(2)] core by simp
  then show ?thesis
    unfolding u(4) using core by (subst core_put_loop [of _ _ el]) (simp_all add: u(1) loop_core_def)
qed

lemma set_events_core:
  fixes w :: "('u, 'z) net_scheme"
  assumes "set_events t c f w = Inr w'"
  shows "net_core w' = net_core w"
proof -
  obtain ch where ch: "rx_channels w c = Some ch"
    "EventLoop_update_channel t (ch_loop ch) c
       (put_channel c (ch\<lparr>ch_events := f (ch_events ch), ch_added_to_loop := True\<rparr>) w) = Inr w'"
    using assms by (auto simp: set_events_def upd_channel_def Channel_update_def bindE_Inr_iff)
  then show ?thesis
    using EventLoop_update_channel_core [OF ch(2)] core_put_channel [OF ch(1)] by (simp add: chan_core_def)
qed

lemma write_directly_core:
  assumes "TcpConnection_write_directly k t a tc data w = Inr (n, fault, w')" and "tc_write_complete_callback tc = None"
  shows "net_core w' = net_core w"
  using assms by (auto simp: TcpConnection_write_directly_def Let_def bindE_Inr_iff queue_write_complete_def
      split: io_result.splits if_splits)

lemma buffer_rest_core:
  "TcpConnection_buffer_rest t a tc ch data n fault w = Inr w' \<Longrightarrow> net_core w' = net_core w"
  by (auto simp: TcpConnection_buffer_rest_def upd_conn_def Channel_enable_writing_def bindE_Inr_iff core_put_conn
      dest!: set_events_core split: if_splits)

lemma send_in_loop_core:
  assumes "TcpConnection_send_in_loop k t a p len w = Inr w'" and "nx_conns w a = Some tc"
    and "tc_write_complete_callback tc = None"
  shows "net_core w' = net_core w"
  using assms by (auto simp: TcpConnection_send_in_loop_def bindE_Inr_iff dest!: buffer_rest_core
      dest: write_directly_core split: if_splits)

lemma shutdown_in_loop_core:
  "TcpConnection_shutdown_in_loop t a w = Inr w' \<Longrightarrow> net_core w' = net_core w"
  by (auto simp: TcpConnection_shutdown_in_loop_def bindE_Inr_iff split: if_splits)

lemma handle_write_core:
  assumes "TcpConnection_handle_write k t a w = Inr w'" and "nx_conns w a = Some tc"
    and "tc_write_complete_callback tc = None"
  shows "net_core w' = net_core w"
  using assms by (auto simp: TcpConnection_handle_write_def Let_def bindE_Inr_iff queue_write_complete_def
      Channel_disable_writing_def core_put_conn dest!: set_events_core shutdown_in_loop_core split: if_splits)

lemma handle_message_core:
  assumes "EchoServer_handle_message k t p a w = Inr w'" and tc: "nx_conns w a = Some tc"
    and wc: "tc_write_complete_callback tc = None" and el: "rx_loops w (tc_loop tc) = Some el" "el_tid el = t"
  shows "net_core w' = net_core w"
proof -
  obtain msg b where b: "Buffer_retrieve_all_as_string (tc_input_buffer tc) = Inr (msg, b)"
    using assms(1) tc by (auto simp: EchoServer_handle_message_def bindE_Inr_iff)
  let ?tc = "tc\<lparr>tc_input_buffer := b\<rparr>"
  let ?w1 = "put_conn a ?tc (w\<lparr>nx_memory := (nx_memory w)(p \<mapsto> msg)\<rparr>)"
  obtain w2 where w2: "TcpConnection_send k t a p (length msg) ?w1 = Inr w2" "net_core w' = net_core w2"
    using assms(1) tc b by (auto simp: EchoServer_handle_message_def bindE_Inr_iff)
  have core1: "net_core ?w1 = net_core w" by (subst core_put_conn [of _ _ tc]) (simp_all add: tc)
  have "net_core w2 = net_core ?w1"
    using w2(1) el wc by (cases "kConnected = tc_state tc")
      (auto simp: TcpConnection_send_def EventLoop_is_in_loop_thread_def dest!: send_in_loop_core)
  with w2(2) core1 show ?thesis by simp
qed

lemma echo_read_core:
  fixes w :: "(echo_cb, 'z) server_net_scheme"
  assumes run: "TcpConnection_handle_read k (run_user (EchoServer_callbacks k t p) t) t a w = Inr w'"
    and tc: "nx_conns w a = Some tc" and cb: "tc_message_callback tc = Some (User Handle_message)"
    and wc: "tc_write_complete_callback tc = None" and el: "rx_loops w (tc_loop tc) = Some el" "el_tid el = t"
    and peer: "peer_sends k"
  shows "net_core w' = net_core w"
proof -
  let ?n = "unat (Buffer_writable_bytes (tc_input_buffer tc)) + kExtraBuf"
  have "0 < ?n" by (simp add: kExtraBuf_def)
  from peer [unfolded peer_sends_def, rule_format, OF this, of "nx_trace w" "tc_fd tc"] obtain bs where
    bs: "k_readv k (nx_trace w) (tc_fd tc) ?n = Io_ok bs" "bs \<noteq> []" by blast
  obtain n b where b: "Buffer_read_fd (Io_ok bs) (tc_input_buffer tc) = Inr (n, b)"
    using run tc el bs(1) by (auto simp: TcpConnection_handle_read_def Let_def bindE_Inr_iff)
  have n: "n = int (length bs)" using b by (auto simp: Buffer_read_fd_def Buffer_take_read_def Let_def bindE_Inr_iff split: if_splits)
  let ?w1 = "put_conn a (tc\<lparr>tc_input_buffer := b\<rparr>) (w\<lparr>nx_trace := nx_trace w @ [Sys_readv (tc_fd tc) (Io_ok bs)]\<rparr>)"
  have "EchoServer_handle_message k t p a ?w1 = Inr w'"
    using run tc cb el bs b n by (simp add: TcpConnection_handle_read_def assert_in_loop_def
        EventLoop_is_in_loop_thread_def call_user_def run_user_def EchoServer_callbacks_def)
  from handle_message_core [OF this, of "tc\<lparr>tc_input_buffer := b\<rparr>" el] wc el
  have "net_core w' = net_core ?w1" by simp
  also have "net_core ?w1 = net_core w" by (subst core_put_conn [of _ _ tc]) (simp_all add: tc)
  finally show ?thesis .
qed

section \<open>A connection wired to its channel and loop\<close>

definition wired :: "addr \<Rightarrow> addr \<Rightarrow> addr \<Rightarrow> ('u, 'z) net_scheme \<Rightarrow> bool" where
  "wired l a cc w \<longleftrightarrow> (\<exists>tc ch el. nx_conns w a = Some tc \<and> tc_loop tc = l \<and> tc_channel tc = cc \<and>
     tc_write_complete_callback tc = None \<and>
     rx_channels w cc = Some ch \<and> ch_tied ch \<and> ch_tie ch = Some a \<and> ch_read_callback ch = Some (Conn_read a) \<and>
     ch_write_callback ch = Some (Conn_write a) \<and>
     rx_loops w l = Some el \<and> \<not> el_quit el \<and> el_looping el \<and> el_pending_functors el = [] \<and>
     0 < ep_events_size (el_poller el))"

lemma map_option_comp_eq:
  "map_option f \<circ> g' = map_option f \<circ> g \<Longrightarrow> g x = Some y \<Longrightarrow> \<exists>y'. g' x = Some y' \<and> f y' = f y"
  by (drule fun_cong [of _ _ x]) auto

lemma core_channel:
  fixes w :: "('u, 'z) net_scheme"
  assumes "net_core w' = net_core w" and "rx_channels w c = Some ch"
  shows "\<exists>ch'. rx_channels w' c = Some ch' \<and> chan_core ch' = chan_core ch"
  using assms by (auto simp: net_core_def intro: map_option_comp_eq)

lemma core_loop:
  fixes w :: "('u, 'z) net_scheme"
  assumes "net_core w' = net_core w" and "rx_loops w l = Some el"
  shows "\<exists>el'. rx_loops w' l = Some el' \<and> loop_core el' = loop_core el"
  using assms by (auto simp: net_core_def intro: map_option_comp_eq)

lemma core_conn:
  assumes "net_core w' = net_core w" and "nx_conns w a = Some tc"
  shows "\<exists>tc'. nx_conns w' a = Some tc' \<and> conn_core tc' = conn_core tc"
  using assms by (auto simp: net_core_def intro: map_option_comp_eq)

lemma chan_coreD:
  assumes "chan_core ch' = chan_core ch"
  shows "ch_tied ch' = ch_tied ch" "ch_tie ch' = ch_tie ch" "ch_read_callback ch' = ch_read_callback ch"
    "ch_write_callback ch' = ch_write_callback ch" "ch_revents ch' = ch_revents ch" "ch_loop ch' = ch_loop ch" "ch_fd ch' = ch_fd ch"
    "ch_event_handling ch' = ch_event_handling ch"
  using arg_cong [OF assms, of ch_tied] arg_cong [OF assms, of ch_tie] arg_cong [OF assms, of ch_read_callback]
    arg_cong [OF assms, of ch_write_callback] arg_cong [OF assms, of ch_revents] arg_cong [OF assms, of ch_loop]
    arg_cong [OF assms, of ch_fd] arg_cong [OF assms, of ch_event_handling]
  by (simp_all add: chan_core_def)

lemma loop_coreD:
  assumes "loop_core el' = loop_core el"
  shows "el_quit el' = el_quit el" "el_pending_functors el' = el_pending_functors el" "el_tid el' = el_tid el"
    "el_looping el' = el_looping el" "ep_events_size (el_poller el') = ep_events_size (el_poller el)"
    "el_wakeup_channel el' = el_wakeup_channel el"
  using arg_cong [OF assms, of el_wakeup_channel] arg_cong [OF assms, of el_quit] arg_cong [OF assms, of el_pending_functors] arg_cong [OF assms, of el_tid]
    arg_cong [OF assms, of el_looping] arg_cong [OF assms, of "\<lambda>e. ep_events_size (el_poller e)"]
  by (simp_all add: loop_core_def)

lemma conn_coreD:
  assumes "conn_core tc' = conn_core tc"
  shows "tc_loop tc' = tc_loop tc" "tc_channel tc' = tc_channel tc" "tc_fd tc' = tc_fd tc"
    "tc_write_complete_callback tc' = tc_write_complete_callback tc"
  using arg_cong [OF assms, of tc_loop] arg_cong [OF assms, of tc_channel] arg_cong [OF assms, of tc_fd]
    arg_cong [OF assms, of tc_write_complete_callback]
  by (simp_all add: conn_core_def)

lemma wired_core:
  assumes "wired l a cc w" and core: "net_core w' = net_core w"
  shows "wired l a cc w'"
proof -
  from assms(1) obtain tc ch el where W: "nx_conns w a = Some tc" "tc_loop tc = l" "tc_channel tc = cc"
    "tc_write_complete_callback tc = None" "rx_channels w cc = Some ch" "ch_tied ch" "ch_tie ch = Some a"
    "ch_read_callback ch = Some (Conn_read a)" "ch_write_callback ch = Some (Conn_write a)" "rx_loops w l = Some el"
    "\<not> el_quit el" "el_looping el" "el_pending_functors el = []" "0 < ep_events_size (el_poller el)" unfolding wired_def by blast
  obtain tc' ch' el' where C: "nx_conns w' a = Some tc'" "conn_core tc' = conn_core tc" "rx_channels w' cc = Some ch'"
    "chan_core ch' = chan_core ch" "rx_loops w' l = Some el'" "loop_core el' = loop_core el"
    using core_conn [OF core W(1)] core_channel [OF core W(5)] core_loop [OF core W(10)] by blast
  show ?thesis
    unfolding wired_def using W C(1,3,5) conn_coreD [OF C(2)] chan_coreD [OF C(4)] loop_coreD [OF C(6)]
    by (intro exI [of _ tc'] exI [of _ ch'] exI [of _ el']) simp
qed

definition serving :: "addr \<Rightarrow> addr \<Rightarrow> addr \<Rightarrow> int \<Rightarrow> int \<Rightarrow> byte list \<Rightarrow> byte list \<Rightarrow> nat \<Rightarrow>
    (echo_cb server_cb, 'z) net_scheme \<Rightarrow> bool" where
  "serving l a cc t fd X Y bound w \<longleftrightarrow> echo_inv a t fd X Y bound w \<and> wired l a cc w"

lemma serve_cb:
  fixes w :: "(echo_cb, 'z) server_net_scheme"
  assumes k: "kernel_ok k" and soft: "\<forall>tr fd bs e. k_write k tr fd bs = Io_error e \<longrightarrow> e = EWOULDBLOCK"
    and peer: "peer_sends k" and s: "serving l a cc t fd X Y bound w" and max: "bound + kExtraBuf \<le> vector_max_size"
    and cb: "cb \<in> {Conn_read a, Conn_write a}"
  shows "\<exists>w'. run_chan_cb k fresh (EchoServer_callbacks k t p) t cb w = Inr w' \<and>
    serving l a cc t fd X Y (bound + kExtraBuf) w' \<and> net_core w' = net_core w"
proof -
  from s have inv: "echo_inv a t fd X Y bound w" and wi: "wired l a cc w" by (simp_all add: serving_def)
  from wi obtain tc where tc: "nx_conns w a = Some tc" "tc_write_complete_callback tc = None" by (auto simp: wired_def)
  from inv tc obtain el where el: "rx_loops w (tc_loop tc) = Some el" "el_tid el = t"
    "tc_message_callback tc = Some (User Handle_message)" by (auto simp: echo_inv_def conn_base_def)
  from echo_read [OF k soft peer inv max, of p] obtain wr where
    wr: "TcpConnection_handle_read k (run_user (EchoServer_callbacks k t p) t) t a w = Inr wr"
    "echo_inv a t fd X Y (bound + kExtraBuf) wr" by blast
  from echo_write [OF k inv] obtain ww where ww: "TcpConnection_handle_write k t a w = Inr ww" "echo_inv a t fd X Y bound ww"
    by blast
  have "net_core wr = net_core w" by (rule echo_read_core [OF wr(1) tc(1) el(3) tc(2) el(1,2) peer])
  moreover have "net_core ww = net_core w" by (rule handle_write_core [OF ww(1) tc])
  ultimately show ?thesis
    using cb wr ww wired_core [OF wi] echo_inv_mono [OF ww(2), of "bound + kExtraBuf"]
    by (auto simp: run_chan_cb_def serving_def)
qed

section \<open>One pass of the loop\<close>

text \<open>The marks that the poller, the dispatch and the loop set change nothing for the
  connection.\<close>

lemma ep_view_cong: "ep_channels ep' = ep_channels ep \<Longrightarrow> ep_view st ep' = ep_view st ep"
  by (simp add: ep_view_def fun_eq_iff)

lemma ep_inv_cong:
  "ep_channels ep' = ep_channels ep \<Longrightarrow> ep_calls ep' = ep_calls ep \<Longrightarrow> ep_inv l st ep' = ep_inv l st ep"
  using ep_view_cong [of ep' ep st] by (simp add: ep_inv_def chan_ok_def)

lemma rx_inv_marks:
  assumes "rx_inv w" and "rx_loops w l = Some el" and "ep_channels (el_poller el') = ep_channels (el_poller el)"
    and "ep_calls (el_poller el') = ep_calls (el_poller el)"
  shows "rx_inv (put_loop l el' w)"
  using assms ep_inv_cong [OF assms(3,4)] by (auto simp: rx_inv_def)

definition same_marks :: "'cb channel \<Rightarrow> 'cb channel \<Rightarrow> bool" where
  "same_marks ch' ch \<longleftrightarrow> (\<exists>r h. ch' = ch\<lparr>ch_revents := r, ch_event_handling := h\<rparr>)"

lemma same_marks_set [simp]:
  "same_marks (ch\<lparr>ch_event_handling := h\<rparr>) ch" "same_marks (Channel_set_revents r ch) ch"
  unfolding same_marks_def Channel_set_revents_def
  by (rule exI [of _ "ch_revents ch"], rule exI [of _ h], simp) (rule exI [of _ r], rule exI [of _ "ch_event_handling ch"], simp)

lemma same_marksD:
  assumes "same_marks ch' ch"
  shows "ch_loop ch' = ch_loop ch" "ch_fd ch' = ch_fd ch" "ch_events ch' = ch_events ch" "ch_index ch' = ch_index ch"
    "ch_tied ch' = ch_tied ch" "ch_tie ch' = ch_tie ch" "ch_read_callback ch' = ch_read_callback ch"
    "ch_write_callback ch' = ch_write_callback ch" "Channel_is_writing ch' = Channel_is_writing ch"
  using assms by (auto simp: same_marks_def Channel_is_writing_def)

lemma serving_put_channel:
  assumes s: "serving l a cc t fd X Y bound w" and ch: "rx_channels w cc = Some ch" and m: "same_marks ch' ch"
  shows "serving l a cc t fd X Y bound (put_channel cc ch' w)"
proof -
  note M = same_marksD [OF m]
  from s obtain tc ch0 el Z where I: "conn_base a tc ch0 el w" "conn_live tc ch0" "tc_state tc = kConnected" "t = el_tid el"
    "tc_fd tc = fd" "tc_message_callback tc = Some (User Handle_message)" "drained (tc_input_buffer tc)"
    "unat (nb_writer (tc_output_buffer tc)) \<le> bound" "received fd (nx_trace w) = Y @ Z"
    "wire fd (nx_trace w) @ nb_contents (tc_output_buffer tc) = X @ Z" and wi: "wired l a cc w"
    unfolding serving_def echo_inv_def by blast
  have tc: "tc_channel tc = cc" using wi conn_baseD(2) [OF I(1)] by (auto simp: wired_def)
  then have ch0: "ch0 = ch" using conn_baseD(3) [OF I(1)] ch by simp
  have inv: "rx_inv (put_channel cc ch' w)" by (rule rx_inv_put_channel [OF conn_baseD(1) [OF I(1)] ch]) (simp_all add: M)
  have "conn_base a tc ch' el (put_channel cc ch' w)" using I(1) inv by (simp add: conn_base_def tc ch0 M)
  moreover have "conn_live tc ch'" using I(2) by (simp add: conn_live_def M ch0)
  ultimately have "echo_inv a t fd X Y bound (put_channel cc ch' w)"
    unfolding echo_inv_def using I(3-10)
    by (intro exI [of _ tc] exI [of _ ch'] exI [of _ el] conjI exI [of _ Z]) simp_all
  moreover have "wired l a cc (put_channel cc ch' w)" using wi ch by (auto simp: wired_def M)
  ultimately show ?thesis by (simp add: serving_def)
qed

lemma serving_put_loop:
  assumes s: "serving l a cc t fd X Y bound w" and el: "rx_loops w l = Some el"
    and m: "ep_channels (el_poller el') = ep_channels (el_poller el)" "ep_calls (el_poller el') = ep_calls (el_poller el)"
      "el_tid el' = el_tid el" "el_quit el' = el_quit el" "el_looping el' = el_looping el"
      "el_pending_functors el' = el_pending_functors el" "0 < ep_events_size (el_poller el')"
  shows "serving l a cc t fd X Y bound (put_loop l el' w)"
proof -
  from s obtain tc ch el0 Z where I: "conn_base a tc ch el0 w" "conn_live tc ch" "tc_state tc = kConnected" "t = el_tid el0"
    "tc_fd tc = fd" "tc_message_callback tc = Some (User Handle_message)" "drained (tc_input_buffer tc)"
    "unat (nb_writer (tc_output_buffer tc)) \<le> bound" "received fd (nx_trace w) = Y @ Z"
    "wire fd (nx_trace w) @ nb_contents (tc_output_buffer tc) = X @ Z" and wi: "wired l a cc w"
    unfolding serving_def echo_inv_def by blast
  have tc: "tc_loop tc = l" using wi conn_baseD(2) [OF I(1)] by (auto simp: wired_def)
  then have el0: "el0 = el" using conn_baseD(4) [OF I(1)] el by simp
  have inv: "rx_inv (put_loop l el' w)" by (rule rx_inv_marks [OF conn_baseD(1) [OF I(1)] el m(1,2)])
  have "conn_base a tc ch el' (put_loop l el' w)" using I(1) inv by (simp add: conn_base_def tc)
  then have "echo_inv a t fd X Y bound (put_loop l el' w)"
    unfolding echo_inv_def using I(2-10) m(3)
    by (intro exI [of _ tc] exI [of _ ch] exI [of _ el'] conjI exI [of _ Z]) (simp_all add: el0)
  moreover have "wired l a cc (put_loop l el' w)" using wi el m by (auto simp: wired_def)
  ultimately show ?thesis by (simp add: serving_def)
qed

text \<open>Events without \<open>EPOLLHUP\<close> and \<open>EPOLLERR\<close>.\<close>

definition io_only :: "events \<Rightarrow> bool" where
  "io_only ev \<longleftrightarrow> \<not> truth (ev AND EPOLLHUP) \<and> \<not> truth (ev AND EPOLLERR)"

text \<open>A conditional callback of the dispatch.\<close>

lemma serve_guarded:
  fixes w :: "(echo_cb, 'z) server_net_scheme"
  assumes k: "kernel_ok k" and soft: "\<forall>tr fd bs e. k_write k tr fd bs = Io_error e \<longrightarrow> e = EWOULDBLOCK"
    and peer: "peer_sends k" and s: "serving l a cc t fd X Y bound w" and max: "bound + kExtraBuf \<le> vector_max_size"
    and cb: "cb \<in> {Conn_read a, Conn_write a}"
  shows "\<exists>w'. (if P then run_callback (run_chan_cb k fresh (EchoServer_callbacks k t p) t) (Some cb) w else Inr w) = Inr w' \<and>
    serving l a cc t fd X Y (bound + kExtraBuf) w' \<and> net_core w' = net_core w"
proof (cases P)
  case True
  with serve_cb [OF assms] show ?thesis by (simp add: run_callback_def)
next
  case False
  then show ?thesis using s by (auto simp: serving_def intro: echo_inv_mono)
qed

lemma serve_event:
  fixes w :: "(echo_cb, 'z) server_net_scheme"
  assumes k: "kernel_ok k" and soft: "\<forall>tr fd bs e. k_write k tr fd bs = Io_error e \<longrightarrow> e = EWOULDBLOCK"
    and peer: "peer_sends k" and s: "serving l a cc t fd X Y bound w" and max: "bound + 2 * kExtraBuf \<le> vector_max_size"
    and ch: "rx_channels w cc = Some ch" and io: "io_only (ch_revents ch)"
  shows "\<exists>w'. Channel_handle_event conn_alive (run_chan_cb k fresh (EchoServer_callbacks k t p) t) (get_channel cc)
      (upd_channel cc) w = Inr w' \<and> serving l a cc t fd X Y (bound + 2 * kExtraBuf) w'"
proof -
  let ?run = "run_chan_cb k fresh (EchoServer_callbacks k t p) t"
  have W: "ch_tied ch" "ch_tie ch = Some a" "ch_read_callback ch = Some (Conn_read a)" "ch_write_callback ch = Some (Conn_write a)"
    "conn_alive a w" using s ch by (auto simp: serving_def wired_def conn_alive_def)
  let ?ch1 = "ch\<lparr>ch_event_handling := True\<rparr>"
  let ?w1 = "put_channel cc ?ch1 w"
  have s1: "serving l a cc t fd X Y bound ?w1"
    by (rule serving_put_channel [OF s ch]) simp
  let ?P = "truth (ch_revents ch AND (EPOLLIN OR EPOLLPRI OR EPOLLRDHUP))" and ?Q = "truth (ch_revents ch AND EPOLLOUT)"
  have max1: "bound + kExtraBuf \<le> vector_max_size" "bound + kExtraBuf + kExtraBuf \<le> vector_max_size" using max by simp_all
  from serve_guarded [OF k soft peer s1 max1(1), of "Conn_read a" ?P fresh p] obtain w2 where
    w2: "(if ?P then run_callback ?run (Some (Conn_read a)) ?w1 else Inr ?w1) = Inr w2"
    "serving l a cc t fd X Y (bound + kExtraBuf) w2" "net_core w2 = net_core ?w1" by auto
  from serve_guarded [OF k soft peer w2(2) max1(2), of "Conn_write a" ?Q fresh p] obtain w3 where
    w3: "(if ?Q then run_callback ?run (Some (Conn_write a)) w2 else Inr w2) = Inr w3"
    "serving l a cc t fd X Y (bound + kExtraBuf + kExtraBuf) w3" "net_core w3 = net_core w2" by auto
  obtain ch2 where ch2: "rx_channels w2 cc = Some ch2" "chan_core ch2 = chan_core ?ch1"
    using core_channel [OF w2(3), of cc ?ch1] by auto
  obtain ch3 where ch3: "rx_channels w3 cc = Some ch3" using core_channel [OF w3(3) ch2(1)] by auto
  have c2: "ch_revents ch2 = ch_revents ch" "ch_write_callback ch2 = Some (Conn_write a)"
    using chan_coreD [OF ch2(2)] W by simp_all
  have "Channel_handle_event conn_alive ?run (get_channel cc) (upd_channel cc) w =
      Inr (put_channel cc (ch3\<lparr>ch_event_handling := False\<rparr>) w3)"
    using W ch io w2(1) w3(1) ch2(1) c2 ch3
    by (auto simp: Channel_handle_event_def Channel_handle_event_with_guard_def upd_channel_def io_only_def
        split: if_splits)
  moreover have "serving l a cc t fd X Y (bound + 2 * kExtraBuf) (put_channel cc (ch3\<lparr>ch_event_handling := False\<rparr>) w3)"
    by (rule serving_put_channel [OF _ ch3])
      (use w3(2) in \<open>simp_all add: mult_2 add.assoc\<close>)
  ultimately show ?thesis by blast
qed

text \<open>What \<open>epoll_wait\<close> may report: an interrupt, a timeout, or events of the connection.\<close>

definition report_ok :: "addr \<Rightarrow> (addr \<times> events) list option \<Rightarrow> bool" where
  "report_ok cc r \<longleftrightarrow> r = None \<or> r = Some [] \<or> (\<exists>ev. r = Some [(cc, ev)] \<and> io_only ev)"

lemma serving_loop:
  "serving l a cc t fd X Y bound w \<Longrightarrow> \<exists>el. rx_loops w l = Some el \<and> el_pending_functors el = [] \<and> \<not> el_quit el \<and>
    0 < ep_events_size (el_poller el)"
  by (auto simp: serving_def wired_def)

lemma serve_rest:
  assumes s: "serving l a cc t fd X Y bound w"
  shows "\<exists>w'. bindE (upd_loop l (\<lambda>el. el\<lparr>el_current_active_channel := None, el_event_handing := False\<rparr>) w)
      (EventLoop_do_pending_functors runf destroy l) = Inr w' \<and> serving l a cc t fd X Y bound w'"
proof -
  obtain el where el: "rx_loops w l = Some el" "el_pending_functors el = []" "0 < ep_events_size (el_poller el)"
    using serving_loop [OF s] by blast
  let ?el1 = "el\<lparr>el_current_active_channel := None, el_event_handing := False\<rparr>"
  let ?el2 = "?el1\<lparr>el_calling_pending_functors := True, el_pending_functors := []\<rparr>"
  let ?el3 = "?el2\<lparr>el_calling_pending_functors := False\<rparr>"
  let ?w' = "put_loop l ?el3 (put_loop l ?el2 (put_loop l ?el1 w))"
  have "serving l a cc t fd X Y bound ?w'"
    by (intro serving_put_loop [of l a cc t fd X Y bound _ ?el2] serving_put_loop [of l a cc t fd X Y bound _ ?el1]
        serving_put_loop [OF s el(1)]) (use el in simp_all)
  moreover have "bindE (upd_loop l (\<lambda>el. el\<lparr>el_current_active_channel := None, el_event_handing := False\<rparr>) w)
      (EventLoop_do_pending_functors runf destroy l) = Inr ?w'"
    using el by (simp add: upd_loop_def EventLoop_do_pending_functors_def)
  ultimately show ?thesis by blast
qed

lemma serving_registered:
  assumes s: "serving l a cc t fd X Y bound w" and el: "rx_loops w l = Some el"
  shows "\<exists>ch. rx_channels w cc = Some ch \<and> ep_channels (el_poller el) (ch_fd ch) = Some cc"
proof -
  from s obtain tc ch e0 where B: "conn_base a tc ch e0 w" by (auto simp: serving_def echo_inv_def)
  then have "tc_channel tc = cc" "tc_loop tc = l" using s by (auto simp: serving_def wired_def conn_base_def)
  with conn_baseD [OF B] ep_invD(1) [OF rx_invD [OF conn_baseD(1) [OF B] el], of cc ch] show ?thesis
    by (auto simp: chan_ok_def)
qed

text \<open>A pass in which one registered channel is reported.\<close>

lemma iteration_single:
  fixes w :: "('cb, 'f, 'z) reactor_scheme"
  assumes "rx_loops w l = Some el" and "rx_channels w c = Some ch" and "ep_channels (el_poller el) (ch_fd ch) = Some c"
    and "0 < ep_events_size (el_poller el)"
  shows "\<exists>ep. ep_channels ep = ep_channels (el_poller el) \<and> ep_calls ep = ep_calls (el_poller el) \<and> 0 < ep_events_size ep \<and>
    (\<forall>alive run runf destroy. EventLoop_iteration alive run runf destroy l (Some [(c, ev)]) w =
      bindE (Channel_handle_event alive run (get_channel c) (upd_channel c)
        (put_loop l (el\<lparr>el_poller := ep, el_active_channels := [c], el_event_handing := True, el_current_active_channel := Some c\<rparr>)
          (put_loop l (el\<lparr>el_poller := ep, el_active_channels := [c], el_event_handing := True\<rparr>)
            (put_channel c (Channel_set_revents ev ch) w))))
        (\<lambda>w3. bindE (upd_loop l (\<lambda>el. el\<lparr>el_current_active_channel := None, el_event_handing := False\<rparr>) w3)
                (EventLoop_do_pending_functors runf destroy l)))"
proof -
  define ep where "ep = (if 1 = ep_events_size (el_poller el) then (el_poller el)\<lparr>ep_events_size := 2\<rparr> else el_poller el)"
  have poll: "Epoller_poll (Some [(c, ev)]) (el_poller el) (rx_channels w) [] =
      Inr (ep, (rx_channels w)(c \<mapsto> Channel_set_revents ev ch), [c])"
    using assms by (auto simp: Epoller_poll_def ep_def Suc_le_eq)
  have put: "w\<lparr>rx_channels := (rx_channels w)(c \<mapsto> Channel_set_revents ev ch)\<rparr> = put_channel c (Channel_set_revents ev ch) w"
    by (simp add: put_channel_def)
  show ?thesis
    by (rule exI [of _ ep]) (use assms(1,4) in \<open>simp add: ep_def [symmetric] EventLoop_iteration_def poll put upd_loop_def bindE_assoc,
      simp add: ep_def\<close>)
qed

lemma serve_iteration:
  fixes w :: "(echo_cb, 'z) server_net_scheme"
  assumes k: "kernel_ok k" and soft: "\<forall>tr fd bs e. k_write k tr fd bs = Io_error e \<longrightarrow> e = EWOULDBLOCK"
    and peer: "peer_sends k" and s: "serving l a cc t fd X Y bound w" and max: "bound + 2 * kExtraBuf \<le> vector_max_size"
    and r: "report_ok cc r"
  shows "\<exists>w'. EventLoop_iteration conn_alive (run_chan_cb k fresh (EchoServer_callbacks k t p) t) runf destroy l r w = Inr w' \<and>
    serving l a cc t fd X Y (bound + 2 * kExtraBuf) w'"
proof -
  let ?run = "run_chan_cb k fresh (EchoServer_callbacks k t p) t"
  obtain el where el: "rx_loops w l = Some el" "0 < ep_events_size (el_poller el)" using serving_loop [OF s] by blast
  have mono: "serving l a cc t fd X Y bound v \<Longrightarrow> serving l a cc t fd X Y (bound + 2 * kExtraBuf) v"
    for v :: "(echo_cb, 'z) server_net_scheme" by (auto simp: serving_def intro: echo_inv_mono)
  show ?thesis
  proof (cases "\<exists>ev. r = Some [(cc, ev)] \<and> io_only ev")
    case False
    let ?w1 = "put_loop l (el\<lparr>el_active_channels := [], el_event_handing := True\<rparr>) w"
    have "serving l a cc t fd X Y bound ?w1" by (rule serving_put_loop [OF s el(1)]) (use el in simp_all)
    from serve_rest [OF this, of runf destroy] obtain w' where
      "bindE (upd_loop l (\<lambda>el. el\<lparr>el_current_active_channel := None, el_event_handing := False\<rparr>) ?w1)
         (EventLoop_do_pending_functors runf destroy l) = Inr w'" "serving l a cc t fd X Y bound w'" by blast
    moreover have "Epoller_poll r (el_poller el) (rx_channels w) [] = Inr (el_poller el, rx_channels w, [])"
      using False r by (auto simp: report_ok_def Epoller_poll_def)
    ultimately show ?thesis using el(1) mono by (simp add: EventLoop_iteration_def)
  next
    case True
    then obtain ev where ev: "r = Some [(cc, ev)]" "io_only ev" by blast
    obtain ch where ch: "rx_channels w cc = Some ch" "ep_channels (el_poller el) (ch_fd ch) = Some cc"
      using serving_registered [OF s el(1)] by blast
    let ?ch = "Channel_set_revents ev ch"
    let ?el1 = "\<lambda>ep. el\<lparr>el_poller := ep, el_active_channels := [cc], el_event_handing := True\<rparr>"
    let ?w1 = "\<lambda>ep. put_loop l (?el1 ep) (put_channel cc ?ch w)"
    let ?w2 = "\<lambda>ep. put_loop l ((?el1 ep)\<lparr>el_current_active_channel := Some cc\<rparr>) (?w1 ep)"
    let ?rest = "\<lambda>w3. bindE (upd_loop l (\<lambda>el. el\<lparr>el_current_active_channel := None, el_event_handing := False\<rparr>) w3)
                (EventLoop_do_pending_functors runf destroy l)"
    from iteration_single [OF el(1) ch el(2), of ev] obtain ep where
      ep: "ep_channels ep = ep_channels (el_poller el)" "ep_calls ep = ep_calls (el_poller el)" "0 < ep_events_size ep"
      and it: "EventLoop_iteration conn_alive ?run runf destroy l (Some [(cc, ev)]) w =
        bindE (Channel_handle_event conn_alive ?run (get_channel cc) (upd_channel cc) (?w2 ep)) ?rest" by blast
    have s0: "serving l a cc t fd X Y bound (put_channel cc ?ch w)" by (rule serving_put_channel [OF s ch(1)]) simp
    have s1: "serving l a cc t fd X Y bound (?w1 ep)" by (rule serving_put_loop [OF s0, of el]) (use el ep in simp_all)
    have s2: "serving l a cc t fd X Y bound (?w2 ep)" by (rule serving_put_loop [OF s1, of "?el1 ep"]) (use ep in simp_all)
    have "rx_channels (?w2 ep) cc = Some ?ch" "io_only (ch_revents ?ch)" using ev(2) by (simp_all add: Channel_set_revents_def)
    from serve_event [OF k soft peer s2 max this, of fresh p] obtain w3 where
      w3: "Channel_handle_event conn_alive ?run (get_channel cc) (upd_channel cc) (?w2 ep) = Inr w3"
      "serving l a cc t fd X Y (bound + 2 * kExtraBuf) w3" by blast
    from serve_rest [OF w3(2), of runf destroy] it w3(1) ev(1) show ?thesis by auto
  qed
qed

lemma serve_loop:
  fixes w :: "(echo_cb, 'z) server_net_scheme"
  assumes k: "kernel_ok k" and soft: "\<forall>tr fd bs e. k_write k tr fd bs = Io_error e \<longrightarrow> e = EWOULDBLOCK"
    and peer: "peer_sends k"
  shows "serving l a cc t fd X Y bound w \<Longrightarrow> list_all (report_ok cc) rs \<Longrightarrow>
    bound + 2 * length rs * kExtraBuf \<le> vector_max_size \<Longrightarrow>
    \<exists>w'. EventLoop_loop_body conn_alive (run_chan_cb k fresh (EchoServer_callbacks k t p) t) runf destroy l rs w = Inr w' \<and>
      serving l a cc t fd X Y (bound + 2 * length rs * kExtraBuf) w'"
proof (induction rs arbitrary: bound w)
  case Nil
  then show ?case using serving_loop [OF Nil(1)] by (auto simp: EventLoop_loop_body.simps)
next
  case (Cons r rs)
  have max: "bound + 2 * kExtraBuf \<le> vector_max_size" using Cons.prems(3) by simp
  from serve_iteration [OF k soft peer Cons.prems(1) max, of r fresh p runf destroy] Cons.prems(2) obtain w1 where
    w1: "EventLoop_iteration conn_alive (run_chan_cb k fresh (EchoServer_callbacks k t p) t) runf destroy l r w = Inr w1"
    "serving l a cc t fd X Y (bound + 2 * kExtraBuf) w1" by auto
  from Cons.IH [OF w1(2)] Cons.prems(2,3) w1(1) serving_loop [OF Cons.prems(1)] show ?case
    by (auto simp: EventLoop_loop_body.simps [of _ _ _ _ _ "r # rs"] algebra_simps)
qed

section \<open>The pass that accepts\<close>

text \<open>A listening server on a loop that is running.\<close>

definition listening :: "addr \<Rightarrow> addr \<Rightarrow> addr \<Rightarrow> addr \<Rightarrow> int \<Rightarrow> int \<Rightarrow> int \<Rightarrow> addr \<Rightarrow> addr \<Rightarrow>
    (echo_cb, 'z) server_net_scheme \<Rightarrow> bool" where
  "listening s ac c l lfd t fd a cc w \<longleftrightarrow> (\<exists>ts el. rx_inv w \<and> server_up True s ac c l lfd ts w \<and> ts_connections ts = [] \<and>
     pool_inv (ts_threadpool ts) \<and> pool_loops (ts_threadpool ts) = [l] \<and> pool_at (ts_threadpool ts) = 0 \<and>
     ts_connection_callback ts = Some Handle_connect \<and> ts_message_callback ts = Some Handle_message \<and>
     ts_write_complete_callback ts = None \<and> rx_loops w l = Some el \<and> el_tid el = t \<and> \<not> el_quit el \<and> el_looping el \<and>
     el_pending_functors el = [] \<and> 0 < ep_events_size (el_poller el) \<and> ep_channels (el_poller el) fd = None \<and>
     nx_conns w a = None \<and> rx_channels w cc = None)"

lemma listening_put_channel:
  assumes "listening s ac c l lfd t fd a cc w" and "rx_channels w c = Some ch" and m: "same_marks ch' ch"
  shows "listening s ac c l lfd t fd a cc (put_channel c ch' w)"
  using assms(1,2) same_marksD [OF m] rx_inv_put_channel [OF _ assms(2), of ch']
  unfolding listening_def server_up_def by auto

lemma listening_put_loop:
  assumes "listening s ac c l lfd t fd a cc w" and "rx_loops w l = Some el"
    and "ep_channels (el_poller el') = ep_channels (el_poller el)" "ep_calls (el_poller el') = ep_calls (el_poller el)"
      "el_tid el' = el_tid el" "el_quit el' = el_quit el" "el_looping el' = el_looping el"
      "el_pending_functors el' = el_pending_functors el" "0 < ep_events_size (el_poller el')"
  shows "listening s ac c l lfd t fd a cc (put_loop l el' w)"
  using assms rx_inv_marks [OF _ assms(2-4)] unfolding listening_def server_up_def by auto

lemma connect_established_core:
  fixes w :: "('u, 'z) net_scheme"
  assumes "TcpConnection_connect_established u t a w = Inr w'" and tc: "nx_conns w a = Some tc"
    and ch: "rx_channels w (tc_channel tc) = Some ch"
    and u: "\<And>v v'. call_user u On_connection (tc_connection_callback tc) a v = Inr v' \<Longrightarrow> v' = v"
  shows "net_core w' = net_core (put_channel (tc_channel tc) (Channel_tie a ch) (put_conn a (TcpConnection_set_state kConnected tc) w))"
  using assms(1) tc ch
  by (auto simp: TcpConnection_connect_established_def upd_channel_def Channel_enable_reading_def bindE_Inr_iff
      dest!: u set_events_core)

lemma accept_serving:
  fixes w :: "(echo_cb, 'z) server_net_scheme"
  assumes L: "listening s ac c l lfd t fd a cc w" and ne: "c \<noteq> cc"
    and acc: "k_accept4 k (nx_trace w) lfd = Io_ok (fd, peer)" "0 \<le> fd"
  shows "\<exists>w1 ch1. run_chan_cb k (\<lambda>_. (a, cc)) (EchoServer_callbacks k t p) t (Accept_read ac) w = Inr w1 \<and>
    serving l a cc t fd (wire fd (nx_trace w)) (received fd (nx_trace w)) 8 w1 \<and> rx_channels w1 c = Some ch1 \<and>
    (\<exists>ch. rx_channels w c = Some ch \<and> chan_core ch1 = chan_core ch)"
proof -
  from L obtain ts el where S: "rx_inv w" "server_up True s ac c l lfd ts w" "ts_connections ts = []"
    "pool_inv (ts_threadpool ts)" "pool_loops (ts_threadpool ts) = [l]" "pool_at (ts_threadpool ts) = 0"
    "ts_connection_callback ts = Some Handle_connect" "ts_message_callback ts = Some Handle_message"
    "ts_write_complete_callback ts = None" "rx_loops w l = Some el" "el_tid el = t" "\<not> el_quit el" "el_looping el"
    "el_pending_functors el = []" "0 < ep_events_size (el_poller el)" "ep_channels (el_poller el) fd = None"
    "nx_conns w a = None" "rx_channels w cc = None" unfolding listening_def by blast
  have pre: "conns_ok (ts_connections ts) w" "l = pool_loops (ts_threadpool ts) ! pool_at (ts_threadpool ts)"
    "map_of (ts_connections ts) fd = None" using S by (simp_all add: conns_ok_def)
  obtain cl where cl: "rx_channels w c = Some cl" using S(2) by (auto simp: server_up_def)
  from accept_connection [OF S(1,2,10) pre(1) S(4,7,8) pre(2) S(10) acc S(16) pre(3) S(17,18), of p] S(9,11) obtain w2 tc ch where
    w2: "conn_fresh a tc ch el w2" "tc_connection_callback tc = Some (User Handle_connect)"
    "tc_message_callback tc = Some (User Handle_message)" "tc_write_complete_callback tc = None" "tc_fd tc = fd" "tc_loop tc = l"
    "tc_channel tc = cc" "wire fd (nx_trace w2) = wire fd (nx_trace w)" "received fd (nx_trace w2) = received fd (nx_trace w)"
    "Buffer_new kInitialSize = Inr (tc_input_buffer tc)" "tc_output_buffer tc = tc_input_buffer tc"
    "rx_channels w2 = (rx_channels w)(cc \<mapsto> ch)" "rx_loops w2 = rx_loops w" "ch_read_callback ch = Some (Conn_read a)"
    "ch_write_callback ch = Some (Conn_write a)"
    "run_chan_cb k (\<lambda>_. (a, cc)) (EchoServer_callbacks k t p) t (Accept_read ac) w =
       TcpConnection_connect_established (run_user (EchoServer_callbacks k t p) t) t a w2" by auto
  from established_echoes [OF w2(1) S(11) [symmetric] w2(2,3,10,11), of k p] w2(5,8,9) obtain w1 where
    w1: "TcpConnection_connect_established (run_user (EchoServer_callbacks k t p) t) t a w2 = Inr w1"
    "echo_inv a t fd (wire fd (nx_trace w)) (received fd (nx_trace w)) 8 w1" by auto
  let ?v = "put_channel cc (Channel_tie a ch) (put_conn a (TcpConnection_set_state kConnected tc) w2)"
  have tc: "nx_conns w2 a = Some tc" "rx_channels w2 (tc_channel tc) = Some ch" using w2(1) by (simp_all add: conn_fresh_def)
  have "net_core w1 = net_core (put_channel (tc_channel tc) (Channel_tie a ch) (put_conn a (TcpConnection_set_state kConnected tc) w2))"
    by (rule connect_established_core [OF w1(1) tc])
      (simp add: w2(2) call_user_def run_user_def EchoServer_callbacks_def EchoServer_handle_connect_def bindE_Inr_iff)
  then have core: "net_core w1 = net_core ?v" by (simp add: w2(7))
  have "wired l a cc ?v"
    unfolding wired_def using S w2
    by (intro exI [of _ "TcpConnection_set_state kConnected tc"] exI [of _ "Channel_tie a ch"] exI [of _ el])
      (simp add: TcpConnection_set_state_def Channel_tie_def)
  from wired_core [OF this core] have "wired l a cc w1" .
  moreover have "rx_channels ?v c = Some cl" using w2(12) cl ne by simp
  from core_channel [OF core this] obtain ch1 where "rx_channels w1 c = Some ch1" "chan_core ch1 = chan_core cl" by blast
  ultimately show ?thesis using w1 w2(16) cl by (auto simp: serving_def)
qed

lemma serving_put_other:
  assumes s: "serving l a cc t fd X Y bound w" and ch: "rx_channels w c = Some ch" "c \<noteq> cc" and m: "same_marks ch' ch"
  shows "serving l a cc t fd X Y bound (put_channel c ch' w)"
proof -
  note M = same_marksD [OF m]
  from s obtain tc ch0 el Z where I: "conn_base a tc ch0 el w" "conn_live tc ch0" "tc_state tc = kConnected" "t = el_tid el"
    "tc_fd tc = fd" "tc_message_callback tc = Some (User Handle_message)" "drained (tc_input_buffer tc)"
    "unat (nb_writer (tc_output_buffer tc)) \<le> bound" "received fd (nx_trace w) = Y @ Z"
    "wire fd (nx_trace w) @ nb_contents (tc_output_buffer tc) = X @ Z" and wi: "wired l a cc w"
    unfolding serving_def echo_inv_def by blast
  have tc: "tc_channel tc = cc" using wi conn_baseD(2) [OF I(1)] by (auto simp: wired_def)
  have inv: "rx_inv (put_channel c ch' w)" by (rule rx_inv_put_channel [OF conn_baseD(1) [OF I(1)] ch(1)]) (simp_all add: M)
  have "conn_base a tc ch0 el (put_channel c ch' w)" using I(1) inv ch(2) by (simp add: conn_base_def tc)
  then have "echo_inv a t fd X Y bound (put_channel c ch' w)"
    unfolding echo_inv_def using I(2-10)
    by (intro exI [of _ tc] exI [of _ ch0] exI [of _ el] conjI exI [of _ Z]) simp_all
  moreover have "wired l a cc (put_channel c ch' w)" using wi ch(2) by (auto simp: wired_def)
  ultimately show ?thesis by (simp add: serving_def)
qed

lemma accept_event:
  fixes w :: "(echo_cb, 'z) server_net_scheme"
  assumes L: "listening s ac c l lfd t fd a cc w" and ne: "c \<noteq> cc"
    and acc: "\<forall>tr. k_accept4 k tr lfd = Io_ok (fd, peer)" "0 \<le> fd"
    and ch: "rx_channels w c = Some ch" "ch_revents ch = EPOLLIN"
  shows "\<exists>w'. Channel_handle_event conn_alive (run_chan_cb k (\<lambda>_. (a, cc)) (EchoServer_callbacks k t p) t) (get_channel c)
      (upd_channel c) w = Inr w' \<and> serving l a cc t fd (wire fd (nx_trace w)) (received fd (nx_trace w)) 8 w'"
proof -
  let ?run = "run_chan_cb k (\<lambda>_. (a, cc)) (EchoServer_callbacks k t p) t"
  let ?w1 = "put_channel c (ch\<lparr>ch_event_handling := True\<rparr>) w"
  have L1: "listening s ac c l lfd t fd a cc ?w1" by (rule listening_put_channel [OF L ch(1)]) simp
  have cb: "ch_read_callback ch = Some (Accept_read ac)" "\<not> ch_tied ch" using L ch(1) by (auto simp: listening_def server_up_def)
  have tr: "nx_trace ?w1 = nx_trace w" by (simp add: put_channel_def)
  from accept_serving [OF L1 ne _ acc(2), of k peer p] acc(1) obtain w2 ch2 where
    w2: "?run (Accept_read ac) ?w1 = Inr w2" "serving l a cc t fd (wire fd (nx_trace w)) (received fd (nx_trace w)) 8 w2"
    "rx_channels w2 c = Some ch2" "chan_core ch2 = chan_core (ch\<lparr>ch_event_handling := True\<rparr>)" by (auto simp: tr)
  have bits: "\<not> truth (EPOLLIN AND EPOLLHUP)" "\<not> truth (EPOLLIN AND EPOLLERR)" "truth (EPOLLIN AND (EPOLLIN OR EPOLLPRI OR EPOLLRDHUP))"
    "\<not> truth (EPOLLIN AND EPOLLOUT)" by code_simp+
  have "ch_revents ch2 = EPOLLIN" using chan_coreD(5) [OF w2(4)] ch(2) by simp
  then have "Channel_handle_event conn_alive ?run (get_channel c) (upd_channel c) w =
      Inr (put_channel c (ch2\<lparr>ch_event_handling := False\<rparr>) w2)"
    using ch cb bits w2(1,3)
    by (simp add: Channel_handle_event_def Channel_handle_event_with_guard_def upd_channel_def run_callback_def)
  moreover have "serving l a cc t fd (wire fd (nx_trace w)) (received fd (nx_trace w)) 8
      (put_channel c (ch2\<lparr>ch_event_handling := False\<rparr>) w2)" by (rule serving_put_other [OF w2(2,3) ne]) simp
  ultimately show ?thesis by blast
qed

lemma accept_iteration:
  fixes w :: "(echo_cb, 'z) server_net_scheme"
  assumes L: "listening s ac c l lfd t fd a cc w" and ne: "c \<noteq> cc"
    and acc: "\<forall>tr. k_accept4 k tr lfd = Io_ok (fd, peer)" "0 \<le> fd"
  shows "\<exists>w'. EventLoop_iteration conn_alive (run_chan_cb k (\<lambda>_. (a, cc)) (EchoServer_callbacks k t p) t) runf destroy l
      (Some [(c, EPOLLIN)]) w = Inr w' \<and> serving l a cc t fd (wire fd (nx_trace w)) (received fd (nx_trace w)) 8 w'"
proof -
  let ?run = "run_chan_cb k (\<lambda>_. (a, cc)) (EchoServer_callbacks k t p) t"
  from L obtain el ch where E: "rx_loops w l = Some el" "0 < ep_events_size (el_poller el)" "rx_channels w c = Some ch"
    "ch_loop ch = l" "ch_index ch = kAdded" "rx_inv w" by (auto simp: listening_def server_up_def)
  have reg: "ep_channels (el_poller el) (ch_fd ch) = Some c"
    using ep_invD(1) [OF rx_invD [OF E(6,1)] E(3)] E(4,5) by (auto simp: chan_ok_def)
  let ?ch = "Channel_set_revents EPOLLIN ch"
  let ?el1 = "\<lambda>ep. el\<lparr>el_poller := ep, el_active_channels := [c], el_event_handing := True\<rparr>"
  let ?w1 = "\<lambda>ep. put_loop l (?el1 ep) (put_channel c ?ch w)"
  let ?w2 = "\<lambda>ep. put_loop l ((?el1 ep)\<lparr>el_current_active_channel := Some c\<rparr>) (?w1 ep)"
  let ?rest = "\<lambda>w3. bindE (upd_loop l (\<lambda>el. el\<lparr>el_current_active_channel := None, el_event_handing := False\<rparr>) w3)
                (EventLoop_do_pending_functors runf destroy l)"
  from iteration_single [OF E(1,3) reg E(2), of EPOLLIN] obtain ep where
    ep: "ep_channels ep = ep_channels (el_poller el)" "ep_calls ep = ep_calls (el_poller el)" "0 < ep_events_size ep"
    and it: "EventLoop_iteration conn_alive ?run runf destroy l (Some [(c, EPOLLIN)]) w =
      bindE (Channel_handle_event conn_alive ?run (get_channel c) (upd_channel c) (?w2 ep)) ?rest" by blast
  have L0: "listening s ac c l lfd t fd a cc (put_channel c ?ch w)" by (rule listening_put_channel [OF L E(3)]) simp
  have L1: "listening s ac c l lfd t fd a cc (?w1 ep)" by (rule listening_put_loop [OF L0, of el]) (use E ep in simp_all)
  have L2: "listening s ac c l lfd t fd a cc (?w2 ep)" by (rule listening_put_loop [OF L1, of "?el1 ep"]) (use ep in simp_all)
  have "rx_channels (?w2 ep) c = Some ?ch" "ch_revents ?ch = EPOLLIN" "nx_trace (?w2 ep) = nx_trace w"
    by (simp_all add: Channel_set_revents_def put_loop_def put_channel_def)
  with accept_event [OF L2 ne acc this(1,2), of p] obtain w3 where
    w3: "Channel_handle_event conn_alive ?run (get_channel c) (upd_channel c) (?w2 ep) = Inr w3"
    "serving l a cc t fd (wire fd (nx_trace w)) (received fd (nx_trace w)) 8 w3" by auto
  from serve_rest [OF w3(2), of runf destroy] it w3(1) show ?thesis by auto
qed

section \<open>The program\<close>

text \<open>
  One connection of the echo server, from any store: \<open>main\<close> comes up; the first report of
  \<open>epoll_wait\<close>, that the listening socket is readable, accepts the connection; and whatever
  sequence of interrupts, timeouts and events of the connection is reported after that, the
  program never fails an assertion, never touches memory it must not, and stays in its loop; the
  bytes that were sent to the peer followed by those waiting in the output buffer are exactly the
  bytes received from it, in order.  (The kernel grants the calls of the start, delivers less
  than 64 KiB at a time, and reports neither hang-ups nor errors; its descriptors and the
  allocator's addresses are not in use.)
\<close>

theorem EchoServer_program:
  fixes w :: "(echo_cb, 'z) server_net_scheme"
  assumes kernel: "kernel_ok k" "\<forall>tr fd bs e. k_write k tr fd bs = Io_error e \<longrightarrow> e = EWOULDBLOCK" "peer_sends k"
    and store: "rx_inv w" "rx_loops w l = None" "rx_channels w wc = None" "rx_channels w c = None" "wc \<noteq> c"
      "\<forall>d ch. rx_channels w d = Some ch \<longrightarrow> ch_loop ch \<noteq> l" "rx_loop_in_thread w t = None"
    and start: "wfd \<noteq> - 1" "epfd \<noteq> - 1" "k_socket k (nx_trace w) AF_INET = lfd" "lfd \<noteq> - 1" "lfd \<noteq> wfd"
      "\<forall>tr addr len. 0 \<le> k_bind k tr lfd addr len" "\<forall>tr. 0 \<le> k_listen k tr lfd" "num \<le> 0"
    and accept: "\<forall>tr. k_accept4 k tr lfd = Io_ok (fd, peer)" "fd \<noteq> lfd" "fd \<noteq> wfd"
      "nx_conns w a = None" "rx_channels w cc = None" "cc \<noteq> c" "cc \<noteq> wc"
    and reports: "list_all (report_ok cc) rs" "8 + 2 * length rs * kExtraBuf \<le> vector_max_size"
  shows "\<exists>w' tc el Z. main_program k pton junk num loop_of t wfd epfd l wc s ac c (\<lambda>_. (a, cc)) p (Some [(c, EPOLLIN)] # rs) w = Inr w' \<and>
    rx_loops w' l = Some el \<and> el_looping el \<and> nx_conns w' a = Some tc \<and>
    received fd (nx_trace w') = received fd (nx_trace w) @ Z \<and>
    wire fd (nx_trace w') @ nb_contents (tc_output_buffer tc) = wire fd (nx_trace w) @ Z \<and>
    nb_contents (tc_input_buffer tc) = []"
proof -
  let ?run = "run_chan_cb k (\<lambda>_. (a, cc)) (EchoServer_callbacks k t p) t" and ?runf = "run_net_functor k (EchoServer_callbacks k t p) t"
    and ?destroy = "destroy_net_functor [s] (l # map loop_of [0..<nat num]) t"
  from main_setup_ok [OF store start(1-7), of pton junk num loop_of s ac] start(8) accept(4-7) obtain w1 ts el addr r r' where
    w1: "main_setup k pton junk num loop_of t wfd epfd l wc s ac c w = Inr w1"
    "nx_trace w1 = nx_trace w @ [Sys_socket AF_INET lfd, Sys_setsockopt lfd SOL_SOCKET SO_REUSEADDR 1,
      Sys_setsockopt lfd SOL_SOCKET SO_REUSEPORT 0, Sys_bind lfd addr 16 r, Sys_listen lfd r']"
    "server_up True s ac c l lfd ts w1" "ts_connections ts = []" "pool_inv (ts_threadpool ts)" "pool_loops (ts_threadpool ts) = [l]"
    "ts_connection_callback ts = Some Handle_connect" "ts_message_callback ts = Some Handle_message" "rx_inv w1"
    "rx_loops w1 l = Some el" "el_tid el = t" "pool_at (ts_threadpool ts) = 0" "ts_write_complete_callback ts = None"
    "el_pending_functors el = []" "\<not> el_looping el" "\<not> el_quit el" "0 < ep_events_size (el_poller el)"
    "nx_conns w1 a = None" "rx_channels w1 cc = None" "ep_channels (el_poller el) fd = None"
    using accept(2,3) by (elim exE conjE) auto
  let ?el = "el\<lparr>el_looping := True, el_quit := False\<rparr>"
  let ?w2 = "put_loop l ?el w1"
  have "rx_inv ?w2" by (rule rx_inv_marks [OF w1(9,10)]) simp_all
  then have L: "listening s ac c l lfd t fd a cc ?w2"
    unfolding listening_def using w1 by (intro exI [of _ ts] exI [of _ ?el]) (auto simp: server_up_def)
  have fd: "0 \<le> fd" using kernel_okD(3) [OF kernel(1)] accept(1) by blast
  have tr: "wire fd (nx_trace ?w2) = wire fd (nx_trace w)" "received fd (nx_trace ?w2) = received fd (nx_trace w)"
    using w1(2) by (simp_all add: put_loop_def)
  from accept_iteration [OF L accept(6) [symmetric] accept(1) fd, of p ?runf ?destroy, unfolded tr] obtain w3 where
    w3: "EventLoop_iteration conn_alive ?run ?runf ?destroy l (Some [(c, EPOLLIN)]) ?w2 = Inr w3"
    "serving l a cc t fd (wire fd (nx_trace w)) (received fd (nx_trace w)) 8 w3" by blast
  from serve_loop [OF kernel w3(2) reports, of "\<lambda>_. (a, cc)" p ?runf ?destroy] obtain w' where
    w': "EventLoop_loop_body conn_alive ?run ?runf ?destroy l rs w3 = Inr w'"
    "serving l a cc t fd (wire fd (nx_trace w)) (received fd (nx_trace w)) (8 + 2 * length rs * kExtraBuf) w'" by blast
  have "main_program k pton junk num loop_of t wfd epfd l wc s ac c (\<lambda>_. (a, cc)) p (Some [(c, EPOLLIN)] # rs) w = Inr w'"
    using w1(1,10,11,15) w3(1) w'(1)
    by (simp add: main_program_def EventLoop_loop_def EventLoop_is_in_loop_thread_def
        EventLoop_loop_body.simps [of _ _ _ _ _ "_ # _"])
  with echo_inv_state w'(2) show ?thesis unfolding serving_def wired_def by blast
qed

theorem EchoServer_program_witness:
  "\<exists>(w' :: echo_cb server_net) tc. main_program chatty_kernel (\<lambda>_ _. None) [] 0 (\<lambda>_. 0) 7 5 6 0 1 20 21 22 (\<lambda>_. (2, 3)) 30
       [Some [(22, EPOLLIN)], Some [(3, EPOLLIN)], None, Some [(3, EPOLLIN OR EPOLLOUT)]] empty_server_net = Inr w' \<and>
     nx_conns w' 2 = Some tc \<and> wire 9 (nx_trace w') @ nb_contents (tc_output_buffer tc) = received 9 (nx_trace w')"
proof -
  let ?rs = "[Some [(3, EPOLLIN)], None, Some [(3, EPOLLIN OR EPOLLOUT)]] :: (addr \<times> events) list option list"
  have e: "rx_inv (empty_server_net :: echo_cb server_net)" by (simp add: rx_inv_def empty_server_net_def)
  have io: "io_only EPOLLIN" "io_only (EPOLLIN OR EPOLLOUT)" by code_simp+
  then have "list_all (report_ok 3) ?rs" "8 + 2 * length ?rs * kExtraBuf \<le> vector_max_size"
    by (simp_all add: report_ok_def kExtraBuf_def vector_max_size_def)
  from EchoServer_program [OF chatty_kernel_ok(1-3) e, of 0 1 22 7 5 6 3 0 9 InetAddress_default 2 3, OF _ _ _ _ _ _ _ _ _ _ _ _ _ _ _ _ _ _ _ _ _ this,
      of "\<lambda>_ _. None" "[]" "\<lambda>_. 0" 20 21 30] chatty_kernel_ok(4-7)
  show ?thesis by (auto simp: empty_server_net_def)
qed

end
