(* ===== verification/Net_Frames.thy ===== *)
theory Net_Frames
  imports Echo_Program
begin

unbundle bit_operations_syntax

text \<open>
  What the handlers of one connection leave alone: the other connections and their channels,
  the servers and the acceptors, and the system calls on other descriptors.  With it come the
  views of the sequence of system calls that the properties of a whole run speak of: which
  descriptors are open, and what belongs to the current life of a descriptor that the kernel
  hands out again.
\<close>

section \<open>Views of the system calls\<close>

text \<open>The descriptors that \<open>socket\<close> and \<open>accept4\<close> returned and that were not closed.\<close>

fun fd_change :: "sys_call \<Rightarrow> int set \<Rightarrow> int set" where
  "fd_change (Sys_socket fam fd) S = (if fd = - 1 then S else insert fd S)"
| "fd_change (Sys_accept4 lfd (Io_ok (fd, peer))) S = insert fd S"
| "fd_change (Sys_close fd) S = S - {fd}"
| "fd_change _ S = S"

definition open_fds :: "trace \<Rightarrow> int set" where
  "open_fds tr = fold fd_change tr {}"

lemma open_fds_simps [simp]: "open_fds [] = {}" "open_fds (tr @ [c]) = fd_change c (open_fds tr)"
  by (simp_all add: open_fds_def)

text \<open>The calls since the descriptor was last accepted.\<close>

fun accepts :: "int \<Rightarrow> sys_call \<Rightarrow> bool" where
  "accepts fd (Sys_accept4 lfd (Io_ok (fd', peer))) \<longleftrightarrow> fd = fd'"
| "accepts fd _ \<longleftrightarrow> False"

definition session :: "int \<Rightarrow> trace \<Rightarrow> trace" where
  "session fd tr = rev (takeWhile (\<lambda>c. \<not> accepts fd c) (rev tr))"

lemma session_snoc: "session fd (tr @ [c]) = (if accepts fd c then [] else session fd tr @ [c])"
  by (simp add: session_def)

lemma session_append: "\<forall>c \<in> set tr'. \<not> accepts fd c \<Longrightarrow> session fd (tr @ tr') = session fd tr @ tr'"
  by (induction tr' rule: rev_induct) (simp_all add: session_snoc flip: append_assoc)

text \<open>Writes on the descriptor that failed, if any, would have blocked.\<close>

fun soft_write :: "int \<Rightarrow> sys_call \<Rightarrow> bool" where
  "soft_write fd (Sys_write fd' bs (Io_error e)) \<longleftrightarrow> (fd' = fd \<longrightarrow> e = EWOULDBLOCK)"
| "soft_write fd _ \<longleftrightarrow> True"

definition writes_ok :: "int \<Rightarrow> trace \<Rightarrow> bool" where
  "writes_ok fd tr \<longleftrightarrow> list_all (soft_write fd) tr"

lemma writes_ok_simps [simp]: "writes_ok fd []" "writes_ok fd (tr @ tr') \<longleftrightarrow> writes_ok fd tr \<and> writes_ok fd tr'"
  "writes_ok fd (c # tr) \<longleftrightarrow> soft_write fd c \<and> writes_ok fd tr"
  by (simp_all add: writes_ok_def)

text \<open>The echo of one session: what was sent, followed by what waits in the output buffer, is
  what was received.\<close>

definition echoed :: "int \<Rightarrow> trace \<Rightarrow> byte list \<Rightarrow> bool" where
  "echoed fd tr out \<longleftrightarrow> (writes_ok fd (session fd tr) \<longrightarrow>
     wire fd (session fd tr) @ out = received fd (session fd tr))"

lemma echoed_accept: "accepts fd c \<Longrightarrow> echoed fd (tr @ [c]) []"
  by (simp add: echoed_def session_snoc)

lemma echoed_step:
  assumes "echoed fd tr out" and "\<forall>c \<in> set tr'. \<not> accepts fd c"
    and "writes_ok fd tr' \<Longrightarrow> out @ received fd tr' = wire fd tr' @ out'"
  shows "echoed fd (tr @ tr') out'"
  unfolding echoed_def session_append [OF assms(2)] writes_ok_simps wire_simps received_simps
proof
  assume ok: "writes_ok fd (session fd tr) \<and> writes_ok fd tr'"
  have "received fd (session fd tr) @ received fd tr' = wire fd (session fd tr) @ out @ received fd tr'"
    using assms(1) ok by (simp add: echoed_def)
  also have "\<dots> = wire fd (session fd tr) @ wire fd tr' @ out'" using assms(3) ok by simp
  finally show "(wire fd (session fd tr) @ wire fd tr') @ out' = received fd (session fd tr) @ received fd tr'" by simp
qed

section \<open>Steps on one connection\<close>

text \<open>Calls on a connected socket.\<close>

fun io_call :: "int \<Rightarrow> sys_call \<Rightarrow> bool" where
  "io_call fd (Sys_write fd' bs r) \<longleftrightarrow> fd' = fd"
| "io_call fd (Sys_readv fd' r) \<longleftrightarrow> fd' = fd"
| "io_call fd (Sys_getsockopt fd') \<longleftrightarrow> fd' = fd"
| "io_call fd (Sys_shutdown fd') \<longleftrightarrow> fd' = fd"
| "io_call fd _ \<longleftrightarrow> False"

lemma io_call_frame:
  "io_call fd c \<Longrightarrow> fd_change c S = S" "io_call fd c \<Longrightarrow> \<not> accepts fd' c"
  "io_call fd c \<Longrightarrow> fd' \<noteq> fd \<Longrightarrow> call_bytes fd' c = []" "io_call fd c \<Longrightarrow> fd' \<noteq> fd \<Longrightarrow> call_input fd' c = []"
  "io_call fd c \<Longrightarrow> fd' \<noteq> fd \<Longrightarrow> soft_write fd' c"
proof -
  assume c: "io_call fd c"
  show "fd_change c S = S" "\<not> accepts fd' c" using c by (cases c; simp)+
  assume "fd' \<noteq> fd"
  with c show "call_bytes fd' c = []" by (induction fd' c rule: call_bytes.induct) auto
  from c \<open>fd' \<noteq> fd\<close> show "call_input fd' c = []" by (induction fd' c rule: call_input.induct) auto
  from c \<open>fd' \<noteq> fd\<close> show "soft_write fd' c" by (induction fd' c rule: soft_write.induct) auto
qed

lemma io_calls_open: "list_all (io_call fd) tr' \<Longrightarrow> open_fds (tr @ tr') = open_fds tr"
proof (induction tr' rule: rev_induct)
  case (snoc c xs)
  have "open_fds ((tr @ xs) @ [c]) = fd_change c (open_fds (tr @ xs))" by (rule open_fds_simps)
  with snoc io_call_frame(1) [of fd c] show ?case by simp
qed simp

lemma io_calls_other:
  assumes "list_all (io_call fd) tr" and "fd' \<noteq> fd"
  shows "wire fd' tr = []" "received fd' tr = []" "writes_ok fd' tr"
  using assms by (induction tr) (auto intro: io_call_frame(3-5))

lemma io_calls_accepts: "list_all (io_call fd) tr \<Longrightarrow> c \<in> set tr \<Longrightarrow> \<not> accepts fd' c"
  by (auto simp: list_all_iff dest: io_call_frame(2))

text \<open>What is not the connection \<open>a\<close> and its channel \<open>cc\<close>.\<close>

definition others where
  "others a cc (w :: ('v, 'z) server_net_scheme) =
     ((nx_conns w)(a := None), (rx_channels w)(cc := None), nx_servers w, nx_acceptors w)"

definition local_step :: "addr \<Rightarrow> addr \<Rightarrow> int \<Rightarrow> ('v, 'z) server_net_scheme \<Rightarrow> ('v, 'z) server_net_scheme \<Rightarrow> bool" where
  "local_step a cc fd w w' \<longleftrightarrow> others a cc w' = others a cc w \<and>
     (\<exists>tr. nx_trace w' = nx_trace w @ tr \<and> list_all (io_call fd) tr)"

lemma local_step_refl [simp]: "local_step a cc fd w w"
  by (simp add: local_step_def)

lemma local_step_trans: "local_step a cc fd w w1 \<Longrightarrow> local_step a cc fd w1 w2 \<Longrightarrow> local_step a cc fd w w2"
  by (auto simp: local_step_def)

lemma local_stepI:
  "others a cc w' = others a cc w \<Longrightarrow> nx_trace w' = nx_trace w @ tr \<Longrightarrow> list_all (io_call fd) tr \<Longrightarrow> local_step a cc fd w w'"
  by (auto simp: local_step_def)

lemma others_simps [simp]:
  "others a cc (put_conn a tc w) = others a cc w" "others a cc (put_channel cc ch w) = others a cc w"
  "others a cc (put_loop l el w) = others a cc w" "others a cc (w\<lparr>nx_trace := tr\<rparr>) = others a cc w"
  "others a cc (w\<lparr>nx_memory := m\<rparr>) = others a cc w"
  by (simp_all add: others_def put_conn_def put_channel_def put_loop_def)

lemma set_events_others:
  fixes w :: "('v, 'z) server_net_scheme"
  shows "set_events t cc f w = Inr w' \<Longrightarrow> others a cc w' = others a cc w"
  by (auto simp: set_events_def upd_channel_def Channel_update_def EventLoop_update_channel_def bindE_Inr_iff)

lemma set_events_local:
  fixes w :: "('v, 'z) server_net_scheme"
  shows "set_events t cc f w = Inr w' \<Longrightarrow> local_step a cc fd w w'"
  using set_events_others [of t cc f w w' a] set_events_trace [of t cc f w w'] by (simp add: local_step_def)

lemma write_directly_local:
  fixes w :: "('v, 'z) server_net_scheme"
  assumes "TcpConnection_write_directly k t a tc data w = Inr (n, fault, w')"
  shows "others a cc w' = others a cc w \<and> nx_trace w' = nx_trace w @ [Sys_write (tc_fd tc) data (k_write k (nx_trace w) (tc_fd tc) data)]"
  using assms by (auto simp: TcpConnection_write_directly_def Let_def bindE_Inr_iff queue_write_complete_def upd_loop_def
      split: io_result.splits if_splits option.splits)

lemma buffer_rest_local:
  fixes w :: "('v, 'z) server_net_scheme"
  assumes "TcpConnection_buffer_rest t a tc ch data n fault w = Inr w'"
  shows "others a (tc_channel tc) w' = others a (tc_channel tc) w \<and> nx_trace w' = nx_trace w"
  using assms by (auto simp: TcpConnection_buffer_rest_def upd_conn_def Channel_enable_writing_def bindE_Inr_iff
      dest: set_events_others [where a = a] set_events_trace split: if_splits)

text \<open>The one system call that sending makes, if it makes one.\<close>

lemma send_in_loop_local:
  fixes w :: "('v, 'z) server_net_scheme"
  assumes run: "TcpConnection_send_in_loop k t a p len w = Inr w'" and base: "conn_base a tc ch el w" and live: "conn_live tc ch"
    and mem: "read_memory p len w = Inr data"
  shows "others a (tc_channel tc) w' = others a (tc_channel tc) w \<and> nx_trace w' = nx_trace w @
    (if nb_contents (tc_output_buffer tc) = [] then [Sys_write (tc_fd tc) data (k_write k (nx_trace w) (tc_fd tc) data)] else [])"
proof -
  note D = conn_baseD [OF base]
  have st: "kDisconnected \<noteq> tc_state tc" using live by (auto simp: conn_live_def)
  have test: "(\<not> Channel_is_writing ch \<and> Buffer_readable_bytes (tc_output_buffer tc) = 0) = (nb_contents (tc_output_buffer tc) = [])"
    using live readable_zero [OF D(9)] by (auto simp: conn_live_def)
  obtain n fault w1 where w1: "(if nb_contents (tc_output_buffer tc) = [] then TcpConnection_write_directly k t a tc data w
      else Inr (0, False, w)) = Inr (n, fault, w1)" "TcpConnection_buffer_rest t a tc ch data n fault w1 = Inr w'"
    using run D(2,3) st mem by (auto simp: TcpConnection_send_in_loop_def bindE_Inr_iff test)
  from w1 buffer_rest_local [OF w1(2)] show ?thesis
    by (auto dest: write_directly_local split: if_splits)
qed

lemma handle_error_local:
  fixes w :: "('v, 'z) server_net_scheme"
  assumes "nx_conns w a = Some tc" and "tc_fd tc = fd"
  shows "\<exists>w'. TcpConnection_handle_error a w = Inr w' \<and> local_step a cc fd w w' \<and> w' = w\<lparr>nx_trace := nx_trace w @ [Sys_getsockopt fd]\<rparr>"
  using assms by (auto simp: TcpConnection_handle_error_def intro!: local_stepI)

lemma handle_write_local:
  fixes w :: "('v, 'z) server_net_scheme"
  assumes "TcpConnection_handle_write k t a w = Inr w'" and "nx_conns w a = Some tc" and "tc_state tc = kConnected"
    and "tc_write_complete_callback tc = None" and "tc_channel tc = cc" and "tc_fd tc = fd"
  shows "local_step a cc fd w w'"
proof -
  let ?d = "nb_contents (tc_output_buffer tc)"
  let ?w1 = "\<lambda>b. put_conn a (tc\<lparr>tc_output_buffer := b\<rparr>) (w\<lparr>nx_trace := nx_trace w @ [Sys_write fd ?d (k_write k (nx_trace w) fd ?d)]\<rparr>)"
  have one: "local_step a cc fd w (?w1 b)" for b by (rule local_stepI) (simp, simp, simp)
  from assms consider "w' = w" | b where "w' = ?w1 b" | b where "set_events t cc (\<lambda>e. e AND NOT kWriteEvent) (?w1 b) = Inr w'"
    by (auto simp: TcpConnection_handle_write_def Let_def bindE_Inr_iff queue_write_complete_def Channel_disable_writing_def
        split: if_splits)
  then show ?thesis
    using one by cases (auto intro: local_step_trans dest: set_events_local)
qed

end
