(* ===== verification/Echo_Conn.thy ===== *)
theory Echo_Conn
  imports Net_Frames
begin

unbundle bit_operations_syntax

text \<open>
  One connection of the echo server through every event: data, the end of the stream, read and
  write errors, a hang-up.  The invariant of the connection speaks of its current session, so
  that it survives the reuse of a descriptor, and of nothing that belongs to another
  connection.
\<close>

section \<open>The invariant of a connection\<close>

definition echo_cbs :: "addr \<Rightarrow> echo_cb server_cb tcp_connection \<Rightarrow> bool" where
  "echo_cbs s tc \<longleftrightarrow> tc_connection_callback tc = Some (User Handle_connect) \<and>
     tc_message_callback tc = Some (User Handle_message) \<and> tc_write_complete_callback tc = None \<and>
     tc_close_callback tc = Some (Remove_connection s)"

definition conn_channel :: "addr \<Rightarrow> chan_cb channel \<Rightarrow> bool" where
  "conn_channel a ch \<longleftrightarrow> ch_tied ch \<and> ch_tie ch = Some a \<and> ch_read_callback ch = Some (Conn_read a) \<and>
     ch_write_callback ch = Some (Conn_write a) \<and> ch_close_callback ch = Some (Conn_close a) \<and>
     ch_error_callback ch = Some (Conn_error a)"

text \<open>\<open>n\<close> bounds the number of reads so far, and with it the size of the output buffer.\<close>

definition echo_state :: "addr \<Rightarrow> nat \<Rightarrow> addr \<Rightarrow> echo_cb server_cb tcp_connection \<Rightarrow> chan_cb channel \<Rightarrow> trace \<Rightarrow> bool" where
  "echo_state s n a tc ch tr \<longleftrightarrow> conn_live tc ch \<and> Channel_is_reading ch \<and> tc_state tc = kConnected \<and> tc_socket tc = tc_fd tc \<and>
     echo_cbs s tc \<and> conn_channel a ch \<and> drained (tc_input_buffer tc) \<and>
     unat (nb_writer (tc_output_buffer tc)) \<le> 8 + n * kExtraBuf \<and>
     echoed (tc_fd tc) tr (nb_contents (tc_output_buffer tc))"

lemma echo_stateD:
  assumes "echo_state s n a tc ch tr"
  shows "conn_live tc ch" "tc_state tc = kConnected" "tc_socket tc = tc_fd tc" "echo_cbs s tc" "conn_channel a ch"
    "drained (tc_input_buffer tc)" "unat (nb_writer (tc_output_buffer tc)) \<le> 8 + n * kExtraBuf"
    "echoed (tc_fd tc) tr (nb_contents (tc_output_buffer tc))" "Channel_is_reading ch"
  using assms by (simp_all add: echo_state_def)

definition echo_conn :: "addr \<Rightarrow> addr \<Rightarrow> int \<Rightarrow> nat \<Rightarrow> int \<Rightarrow> addr \<Rightarrow> (echo_cb server_cb, 'z) net_scheme \<Rightarrow> bool" where
  "echo_conn s l t n fd a w \<longleftrightarrow> (\<exists>tc ch el. conn_base a tc ch el w \<and> el_tid el = t \<and> tc_loop tc = l \<and> tc_fd tc = fd \<and>
     echo_state s n a tc ch (nx_trace w))"

lemma echo_connI:
  "conn_base a tc ch el w \<Longrightarrow> el_tid el = t \<Longrightarrow> tc_loop tc = l \<Longrightarrow> tc_fd tc = fd \<Longrightarrow>
   echo_state s n a tc ch (nx_trace w) \<Longrightarrow> echo_conn s l t n fd a w"
  unfolding echo_conn_def by blast

lemma echo_connE:
  assumes "echo_conn s l t n fd a w"
  obtains tc ch el where "conn_base a tc ch el w" "el_tid el = t" "tc_loop tc = l" "tc_fd tc = fd"
    "echo_state s n a tc ch (nx_trace w)"
  using assms unfolding echo_conn_def by blast

text \<open>A connection that was closed and waits for \<open>connect_destoryed\<close>.\<close>

definition dead_conn :: "addr \<Rightarrow> int \<Rightarrow> addr \<Rightarrow> ('u, 'z) net_scheme \<Rightarrow> bool" where
  "dead_conn l t a w \<longleftrightarrow> (\<exists>tc ch el. conn_base a tc ch el w \<and> el_tid el = t \<and> tc_loop tc = l \<and> tc_state tc = kDisconnected \<and>
     tc_socket tc = tc_fd tc \<and> ch_events ch = kNoneEvent \<and> ch_index ch = kDeleted)"

text \<open>One that has gone through it and waits for its destruction.\<close>

definition gone_conn :: "addr \<Rightarrow> addr \<Rightarrow> ('u, 'z) net_scheme \<Rightarrow> bool" where
  "gone_conn l a w \<longleftrightarrow> (\<exists>tc ch. nx_conns w a = Some tc \<and> tc_loop tc = l \<and> tc_state tc = kDisconnected \<and>
     tc_socket tc = tc_fd tc \<and> rx_channels w (tc_channel tc) = Some ch \<and> ch_loop ch = l \<and> ch_fd ch = tc_fd tc \<and>
     ch_index ch = kNew \<and> \<not> ch_added_to_loop ch)"

section \<open>Frames\<close>

text \<open>Calls that say nothing about a descriptor.\<close>

definition quiet :: "int \<Rightarrow> trace \<Rightarrow> bool" where
  "quiet fd tr \<longleftrightarrow> (\<forall>c \<in> set tr. \<not> accepts fd c) \<and> wire fd tr = [] \<and> received fd tr = []"

lemma quiet_Nil [simp]: "quiet fd []"
  by (simp add: quiet_def)

lemma quiet_io: "list_all (io_call fd') tr \<Longrightarrow> fd \<noteq> fd' \<Longrightarrow> quiet fd tr"
  using io_calls_other [of fd' tr fd] io_calls_accepts [of fd' tr _ fd] by (auto simp: quiet_def)

lemma echoed_quiet: "echoed fd tr out \<Longrightarrow> quiet fd tr' \<Longrightarrow> echoed fd (tr @ tr') out"
  by (rule echoed_step) (simp_all add: quiet_def)

lemma echo_state_mono:
  assumes "echo_state s n a tc ch tr" and "quiet (tc_fd tc) tr'" and "n \<le> n'" and "same_marks ch' ch"
  shows "echo_state s n' a tc ch' (tr @ tr')"
proof -
  have "8 + n * kExtraBuf \<le> 8 + n' * kExtraBuf" using assms(3) by simp
  then have "unat (nb_writer (tc_output_buffer tc)) \<le> 8 + n' * kExtraBuf" using echo_stateD(7) [OF assms(1)] by (rule le_trans [rotated])
  then show ?thesis
    using assms(1,4) echoed_quiet [OF _ assms(2)]
    by (auto simp: echo_state_def conn_live_def conn_channel_def same_marks_def Channel_is_writing_def Channel_is_reading_def)
qed

lemma conn_base_frame:
  assumes "conn_base a tc ch el w" and "rx_inv w'" and "nx_conns w' a = nx_conns w a"
    and "rx_channels w' (tc_channel tc) = Some ch'" and "same_marks ch' ch" and "rx_loops w' (tc_loop tc) = Some el'"
  shows "conn_base a tc ch' el' w'"
  using assms same_marksD [OF assms(5)] by (simp add: conn_base_def)

text \<open>A change that keeps a connection, its channel up to the marks of the dispatch, and its
  loop's thread.\<close>

definition conn_kept :: "addr \<Rightarrow> addr \<Rightarrow> int \<Rightarrow> ('u, 'z) net_scheme \<Rightarrow> ('u, 'z) net_scheme \<Rightarrow> bool" where
  "conn_kept a l t w w' \<longleftrightarrow> rx_inv w' \<and> nx_conns w' a = nx_conns w a \<and> (\<exists>el. rx_loops w' l = Some el \<and> el_tid el = t) \<and>
     (\<forall>tc ch. nx_conns w a = Some tc \<longrightarrow> rx_channels w (tc_channel tc) = Some ch \<longrightarrow>
        (\<exists>ch'. rx_channels w' (tc_channel tc) = Some ch' \<and> same_marks ch' ch))"

lemma same_marks_refl [simp]: "same_marks ch ch"
  using same_marks_set(1) [where ch = ch and h = "ch_event_handling ch"] by simp

lemma conn_kept_base:
  assumes "conn_kept (a :: addr) l t w w'" and "conn_base a tc ch el w" and "tc_loop tc = l"
  obtains ch' el' where "conn_base a tc ch' el' w'" "same_marks ch' ch" "el_tid el' = t"
proof -
  note D = conn_baseD [OF assms(2)]
  from assms(1) D(2,3) obtain ch' el' where K: "rx_inv w'" "nx_conns w' a = nx_conns w a" "rx_loops w' l = Some el'"
    "el_tid el' = t" "rx_channels w' (tc_channel tc) = Some ch'" "same_marks ch' ch" unfolding conn_kept_def by blast
  show ?thesis
    by (rule that [OF conn_base_frame [OF assms(2) K(1,2,5,6)] K(6,4)]) (simp add: assms(3) K(3))
qed

lemma echo_conn_kept:
  assumes "echo_conn s l t n fd a w" and "conn_kept a l t w w'" and "nx_trace w' = nx_trace w @ tr" and "quiet fd tr" and "n \<le> n'"
  shows "echo_conn s l t n' fd a w'"
proof -
  from assms(1) obtain tc ch el where E: "conn_base a tc ch el w" "tc_loop tc = l" "tc_fd tc = fd"
    "echo_state s n a tc ch (nx_trace w)" by (rule echo_connE)
  from conn_kept_base [OF assms(2) E(1,2)] obtain ch' el' where K: "conn_base a tc ch' el' w'" "same_marks ch' ch" "el_tid el' = t" .
  show ?thesis
    by (rule echo_connI [OF K(1,3) E(2,3)]) (use echo_state_mono [OF E(4) _ assms(5) K(2)] assms(3,4) E(3) in simp)
qed

lemma dead_conn_kept:
  assumes "dead_conn l t a w" and "conn_kept a l t w w'"
  shows "dead_conn l t a w'"
proof -
  from assms(1) obtain tc ch el where E: "conn_base a tc ch el w" "tc_loop tc = l" "tc_state tc = kDisconnected"
    "tc_socket tc = tc_fd tc" "ch_events ch = kNoneEvent" "ch_index ch = kDeleted" unfolding dead_conn_def by blast
  from conn_kept_base [OF assms(2) E(1,2)] obtain ch' el' where "conn_base a tc ch' el' w'" "same_marks ch' ch" "el_tid el' = t" .
  with E same_marksD(3,4) [of ch' ch] show ?thesis unfolding dead_conn_def by metis
qed

lemma gone_conn_kept:
  assumes "gone_conn l a w" and "conn_kept a l t w w'"
  shows "gone_conn l a w'"
proof -
  from assms(1) obtain tc ch where E: "nx_conns w a = Some tc" "tc_loop tc = l" "tc_state tc = kDisconnected"
    "tc_socket tc = tc_fd tc" "rx_channels w (tc_channel tc) = Some ch" "ch_loop ch = l" "ch_fd ch = tc_fd tc"
    "ch_index ch = kNew" "\<not> ch_added_to_loop ch" unfolding gone_conn_def by blast
  from assms(2) E(1,5) obtain ch' where C: "nx_conns w' a = Some tc" "rx_channels w' (tc_channel tc) = Some ch'" "same_marks ch' ch"
    unfolding conn_kept_def by auto
  moreover have "ch_added_to_loop ch' = ch_added_to_loop ch" using C(3) by (auto simp: same_marks_def)
  ultimately show ?thesis unfolding gone_conn_def using E same_marksD [OF C(3)] by auto
qed

section \<open>Reading stays switched on\<close>

text \<open>Sending switches the interest in writability on and off and leaves the one in
  readability alone, so that the channel of a connected connection stays registered.\<close>

definition keeps_reading :: "addr \<Rightarrow> ('u, 'z) net_scheme \<Rightarrow> ('u, 'z) net_scheme \<Rightarrow> bool" where
  "keeps_reading c w w' \<longleftrightarrow> (\<forall>ch. rx_channels w c = Some ch \<longrightarrow> Channel_is_reading ch \<longrightarrow>
     (\<exists>ch'. rx_channels w' c = Some ch' \<and> Channel_is_reading ch'))"

lemma keeps_reading_simps [simp]:
  "keeps_reading c w w" "keeps_reading c (put_conn a tc w) w' = keeps_reading c w w'"
  "keeps_reading c (w\<lparr>nx_trace := tr\<rparr>) w' = keeps_reading c w w'" "keeps_reading c (w\<lparr>nx_memory := m\<rparr>) w' = keeps_reading c w w'"
  "keeps_reading c w (put_conn a tc w') = keeps_reading c w w'" "keeps_reading c w (put_loop l el w') = keeps_reading c w w'"
  "keeps_reading c w (w'\<lparr>nx_trace := tr\<rparr>) = keeps_reading c w w'" "keeps_reading c w (w'\<lparr>nx_memory := m\<rparr>) = keeps_reading c w w'"
  by (simp_all add: keeps_reading_def)

lemma Epoller_update_channel_events: "Epoller_update_channel b c ch ep = Inr (ep', ch') \<Longrightarrow> ch_events ch' = ch_events ch"
  by (auto simp: Epoller_update_channel_def Let_def bindE_Inr_iff Channel_set_index_def split: if_splits)

lemma set_events_reading:
  fixes w :: "('u, 'z) net_scheme"
  assumes run: "set_events t c f w = Inr w'" and f: "\<forall>e. truth (f e AND kReadEvent) = truth (e AND kReadEvent)"
  shows "keeps_reading c w w'"
  unfolding keeps_reading_def
proof (intro allI impI)
  fix ch assume ch: "rx_channels w c = Some ch" "Channel_is_reading ch"
  from run ch(1) obtain el where el: "rx_loops w (ch_loop ch) = Some el"
    by (auto simp: set_events_def upd_channel_def Channel_update_def EventLoop_update_channel_def bindE_Inr_iff)
  from run set_events_unfold [OF ch(1) el, of t f] obtain ep ch' where
    "Epoller_update_channel True c (ch\<lparr>ch_events := f (ch_events ch), ch_added_to_loop := True\<rparr>) (el_poller el) = Inr (ep, ch')"
    "w' = put_loop (ch_loop ch) (el\<lparr>el_poller := ep\<rparr>) (put_channel c ch' w)" by (auto simp: bindE_Inr_iff)
  then show "\<exists>ch'. rx_channels w' c = Some ch' \<and> Channel_is_reading ch'"
    using Epoller_update_channel_events f ch(2) by (fastforce simp: Channel_is_reading_def)
qed

lemma write_interest_reading:
  fixes w :: "('u, 'z) net_scheme"
  shows "set_events t c (\<lambda>e. e OR kWriteEvent) w = Inr w' \<Longrightarrow> keeps_reading c w w'"
    "set_events t c (\<lambda>e. e AND NOT kWriteEvent) w = Inr w' \<Longrightarrow> keeps_reading c w w'"
  by (erule set_events_reading, simp add: truth_def bit.conj_disj_distrib2 or_eq_0_iff and.assoc)+

lemma buffer_rest_reading:
  fixes w :: "('u, 'z) net_scheme"
  assumes "TcpConnection_buffer_rest t a tc ch data n fault w = Inr w'"
  shows "keeps_reading (tc_channel tc) w w'"
  using assms by (auto simp: TcpConnection_buffer_rest_def upd_conn_def Channel_enable_writing_def bindE_Inr_iff
      dest!: write_interest_reading split: if_splits)

lemma send_in_loop_reading:
  fixes w :: "('u, 'z) net_scheme"
  assumes run: "TcpConnection_send_in_loop k t a p len w = Inr w'" and tc: "nx_conns w a = Some tc"
  shows "keeps_reading (tc_channel tc) w w'"
proof -
  have direct: "rx_channels w1 = rx_channels w" if "TcpConnection_write_directly k t a tc data w = Inr (m, fault, w1)" for data m fault w1
    using that by (auto simp: TcpConnection_write_directly_def Let_def bindE_Inr_iff queue_write_complete_def upd_loop_def
        split: io_result.splits if_splits option.splits)
  show ?thesis
  proof (cases "kDisconnected = tc_state tc")
    case True
    with run tc show ?thesis by (auto simp: TcpConnection_send_in_loop_def bindE_Inr_iff)
  next
    case False
    with run tc obtain ch data m fault w1 where w1: "(if \<not> Channel_is_writing ch \<and> Buffer_readable_bytes (tc_output_buffer tc) = 0
        then TcpConnection_write_directly k t a tc data w else Inr (0, False, w)) = Inr (m, fault, w1)"
      "TcpConnection_buffer_rest t a tc ch data m fault w1 = Inr w'"
      by (auto simp: TcpConnection_send_in_loop_def bindE_Inr_iff split del: if_split)
    have "rx_channels w1 = rx_channels w" using w1(1) direct by (auto split: if_splits)
    with buffer_rest_reading [OF w1(2)] show ?thesis by (simp add: keeps_reading_def)
  qed
qed

lemma send_reading:
  fixes w :: "('u, 'z) net_scheme"
  assumes "TcpConnection_send k t a p len w = Inr w'" and "nx_conns w a = Some tc"
  shows "keeps_reading (tc_channel tc) w w'"
  using assms by (auto simp: TcpConnection_send_def EventLoop_run_in_loop_def bindE_Inr_iff split: if_splits dest: send_in_loop_reading)

lemma handle_message_reading:
  fixes w :: "(echo_cb, 'z) server_net_scheme"
  assumes "EchoServer_handle_message k t p a w = Inr w'" and "nx_conns w a = Some tc"
  shows "keeps_reading (tc_channel tc) w w'"
proof -
  from assms obtain msg b w1 where w1: "TcpConnection_send k t a p (length msg)
      (put_conn a (tc\<lparr>tc_input_buffer := b\<rparr>) (w\<lparr>nx_memory := (nx_memory w)(p \<mapsto> msg)\<rparr>)) = Inr w1"
    "w' = w1\<lparr>nx_memory := (nx_memory w1)(p := None)\<rparr>" by (auto simp: EchoServer_handle_message_def bindE_Inr_iff)
  from send_reading [OF w1(1), of "tc\<lparr>tc_input_buffer := b\<rparr>"] show ?thesis by (simp add: w1(2))
qed

lemma handle_write_reading:
  fixes w :: "('u, 'z) net_scheme"
  assumes run: "TcpConnection_handle_write k t a w = Inr w'" and tc: "nx_conns w a = Some tc" "tc_write_complete_callback tc = None"
    "tc_state tc = kConnected"
  shows "keeps_reading (tc_channel tc) w w'"
  using assms by (auto simp: TcpConnection_handle_write_def Let_def bindE_Inr_iff Channel_disable_writing_def queue_write_complete_def
      dest!: write_interest_reading split: if_splits)

text \<open>A channel of the store that reads is registered.\<close>

lemma reading_added:
  assumes "conn_base a tc ch el w" and "Channel_is_reading ch"
  shows "ch_index ch = kAdded"
proof -
  note D = conn_baseD [OF assms(1)]
  have "chan_ok (tc_loop tc) (el_poller el) (tc_channel tc) ch" by (rule ep_invD(1) [OF rx_invD [OF D(1,4)] D(3)])
  moreover have "ch_events ch \<noteq> kNoneEvent" using assms(2) by (auto simp: Channel_is_reading_def kNoneEvent_def truth_def)
  ultimately show ?thesis using D(5) by (auto simp: chan_ok_def)
qed

section \<open>Answering\<close>

lemma conn_message:
  fixes w :: "(echo_cb, 'z) server_net_scheme"
  assumes k: "kernel_ok k" and base: "conn_base a tc ch el w" and live: "conn_live tc ch" and st: "tc_state tc = kConnected"
    and t: "t = el_tid el" and msg: "nb_contents (tc_input_buffer tc) \<noteq> []"
    and room: "unat (nb_writer (tc_output_buffer tc)) + length (nb_contents (tc_input_buffer tc)) \<le> vector_max_size"
  shows "\<exists>w' b c ch' el' tr. EchoServer_handle_message k t p a w = Inr w' \<and>
    conn_base a (tc\<lparr>tc_input_buffer := b, tc_output_buffer := c\<rparr>) ch' el' w' \<and>
    conn_live (tc\<lparr>tc_input_buffer := b, tc_output_buffer := c\<rparr>) ch' \<and> drained b \<and> el_tid el' = t \<and>
    unat (nb_writer c) \<le> unat (nb_writer (tc_output_buffer tc)) + length (nb_contents (tc_input_buffer tc)) \<and>
    others a (tc_channel tc) w' = others a (tc_channel tc) w \<and>
    nx_trace w' = nx_trace w @ tr \<and> list_all (io_call (tc_fd tc)) tr \<and> received (tc_fd tc) tr = [] \<and>
    (writes_ok (tc_fd tc) tr \<longrightarrow>
       wire (tc_fd tc) tr @ nb_contents c = nb_contents (tc_output_buffer tc) @ nb_contents (tc_input_buffer tc))"
proof -
  note D = conn_baseD [OF base]
  let ?msg = "nb_contents (tc_input_buffer tc)" and ?out = "nb_contents (tc_output_buffer tc)"
  obtain b where b: "Buffer_retrieve_all_as_string (tc_input_buffer tc) = Inr (?msg, b)" "drained b"
    using retrieve_all_drained [OF D(8) msg] by blast
  let ?tc = "tc\<lparr>tc_input_buffer := b\<rparr>"
  let ?w1 = "put_conn a ?tc (w\<lparr>nx_memory := (nx_memory w)(p \<mapsto> ?msg)\<rparr>)"
  have base1: "conn_base a ?tc ch el ?w1"
    by (rule conn_base_put) (use base b D in \<open>simp_all add: drained_def\<close>)
  have live1: "conn_live ?tc ch" using live by (simp add: conn_live_def)
  have mem: "read_memory p (length ?msg) ?w1 = Inr ?msg" using read_memory_ok [of ?w1 p ?msg "length ?msg"] by simp
  have room1: "unat (nb_writer (tc_output_buffer ?tc)) + length ?msg \<le> vector_max_size" using room by simp
  from send_in_loop_ok [OF k base1 live1 t mem room1] obtain w2 tc2 ch2 el2 where w2:
    "TcpConnection_send_in_loop k t a p (length ?msg) ?w1 = Inr w2" "conn_base a tc2 ch2 el2 w2"
    "conn_live tc2 ch2" "same_conn a ?tc el ?w1 tc2 el2 w2"
    "unat (nb_writer (tc_output_buffer tc2)) \<le> unat (nb_writer (tc_output_buffer tc)) + length ?msg"
    and sent: "wire (tc_fd tc) (nx_trace w2) @ nb_contents (tc_output_buffer tc2) = wire (tc_fd tc) (nx_trace w) @ ?out @ ?msg \<or>
     ?out = [] \<and> (\<exists>e. k_write k (nx_trace w) (tc_fd tc) ?msg = Io_error e \<and> e \<noteq> EWOULDBLOCK)"
    by auto
  let ?tr = "if ?out = [] then [Sys_write (tc_fd tc) ?msg (k_write k (nx_trace w) (tc_fd tc) ?msg)] else []"
  have loc: "others a (tc_channel tc) w2 = others a (tc_channel tc) w" "nx_trace w2 = nx_trace w @ ?tr"
    using send_in_loop_local [OF w2(1) base1 live1 mem] by simp_all
  have send: "TcpConnection_send k t a p (length ?msg) ?w1 = Inr w2"
    using conn_baseD [OF base1] t st w2(1) by (simp add: TcpConnection_send_def EventLoop_is_in_loop_thread_def)
  let ?w' = "w2\<lparr>nx_memory := (nx_memory w2)(p := None)\<rparr>"
  have res: "EchoServer_handle_message k t p a w = Inr ?w'"
    unfolding EchoServer_handle_message_def using D(2) b(1) send by simp
  obtain c where tc2: "tc2 = tc\<lparr>tc_input_buffer := b, tc_output_buffer := c\<rparr>"
    using w2(4) by (auto simp: same_conn_def)
  have "wire (tc_fd tc) ?tr @ nb_contents c = ?out @ ?msg" if "writes_ok (tc_fd tc) ?tr"
    using sent that loc(2) by (auto simp: tc2 split: if_splits)
  then show ?thesis
    by (intro exI [of _ ?w'] exI [of _ b] exI [of _ c] exI [of _ ch2] exI [of _ el2] exI [of _ ?tr])
      (use res w2(2,3,5) same_connD(7) [OF w2(4)] b(2) loc t in \<open>simp add: tc2\<close>)
qed

lemma read_nothing:
  assumes "drained b"
  shows "Buffer_read_fd (Io_ok []) b = Inr (0, b)" "Buffer_read_fd (Io_error e) b = Inr (- 1, b)"
proof -
  have "nb_inv b" "nb_contents b = []" using assms by (simp_all add: drained_def)
  with drained_writable [OF assms] extrabuf_copy [of b] nb_invD [of b] show "Buffer_read_fd (Io_ok []) b = Inr (0, b)" "Buffer_read_fd (Io_error e) b = Inr (- 1, b)"
    by (simp_all add: Buffer_read_fd_def Buffer_take_read_def Let_def write_range_def kExtraBuf_def)
qed

lemma conn_channel_core:
  assumes "chan_core ch' = chan_core ch"
  shows "conn_channel a ch' = conn_channel a ch"
proof -
  have "ch_close_callback (chan_core ch') = ch_close_callback (chan_core ch)"
    "ch_error_callback (chan_core ch') = ch_error_callback (chan_core ch)" by (simp_all only: assms)
  then have "ch_close_callback ch' = ch_close_callback ch" "ch_error_callback ch' = ch_error_callback ch"
    by (simp_all add: chan_core_def)
  with chan_coreD [OF assms] show ?thesis by (simp add: conn_channel_def)
qed

section \<open>Events of a connection\<close>

text \<open>What an event that is not the end of the connection does.\<close>

definition served :: "addr \<Rightarrow> addr \<Rightarrow> int \<Rightarrow> nat \<Rightarrow> int \<Rightarrow> addr \<Rightarrow> addr \<Rightarrow>
    (echo_cb, 'z) server_net_scheme \<Rightarrow> (echo_cb, 'z) server_net_scheme \<Rightarrow> bool" where
  "served s l t n fd a cc w w' \<longleftrightarrow> echo_conn s l t n fd a w' \<and> local_step a cc fd w w' \<and> net_core w' = net_core w"

lemma conn_write:
  fixes w :: "(echo_cb, 'z) server_net_scheme"
  assumes k: "kernel_ok k" and E: "conn_base a tc ch el w" "el_tid el = t" "tc_loop tc = l" "tc_fd tc = fd"
    "echo_state s n a tc ch (nx_trace w)"
  shows "\<exists>w'. TcpConnection_handle_write k t a w = Inr w' \<and> served s l t n fd a (tc_channel tc) w w'"
proof -
  note S = echo_stateD [OF E(5)]
  from handle_write_ok [OF k E(1) S(1) E(2) [symmetric]] obtain w' tc' ch' el' tr where w':
    "TcpConnection_handle_write k t a w = Inr w'" "conn_base a tc' ch' el' w'" "conn_live tc' ch'"
    "same_conn a tc el w tc' el' w'" "unat (nb_writer (tc_output_buffer tc')) \<le> unat (nb_writer (tc_output_buffer tc))"
    "wire fd (nx_trace w') @ nb_contents (tc_output_buffer tc') = wire fd (nx_trace w) @ nb_contents (tc_output_buffer tc)"
    "nx_trace w' = nx_trace w @ tr" using E(4) by (elim exE conjE) (rule that; simp)
  obtain b where tc': "tc' = tc\<lparr>tc_output_buffer := b\<rparr>" using w'(4) by (auto simp: same_conn_def)
  note D = conn_baseD [OF E(1)] and D' = conn_baseD [OF w'(2)]
  have wc: "tc_write_complete_callback tc = None" using S(4) by (simp add: echo_cbs_def)
  have loc: "local_step a (tc_channel tc) fd w w'" by (rule handle_write_local [OF w'(1) D(2) S(2) wc refl E(4)])
  have core: "net_core w' = net_core w" by (rule handle_write_core [OF w'(1) D(2) wc])
  have "received fd tr = []" using handle_write_received [OF w'(1), of fd] w'(7) by simp
  then have "echoed fd (nx_trace w @ tr) (nb_contents b)"
    by (intro echoed_step [OF S(8) [unfolded E(4)]])
      (use loc w'(6,7) io_calls_accepts in \<open>auto simp: local_step_def tc'\<close>)
  moreover obtain ch2 where "rx_channels w' (tc_channel tc) = Some ch2" "chan_core ch2 = chan_core ch"
    using core_channel [OF core D(3)] by blast
  then have "conn_channel a ch'" using conn_channel_core [of ch2 ch a] S(5) D'(3) by (simp add: tc')
  moreover have "Channel_is_reading ch'"
    using handle_write_reading [OF w'(1) D(2) wc S(2)] D(3) D'(3) S(9) by (simp add: keeps_reading_def tc')
  ultimately have "echo_state s n a tc' ch' (nx_trace w')"
    using w'(3,5,7) S E(4) by (simp add: echo_state_def tc' echo_cbs_def)
  then have "echo_conn s l t n fd a w'"
    by (intro echo_connI [OF w'(2)]) (use same_connD(7) [OF w'(4)] E(2-4) in \<open>simp_all add: tc'\<close>)
  with w'(1) loc core show ?thesis by (auto simp: served_def)
qed

text \<open>A kernel that delivers less than the size of \<open>extrabuf\<close> at a time; the end of the
  stream and errors may come at any time.\<close>

definition small_reads :: "kernel \<Rightarrow> bool" where
  "small_reads k \<longleftrightarrow> (\<forall>tr fd cap bs. k_readv k tr fd cap = Io_ok bs \<longrightarrow> length bs < kExtraBuf)"

lemma conn_read_data:
  fixes w :: "(echo_cb, 'z) server_net_scheme"
  assumes k: "kernel_ok k" and E: "conn_base a tc ch el w" "el_tid el = t" "tc_loop tc = l" "tc_fd tc = fd"
    "echo_state s n a tc ch (nx_trace w)" and max: "8 + Suc n * kExtraBuf \<le> vector_max_size"
    and r: "k_readv k (nx_trace w) fd (unat (Buffer_writable_bytes (tc_input_buffer tc)) + kExtraBuf) = Io_ok bs"
      "bs \<noteq> []" "length bs < kExtraBuf"
  shows "\<exists>w'. TcpConnection_handle_read k (run_user (EchoServer_callbacks k t p) t) t a w = Inr w' \<and>
    served s l t (Suc n) fd a (tc_channel tc) w w'"
proof -
  note S = echo_stateD [OF E(5)] and D = conn_baseD [OF E(1)]
  have dr: "nb_inv (tc_input_buffer tc)" "nb_contents (tc_input_buffer tc) = []" "nb_writer (tc_input_buffer tc) = 8"
    using S(6) by (simp_all add: drained_def)
  have "unat (nb_writer (tc_input_buffer tc)) + length bs \<le> vector_max_size"
    using r(3) by (simp add: dr(3) kExtraBuf_def vector_max_size_def)
  from read_fd_ok [OF dr(1) drained_writable [OF S(6)] this] r(3) dr(2) obtain b where
    b: "Buffer_read_fd (Io_ok bs) (tc_input_buffer tc) = Inr (int (length bs), b)" "nb_inv b" "nb_contents b = bs" by auto
  let ?tc = "tc\<lparr>tc_input_buffer := b\<rparr>" and ?read = "Sys_readv fd (Io_ok bs)"
  let ?w1 = "put_conn a ?tc (w\<lparr>nx_trace := nx_trace w @ [?read]\<rparr>)"
  have cb: "tc_message_callback tc = Some (User Handle_message)" "tc_write_complete_callback tc = None"
    using S(4) by (simp_all add: echo_cbs_def)
  have read: "TcpConnection_handle_read k (run_user (EchoServer_callbacks k t p) t) t a w = EchoServer_handle_message k t p a ?w1"
    using conn_base_assert_ok [OF E(1) E(2) [symmetric]] D(2) r cb b(1) E(4)
    by (simp add: TcpConnection_handle_read_def call_user_def run_user_def EchoServer_callbacks_def)
  have base: "conn_base a ?tc ch el ?w1" by (rule conn_base_put) (use E(1) b(2) D(9) in \<open>simp_all add: conn_base_def\<close>)
  have live: "conn_live ?tc ch" using S(1) by (simp add: conn_live_def)
  have "unat (nb_writer (tc_output_buffer ?tc)) + length (nb_contents (tc_input_buffer ?tc)) \<le> vector_max_size"
    using S(7) max r(3) b(3) by simp
  from conn_message [OF k base live _ E(2) [symmetric] _ this, of p] S(2) r(2) b(3) E(4) obtain w' b' c ch' el' tr where
    w': "EchoServer_handle_message k t p a ?w1 = Inr w'" "conn_base a (tc\<lparr>tc_input_buffer := b', tc_output_buffer := c\<rparr>) ch' el' w'"
    "conn_live (tc\<lparr>tc_input_buffer := b', tc_output_buffer := c\<rparr>) ch'" "drained b'" "el_tid el' = t"
    "unat (nb_writer c) \<le> unat (nb_writer (tc_output_buffer tc)) + length bs"
    "others a (tc_channel tc) w' = others a (tc_channel tc) w" "nx_trace w' = nx_trace w @ ?read # tr"
    "list_all (io_call fd) tr" "received fd tr = []"
    "writes_ok fd tr \<longrightarrow> wire fd tr @ nb_contents c = nb_contents (tc_output_buffer tc) @ bs" by auto
  let ?tc' = "tc\<lparr>tc_input_buffer := b', tc_output_buffer := c\<rparr>"
  have loc: "local_step a (tc_channel tc) fd w w'" by (rule local_stepI [OF w'(7,8)]) (simp add: w'(9))
  have "net_core w' = net_core ?w1" by (rule handle_message_core [OF w'(1), of ?tc el]) (use cb(2) E(2) D(4) in simp_all)
  also have "\<dots> = net_core w" by (subst core_put_conn [of _ _ tc]) (simp_all add: D(2))
  finally have core: "net_core w' = net_core w" .
  have "echoed fd (nx_trace w @ ?read # tr) (nb_contents c)"
    by (rule echoed_step [OF S(8) [unfolded E(4)]]) (use w'(9,10,11) io_calls_accepts in auto)
  moreover obtain ch2 where "rx_channels w' (tc_channel tc) = Some ch2" "chan_core ch2 = chan_core ch"
    using core_channel [OF core D(3)] by blast
  then have "conn_channel a ch'" using conn_channel_core [of ch2 ch a] S(5) conn_baseD(3) [OF w'(2)] by simp
  moreover have "Channel_is_reading ch'"
    using handle_message_reading [OF w'(1), of ?tc] D(3) conn_baseD(3) [OF w'(2)] S(9) by (simp add: keeps_reading_def)
  ultimately have "echo_state s (Suc n) a ?tc' ch' (nx_trace w')"
    using w'(3,4,6,8) S E(4) r(3) by (simp add: echo_state_def echo_cbs_def)
  then have "echo_conn s l t (Suc n) fd a w'" by (intro echo_connI [OF w'(2,5)]) (use E(3,4) in simp_all)
  with w'(1) read loc core show ?thesis by (auto simp: served_def)
qed

lemma served_trace:
  fixes w :: "(echo_cb, 'z) server_net_scheme"
  assumes E: "conn_base a tc ch el w" "el_tid el = t" "tc_loop tc = l" "tc_fd tc = fd" "echo_state s n a tc ch (nx_trace w)"
    and tr: "list_all (io_call fd) tr" "wire fd tr = []" "received fd tr = []" and n: "n \<le> n'"
  shows "served s l t n' fd a cc w (w\<lparr>nx_trace := nx_trace w @ tr\<rparr>)"
proof -
  have "quiet (tc_fd tc) tr" using tr io_calls_accepts [OF tr(1)] E(4) by (auto simp: quiet_def)
  from echo_state_mono [OF E(5) this n, of ch] have "echo_conn s l t n' fd a (w\<lparr>nx_trace := nx_trace w @ tr\<rparr>)"
    by (intro echo_connI [of a tc ch el]) (use E in simp_all)
  moreover have "local_step a cc fd w (w\<lparr>nx_trace := nx_trace w @ tr\<rparr>)" by (rule local_stepI [OF _ _ tr(1)]) simp_all
  ultimately show ?thesis by (simp add: served_def)
qed

lemma conn_read:
  fixes w :: "(echo_cb, 'z) server_net_scheme"
  assumes k: "kernel_ok k" "small_reads k" and E: "conn_base a tc ch el w" "el_tid el = t" "tc_loop tc = l" "tc_fd tc = fd"
    "echo_state s n a tc ch (nx_trace w)" and max: "8 + Suc n * kExtraBuf \<le> vector_max_size"
    and u: "u = run_user (EchoServer_callbacks k t p) t"
  shows "\<exists>w'. (TcpConnection_handle_read k u t a w = Inr w' \<or>
      TcpConnection_handle_read k u t a w = TcpConnection_handle_close u t a w') \<and>
    served s l t (Suc n) fd a (tc_channel tc) w w'"
proof -
  note S = echo_stateD [OF E(5)] and D = conn_baseD [OF E(1)]
  define r where "r = k_readv k (nx_trace w) fd (unat (Buffer_writable_bytes (tc_input_buffer tc)) + kExtraBuf)"
  let ?w1 = "w\<lparr>nx_trace := nx_trace w @ [Sys_readv fd r]\<rparr>"
  have same: "put_conn a tc ?w1 = ?w1" using D(2) by (simp add: put_conn_def fun_upd_idem)
  show ?thesis
  proof (cases r)
    case (Io_error e)
    then have "TcpConnection_handle_read k u t a w = TcpConnection_handle_error a ?w1"
      using conn_base_assert_ok [OF E(1) E(2) [symmetric]] D(2) E(4) read_nothing [OF S(6)] same
      by (simp add: TcpConnection_handle_read_def r_def [symmetric])
    then have "TcpConnection_handle_read k u t a w = Inr (w\<lparr>nx_trace := nx_trace w @ [Sys_readv fd r, Sys_getsockopt fd]\<rparr>)"
      using D(2) E(4) by (simp add: TcpConnection_handle_error_def)
    moreover have "served s l t (Suc n) fd a (tc_channel tc) w (w\<lparr>nx_trace := nx_trace w @ [Sys_readv fd r, Sys_getsockopt fd]\<rparr>)"
      by (rule served_trace [OF E]) (simp_all add: Io_error)
    ultimately show ?thesis by blast
  next
    case (Io_ok bs)
    show ?thesis
    proof (cases "bs = []")
      case True
      then have "TcpConnection_handle_read k u t a w = TcpConnection_handle_close u t a ?w1"
        using conn_base_assert_ok [OF E(1) E(2) [symmetric]] D(2) E(4) read_nothing [OF S(6)] same Io_ok
        by (simp add: TcpConnection_handle_read_def r_def [symmetric])
      moreover have "served s l t (Suc n) fd a (tc_channel tc) w ?w1" by (rule served_trace [OF E]) (simp_all add: Io_ok True)
      ultimately show ?thesis by blast
    next
      case False
      have "length bs < kExtraBuf" using k(2) Io_ok by (auto simp: small_reads_def r_def)
      from conn_read_data [OF k(1) E max Io_ok [unfolded r_def] False this, of p] u show ?thesis by blast
    qed
  qed
qed

section \<open>Closing\<close>

text \<open>The close handler of a connection that is served, up to the call of the server's
  \<open>remove_connection\<close>: the channel is out of the kernel's list.\<close>

lemma echo_close:
  fixes w :: "(echo_cb, 'z) server_net_scheme"
  assumes E: "conn_base a tc ch el w" "el_tid el = t" "echo_state s n a tc ch (nx_trace w)"
  shows "\<exists>ep. let ch1 = ch\<lparr>ch_events := kNoneEvent, ch_added_to_loop := True, ch_index := kDeleted\<rparr>;
      w1 = put_loop (tc_loop tc) (el\<lparr>el_poller := ep\<rparr>) (put_channel (tc_channel tc) ch1
             (put_conn a (tc\<lparr>tc_state := kDisconnected\<rparr>) w))
    in TcpConnection_handle_close (run_user (EchoServer_callbacks k t p) t) t a w = TcpServer_remove_connection t s a w1 \<and> rx_inv w1 \<and>
       ep_events_size ep = ep_events_size (el_poller el)"
proof -
  note S = echo_stateD [OF E(3)] and D = conn_baseD [OF E(1)]
  let ?tc = "tc\<lparr>tc_state := kDisconnected\<rparr>"
  let ?w0 = "put_conn a ?tc w"
  have pre: "rx_inv ?w0" "rx_channels ?w0 (tc_channel tc) = Some ch" "rx_loops ?w0 (ch_loop ch) = Some el" "t = el_tid el"
    "ch_index ch = kNew \<longrightarrow> ep_channels (el_poller el) (ch_fd ch) = None" using D E(2) by simp_all
  let ?ch1 = "ch\<lparr>ch_events := kNoneEvent, ch_added_to_loop := True, ch_index := kDeleted\<rparr>"
  let ?w1 = "\<lambda>ep. put_loop (tc_loop tc) (el\<lparr>el_poller := ep\<rparr>) (put_channel (tc_channel tc) ?ch1 ?w0)"
  from set_events_ok [OF pre, of "\<lambda>_. kNoneEvent"] D(5) obtain ep where
    w1: "set_events t (tc_channel tc) (\<lambda>_. kNoneEvent) ?w0 = Inr (?w1 ep)" "rx_inv (?w1 ep)"
    "ep_events_size ep = ep_events_size (el_poller el)" using reading_added [OF E(1) S(9)] by (auto simp: Let_def)
  have cbs: "tc_connection_callback tc = Some (User Handle_connect)" "tc_close_callback tc = Some (Remove_connection s)"
    using S(4) by (simp_all add: echo_cbs_def)
  have "TcpConnection_handle_close (run_user (EchoServer_callbacks k t p) t) t a w = TcpServer_remove_connection t s a (?w1 ep)"
    using conn_base_assert_ok [OF E(1) E(2) [symmetric]] D(2) S(2) w1(1) cbs
    by (simp add: TcpConnection_handle_close_def Channel_disable_all_def TcpConnection_set_state_def call_user_def run_user_def
        EchoServer_callbacks_def EchoServer_handle_connect_def)
  with w1(2,3) show ?thesis by (intro exI [of _ ep]) (simp add: Let_def)
qed

end
