(* ===== verification/Net_Layout.thy ===== *)
theory Net_Layout
  imports Echo_Conn
begin

unbundle bit_operations_syntax

text \<open>
  The layout of the store of a running server: every channel in it is one of the fixed channels
  (the wake-up channels of the loops, the acceptor's) or a connection's, each connection has a
  channel and a descriptor of its own, and the open descriptors are the listening one and those
  of the connections.  The lemmas say how the layout survives the appearance and the destruction
  of a connection.
\<close>

section \<open>The layout\<close>

definition conn_fd :: "('u, 'z) net_scheme \<Rightarrow> addr \<Rightarrow> int" where
  "conn_fd w a = tc_fd (the (nx_conns w a))"

definition conn_chan :: "('u, 'z) net_scheme \<Rightarrow> addr \<Rightarrow> addr" where
  "conn_chan w a = tc_channel (the (nx_conns w a))"

definition chan_fd :: "('u, 'z) net_scheme \<Rightarrow> addr \<Rightarrow> int option" where
  "chan_fd w d = map_option ch_fd (rx_channels w d)"

lemma conn_fd_simp [simp]: "nx_conns w a = Some tc \<Longrightarrow> conn_fd w a = tc_fd tc"
  by (simp add: conn_fd_def)

lemma conn_chan_simp [simp]: "nx_conns w a = Some tc \<Longrightarrow> conn_chan w a = tc_channel tc"
  by (simp add: conn_chan_def)

text \<open>\<open>X\<close> gives the fixed channels with their descriptors, \<open>lfd\<close> is the listening one.\<close>

definition layout :: "(addr \<Rightarrow> int option) \<Rightarrow> int \<Rightarrow> ('u, 'z) net_scheme \<Rightarrow> bool" where
  "layout X lfd w \<longleftrightarrow> finite (dom X) \<and> lfd \<in> ran X \<and> X \<subseteq>\<^sub>m chan_fd w \<and>
     finite (dom (nx_conns w)) \<and> inj_on (conn_fd w) (dom (nx_conns w)) \<and> inj_on (conn_chan w) (dom (nx_conns w)) \<and>
     (\<forall>a \<in> dom (nx_conns w). conn_fd w a \<notin> ran X \<and> conn_chan w a \<notin> dom X \<and> chan_fd w (conn_chan w a) = Some (conn_fd w a)) \<and>
     dom (rx_channels w) \<subseteq> dom X \<union> conn_chan w ` dom (nx_conns w) \<and>
     open_fds (nx_trace w) = insert lfd (conn_fd w ` dom (nx_conns w))"

lemma layoutD:
  assumes "layout X lfd w"
  shows "finite (dom X)" "lfd \<in> ran X" "X d = Some fd \<Longrightarrow> chan_fd w d = Some fd"
    "finite (dom (nx_conns w))" "inj_on (conn_fd w) (dom (nx_conns w))" "inj_on (conn_chan w) (dom (nx_conns w))"
    "nx_conns w a = Some tc \<Longrightarrow> tc_fd tc \<notin> ran X \<and> tc_channel tc \<notin> dom X \<and> chan_fd w (tc_channel tc) = Some (tc_fd tc)"
    "dom (rx_channels w) \<subseteq> dom X \<union> conn_chan w ` dom (nx_conns w)"
    "open_fds (nx_trace w) = insert lfd (conn_fd w ` dom (nx_conns w))"
proof -
  have "chan_fd w d = Some fd" if "X d = Some fd"
    using assms that unfolding layout_def map_le_def by (auto dest!: bspec [of _ _ d])
  moreover have "tc_fd tc \<notin> ran X \<and> tc_channel tc \<notin> dom X \<and> chan_fd w (tc_channel tc) = Some (tc_fd tc)" if "nx_conns w a = Some tc"
    using assms that unfolding layout_def by (auto dest!: bspec [of _ _ a])
  ultimately show "finite (dom X)" "lfd \<in> ran X" "X d = Some fd \<Longrightarrow> chan_fd w d = Some fd"
    "finite (dom (nx_conns w))" "inj_on (conn_fd w) (dom (nx_conns w))" "inj_on (conn_chan w) (dom (nx_conns w))"
    "nx_conns w a = Some tc \<Longrightarrow> tc_fd tc \<notin> ran X \<and> tc_channel tc \<notin> dom X \<and> chan_fd w (tc_channel tc) = Some (tc_fd tc)"
    "dom (rx_channels w) \<subseteq> dom X \<union> conn_chan w ` dom (nx_conns w)"
    "open_fds (nx_trace w) = insert lfd (conn_fd w ` dom (nx_conns w))"
    using assms by (simp_all add: layout_def)
qed

lemma layout_cong:
  assumes "layout X lfd w" and "dom (nx_conns w') = dom (nx_conns w)"
    and "\<And>a. a \<in> dom (nx_conns w) \<Longrightarrow> conn_fd w' a = conn_fd w a \<and> conn_chan w' a = conn_chan w a"
    and "chan_fd w' = chan_fd w" and "open_fds (nx_trace w') = open_fds (nx_trace w)"
  shows "layout X lfd w'"
proof -
  have img: "conn_fd w' ` dom (nx_conns w) = conn_fd w ` dom (nx_conns w)" "conn_chan w' ` dom (nx_conns w) = conn_chan w ` dom (nx_conns w)"
    using assms(3) by (simp_all cong: image_cong)
  have inj: "inj_on (conn_fd w') (dom (nx_conns w)) = inj_on (conn_fd w) (dom (nx_conns w))"
    "inj_on (conn_chan w') (dom (nx_conns w)) = inj_on (conn_chan w) (dom (nx_conns w))"
    using assms(3) by (auto intro!: inj_on_cong)
  have "rx_channels w' d = None \<longleftrightarrow> rx_channels w d = None" for d
    using fun_cong [OF assms(4), of d] by (auto simp: chan_fd_def)
  then have dc: "dom (rx_channels w') = dom (rx_channels w)" by (simp add: dom_def)
  show ?thesis using assms(1,3) unfolding layout_def assms(2,4,5) img inj dc by simp
qed

text \<open>Two connections share neither descriptor nor channel.\<close>

lemma layout_distinct:
  assumes "layout X lfd w" and "nx_conns w a = Some tc" and "nx_conns w b = Some tcb" and "a \<noteq> b"
  shows "tc_fd tcb \<noteq> tc_fd tc" "tc_channel tcb \<noteq> tc_channel tc"
  using inj_onD [OF layoutD(5) [OF assms(1)], of a b] inj_onD [OF layoutD(6) [OF assms(1)], of a b] assms(2-4)
  by (auto simp: domIff)

lemma layout_cases:
  assumes "layout X lfd w" and "rx_channels w d = Some ch"
  obtains (fixed) fd where "X d = Some fd" "ch_fd ch = fd"
  | (conn) a tc where "nx_conns w a = Some tc" "d = tc_channel tc" "ch_fd ch = tc_fd tc"
proof -
  have cf: "chan_fd w d = Some (ch_fd ch)" using assms(2) by (simp add: chan_fd_def)
  from layoutD(8) [OF assms(1)] assms(2) consider fd where "X d = Some fd" | a tc where "nx_conns w a = Some tc" "d = tc_channel tc" by force
  then show ?thesis
  proof cases
    case (1 fd)
    then show ?thesis using layoutD(3) [OF assms(1) 1] cf by (intro fixed) auto
  next
    case (2 a tc)
    then show ?thesis using layoutD(7) [OF assms(1) 2(1)] cf by (intro conn) auto
  qed
qed

lemma layout_channel:
  assumes lay: "layout X lfd w" and a: "nx_conns w a = Some tc" and d: "rx_channels w d = Some ch" "ch_fd ch = tc_fd tc"
  shows "d = tc_channel tc"
  using lay d(1)
proof (cases rule: layout_cases)
  case (fixed fd)
  then show ?thesis using layoutD(7) [OF lay a] d(2) by (auto simp: ran_def)
next
  case (conn b tcb)
  then show ?thesis using layout_distinct(1) [OF lay a conn(1)] d(2) a by (cases "b = a") auto
qed

lemma layout_open: "layout X lfd w \<Longrightarrow> nx_conns w a = Some tc \<Longrightarrow> tc_fd tc \<in> open_fds (nx_trace w)"
  using layoutD(9) [of X lfd w] by force

lemma layout_finite:
  assumes "layout X lfd w"
  shows "finite (dom (nx_conns w))" "finite (dom (rx_channels w))"
  using layoutD(1,4,8) [OF assms] by (auto intro: finite_subset)

text \<open>A descriptor that is not open and not that of a fixed channel is free in every poller.\<close>

lemma layout_free:
  assumes lay: "layout X lfd w" and inv: "rx_inv w" and el: "rx_loops w l = Some el"
    and fd: "fd \<notin> open_fds (nx_trace w)" "fd \<notin> ran X"
  shows "ep_channels (el_poller el) fd = None"
proof (rule poller_free [OF inv el], intro allI impI)
  fix d ch assume "rx_channels w d = Some ch \<and> ch_loop ch = l"
  then have "rx_channels w d = Some ch" by simp
  with lay show "ch_fd ch \<noteq> fd" using fd layout_open [OF lay] by (cases rule: layout_cases) (auto simp: ran_def)
qed

text \<open>So is the descriptor of a connection whose channel is not registered.\<close>

lemma unregistered_free:
  assumes lay: "layout X lfd w" and inv: "rx_inv w" and el: "rx_loops w l = Some el"
    and tc: "nx_conns w a = Some tc" and ch: "rx_channels w (tc_channel tc) = Some ch" "ch_loop ch = l" "ch_fd ch = tc_fd tc" "ch_index ch = kNew"
  shows "ep_channels (el_poller el) (tc_fd tc) = None"
proof (rule ccontr)
  assume "ep_channels (el_poller el) (tc_fd tc) \<noteq> None"
  then obtain d where d: "ep_channels (el_poller el) (tc_fd tc) = Some d" by blast
  from ep_invD(2) [OF rx_invD [OF inv el] d] obtain chd where chd: "rx_channels w d = Some chd" "ch_fd chd = tc_fd tc" by blast
  have "d = tc_channel tc" by (rule layout_channel [OF lay tc chd])
  with d ep_invD(1) [OF rx_invD [OF inv el] ch(1)] ch(2-4) show False by (simp add: chan_ok_def)
qed

section \<open>Connections come and go\<close>

lemma layout_insert:
  assumes lay: "layout X lfd w" and new: "nx_conns w a = None" "rx_channels w cc = None" "fd \<notin> open_fds (nx_trace w)" "fd \<notin> ran X"
    and w': "nx_conns w' = (nx_conns w)(a \<mapsto> tc)" "rx_channels w' = (rx_channels w)(cc \<mapsto> ch)"
      "open_fds (nx_trace w') = insert fd (open_fds (nx_trace w))"
    and tc: "tc_channel tc = cc" "tc_fd tc = fd" "ch_fd ch = fd"
  shows "layout X lfd w'"
proof -
  let ?D = "dom (nx_conns w)"
  note S = layoutD [OF lay]
  have fd: "fd \<notin> conn_fd w ` ?D" using new(3) S(9) by auto
  have used: "rx_channels w (tc_channel tcb) \<noteq> None" if "nx_conns w b = Some tcb" for b tcb
    using S(7) [OF that] by (auto simp: chan_fd_def)
  then have cc: "cc \<notin> conn_chan w ` ?D" using new(2) by fastforce
  have ccX: "cc \<notin> dom X" using S(3) [of cc] new(2) by (fastforce simp: chan_fd_def)
  have same: "conn_fd w' b = conn_fd w b" "conn_chan w' b = conn_chan w b" if "b \<in> ?D" for b
    using that new(1) by (auto simp: conn_fd_def conn_chan_def w')
  have own: "conn_fd w' a = fd" "conn_chan w' a = cc" using w'(1) tc by simp_all
  have D': "dom (nx_conns w') = insert a ?D" by (simp add: w'(1))
  have img: "conn_fd w' ` ?D = conn_fd w ` ?D" "conn_chan w' ` ?D = conn_chan w ` ?D" using same by (simp_all cong: image_cong)
  have a: "a \<notin> ?D" using new(1) by blast
  have cf: "chan_fd w' = (chan_fd w)(cc \<mapsto> fd)" by (simp add: chan_fd_def fun_eq_iff w'(2) tc(3))
  have inj: "inj_on (conn_fd w') (insert a ?D)" "inj_on (conn_chan w') (insert a ?D)"
    using S(5,6) fd(1) cc a own same by (simp_all add: img cong: inj_on_cong)
  have ne: "conn_chan w b \<noteq> cc" if "b \<in> ?D" for b using that cc by blast
  have "\<forall>b \<in> insert a ?D. conn_fd w' b \<notin> ran X \<and> conn_chan w' b \<notin> dom X \<and> chan_fd w' (conn_chan w' b) = Some (conn_fd w' b)"
    using lay new(4) ccX own same ne unfolding layout_def cf by auto
  moreover have "X \<subseteq>\<^sub>m chan_fd w'" using lay ccX unfolding layout_def cf by (auto simp: map_le_def)
  ultimately show ?thesis
    using S(1,2,4,8,9) inj own img unfolding layout_def D' w'(3) w'(2) by auto
qed

lemma layout_remove:
  assumes lay: "layout X lfd w" and a: "nx_conns w a = Some tc"
    and w': "nx_conns w' = (nx_conns w)(a := None)" "rx_channels w' = (rx_channels w)(tc_channel tc := None)"
      "open_fds (nx_trace w') = open_fds (nx_trace w) - {tc_fd tc}"
  shows "layout X lfd w'"
proof -
  note S = layoutD [OF lay]
  let ?D = "dom (nx_conns w)"
  have same: "conn_fd w' b = conn_fd w b" "conn_chan w' b = conn_chan w b" if "b \<in> ?D - {a}" for b
    using that by (simp_all add: conn_fd_def conn_chan_def w')
  have "conn_fd w' ` (?D - {a}) = conn_fd w ` (?D - {a})" "conn_chan w' ` (?D - {a}) = conn_chan w ` (?D - {a})"
    using same by (auto intro!: image_cong simp del: Diff_iff)
  then have img: "conn_fd w' ` (?D - {a}) = conn_fd w ` ?D - {tc_fd tc}" "conn_chan w' ` (?D - {a}) = conn_chan w ` ?D - {tc_channel tc}"
    using inj_on_image_set_diff [OF S(5), of ?D "{a}"] inj_on_image_set_diff [OF S(6), of ?D "{a}"] a
    by (simp_all add: domI)
  have inj: "inj_on (conn_fd w') (?D - {a})" "inj_on (conn_chan w') (?D - {a})"
    using S(5,6) same by (auto simp: inj_on_def)
  have D': "dom (nx_conns w') = ?D - {a}" by (auto simp: w'(1))
  have ne: "conn_chan w b \<noteq> tc_channel tc" if "b \<in> ?D - {a}" for b
    using that layout_distinct(2) [OF lay a, of b] by auto
  have cf: "chan_fd w' = (chan_fd w)(tc_channel tc := None)" by (simp add: chan_fd_def fun_eq_iff w'(2))
  have out: "tc_channel tc \<notin> dom X" "lfd \<noteq> tc_fd tc" using S(7) [OF a] S(2) by auto
  have "\<forall>b \<in> ?D - {a}. conn_fd w' b \<notin> ran X \<and> conn_chan w' b \<notin> dom X \<and> chan_fd w' (conn_chan w' b) = Some (conn_fd w' b)"
    using lay same ne unfolding layout_def cf by auto
  moreover have "dom (rx_channels w') \<subseteq> dom X \<union> conn_chan w' ` (?D - {a})"
    using S(8) unfolding img w'(2) by auto
  moreover have "X \<subseteq>\<^sub>m chan_fd w'" using lay out(1) unfolding layout_def cf by (auto simp: map_le_def)
  ultimately show ?thesis
    using S(1,2,4,9) out inj unfolding layout_def D' w'(3) img by auto
qed

section \<open>Views that a handler leaves alone\<close>

lemma map_option_rel: "map_option f x = map_option f y \<Longrightarrow> rel_option (\<lambda>u v. f u = f v) x y"
  by (cases x; cases y) auto

lemma core_rel:
  fixes w w' :: "('u, 'z) net_scheme"
  assumes "net_core w' = net_core w"
  shows "rel_option (\<lambda>tc' tc. conn_core tc' = conn_core tc) (nx_conns w' a) (nx_conns w a)"
    "rel_option (\<lambda>ch' ch. chan_core ch' = chan_core ch) (rx_channels w' d) (rx_channels w d)"
  using assms by (auto simp: net_core_def fun_eq_iff intro: map_option_rel)

lemma core_layout:
  fixes w w' :: "('u, 'z) net_scheme"
  assumes core: "net_core w' = net_core w" and "layout X lfd w" and "open_fds (nx_trace w') = open_fds (nx_trace w)"
  shows "layout X lfd w'"
proof -
  have "chan_fd w' d = chan_fd w d" for d
    using core_rel(2) [OF core, of d] by (cases rule: option.rel_cases) (auto simp: chan_fd_def dest: chan_coreD)
  moreover have "conn_fd w' a = conn_fd w a \<and> conn_chan w' a = conn_chan w a" if "a \<in> dom (nx_conns w)" for a
    using core_rel(1) [OF core, of a] that by (cases rule: option.rel_cases) (auto dest: conn_coreD)
  moreover have "nx_conns w' a = None \<longleftrightarrow> nx_conns w a = None" for a
    using core_rel(1) [OF core, of a] by (cases rule: option.rel_cases) auto
  then have "dom (nx_conns w') = dom (nx_conns w)" by (simp add: dom_def)
  ultimately show ?thesis by (intro layout_cong [OF assms(2) _ _ _ assms(3)]) (simp_all add: fun_eq_iff)
qed

text \<open>Which channel is being handled.\<close>

definition marks :: "addr option \<Rightarrow> ('u, 'z) net_scheme \<Rightarrow> bool" where
  "marks cur w \<longleftrightarrow> (\<forall>d ch. rx_channels w d = Some ch \<longrightarrow> ch_event_handling ch = (cur = Some d))"

lemma core_marks:
  fixes w w' :: "('u, 'z) net_scheme"
  assumes core: "net_core w' = net_core w" and "marks cur w"
  shows "marks cur w'"
  unfolding marks_def
proof (intro allI impI)
  fix d ch' assume "rx_channels w' d = Some ch'"
  with core_rel(2) [OF core, of d] obtain ch where "rx_channels w d = Some ch" "chan_core ch' = chan_core ch"
    by (auto elim: option.rel_cases)
  with assms(2) chan_coreD(8) [of ch' ch] show "ch_event_handling ch' = (cur = Some d)" by (auto simp: marks_def)
qed

lemma othersD:
  assumes "others a cc w' = others a cc w"
  shows "b \<noteq> a \<Longrightarrow> nx_conns w' b = nx_conns w b" "d \<noteq> cc \<Longrightarrow> rx_channels w' d = rx_channels w d"
    "nx_servers w' = nx_servers w" "nx_acceptors w' = nx_acceptors w"
  using assms by (auto simp: others_def fun_eq_iff split: if_splits)

text \<open>Marks of the poller and of the dispatch.\<close>

lemma same_marks_rel: "rel_option same_marks (rx_channels w d) (rx_channels w d)"
  by (cases "rx_channels w d") simp_all

lemma ep_inv_marks:
  assumes inv: "ep_inv l st ep" and same: "\<And>d. rel_option same_marks (st' d) (st d)"
  shows "ep_inv l st' ep"
proof -
  have chan: "\<exists>ch. st d = Some ch \<and> same_marks ch' ch" if "st' d = Some ch'" for d ch'
    using same [of d] that by (auto elim: option.rel_cases)
  have bk: "\<exists>ch'. st' d = Some ch' \<and> same_marks ch' ch" if "st d = Some ch" for d ch
    using same [of d] that by (auto elim: option.rel_cases)
  have "ep_view st' ep fd = ep_view st ep fd" for fd
  proof (cases "ep_channels ep fd")
    case (Some c)
    show ?thesis
      using same [of c] Some by (cases rule: option.rel_cases) (auto simp: ep_view_def dest: same_marksD)
  qed (simp add: ep_view_def)
  then have "ep_view st' ep = ep_view st ep" by blast
  moreover have "chan_ok l ep d ch'" if "st' d = Some ch'" for d ch'
  proof -
    from chan [OF that] obtain ch where ch: "st d = Some ch" "same_marks ch' ch" by blast
    from ep_invD(1) [OF inv ch(1)] same_marksD [OF ch(2)] show ?thesis by (simp add: chan_ok_def)
  qed
  moreover have "\<exists>ch. st' d = Some ch \<and> ch_fd ch = fd \<and> ch_loop ch = l" if d: "ep_channels ep fd = Some d" for fd d
  proof -
    from ep_invD(2) [OF inv d] obtain ch where "st d = Some ch" "ch_fd ch = fd" "ch_loop ch = l" by blast
    with bk [of d ch] show ?thesis by (auto dest: same_marksD)
  qed
  ultimately show ?thesis using ep_invD(3) [OF inv] by (simp add: ep_inv_def)
qed

lemma rx_inv_remark:
  fixes w w' :: "('u, 'z) net_scheme"
  assumes inv: "rx_inv w" and el: "rx_loops w l = Some el" and w': "rx_loops w' = (rx_loops w)(l \<mapsto> el')"
    and ch: "\<And>d. rel_option same_marks (rx_channels w' d) (rx_channels w d)"
    and ep: "ep_channels (el_poller el') = ep_channels (el_poller el)" "ep_calls (el_poller el') = ep_calls (el_poller el)"
  shows "rx_inv w'"
  unfolding rx_inv_def
proof (intro allI impI)
  fix k ek assume k: "rx_loops w' k = Some ek"
  show "ep_inv k (rx_channels w') (el_poller ek)"
  proof (cases "k = l")
    case True
    have "ep_inv l (rx_channels w') (el_poller el)" by (rule ep_inv_marks [OF rx_invD [OF inv el] ch])
    with True k w' ep_inv_cong [OF ep, of l "rx_channels w'"] show ?thesis by simp
  next
    case False
    with k w' have "rx_loops w k = Some ek" by simp
    from ep_inv_marks [OF rx_invD [OF inv this] ch] show ?thesis .
  qed
qed

lemma layout_remark:
  fixes w w' :: "('u, 'z) net_scheme"
  assumes "layout X lfd w" and "nx_conns w' = nx_conns w" and "nx_trace w' = nx_trace w"
    and ch: "\<And>d. rel_option same_marks (rx_channels w' d) (rx_channels w d)"
  shows "layout X lfd w'"
proof -
  have "chan_fd w' d = chan_fd w d" for d
    using ch [of d] by (cases rule: option.rel_cases) (auto simp: chan_fd_def dest: same_marksD)
  then show ?thesis using assms(1-3) by (intro layout_cong [OF assms(1)]) (auto simp: conn_fd_def conn_chan_def)
qed

section \<open>Plain channels\<close>

text \<open>The wake-up channels and the acceptor's have a read callback only.\<close>

definition plain_chan :: "chan_cb \<Rightarrow> chan_cb channel \<Rightarrow> bool" where
  "plain_chan cb ch \<longleftrightarrow> \<not> ch_tied ch \<and> ch_read_callback ch = Some cb \<and> ch_write_callback ch = None \<and>
     ch_close_callback ch = None \<and> ch_error_callback ch = None"

definition plain_at :: "addr \<Rightarrow> addr \<Rightarrow> chan_cb \<Rightarrow> ('u, 'z) net_scheme \<Rightarrow> bool" where
  "plain_at l d cb w \<longleftrightarrow> (\<exists>ch. rx_channels w d = Some ch \<and> plain_chan cb ch \<and> ch_loop ch = l \<and> ch_index ch = kAdded)"

lemma plain_at_marks:
  assumes "plain_at l d cb w" and "rel_option same_marks (rx_channels w' d) (rx_channels w d)"
  shows "plain_at l d cb w'"
  using assms by (auto simp: plain_at_def plain_chan_def same_marks_def option_rel_Some2)

lemma plain_handle:
  fixes w :: "('u, 'z) net_scheme"
  assumes d: "rx_channels w d = Some ch" "plain_chan cb ch"
    and run: "(if truth (ch_revents ch AND (EPOLLIN OR EPOLLPRI OR EPOLLRDHUP))
       then run cb (put_channel d (ch\<lparr>ch_event_handling := True\<rparr>) w) else Inr (put_channel d (ch\<lparr>ch_event_handling := True\<rparr>) w)) = Inr w2"
    and d2: "rx_channels w2 d = Some (ch\<lparr>ch_event_handling := True\<rparr>)"
  shows "Channel_handle_event alive run (get_channel d) (upd_channel d) w = Inr (put_channel d (ch\<lparr>ch_event_handling := False\<rparr>) w2)"
  using assms by (simp add: plain_chan_def Channel_handle_event_def Channel_handle_event_with_guard_def upd_channel_def run_callback_def
      cong: if_cong split del: if_split)

end
