(* ===== verification/Run_Inv.thy ===== *)
theory Run_Inv
  imports Net_Layout
begin

unbundle bit_operations_syntax

text \<open>
  The echo server over a whole run on one loop, with any number of connections: whatever
  \<open>epoll_wait\<close> reports of the registered channels, connections are accepted, served, closed
  and destroyed.  The invariant says of every object in the store who owns it, so that the run
  neither uses a destroyed object nor keeps a dead one, and no descriptor leaks.
\<close>

section \<open>The objects of the program\<close>

text \<open>The addresses and descriptors of the loop, its wake-up channel, the server, its acceptor
  and the acceptor's channel, the thread, and whether it is in \<open>loop\<close>.\<close>

record site =
  si_loop :: addr
  si_wake :: addr
  si_server :: addr
  si_acceptor :: addr
  si_listen :: addr
  si_lfd :: int
  si_wfd :: int
  si_tid :: int
  si_running :: bool

text \<open>The layout with the two fixed channels of a single loop.\<close>

definition shape :: "site \<Rightarrow> ('u, 'z) net_scheme \<Rightarrow> bool" where
  "shape si w \<longleftrightarrow> si_lfd si \<noteq> si_wfd si \<and> si_listen si \<noteq> si_wake si \<and>
     layout [si_wake si \<mapsto> si_wfd si, si_listen si \<mapsto> si_lfd si] (si_lfd si) w"

lemma shapeD:
  assumes "shape si w"
  shows "finite (dom (nx_conns w))" "inj_on (conn_fd w) (dom (nx_conns w))" "inj_on (conn_chan w) (dom (nx_conns w))"
    "si_lfd si \<noteq> si_wfd si" "si_listen si \<noteq> si_wake si"
    "nx_conns w a = Some tc \<Longrightarrow> tc_fd tc \<noteq> si_lfd si \<and> tc_fd tc \<noteq> si_wfd si \<and>
      tc_channel tc \<noteq> si_listen si \<and> tc_channel tc \<noteq> si_wake si \<and> chan_fd w (tc_channel tc) = Some (tc_fd tc)"
    "dom (rx_channels w) \<subseteq> {si_wake si, si_listen si} \<union> conn_chan w ` dom (nx_conns w)"
    "chan_fd w (si_wake si) = Some (si_wfd si)" "chan_fd w (si_listen si) = Some (si_lfd si)"
    "open_fds (nx_trace w) = insert (si_lfd si) (conn_fd w ` dom (nx_conns w))"
proof -
  let ?X = "[si_wake si \<mapsto> si_wfd si, si_listen si \<mapsto> si_lfd si]"
  have ne: "si_lfd si \<noteq> si_wfd si" "si_listen si \<noteq> si_wake si" and lay: "layout ?X (si_lfd si) w" using assms by (simp_all add: shape_def)
  have X: "dom ?X = {si_wake si, si_listen si}" "ran ?X = {si_wfd si, si_lfd si}" using ne(2) by (auto simp: ran_def)
  note L = layoutD [OF lay]
  show "finite (dom (nx_conns w))" "inj_on (conn_fd w) (dom (nx_conns w))" "inj_on (conn_chan w) (dom (nx_conns w))"
    "si_lfd si \<noteq> si_wfd si" "si_listen si \<noteq> si_wake si"
    "nx_conns w a = Some tc \<Longrightarrow> tc_fd tc \<noteq> si_lfd si \<and> tc_fd tc \<noteq> si_wfd si \<and>
      tc_channel tc \<noteq> si_listen si \<and> tc_channel tc \<noteq> si_wake si \<and> chan_fd w (tc_channel tc) = Some (tc_fd tc)"
    "dom (rx_channels w) \<subseteq> {si_wake si, si_listen si} \<union> conn_chan w ` dom (nx_conns w)"
    "chan_fd w (si_wake si) = Some (si_wfd si)" "chan_fd w (si_listen si) = Some (si_lfd si)"
    "open_fds (nx_trace w) = insert (si_lfd si) (conn_fd w ` dom (nx_conns w))"
    using L(3) [of "si_wake si" "si_wfd si"] L(3) [of "si_listen si" "si_lfd si"] L(4-6,8,9) L(7) [of a tc] ne unfolding X by auto
qed

lemma shape_layout:
  assumes "shape si w"
  shows "layout [si_wake si \<mapsto> si_wfd si, si_listen si \<mapsto> si_lfd si] (si_lfd si) w"
    "dom [si_wake si \<mapsto> si_wfd si, si_listen si \<mapsto> si_lfd si] = {si_wake si, si_listen si}"
    "ran [si_wake si \<mapsto> si_wfd si, si_listen si \<mapsto> si_lfd si] = {si_wfd si, si_lfd si}"
  using assms by (auto simp: shape_def ran_def)

lemma shape_cong:
  assumes "shape si w" and "dom (nx_conns w') = dom (nx_conns w)"
    and "\<And>a. a \<in> dom (nx_conns w) \<Longrightarrow> conn_fd w' a = conn_fd w a \<and> conn_chan w' a = conn_chan w a"
    and "chan_fd w' = chan_fd w" and "open_fds (nx_trace w') = open_fds (nx_trace w)"
  shows "shape si w'"
  using assms(1) layout_cong [OF shape_layout(1) [OF assms(1)] assms(2-5)] by (simp add: shape_def)

lemma shape_distinct:
  assumes "shape si w" and "nx_conns w a = Some tc" and "nx_conns w b = Some tcb" and "a \<noteq> b"
  shows "tc_fd tcb \<noteq> tc_fd tc" "tc_channel tcb \<noteq> tc_channel tc"
  using layout_distinct [OF shape_layout(1) [OF assms(1)] assms(2-4)] by simp_all

section \<open>The invariant of the run\<close>

definition loop_ok :: "site \<Rightarrow> 'u net_functor list \<Rightarrow> 'u net_functor event_loop \<Rightarrow> bool" where
  "loop_ok si fs el \<longleftrightarrow> el_tid el = si_tid si \<and> el_quit el = (\<not> si_running si) \<and> el_looping el = si_running si \<and> 0 < ep_events_size (el_poller el) \<and>
     el_pending_functors el = fs \<and> el_wakeup_channel el = si_wake si"

definition server_ok :: "site \<Rightarrow> (int \<times> addr) list \<Rightarrow> (echo_cb, 'z) server_net_scheme \<Rightarrow> bool" where
  "server_ok si cs w \<longleftrightarrow> (\<exists>ts. server_up True (si_server si) (si_acceptor si) (si_listen si) (si_loop si) (si_lfd si) ts w \<and>
     ts_connections ts = cs \<and> pool_inv (ts_threadpool ts) \<and> pool_loops (ts_threadpool ts) = [si_loop si] \<and>
     ts_connection_callback ts = Some Handle_connect \<and> ts_message_callback ts = Some Handle_message \<and>
     ts_write_complete_callback ts = None)"

text \<open>\<open>cs\<close> are the connections in the server's map, \<open>ds\<close> those that were closed and wait
  for \<open>connect_destoryed\<close>, \<open>gs\<close> those that went through it.\<close>

definition conns_inv :: "site \<Rightarrow> nat \<Rightarrow> (int \<times> addr) list \<Rightarrow> addr list \<Rightarrow> addr list \<Rightarrow>
    (echo_cb, 'z) server_net_scheme \<Rightarrow> bool" where
  "conns_inv si n cs ds gs w \<longleftrightarrow> dom (nx_conns w) = snd ` set cs \<union> set ds \<union> set gs \<and> distinct (map snd cs @ ds @ gs) \<and>
     sorted (map fst cs) \<and> distinct (map fst cs) \<and>
     (\<forall>(fd, a) \<in> set cs. echo_conn (si_server si) (si_loop si) (si_tid si) n fd a w) \<and>
     (\<forall>a \<in> set ds. dead_conn (si_loop si) (si_tid si) a w) \<and> (\<forall>a \<in> set gs. gone_conn (si_loop si) a w)"

definition run_inv :: "site \<Rightarrow> nat \<Rightarrow> addr option \<Rightarrow> (int \<times> addr) list \<Rightarrow> addr list \<Rightarrow> addr list \<Rightarrow>
    echo_cb server_cb net_functor list \<Rightarrow> (echo_cb, 'z) server_net_scheme \<Rightarrow> bool" where
  "run_inv si n cur cs ds gs fs w \<longleftrightarrow> rx_inv w \<and> shape si w \<and> server_ok si cs w \<and> conns_inv si n cs ds gs w \<and>
     (\<exists>el. rx_loops w (si_loop si) = Some el \<and> loop_ok si fs el) \<and>
     plain_at (si_loop si) (si_wake si) (Loop_read (si_loop si)) w \<and> plain_at (si_loop si) (si_listen si) (Accept_read (si_acceptor si)) w \<and> marks cur w"

lemma run_invD:
  assumes "run_inv si n cur cs ds gs fs w"
  shows "rx_inv w" "shape si w" "server_ok si cs w" "conns_inv si n cs ds gs w"
    "\<exists>el. rx_loops w (si_loop si) = Some el \<and> loop_ok si fs el"
    "plain_at (si_loop si) (si_wake si) (Loop_read (si_loop si)) w" "plain_at (si_loop si) (si_listen si) (Accept_read (si_acceptor si)) w" "marks cur w"
  using assms by (simp_all add: run_inv_def)

lemma run_conn:
  assumes "run_inv si n cur cs ds gs fs w" and "(fd, a) \<in> set cs"
  shows "echo_conn (si_server si) (si_loop si) (si_tid si) n fd a w"
  using assms by (auto simp: run_inv_def conns_inv_def)

lemma run_conns_ok:
  assumes "run_inv si n cur cs ds gs fs w"
  shows "conns_ok cs w"
proof -
  have "\<exists>tc. nx_conns w a = Some tc \<and> tc_fd tc = fd" if "(fd, a) \<in> set cs" for fd a
    using run_conn [OF assms that] by (auto simp: echo_conn_def conn_base_def)
  with run_invD(4) [OF assms] show ?thesis by (auto simp: conns_ok_def conns_inv_def)
qed

section \<open>Steps that keep every connection\<close>

text \<open>The part of the invariant that is not about single connections, with what a step may
  change in it.\<close>

lemma run_inv_step:
  assumes R: "run_inv si n cur cs ds gs fs w"
    and inv: "rx_inv w'" "shape si w'" "nx_servers w' = nx_servers w" "nx_acceptors w' = nx_acceptors w"
    and el: "rx_loops w' (si_loop si) = Some el'" "loop_ok si fs' el'"
    and ch: "\<And>d ch. d \<in> {si_wake si, si_listen si} \<Longrightarrow> rx_channels w d = Some ch \<Longrightarrow>
               \<exists>ch'. rx_channels w' d = Some ch' \<and> same_marks ch' ch"
    and m: "marks cur' w'" and c: "conns_inv si n' cs ds' gs' w'"
  shows "run_inv si n' cur' cs ds' gs' fs' w'"
proof -
  note D = run_invD [OF R]
  have "plain_at (si_loop si) d cb w'" if "plain_at (si_loop si) d cb w" "d \<in> {si_wake si, si_listen si}" for d cb
    using that ch [OF that(2)] by (fastforce simp: plain_at_def plain_chan_def same_marks_def)
  moreover have "server_ok si cs w'"
    using D(3) inv(3,4) ch [of "si_listen si"] unfolding server_ok_def server_up_def
    by (fastforce dest: same_marksD)
  ultimately show ?thesis using D inv el m c by (auto simp: run_inv_def)
qed

lemma conns_inv_kept:
  assumes C: "conns_inv si n cs ds gs w" and dom: "dom (nx_conns w') = dom (nx_conns w)"
    and kept: "\<And>b. b \<in> dom (nx_conns w) \<Longrightarrow> b \<notin> A \<Longrightarrow> conn_kept b (si_loop si) (si_tid si) w w'"
    and tr: "nx_trace w' = nx_trace w @ tr" "\<And>fd b. (fd, b) \<in> set cs \<Longrightarrow> b \<notin> A \<Longrightarrow> quiet fd tr" and n: "n \<le> n'"
    and own: "A \<subseteq> snd ` set cs" "\<And>fd b. (fd, b) \<in> set cs \<Longrightarrow> b \<in> A \<Longrightarrow>
      echo_conn (si_server si) (si_loop si) (si_tid si) n' fd b w'"
  shows "conns_inv si n' cs ds gs w'"
proof -
  have in_dom: "b \<in> dom (nx_conns w)" if "b \<in> snd ` set cs \<union> set ds \<union> set gs" for b using that C by (simp add: conns_inv_def)
  have no: "A \<inter> (set ds \<union> set gs) = {}" using own(1) C by (auto simp: conns_inv_def)
  have "echo_conn (si_server si) (si_loop si) (si_tid si) n' fd b w'" if b: "(fd, b) \<in> set cs" for fd b
  proof (cases "b \<in> A")
    case False
    have "b \<in> dom (nx_conns w)" using in_dom b by force
    with False b C tr n show ?thesis
      by (intro echo_conn_kept [OF _ kept tr(1)]) (auto simp: conns_inv_def)
  qed (use b own(2) in simp)
  moreover have "dead_conn (si_loop si) (si_tid si) b w'" if "b \<in> set ds" for b
    using that C no by (intro dead_conn_kept [OF _ kept]) (auto simp: conns_inv_def in_dom)
  moreover have "gone_conn (si_loop si) b w'" if "b \<in> set gs" for b
    using that C no by (intro gone_conn_kept [OF _ kept]) (auto simp: conns_inv_def in_dom)
  ultimately show ?thesis using C dom by (auto simp: conns_inv_def)
qed

text \<open>Marks of the poller, the dispatch and the loop.\<close>

lemma run_inv_remark:
  fixes w w' :: "(echo_cb, 'z) server_net_scheme"
  assumes R: "run_inv si n cur cs ds gs fs w" and el: "rx_loops w (si_loop si) = Some el"
    and w': "rx_loops w' = (rx_loops w)(si_loop si \<mapsto> el')" "nx_conns w' = nx_conns w" "nx_trace w' = nx_trace w"
      "nx_servers w' = nx_servers w" "nx_acceptors w' = nx_acceptors w"
    and ch: "\<And>d. rel_option same_marks (rx_channels w' d) (rx_channels w d)"
    and ep: "ep_channels (el_poller el') = ep_channels (el_poller el)" "ep_calls (el_poller el') = ep_calls (el_poller el)"
    and ok: "loop_ok si fs' el'" and m: "marks cur' w'" and n: "n \<le> n'"
  shows "run_inv si n' cur' cs ds gs fs' w'"
proof -
  note D = run_invD [OF R]
  have inv: "rx_inv w'" by (rule rx_inv_remark [OF D(1) el w'(1) ch ep])
  have sh: "shape si w'" using D(2) layout_remark [OF shape_layout(1) [OF D(2)] w'(2,3) ch] by (simp add: shape_def)
  have bk: "\<exists>ch'. rx_channels w' d = Some ch' \<and> same_marks ch' ch0" if "rx_channels w d = Some ch0" for d ch0
    using ch [of d] that by (auto elim: option.rel_cases)
  have "conn_kept b (si_loop si) (si_tid si) w w'" for b
    using inv w'(1,2) ok bk by (auto simp: conn_kept_def loop_ok_def)
  then have "conns_inv si n' cs ds gs w'"
    by (intro conns_inv_kept [OF D(4), where A = "{}" and tr = "[]"]) (use w' n in simp_all)
  then show ?thesis by (intro run_inv_step [OF R inv sh w'(4,5)]) (use w'(1) ok m bk in simp_all)
qed

section \<open>Events of a connection\<close>

lemma core_shape:
  fixes w w' :: "('u, 'z) net_scheme"
  assumes "net_core w' = net_core w" and "shape si w" and "open_fds (nx_trace w') = open_fds (nx_trace w)"
  shows "shape si w'"
  using assms(2) core_layout [OF assms(1) shape_layout(1) [OF assms(2)] assms(3)] by (simp add: shape_def)

lemma run_conn_fd:
  assumes "run_inv si n cur cs ds gs fs w" and "(fd, a) \<in> set cs"
  shows "\<exists>tc. nx_conns w a = Some tc \<and> tc_fd tc = fd"
  using run_conns_ok [OF assms(1)] assms(2) by (simp add: conns_ok_def)

lemma run_conn_unique:
  assumes "run_inv si n cur cs ds gs fs w" and "(fd, a) \<in> set cs" and "(fd', a) \<in> set cs"
  shows "fd' = fd"
  using run_conn_fd [OF assms(1,2)] run_conn_fd [OF assms(1,3)] by auto

text \<open>A connection is served, and the others do not notice.\<close>

lemma run_inv_served:
  fixes w w' :: "(echo_cb, 'z) server_net_scheme"
  assumes R: "run_inv si n cur cs ds gs fs w" and a: "(fd, a) \<in> set cs" "nx_conns w a = Some tc" and n: "n \<le> n'"
    and s: "served (si_server si) (si_loop si) (si_tid si) n' fd a (tc_channel tc) w w'"
  shows "run_inv si n' cur cs ds gs fs w' \<and> (\<exists>tc'. nx_conns w' a = Some tc' \<and> conn_core tc' = conn_core tc)"
proof -
  note D = run_invD [OF R]
  from s have E: "echo_conn (si_server si) (si_loop si) (si_tid si) n' fd a w'" and core: "net_core w' = net_core w"
    and loc: "others a (tc_channel tc) w' = others a (tc_channel tc) w" by (simp_all add: served_def local_step_def)
  from s obtain tr where tr: "nx_trace w' = nx_trace w @ tr" "list_all (io_call fd) tr" by (auto simp: served_def local_step_def)
  note O = othersD [OF loc]
  obtain el where el: "rx_loops w (si_loop si) = Some el" "loop_ok si fs el" using D(5) by blast
  obtain el' where el': "rx_loops w' (si_loop si) = Some el'" "loop_core el' = loop_core el" using core_loop [OF core el(1)] by blast
  have ok: "loop_ok si fs el'" using el(2) loop_coreD [OF el'(2)] by (simp add: loop_ok_def)
  have inv: "rx_inv w'" using E by (auto simp: echo_conn_def conn_base_def)
  have sh: "shape si w'" by (rule core_shape [OF core D(2)]) (simp add: tr(1) io_calls_open [OF tr(2)])
  have tid: "el_tid el' = si_tid si" using ok by (simp add: loop_ok_def)
  have kept: "conn_kept b (si_loop si) (si_tid si) w w'" if "b \<noteq> a" for b
    unfolding conn_kept_def
    using inv el'(1) tid O(1) [OF that] O(2) shape_distinct(2) [OF D(2) a(2) _ that [symmetric]] by auto
  have fd: "tc_fd tc = fd" using run_conn_fd [OF R a(1)] a(2) by simp
  have quiet: "quiet fd' tr" if b: "(fd', b) \<in> set cs" "b \<noteq> a" for fd' b
  proof -
    obtain tcb where "nx_conns w b = Some tcb" "tc_fd tcb = fd'" using run_conn_fd [OF R b(1)] by blast
    with shape_distinct(1) [OF D(2) a(2) _ b(2) [symmetric]] fd show ?thesis by (intro quiet_io [OF tr(2)]) auto
  qed
  have "nx_conns w' b = None \<longleftrightarrow> nx_conns w b = None" for b using core_rel(1) [OF core, of b] by (cases rule: option.rel_cases) auto
  then have "dom (nx_conns w') = dom (nx_conns w)" by (simp add: dom_def)
  moreover have "a \<in> snd ` set cs" using a(1) by force
  ultimately have "conns_inv si n' cs ds gs w'"
    by (intro conns_inv_kept [OF D(4) _ kept tr(1) quiet n, where A = "{a}"])
      (use E run_conn_unique [OF R a(1)] in auto)
  moreover have "rx_channels w' d = rx_channels w d" if "d \<in> {si_wake si, si_listen si}" for d
    using shapeD(6) [OF D(2) a(2)] that by (intro O(2)) auto
  ultimately have "run_inv si n' cur cs ds gs fs w'"
    by (intro run_inv_step [OF R inv sh O(3,4) el'(1) ok _ core_marks [OF core D(8)]]) simp_all
  with core_conn [OF core a(2)] show ?thesis by blast
qed

section \<open>The end of a connection\<close>

text \<open>One connection \<open>a\<close> changes its place in the lists, appears or goes; the others are
  kept.\<close>

lemma conns_inv_change:
  assumes C: "conns_inv si n cs ds gs w"
    and dom: "dom (nx_conns w') = snd ` set cs' \<union> set ds' \<union> set gs'" "distinct (map snd cs' @ ds' @ gs')"
      "sorted (map fst cs')" "distinct (map fst cs')"
    and kept: "\<And>b. b \<in> dom (nx_conns w) \<Longrightarrow> b \<noteq> a \<Longrightarrow> conn_kept b (si_loop si) (si_tid si) w w'"
    and tr: "nx_trace w' = nx_trace w @ tr" "\<And>fd b. (fd, b) \<in> set cs \<Longrightarrow> b \<noteq> a \<Longrightarrow> quiet fd tr" and n: "n \<le> n'"
    and sub: "\<And>fd b. (fd, b) \<in> set cs' \<Longrightarrow> b \<noteq> a \<Longrightarrow> (fd, b) \<in> set cs" "\<And>b. b \<in> set ds' \<Longrightarrow> b \<noteq> a \<Longrightarrow> b \<in> set ds"
      "\<And>b. b \<in> set gs' \<Longrightarrow> b \<noteq> a \<Longrightarrow> b \<in> set gs"
    and own: "\<And>fd. (fd, a) \<in> set cs' \<Longrightarrow> echo_conn (si_server si) (si_loop si) (si_tid si) n' fd a w'"
      "a \<in> set ds' \<Longrightarrow> dead_conn (si_loop si) (si_tid si) a w'" "a \<in> set gs' \<Longrightarrow> gone_conn (si_loop si) a w'"
  shows "conns_inv si n' cs' ds' gs' w'"
proof -
  have in_dom: "b \<in> dom (nx_conns w)" if "b \<in> snd ` set cs \<union> set ds \<union> set gs" for b using that C by (simp add: conns_inv_def)
  have "echo_conn (si_server si) (si_loop si) (si_tid si) n' fd b w'" if b: "(fd, b) \<in> set cs'" for fd b
  proof (cases "b = a")
    case False
    with sub(1) b have m: "(fd, b) \<in> set cs" by blast
    then have "b \<in> dom (nx_conns w)" using in_dom by force
    with False m C tr n show ?thesis by (intro echo_conn_kept [OF _ kept tr(1)]) (auto simp: conns_inv_def)
  qed (use b own(1) in simp)
  moreover have "dead_conn (si_loop si) (si_tid si) b w'" if b: "b \<in> set ds'" for b
  proof (cases "b = a")
    case False
    with sub(2) b C in_dom show ?thesis by (intro dead_conn_kept [OF _ kept]) (auto simp: conns_inv_def)
  qed (use b own(2) in simp)
  moreover have "gone_conn (si_loop si) b w'" if b: "b \<in> set gs'" for b
  proof (cases "b = a")
    case False
    with sub(3) b C in_dom show ?thesis by (intro gone_conn_kept [OF _ kept]) (auto simp: conns_inv_def)
  qed (use b own(3) in simp)
  ultimately show ?thesis using dom by (auto simp: conns_inv_def)
qed

lemma erase_entry:
  assumes "distinct (map fst cs)" "distinct (map snd cs)" "(fd, a) \<in> set cs"
  shows "set (filter (\<lambda>x. fst x \<noteq> fd) cs) = set cs - {(fd, a)}"
    "snd ` set (filter (\<lambda>x. fst x \<noteq> fd) cs) = snd ` set cs - {a}"
proof -
  show eq: "set (filter (\<lambda>x. fst x \<noteq> fd) cs) = set cs - {(fd, a)}"
    using assms(1,3) eq_key_imp_eq_value by fastforce
  have "inj_on snd (set cs)" using assms(2) by (simp add: distinct_map)
  from inj_on_image_set_diff [OF this, of "set cs" "{(fd, a)}"] assms(3)
  show "snd ` set (filter (\<lambda>x. fst x \<noteq> fd) cs) = snd ` set cs - {a}" unfolding eq by simp
qed

text \<open>The close handler of a connection that is served: on one loop the removal from the map
  follows at once.\<close>

lemma echo_handle_close:
  fixes w :: "(echo_cb, 'z) server_net_scheme"
  assumes E: "conn_base a tc ch el w" "el_tid el = t" "echo_state s n a tc ch (nx_trace w)"
    and up: "nx_servers w s = Some ts" "ts_loop ts = tc_loop tc" "conns_ok (ts_connections ts) w"
      "map_of (ts_connections ts) (tc_fd tc) = Some a"
  shows "\<exists>ep. let ch1 = ch\<lparr>ch_events := kNoneEvent, ch_added_to_loop := True, ch_index := kDeleted\<rparr>;
      w1 = put_loop (tc_loop tc) (el\<lparr>el_poller := ep\<rparr>) (put_channel (tc_channel tc) ch1
             (put_conn a (tc\<lparr>tc_state := kDisconnected\<rparr>) w));
      w' = put_loop (tc_loop tc) (EventLoop_queue_in_loop t (Connect_destoryed a) (el\<lparr>el_poller := ep\<rparr>))
             (put_server s (ts\<lparr>ts_connections := filter (\<lambda>x. fst x \<noteq> tc_fd tc) (ts_connections ts)\<rparr>) w1)
    in TcpConnection_handle_close (run_user (EchoServer_callbacks k t p) t) t a w = Inr w' \<and> rx_inv w1 \<and>
       ep_events_size ep = ep_events_size (el_poller el)"
proof -
  let ?ch1 = "ch\<lparr>ch_events := kNoneEvent, ch_added_to_loop := True, ch_index := kDeleted\<rparr>"
  let ?el1 = "\<lambda>ep. el\<lparr>el_poller := ep\<rparr>"
  let ?w1 = "\<lambda>ep. put_loop (tc_loop tc) (?el1 ep) (put_channel (tc_channel tc) ?ch1 (put_conn a (tc\<lparr>tc_state := kDisconnected\<rparr>) w))"
  let ?rest = "filter (\<lambda>x. fst x \<noteq> tc_fd tc) (ts_connections ts)"
  from echo_close [OF E, of k p] obtain ep where
    w1: "TcpConnection_handle_close (run_user (EchoServer_callbacks k t p) t) t a w = TcpServer_remove_connection t s a (?w1 ep)"
    "rx_inv (?w1 ep)" "ep_events_size ep = ep_events_size (el_poller el)" by (auto simp: Let_def)
  have one: "length (ts_connections ts) - length ?rest = 1"
    using up(3,4) by (intro erase_one) (simp_all add: conns_ok_def)
  have "TcpServer_remove_connection t s a (?w1 ep) = Inr (put_loop (tc_loop tc) (EventLoop_queue_in_loop t (Connect_destoryed a) (?el1 ep))
      (put_server s (ts\<lparr>ts_connections := ?rest\<rparr>) (?w1 ep)))"
    using up E(2) one by (simp add: TcpServer_remove_connection_def EventLoop_run_in_loop_def EventLoop_is_in_loop_thread_def
        TcpServer_remove_connection_in_loop_def assert_in_loop_def Let_def upd_loop_def)
  then show ?thesis using w1 by (intro exI [of _ ep]) (simp add: Let_def)
qed

lemma server_ok_ts:
  assumes "server_ok si cs w"
  obtains ts where "nx_servers w (si_server si) = Some ts" "ts_loop ts = si_loop si" "ts_connections ts = cs"
  using assms by (auto simp: server_ok_def server_up_def)

text \<open>Changing the connections of the server and a channel other than the acceptor's.\<close>

lemma server_ok_change:
  assumes "server_ok si cs w" and "nx_servers w (si_server si) = Some ts"
    and "nx_servers w' (si_server si) = Some (ts\<lparr>ts_connections := cs'\<rparr>)" and "nx_acceptors w' = nx_acceptors w"
    and "rx_channels w' (si_listen si) = rx_channels w (si_listen si)"
  shows "server_ok si cs' w'"
  using assms by (auto simp: server_ok_def server_up_def)

text \<open>A connection leaves the map and its channel is disabled: it waits for
  \<open>connect_destoryed\<close>.\<close>

lemma run_inv_retire:
  fixes w w' :: "(echo_cb, 'z) server_net_scheme"
  assumes R: "run_inv si n cur cs ds [] fs w" and a: "(fd, a) \<in> set cs"
    and E: "conn_base a tc ch el w" "tc_loop tc = si_loop si" "tc_fd tc = fd" "tc_socket tc = fd"
    and ts: "nx_servers w (si_server si) = Some ts" and ch': "ch' = ch\<lparr>ch_events := kNoneEvent, ch_added_to_loop := True, ch_index := kDeleted\<rparr>"
    and W: "nx_conns w' = (nx_conns w)(a \<mapsto> tc\<lparr>tc_state := kDisconnected\<rparr>)" "rx_channels w' = (rx_channels w)(tc_channel tc \<mapsto> ch')"
      "rx_loops w' (si_loop si) = Some el'" "nx_trace w' = nx_trace w"
      "nx_servers w' (si_server si) = Some (ts\<lparr>ts_connections := filter (\<lambda>x. fst x \<noteq> fd) cs\<rparr>)" "nx_acceptors w' = nx_acceptors w"
    and inv: "rx_inv w'" and ok: "loop_ok si fs' el'"
  shows "run_inv si n cur (filter (\<lambda>x. fst x \<noteq> fd) cs) (ds @ [a]) [] fs' w'"
proof -
  note D = run_invD [OF R] and B = conn_baseD [OF E(1)]
  let ?l = "si_loop si" and ?t = "si_tid si" and ?cs = "filter (\<lambda>x. fst x \<noteq> fd) cs" and ?tc = "tc\<lparr>tc_state := kDisconnected\<rparr>"
  have dis: "distinct (map fst cs)" "distinct (map snd cs)" "sorted (map fst cs)" "distinct ds" "set ds \<inter> snd ` set cs = {}"
    "dom (nx_conns w) = snd ` set cs \<union> set ds" using D(4) by (auto simp: conns_inv_def)
  have tid: "el_tid el' = ?t" using ok by (simp add: loop_ok_def)
  have sh: "shape si w'"
    by (rule shape_cong [OF D(2)]) (use B in \<open>auto simp: W ch' conn_fd_def conn_chan_def chan_fd_def fun_eq_iff insert_absorb domI\<close>)
  have "conn_base a ?tc ch' el' w'" using B inv ch' E(2) by (simp add: conn_base_def W kDeleted_def kNew_def)
  then have dead: "dead_conn ?l ?t a w'"
    using tid E(2-4) unfolding dead_conn_def by (intro exI [of _ ?tc] exI [of _ ch'] exI [of _ el']) (simp add: ch')
  have kept: "conn_kept b ?l ?t w w'" if "b \<noteq> a" for b
    using inv tid W(3) that shape_distinct(2) [OF D(2) B(2) _ that [symmetric]] by (auto simp: conn_kept_def W)
  note er = erase_entry [OF dis(1,2) a]
  have an: "a \<in> snd ` set cs" using a by force
  have "conns_inv si n ?cs (ds @ [a]) [] w'"
  proof (rule conns_inv_change [OF D(4) _ _ _ _ kept, where tr = "[]" and a = a])
    show "dom (nx_conns w') = snd ` set ?cs \<union> set (ds @ [a]) \<union> set []" unfolding er W(1) using dis(6) an by auto
    show "distinct (map snd ?cs @ (ds @ [a]) @ [])" using dis er(2) an by (auto simp: distinct_map_filter)
  qed (use dis er dead in \<open>auto simp: W sorted_filter distinct_map_filter dest: run_conn_unique [OF R a]\<close>)
  moreover have "tc_channel tc \<noteq> si_listen si" "tc_channel tc \<noteq> si_wake si" using shapeD(6) [OF D(2) B(2)] by auto
  moreover have "marks cur w'" using D(8) B(3) by (auto simp: marks_def W ch')
  ultimately show ?thesis
    using inv sh ok W(3) D(6,7) server_ok_change [OF D(3) ts W(5,6)] by (auto simp: run_inv_def W plain_at_def)
qed

lemma run_inv_close:
  fixes w :: "(echo_cb, 'z) server_net_scheme"
  assumes R: "run_inv si n cur cs ds [] (map Connect_destoryed ds) w" and a: "(fd, a) \<in> set cs"
    and u: "u = run_user (EchoServer_callbacks k (si_tid si) p) (si_tid si)"
  shows "\<exists>w' tc ch. TcpConnection_handle_close u (si_tid si) a w = Inr w' \<and>
    run_inv si n cur (filter (\<lambda>x. fst x \<noteq> fd) cs) (ds @ [a]) [] (map Connect_destoryed (ds @ [a])) w' \<and>
    nx_conns w a = Some tc \<and> nx_conns w' = (nx_conns w)(a \<mapsto> tc\<lparr>tc_state := kDisconnected\<rparr>) \<and>
    rx_channels w (tc_channel tc) = Some ch \<and> rx_channels w' = (rx_channels w)(tc_channel tc \<mapsto>
      ch\<lparr>ch_events := kNoneEvent, ch_added_to_loop := True, ch_index := kDeleted\<rparr>)"
proof -
  note D = run_invD [OF R]
  let ?l = "si_loop si" and ?t = "si_tid si" and ?s = "si_server si"
  from run_conn [OF R a] obtain tc ch el where E: "conn_base a tc ch el w" "el_tid el = ?t" "tc_loop tc = ?l" "tc_fd tc = fd"
    "echo_state ?s n a tc ch (nx_trace w)" by (rule echo_connE)
  note B = conn_baseD [OF E(1)] and S = echo_stateD [OF E(5)]
  obtain ts where ts: "nx_servers w ?s = Some ts" "ts_loop ts = ?l" "ts_connections ts = cs" using D(3) by (rule server_ok_ts)
  have "map_of cs fd = Some a" using D(4) a by (simp add: conns_inv_def)
  with echo_handle_close [OF E(1,2,5) ts(1), of k p] ts run_conns_ok [OF R] E(3,4) obtain ep where
    close: "TcpConnection_handle_close u ?t a w = Inr (put_loop ?l (EventLoop_queue_in_loop ?t (Connect_destoryed a) (el\<lparr>el_poller := ep\<rparr>))
       (put_server ?s (ts\<lparr>ts_connections := filter (\<lambda>x. fst x \<noteq> fd) cs\<rparr>) (put_loop ?l (el\<lparr>el_poller := ep\<rparr>)
         (put_channel (tc_channel tc) (ch\<lparr>ch_events := kNoneEvent, ch_added_to_loop := True, ch_index := kDeleted\<rparr>)
           (put_conn a (tc\<lparr>tc_state := kDisconnected\<rparr>) w)))))"
    and inv1: "rx_inv (put_loop ?l (el\<lparr>el_poller := ep\<rparr>)
         (put_channel (tc_channel tc) (ch\<lparr>ch_events := kNoneEvent, ch_added_to_loop := True, ch_index := kDeleted\<rparr>)
           (put_conn a (tc\<lparr>tc_state := kDisconnected\<rparr>) w)))"
    and i: "ep_events_size ep = ep_events_size (el_poller el)" by (auto simp: Let_def u)
  let ?el = "EventLoop_queue_in_loop ?t (Connect_destoryed a) (el\<lparr>el_poller := ep\<rparr>)"
  let ?ch = "ch\<lparr>ch_events := kNoneEvent, ch_added_to_loop := True, ch_index := kDeleted\<rparr>" and ?tc = "tc\<lparr>tc_state := kDisconnected\<rparr>"
  define w' where "w' = put_loop ?l ?el (put_server ?s (ts\<lparr>ts_connections := filter (\<lambda>x. fst x \<noteq> fd) cs\<rparr>)
     (put_loop ?l (el\<lparr>el_poller := ep\<rparr>) (put_channel (tc_channel tc) ?ch (put_conn a ?tc w))))"
  have W: "nx_conns w' = (nx_conns w)(a \<mapsto> ?tc)" "rx_channels w' = (rx_channels w)(tc_channel tc \<mapsto> ?ch)"
    "rx_loops w' ?l = Some ?el" "nx_trace w' = nx_trace w"
    "nx_servers w' ?s = Some (ts\<lparr>ts_connections := filter (\<lambda>x. fst x \<noteq> fd) cs\<rparr>)" "nx_acceptors w' = nx_acceptors w"
    by (simp_all add: w'_def, simp add: put_conn_def)
  have inv: "rx_inv w'" unfolding w'_def by (rule rx_inv_put_loop [where el = "el\<lparr>el_poller := ep\<rparr>"]) (use inv1 in simp_all)
  have "loop_ok si (map Connect_destoryed ds) el" using D(5) B(4) E(3) by auto
  then have "loop_ok si (map Connect_destoryed (ds @ [a])) ?el"
    using i by (simp add: loop_ok_def) (simp add: EventLoop_queue_in_loop_def EventLoop_queue_wake_def EventLoop_queue_push_def EventLoop_wakeup_def)
  from run_inv_retire [OF R a E(1,3,4) _ ts(1) refl W inv this] S(3) E(4)
  have "run_inv si n cur (filter (\<lambda>x. fst x \<noteq> fd) cs) (ds @ [a]) [] (map Connect_destoryed (ds @ [a])) w'" by simp
  then show ?thesis using close B W(1,2) unfolding w'_def by blast
qed

end
