(* ===== verification/Conn_Events.thy ===== *)
theory Conn_Events
  imports Net_Layout
begin

unbundle bit_operations_syntax

text \<open>
  The event of a connection's channel as it runs through \<open>Channel::handle_event\<close>: close,
  error, read and write callbacks in this order.  The locale \<open>conn_host\<close> is what the channel
  relies on: while the connection is served its host keeps it served, closing it succeeds, and
  after that the handlers that still run find it closed.  The host is the server with all its
  other connections, on one loop or on the loops of a pool.
\<close>

text \<open>The events that a connection's channel may report together: a hang-up without data to
  read does not come with urgent data.\<close>

definition event_ok :: "events \<Rightarrow> bool" where
  "event_ok ev \<longleftrightarrow> truth (ev AND EPOLLHUP) \<and> \<not> truth (ev AND EPOLLIN) \<longrightarrow> \<not> truth (ev AND (EPOLLIN OR EPOLLPRI OR EPOLLRDHUP))"

text \<open>\<open>hold n closed v\<close>: in the store \<open>v\<close> the connection \<open>a\<close> is handled, \<open>closed\<close>
  says whether it has been closed by it.\<close>

locale conn_host =
  fixes hold :: "nat \<Rightarrow> bool \<Rightarrow> (echo_cb, 'z) server_net_scheme \<Rightarrow> bool"
    and s l :: addr and t fd :: int and a cc :: addr and ev :: events and k :: kernel and p :: addr
  assumes hold_conn: "hold n False v \<Longrightarrow> echo_conn s l t n fd a v"
    and hold_served: "hold n False v \<Longrightarrow> n \<le> n' \<Longrightarrow> served s l t n' fd a cc v v' \<Longrightarrow> hold n' False v'"
    and hold_close: "hold n False v \<Longrightarrow>
      \<exists>v'. TcpConnection_handle_close (run_user (EchoServer_callbacks k t p) t) t a v = Inr v' \<and> hold n True v'"
    and hold_dead: "hold n True v \<Longrightarrow> dead_conn l t a v"
    and hold_chan: "hold n c v \<Longrightarrow> \<exists>tc ch. nx_conns v a = Some tc \<and> tc_channel tc = cc \<and> tc_fd tc = fd \<and>
      rx_channels v cc = Some ch \<and> conn_channel a ch \<and> ch_revents ch = ev"
    and hold_getsockopt: "hold n c v \<Longrightarrow> hold n c (v\<lparr>nx_trace := nx_trace v @ [Sys_getsockopt fd]\<rparr>)"
    and hold_mono: "hold n c v \<Longrightarrow> n \<le> n' \<Longrightarrow> hold n' c v"
begin

lemma host_conn:
  assumes "hold n False v"
  obtains tc ch el where "conn_base a tc ch el v" "el_tid el = t" "tc_loop tc = l" "tc_fd tc = fd"
    "echo_state s n a tc ch (nx_trace v)" "tc_channel tc = cc"
proof -
  from hold_conn [OF assms] obtain tc ch el where E: "conn_base a tc ch el v" "el_tid el = t" "tc_loop tc = l" "tc_fd tc = fd"
    "echo_state s n a tc ch (nx_trace v)" by (rule echo_connE)
  moreover have "tc_channel tc = cc" using hold_chan [OF assms] conn_baseD(2) [OF E(1)] by auto
  ultimately show ?thesis using that by blast
qed

lemma host_error:
  assumes "hold n c v"
  shows "\<exists>v'. TcpConnection_handle_error a v = Inr v' \<and> hold n c v'"
  using hold_chan [OF assms] hold_getsockopt [OF assms] by (auto simp: TcpConnection_handle_error_def)

lemma host_write:
  assumes k: "kernel_ok k" and H: "hold n c v"
  shows "\<exists>v'. TcpConnection_handle_write k t a v = Inr v' \<and> hold n c v'"
proof (cases c)
  case False
  with H have H': "hold n False v" by simp
  then obtain tc ch el where E: "conn_base a tc ch el v" "el_tid el = t" "tc_loop tc = l"
    "tc_fd tc = fd" "echo_state s n a tc ch (nx_trace v)" and cc: "tc_channel tc = cc" by (rule host_conn)
  from conn_write [OF k E] cc obtain v' where v': "TcpConnection_handle_write k t a v = Inr v'"
    "served s l t n fd a cc v v'" by blast
  from hold_served [OF H' le_refl v'(2)] v'(1) False show ?thesis by simp
next
  case True
  with H hold_dead have "dead_conn l t a v" by simp
  then obtain tc ch el where E: "conn_base a tc ch el v" "el_tid el = t" "ch_events ch = kNoneEvent"
    by (auto simp: dead_conn_def)
  have "\<not> Channel_is_writing ch" using E(3) by (simp add: Channel_is_writing_def kNoneEvent_def truth_def)
  then have "TcpConnection_handle_write k t a v = Inr v"
    using conn_base_assert_ok [OF E(1) E(2) [symmetric]] conn_baseD [OF E(1)] by (simp add: TcpConnection_handle_write_def)
  with H show ?thesis by blast
qed

lemma host_read:
  assumes k: "kernel_ok k" "small_reads k" and H: "hold n False v" and max: "8 + Suc n * kExtraBuf \<le> vector_max_size"
  shows "\<exists>v' c. TcpConnection_handle_read k (run_user (EchoServer_callbacks k t p) t) t a v = Inr v' \<and> hold (Suc n) c v'"
proof -
  let ?u = "run_user (EchoServer_callbacks k t p) t"
  from H obtain tc ch el where E: "conn_base a tc ch el v" "el_tid el = t" "tc_loop tc = l"
    "tc_fd tc = fd" "echo_state s n a tc ch (nx_trace v)" and cc: "tc_channel tc = cc" by (rule host_conn)
  from conn_read [OF k E max refl, of p] cc obtain v1 where
    v1: "TcpConnection_handle_read k ?u t a v = Inr v1 \<or>
      TcpConnection_handle_read k ?u t a v = TcpConnection_handle_close ?u t a v1"
    "served s l t (Suc n) fd a cc v v1" by blast
  have H1: "hold (Suc n) False v1" by (rule hold_served [OF H _ v1(2)]) simp
  from v1(1) show ?thesis using H1 hold_close [OF H1] by auto
qed

text \<open>The four stages of \<open>handle_event_with_guard\<close>.\<close>

lemma host_stages:
  assumes k: "kernel_ok k" "small_reads k" and H: "hold n False w1"
    and max: "8 + Suc n * kExtraBuf \<le> vector_max_size" and ev: "event_ok ev"
    and run: "run = run_chan_cb k fresh (EchoServer_callbacks k t p) t"
  obtains w2 w3 w4 w5 n2 n3 n4 c2 c3 c4 c5 where
    "(if truth (ev AND EPOLLHUP) \<and> \<not> truth (ev AND EPOLLIN) then run (Conn_close a) w1 else Inr w1) = Inr w2" "hold n2 c2 w2"
    "(if truth (ev AND EPOLLERR) then run (Conn_error a) w2 else Inr w2) = Inr w3" "hold n3 c3 w3"
    "(if truth (ev AND (EPOLLIN OR EPOLLPRI OR EPOLLRDHUP)) then run (Conn_read a) w3 else Inr w3) = Inr w4" "hold n4 c4 w4"
    "(if truth (ev AND EPOLLOUT) then run (Conn_write a) w4 else Inr w4) = Inr w5" "hold (Suc n) c5 w5"
proof -
  let ?hup = "truth (ev AND EPOLLHUP) \<and> \<not> truth (ev AND EPOLLIN)"
  let ?in = "truth (ev AND (EPOLLIN OR EPOLLPRI OR EPOLLRDHUP))"
  obtain w2 where w2: "(if ?hup then run (Conn_close a) w1 else Inr w1) = Inr w2" "hold n ?hup w2"
    using hold_close [OF H] H by (cases ?hup) (auto simp: run run_chan_cb_def)
  obtain w3 where w3: "(if truth (ev AND EPOLLERR) then run (Conn_error a) w2 else Inr w2) = Inr w3" "hold n ?hup w3"
    using host_error [OF w2(2)] w2(2) by (cases "truth (ev AND EPOLLERR)") (auto simp: run run_chan_cb_def)
  have "\<exists>w4 c. (if ?in then run (Conn_read a) w3 else Inr w3) = Inr w4 \<and> hold (Suc n) c w4"
  proof (cases ?in)
    case True
    then have "\<not> ?hup" using ev by (auto simp: event_ok_def)
    with w3(2) have "hold n False w3" by simp
    from host_read [OF k this max] True show ?thesis by (auto simp: run run_chan_cb_def)
  next
    case False
    with hold_mono [OF w3(2), of "Suc n"] show ?thesis by auto
  qed
  then obtain w4 c where w4: "(if ?in then run (Conn_read a) w3 else Inr w3) = Inr w4" "hold (Suc n) c w4"
    by blast
  obtain w5 where w5: "(if truth (ev AND EPOLLOUT) then run (Conn_write a) w4 else Inr w4) = Inr w5" "hold (Suc n) c w5"
    using host_write [OF k(1) w4(2)] w4(2) by (cases "truth (ev AND EPOLLOUT)") (auto simp: run run_chan_cb_def)
  show ?thesis by (rule that [OF w2 w3 w4 w5])
qed

lemma host_event:
  assumes k: "kernel_ok k" "small_reads k" and max: "8 + Suc n * kExtraBuf \<le> vector_max_size" and ev: "event_ok ev"
    and run: "run = run_chan_cb k fresh (EchoServer_callbacks k t p) t"
    and ch: "rx_channels w cc = Some ch" and H: "hold n False (put_channel cc (ch\<lparr>ch_event_handling := True\<rparr>) w)"
  shows "\<exists>w5 c ch5. Channel_handle_event conn_alive run (get_channel cc) (upd_channel cc) w =
      Inr (put_channel cc (ch5\<lparr>ch_event_handling := False\<rparr>) w5) \<and> rx_channels w5 cc = Some ch5 \<and> hold (Suc n) c w5"
proof -
  let ?w1 = "put_channel cc (ch\<lparr>ch_event_handling := True\<rparr>) w"
  from hold_chan [OF H] have c1: "nx_conns w a \<noteq> None" "conn_channel a ch" "ch_revents ch = ev" by (auto simp: conn_channel_def)
  from host_stages [OF k H max ev run] obtain w2 w3 w4 w5 n2 n3 n4 c2 c3 c4 c5 where
    s: "(if truth (ev AND EPOLLHUP) \<and> \<not> truth (ev AND EPOLLIN) then run (Conn_close a) ?w1 else Inr ?w1) = Inr w2" "hold n2 c2 w2"
    "(if truth (ev AND EPOLLERR) then run (Conn_error a) w2 else Inr w2) = Inr w3" "hold n3 c3 w3"
    "(if truth (ev AND (EPOLLIN OR EPOLLPRI OR EPOLLRDHUP)) then run (Conn_read a) w3 else Inr w3) = Inr w4" "hold n4 c4 w4"
    "(if truth (ev AND EPOLLOUT) then run (Conn_write a) w4 else Inr w4) = Inr w5" "hold (Suc n) c5 w5" .
  obtain ch2 where g2: "rx_channels w2 cc = Some ch2" "ch_revents ch2 = ev" "ch_error_callback ch2 = Some (Conn_error a)"
    using hold_chan [OF s(2)] by (auto simp: conn_channel_def)
  obtain ch3 where g3: "rx_channels w3 cc = Some ch3" "ch_revents ch3 = ev" "ch_read_callback ch3 = Some (Conn_read a)"
    using hold_chan [OF s(4)] by (auto simp: conn_channel_def)
  obtain ch4 where g4: "rx_channels w4 cc = Some ch4" "ch_revents ch4 = ev" "ch_write_callback ch4 = Some (Conn_write a)"
    using hold_chan [OF s(6)] by (auto simp: conn_channel_def)
  obtain ch5 where g5: "rx_channels w5 cc = Some ch5" using hold_chan [OF s(8)] by blast
  have "Channel_handle_event conn_alive run (get_channel cc) (upd_channel cc) w = Inr (put_channel cc (ch5\<lparr>ch_event_handling := False\<rparr>) w5)"
    using c1 ch(1) s(1,3,5,7) g2 g3 g4 g5
    by (simp add: Channel_handle_event_def Channel_handle_event_with_guard_def upd_channel_def conn_alive_def conn_channel_def
        run_callback_def cong: if_cong split del: if_split)
  with g5 s(8) show ?thesis by blast
qed

end

end
