(* ===== verification/Run_Events.thy ===== *)
theory Run_Events
  imports Run_Inv Conn_Events
begin

unbundle bit_operations_syntax

text \<open>
  The events of a run: what a connection's channel, the acceptor's and the wake-up channel do
  when they are dispatched, with respect to the invariant of the run.
\<close>

section \<open>The event of a connection\<close>

lemma run_inv_mono:
  assumes R: "run_inv si n cur cs ds gs fs w" and n: "n \<le> n'"
  shows "run_inv si n' cur cs ds gs fs w"
proof -
  from run_invD(5) [OF R] obtain el where el: "rx_loops w (si_loop si) = Some el" "loop_ok si fs el" by blast
  have "rel_option same_marks (rx_channels w d) (rx_channels w d)" for d by (cases "rx_channels w d") simp_all
  with el show ?thesis by (intro run_inv_remark [OF R el(1) _ refl refl refl refl _ refl refl el(2) run_invD(8) [OF R] n])
      (auto simp: fun_upd_idem)
qed

text \<open>A call that concerns no connection: asking for the pending error, a failed accept.\<close>

lemma run_inv_call:
  assumes R: "run_inv si n cur cs ds gs fs w" and c: "\<And>S. fd_change c S = S" "\<And>fd. quiet fd [c]"
  shows "run_inv si n cur cs ds gs fs (w\<lparr>nx_trace := nx_trace w @ [c]\<rparr>)" (is "run_inv _ _ _ _ _ _ _ ?w")
proof -
  note D = run_invD [OF R]
  obtain el where el: "rx_loops w (si_loop si) = Some el" "loop_ok si fs el" using D(5) by blast
  have sh: "shape si ?w" by (rule shape_cong [OF D(2)]) (simp_all add: conn_fd_def conn_chan_def chan_fd_def fun_eq_iff c(1))
  have "conn_kept b (si_loop si) (si_tid si) w ?w" for b using D(1) el by (auto simp: conn_kept_def loop_ok_def)
  then have "conns_inv si n cs ds gs ?w"
    by (intro conns_inv_kept [OF D(4), where A = "{}" and tr = "[c]"]) (simp_all add: c(2))
  then show ?thesis by (intro run_inv_step [OF R _ sh _ _ _ el(2)]) (use D(1,8) el(1) in \<open>auto simp: marks_def\<close>)
qed

lemma run_inv_getsockopt:
  "run_inv si n cur cs ds gs fs w \<Longrightarrow> run_inv si n cur cs ds gs fs (w\<lparr>nx_trace := nx_trace w @ [Sys_getsockopt fd]\<rparr>)"
  by (rule run_inv_call) (simp_all add: quiet_def)

text \<open>While the event \<open>ev\<close> of the connection \<open>a\<close> is handled: \<open>closed\<close> says whether the
  connection has been closed by it.\<close>

definition handling :: "site \<Rightarrow> nat \<Rightarrow> events \<Rightarrow> int \<Rightarrow> addr \<Rightarrow> addr \<Rightarrow> (int \<times> addr) list \<Rightarrow> addr list \<Rightarrow>
    (echo_cb, 'z) server_net_scheme \<Rightarrow> bool \<Rightarrow> (echo_cb, 'z) server_net_scheme \<Rightarrow> bool" where
  "handling si n ev fd a cc cs ds w closed v \<longleftrightarrow>
     (if closed then run_inv si n (Some cc) (filter (\<lambda>x. fst x \<noteq> fd) cs) (ds @ [a]) [] (map Connect_destoryed (ds @ [a])) v
      else run_inv si n (Some cc) cs ds [] (map Connect_destoryed ds) v) \<and>
     (\<forall>b. b \<noteq> a \<longrightarrow> nx_conns v b = nx_conns w b) \<and> (\<forall>d. d \<noteq> cc \<longrightarrow> rx_channels v d = rx_channels w d) \<and>
     (\<exists>tc ch. nx_conns v a = Some tc \<and> tc_channel tc = cc \<and> tc_fd tc = fd \<and> rx_channels v cc = Some ch \<and>
        conn_channel a ch \<and> ch_revents ch = ev)"

lemma handlingE:
  assumes "handling si n ev fd a cc cs ds w closed v"
  obtains tc ch where "nx_conns v a = Some tc" "tc_channel tc = cc" "tc_fd tc = fd" "rx_channels v cc = Some ch"
    "conn_channel a ch" "ch_revents ch = ev" "\<And>b. b \<noteq> a \<Longrightarrow> nx_conns v b = nx_conns w b"
    "\<And>d. d \<noteq> cc \<Longrightarrow> rx_channels v d = rx_channels w d"
  using assms unfolding handling_def by blast

lemma handling_mono: "handling si n ev fd a cc cs ds w closed v \<Longrightarrow> n \<le> n' \<Longrightarrow> handling si n' ev fd a cc cs ds w closed v"
  unfolding handling_def by (auto intro: run_inv_mono)

lemma handling_close:
  fixes v :: "(echo_cb, 'z) server_net_scheme"
  assumes H: "handling si n ev fd a cc cs ds w False v" and a: "(fd, a) \<in> set cs"
    and u: "u = run_user (EchoServer_callbacks k (si_tid si) p) (si_tid si)"
  shows "\<exists>v'. TcpConnection_handle_close u (si_tid si) a v = Inr v' \<and> handling si n ev fd a cc cs ds w True v'"
proof -
  from H have R: "run_inv si n (Some cc) cs ds [] (map Connect_destoryed ds) v" by (simp add: handling_def)
  from H obtain tc ch where h: "nx_conns v a = Some tc" "tc_channel tc = cc" "tc_fd tc = fd" "rx_channels v cc = Some ch"
    "conn_channel a ch" "ch_revents ch = ev" "\<And>b. b \<noteq> a \<Longrightarrow> nx_conns v b = nx_conns w b"
    "\<And>d. d \<noteq> cc \<Longrightarrow> rx_channels v d = rx_channels w d" by (rule handlingE) blast
  from run_inv_close [OF R a u] h(1,2,4) obtain v' where
    v': "TcpConnection_handle_close u (si_tid si) a v = Inr v'"
    "run_inv si n (Some cc) (filter (\<lambda>x. fst x \<noteq> fd) cs) (ds @ [a]) [] (map Connect_destoryed (ds @ [a])) v'"
    "nx_conns v' = (nx_conns v)(a \<mapsto> tc\<lparr>tc_state := kDisconnected\<rparr>)"
    "rx_channels v' = (rx_channels v)(cc \<mapsto> ch\<lparr>ch_events := kNoneEvent, ch_added_to_loop := True, ch_index := kDeleted\<rparr>)"
    by auto
  then show ?thesis using h by (intro exI [of _ v']) (simp add: handling_def conn_channel_def)
qed

lemma handling_served:
  fixes v :: "(echo_cb, 'z) server_net_scheme"
  assumes H: "handling si n ev fd a cc cs ds w False v" and a: "(fd, a) \<in> set cs" and n: "n \<le> n'"
    and s: "served (si_server si) (si_loop si) (si_tid si) n' fd a cc v v'"
  shows "handling si n' ev fd a cc cs ds w False v'"
proof -
  from H have R: "run_inv si n (Some cc) cs ds [] (map Connect_destoryed ds) v" by (simp add: handling_def)
  from H obtain tc ch where h: "nx_conns v a = Some tc" "tc_channel tc = cc" "tc_fd tc = fd" "rx_channels v cc = Some ch"
    "conn_channel a ch" "ch_revents ch = ev" "\<And>b. b \<noteq> a \<Longrightarrow> nx_conns v b = nx_conns w b"
    "\<And>d. d \<noteq> cc \<Longrightarrow> rx_channels v d = rx_channels w d" by (rule handlingE) blast
  from run_inv_served [OF R a h(1) n] s h(2) obtain tc' where
    r: "run_inv si n' (Some cc) cs ds [] (map Connect_destoryed ds) v'" "nx_conns v' a = Some tc'" "conn_core tc' = conn_core tc" by auto
  from s have core: "net_core v' = net_core v" and o: "others a cc v' = others a cc v" by (simp_all add: served_def local_step_def)
  from core_channel [OF core h(4)] obtain ch' where ch': "rx_channels v' cc = Some ch'" "chan_core ch' = chan_core ch" by blast
  show ?thesis
    using r(1,2) ch'(1) conn_coreD [OF r(3)] chan_coreD(5) [OF ch'(2)] conn_channel_core [OF ch'(2), of a] h othersD(1,2) [OF o]
    by (simp add: handling_def)
qed

text \<open>The server on one loop hosts its connections.\<close>

interpretation run_host: conn_host "\<lambda>n c v. (fd, a) \<in> set cs \<and> handling si n ev fd a cc cs ds w c v"
    "si_server si" "si_loop si" "si_tid si" fd a cc ev k p
  for si ev fd a cc cs ds and w :: "(echo_cb, 'z) server_net_scheme" and k p
proof (unfold_locales, goal_cases)
  case (1 n v)
  then show ?case using run_conn [of si n "Some cc" cs ds "[]" _ v fd a] by (auto simp: handling_def)
next
  case (2 n v n' v')
  then show ?case using handling_served by blast
next
  case (3 n v)
  then show ?case using handling_close [OF _ _ refl] by blast
next
  case (4 n v)
  then show ?case by (auto simp: handling_def run_inv_def conns_inv_def)
next
  case (5 n c v)
  then show ?case by (auto simp: handling_def)
next
  case (6 n c v)
  then show ?case unfolding handling_def by (simp add: run_inv_getsockopt split: if_splits)
next
  case (7 n c v n')
  then show ?case using handling_mono by blast
qed

text \<open>The marks of one channel.\<close>

lemma run_inv_put_channel:
  fixes w :: "(echo_cb, 'z) server_net_scheme"
  assumes R: "run_inv si n cur cs ds gs fs w" and d: "rx_channels w d = Some ch" "same_marks ch' ch"
    and m: "marks cur' (put_channel d ch' w)"
  shows "run_inv si n cur' cs ds gs fs (put_channel d ch' w)"
proof -
  from run_invD(5) [OF R] obtain el where el: "rx_loops w (si_loop si) = Some el" "loop_ok si fs el" by blast
  have "rel_option same_marks (rx_channels (put_channel d ch' w) x) (rx_channels w x)" for x
    using d by (cases "rx_channels w x") auto
  with el show ?thesis by (intro run_inv_remark [OF R el(1) _ _ _ _ _ _ refl refl el(2) m le_refl]) (auto simp: fun_upd_idem)
qed

lemma conn_event:
  fixes w :: "(echo_cb, 'z) server_net_scheme"
  assumes k: "kernel_ok k" "small_reads k" and R: "run_inv si n None cs ds [] (map Connect_destoryed ds) w"
    and a: "(fd, a) \<in> set cs" "nx_conns w a = Some tc" "tc_channel tc = cc" and ch: "rx_channels w cc = Some ch" "event_ok (ch_revents ch)"
    and max: "8 + Suc n * kExtraBuf \<le> vector_max_size"
    and run: "run = run_chan_cb k fresh (EchoServer_callbacks k (si_tid si) p) (si_tid si)"
  shows "\<exists>w' cs' ds'. Channel_handle_event conn_alive run (get_channel cc) (upd_channel cc) w = Inr w' \<and>
    run_inv si (Suc n) None cs' ds' [] (map Connect_destoryed ds') w' \<and> (\<forall>b. b \<noteq> a \<longrightarrow> nx_conns w' b = nx_conns w b) \<and>
    (\<forall>d. d \<noteq> cc \<longrightarrow> rx_channels w' d = rx_channels w d) \<and> (\<forall>x \<in> set cs. snd x \<noteq> a \<longrightarrow> x \<in> set cs')"
proof -
  note D = run_invD [OF R]
  from run_conn [OF R a(1)] a(2,3) ch(1) have cch: "conn_channel a ch" "tc_fd tc = fd"
    by (auto simp: echo_conn_def conn_base_def echo_state_def)
  let ?ev = "ch_revents ch" and ?w1 = "put_channel cc (ch\<lparr>ch_event_handling := True\<rparr>) w"
  have "marks (Some cc) ?w1" using D(8) by (auto simp: marks_def)
  from run_inv_put_channel [OF R ch(1) _ this] have H: "handling si n ?ev fd a cc cs ds w False ?w1"
    using a cch by (simp add: handling_def conn_channel_def)
  then have "(fd, a) \<in> set cs \<and> handling si n ?ev fd a cc cs ds w False ?w1" using a(1) by simp
  from run_host.host_event [OF k max ch(2) run ch(1) this] obtain w5 c5 ch5 where
    h: "Channel_handle_event conn_alive run (get_channel cc) (upd_channel cc) w = Inr (put_channel cc (ch5\<lparr>ch_event_handling := False\<rparr>) w5)"
    "rx_channels w5 cc = Some ch5" "handling si (Suc n) ?ev fd a cc cs ds w c5 w5" by blast
  from h(3) obtain tc5 ch5' where g5: "\<And>b. b \<noteq> a \<Longrightarrow> nx_conns w5 b = nx_conns w b"
    "\<And>d. d \<noteq> cc \<Longrightarrow> rx_channels w5 d = rx_channels w d" by (rule handlingE) blast
  let ?w' = "put_channel cc (ch5\<lparr>ch_event_handling := False\<rparr>) w5"
  have "\<exists>cs' ds'. run_inv si (Suc n) (Some cc) cs' ds' [] (map Connect_destoryed ds') w5 \<and>
      (\<forall>x \<in> set cs. snd x \<noteq> a \<longrightarrow> x \<in> set cs')"
  proof (cases c5)
    case True
    have "x \<in> set (filter (\<lambda>x. fst x \<noteq> fd) cs)" if "x \<in> set cs" "snd x \<noteq> a" for x
      using erase_entry(1) [OF _ _ a(1)] that D(4) by (auto simp: conns_inv_def)
    with h(3) True show ?thesis
      by (intro exI [of _ "filter (\<lambda>x. fst x \<noteq> fd) cs"] exI [of _ "ds @ [a]"]) (auto simp: handling_def)
  qed (use h(3) in \<open>auto simp: handling_def\<close>)
  then obtain cs' ds' where R5: "run_inv si (Suc n) (Some cc) cs' ds' [] (map Connect_destoryed ds') w5"
    "\<forall>x \<in> set cs. snd x \<noteq> a \<longrightarrow> x \<in> set cs'" by blast
  have "marks None ?w'" using run_invD(8) [OF R5(1)] by (auto simp: marks_def)
  from run_inv_put_channel [OF R5(1) h(2) _ this] have "run_inv si (Suc n) None cs' ds' [] (map Connect_destoryed ds') ?w'" by simp
  with h(1) show ?thesis using R5(2) g5 by (intro exI [of _ ?w'] exI [of _ cs'] exI [of _ ds']) simp
qed

section \<open>Accepting\<close>

text \<open>The kernel hands out descriptors that are not open, and every failure of \<open>accept4\<close> is
  one that the server logs; the allocator hands out addresses that are not in use.\<close>

definition accepts_ok :: "kernel \<Rightarrow> int \<Rightarrow> int \<Rightarrow> bool" where
  "accepts_ok k lfd wfd \<longleftrightarrow> (\<forall>tr. case k_accept4 k tr lfd of
       Io_error e \<Rightarrow> accept_logged e | Io_ok (fd, peer) \<Rightarrow> fd \<notin> open_fds tr \<and> fd \<noteq> wfd)"

definition fresh_ok :: "(('u, 'z) net_scheme \<Rightarrow> addr \<times> addr) \<Rightarrow> bool" where
  "fresh_ok fresh \<longleftrightarrow> (\<forall>w. finite (dom (nx_conns w)) \<longrightarrow> finite (dom (rx_channels w)) \<longrightarrow>
     nx_conns w (fst (fresh w)) = None \<and> rx_channels w (snd (fresh w)) = None)"

lemma shape_insert:
  assumes sh: "shape si w" and new: "nx_conns w a = None" "rx_channels w cc = None" "fd \<notin> open_fds (nx_trace w)" "fd \<noteq> si_wfd si"
    and w': "nx_conns w' = (nx_conns w)(a \<mapsto> tc)" "rx_channels w' = (rx_channels w)(cc \<mapsto> ch)"
      "open_fds (nx_trace w') = insert fd (open_fds (nx_trace w))"
    and tc: "tc_channel tc = cc" "tc_fd tc = fd" "ch_fd ch = fd"
  shows "shape si w'"
proof -
  have "fd \<notin> ran [si_wake si \<mapsto> si_wfd si, si_listen si \<mapsto> si_lfd si]"
    using new(3,4) shapeD(10) [OF sh] unfolding shape_layout(3) [OF sh] by auto
  from layout_insert [OF shape_layout(1) [OF sh] new(1-3) this w' tc] sh show ?thesis by (simp add: shape_def)
qed

lemma connect_established_others:
  fixes w :: "(echo_cb, 'z) server_net_scheme"
  assumes "TcpConnection_connect_established (run_user (EchoServer_callbacks k t p) t) t a w = Inr w'"
    and "nx_conns w a = Some tc" and "tc_connection_callback tc = Some (User Handle_connect)"
  shows "others a (tc_channel tc) w' = others a (tc_channel tc) w"
  using assms by (auto simp: TcpConnection_connect_established_def upd_channel_def Channel_enable_reading_def bindE_Inr_iff
      call_user_def run_user_def EchoServer_callbacks_def EchoServer_handle_connect_def dest!: set_events_others [where a = a])

text \<open>An accepted connection, established: what is new in the store.\<close>

lemma established_conn:
  fixes w :: "(echo_cb, 'z) server_net_scheme"
  assumes fresh: "conn_fresh a tc ch el w" and t: "el_tid el = t" and cbs: "echo_cbs s tc"
    and buf: "Buffer_new kInitialSize = Inr (tc_input_buffer tc)" "tc_output_buffer tc = tc_input_buffer tc"
    and cb: "ch_read_callback ch = Some (Conn_read a)" "ch_write_callback ch = Some (Conn_write a)"
      "ch_close_callback ch = Some (Conn_close a)" "ch_error_callback ch = Some (Conn_error a)" "\<not> ch_event_handling ch"
    and fd: "tc_socket tc = tc_fd tc" "echoed (tc_fd tc) (nx_trace w) []"
  shows "\<exists>w' tc' ch' el'. TcpConnection_connect_established (run_user (EchoServer_callbacks k t p) t) t a w = Inr w' \<and>
    echo_conn s (tc_loop tc) t n (tc_fd tc) a w' \<and> others a (tc_channel tc) w' = others a (tc_channel tc) w \<and>
    nx_conns w' a = Some tc' \<and> tc_fd tc' = tc_fd tc \<and> tc_channel tc' = tc_channel tc \<and>
    rx_channels w' (tc_channel tc) = Some ch' \<and> ch_fd ch' = tc_fd tc \<and> \<not> ch_event_handling ch' \<and>
    rx_loops w' (tc_loop tc) = Some el' \<and> loop_core el' = loop_core el \<and> nx_trace w' = nx_trace w"
proof -
  let ?u = "run_user (EchoServer_callbacks k t p) t" and ?tc = "tc\<lparr>tc_state := kConnected\<rparr>"
  have tcb: "tc_connection_callback tc = Some (User Handle_connect)" "echo_cbs s tc"
    using cbs by (simp_all add: echo_cbs_def)
  have F: "nx_conns w a = Some tc" "rx_channels w (tc_channel tc) = Some ch" "ch_fd ch = tc_fd tc" "nb_contents (tc_output_buffer tc) = []"
    "rx_loops w (tc_loop tc) = Some el" using fresh by (simp_all add: conn_fresh_def)
  from connect_established_ok [OF fresh t [symmetric], of ?u] tcb(1) obtain w1 ch1 el1 where
    w1: "TcpConnection_connect_established ?u t a w = EchoServer_handle_connect a w1" "conn_base a ?tc ch1 el1 w1" "conn_live ?tc ch1"
    "ch1 = ch\<lparr>ch_tie := Some a, ch_tied := True, ch_events := kReadEvent, ch_added_to_loop := True, ch_index := ch_index ch1\<rparr>"
    "el1 = el\<lparr>el_poller := el_poller el1\<rparr>" "nx_trace w1 = nx_trace w" "Channel_is_reading ch1"
    by (auto simp: call_user_def run_user_def EchoServer_callbacks_def)
  note B = conn_baseD [OF w1(2)]
  have run: "TcpConnection_connect_established ?u t a w = Inr w1" using w1(1) B(2) by (simp add: EchoServer_handle_connect_def)
  have "ch_read_callback ch1 = ch_read_callback ch" "ch_write_callback ch1 = ch_write_callback ch" "ch_close_callback ch1 = ch_close_callback ch"
    "ch_error_callback ch1 = ch_error_callback ch" "ch_event_handling ch1 = ch_event_handling ch" "ch_tied ch1" "ch_tie ch1 = Some a"
    by (subst w1(4), simp)+
  then have c1: "conn_channel a ch1" "\<not> ch_event_handling ch1" using cb by (simp_all add: conn_channel_def)
  have tid: "el_tid el1 = t" using t by (subst w1(5)) simp
  have dr: "drained (tc_input_buffer tc)" by (rule new_buffer_drained [OF buf(1)])
  then have "echo_state s n a ?tc ch1 (nx_trace w1)"
    using w1(3,6,7) tcb(2) c1(1) fd buf(2) F(4) by (simp add: echo_state_def echo_cbs_def drained_def)
  then have E: "echo_conn s (tc_loop tc) t n (tc_fd tc) a w1" by (intro echo_connI [OF w1(2) tid]) simp_all
  have "net_core w1 = net_core (put_channel (tc_channel tc) (Channel_tie a ch) (put_conn a (TcpConnection_set_state kConnected tc) w))"
    by (rule connect_established_core [OF run F(1,2)])
      (simp add: tcb(1) call_user_def run_user_def EchoServer_callbacks_def EchoServer_handle_connect_def bindE_Inr_iff)
  from core_loop [OF this, of "tc_loop tc" el] F(5) B(4) have "loop_core el1 = loop_core el" by auto
  then show ?thesis
    using run E connect_established_others [OF run F(1) tcb(1)] B c1(2) w1(6) F(3)
    by (intro exI [of _ w1] exI [of _ ?tc] exI [of _ ch1] exI [of _ el1]) simp
qed

text \<open>A descriptor that is not open is free in the poller and in the map.\<close>

lemma conn_open: "shape si w \<Longrightarrow> nx_conns w a = Some tc \<Longrightarrow> tc_fd tc \<in> open_fds (nx_trace w)"
  by (rule layout_open [OF shape_layout(1)])

lemma run_fd_free:
  assumes R: "run_inv si n cur cs ds gs fs w" and fd: "fd \<notin> open_fds (nx_trace w)" "fd \<noteq> si_wfd si"
    and el: "rx_loops w (si_loop si) = Some el"
  shows "ep_channels (el_poller el) fd = None" "map_of cs fd = None"
proof -
  note D = run_invD [OF R]
  have "fd \<notin> ran [si_wake si \<mapsto> si_wfd si, si_listen si \<mapsto> si_lfd si]"
    using fd shapeD(10) [OF D(2)] unfolding shape_layout(3) [OF D(2)] by auto
  then show "ep_channels (el_poller el) fd = None" by (rule layout_free [OF shape_layout(1) [OF D(2)] D(1) el fd(1)])
  have "fd \<notin> fst ` set cs" using run_conn_fd [OF R] conn_open [OF D(2)] fd(1) by fastforce
  then show "map_of cs fd = None" by (simp add: map_of_eq_None_iff)
qed

lemma open_finite:
  assumes "shape si w"
  shows "finite (dom (nx_conns w))" "finite (dom (rx_channels w))"
  using layout_finite [OF shape_layout(1) [OF assms]] by simp_all

lemma server_ok_grow:
  assumes "server_ok si cs w" and "nx_servers w (si_server si) = Some ts" and "nx_servers w' (si_server si) = Some ts'"
    and "same_setup ts' ts" and "pool_inv (ts_threadpool ts')" and "pool_loops (ts_threadpool ts') = pool_loops (ts_threadpool ts)"
    and "nx_acceptors w' = nx_acceptors w" and "rx_channels w' (si_listen si) = rx_channels w (si_listen si)"
  shows "server_ok si (ts_connections ts') w'"
  using assms by (auto simp: server_ok_def server_up_def same_setup_def)

lemma distinct_insort_snd:
  "distinct (map snd xs) \<Longrightarrow> a \<notin> snd ` set xs \<Longrightarrow> distinct (map snd (insort_key fst (k, a) xs))"
  by (induction xs) (auto simp: set_insort_key)

lemma run_inv_new:
  fixes w w' :: "(echo_cb, 'z) server_net_scheme"
  assumes R: "run_inv si n cur cs ds [] fs w" and fd: "fd \<notin> open_fds (nx_trace w)" "fd \<noteq> si_wfd si"
    and new: "nx_conns w a = None" "rx_channels w cc = None" and cur: "cur \<noteq> Some cc"
    and E: "echo_conn (si_server si) (si_loop si) (si_tid si) n fd a w'"
    and tc: "nx_conns w' a = Some tc" "tc_fd tc = fd" "tc_channel tc = cc"
    and ch: "rx_channels w' cc = Some ch" "ch_fd ch = fd" "\<not> ch_event_handling ch"
    and rest: "\<And>b. b \<noteq> a \<Longrightarrow> nx_conns w' b = nx_conns w b" "\<And>d. d \<noteq> cc \<Longrightarrow> rx_channels w' d = rx_channels w d"
    and el: "rx_loops w' (si_loop si) = Some el" "loop_ok si fs el" and srv: "server_ok si (insort_key fst (fd, a) cs) w'"
    and tr: "nx_trace w' = nx_trace w @ [Sys_accept4 lfd (Io_ok (fd, peer)), Sys_setsockopt fd SOL_SOCKET SO_KEEPALIVE 1]"
  shows "run_inv si n cur (insort_key fst (fd, a) cs) ds [] fs w'"
proof -
  note D = run_invD [OF R]
  let ?cs = "insort_key fst (fd, a) cs"
  have W: "nx_conns w' = (nx_conns w)(a \<mapsto> tc)" "rx_channels w' = (rx_channels w)(cc \<mapsto> ch)"
    using tc(1) ch(1) rest by (auto simp: fun_eq_iff)
  have "open_fds ((nx_trace w @ [Sys_accept4 lfd (Io_ok (fd, peer))]) @ [Sys_setsockopt fd SOL_SOCKET SO_KEEPALIVE 1]) =
      insert fd (open_fds (nx_trace w))" by (simp del: append_assoc)
  then have op: "open_fds (nx_trace w') = insert fd (open_fds (nx_trace w))" by (simp add: tr)
  have sh: "shape si w'" by (rule shape_insert [OF D(2) new fd W op tc(3,2) ch(2)])
  have inv: "rx_inv w'" using E by (auto simp: echo_conn_def conn_base_def)
  have nofd: "fd' \<noteq> fd" if "(fd', b) \<in> set cs" for fd' b
    using run_conn_fd [OF R that] conn_open [OF D(2)] fd(1) by auto
  have an: "a \<notin> snd ` set cs \<union> set ds" using D(4) new(1) by (auto simp: conns_inv_def)
  then have ac: "(f, a) \<notin> set cs" for f by force
  have kept: "conn_kept b (si_loop si) (si_tid si) w w'" if "b \<noteq> a" for b
    using inv el rest(1) [OF that] W(2) new(2) by (auto simp: conn_kept_def loop_ok_def)
  have "distinct (map fst cs)" "distinct (map snd cs @ ds)" "sorted (map fst cs)" "dom (nx_conns w) = snd ` set cs \<union> set ds"
    using D(4) by (auto simp: conns_inv_def)
  moreover have "distinct (map snd ?cs)" using \<open>distinct (map snd cs @ ds)\<close> an
    by (intro distinct_insort_snd) simp_all
  moreover have "fd \<notin> fst ` set cs" using nofd by force
  ultimately have "conns_inv si n ?cs ds [] w'"
    by (intro conns_inv_change [OF D(4) _ _ _ _ kept tr, where a = a])
      (use an ac E nofd distinct_insort_fst in \<open>auto simp: W set_insort_key sorted_insort_key quiet_def\<close>)
  moreover have "marks cur w'" using D(8) cur ch(3) by (auto simp: marks_def W)
  moreover have "si_wake si \<noteq> cc" "si_listen si \<noteq> cc" using shapeD(8,9) [OF D(2)] new(2) by (auto simp: chan_fd_def)
  ultimately show ?thesis using inv sh el srv D(6,7) by (auto simp: run_inv_def plain_at_def W)
qed

lemma run_new_connection:
  fixes w :: "(echo_cb, 'z) server_net_scheme"
  assumes R: "run_inv si n cur cs ds [] fs w" and fd: "fd \<notin> open_fds (nx_trace w)" "fd \<noteq> si_wfd si" "0 \<le> fd"
    and new: "nx_conns w a = None" "rx_channels w cc = None" and cur: "cur \<noteq> Some cc"
    and w0: "w0 = w\<lparr>nx_trace := nx_trace w @ [Sys_accept4 lfd (Io_ok (fd, peer))]\<rparr>"
    and u: "u = run_user (EchoServer_callbacks k (si_tid si) p) (si_tid si)"
  shows "\<exists>w'. TcpServer_new_connection u (si_tid si) (si_server si) a cc fd peer w0 = Inr w' \<and>
    run_inv si n cur (insort_key fst (fd, a) cs) ds [] fs w' \<and>
    (\<forall>b. b \<noteq> a \<longrightarrow> nx_conns w' b = nx_conns w b) \<and> (\<forall>d. d \<noteq> cc \<longrightarrow> rx_channels w' d = rx_channels w d) \<and>
    (\<exists>tc. nx_conns w' a = Some tc \<and> tc_channel tc = cc)"
proof -
  note D = run_invD [OF R]
  let ?l = "si_loop si" and ?t = "si_tid si" and ?s = "si_server si"
  obtain el where el: "rx_loops w ?l = Some el" "loop_ok si fs el" using D(5) by blast
  obtain ts where ts: "nx_servers w ?s = Some ts" "ts_loop ts = ?l" "ts_connections ts = cs" "tp_base_loop (ts_threadpool ts) = ?l"
    "pool_inv (ts_threadpool ts)" "pool_loops (ts_threadpool ts) = [?l]" "ts_connection_callback ts = Some Handle_connect"
    "ts_message_callback ts = Some Handle_message" "ts_write_complete_callback ts = None"
    using D(3) by (auto simp: server_ok_def server_up_def)
  have at: "pool_at (ts_threadpool ts) = 0" using ts(5,6) thread_pool.pick_ok [OF ts(5)] by (auto simp: pool_inv_def pool_at_def pool_loops_def)
  have tid: "el_tid el = ?t" using el(2) by (simp add: loop_ok_def)
  note free = run_fd_free [OF R fd(1,2) el(1)]
  have pre: "rx_inv w0" "nx_servers w0 ?s = Some ts" "conns_ok (ts_connections ts) w0" "tp_base_loop (ts_threadpool ts) = ts_loop ts"
    "rx_loops w0 (ts_loop ts) = Some el" "rx_loops w0 (pool_loops (ts_threadpool ts) ! pool_at (ts_threadpool ts)) = Some el"
    "map_of (ts_connections ts) fd = None" "fd \<noteq> - 1" "nx_conns w0 a = None" "rx_channels w0 cc = None"
    using D(1) ts el(1) run_conns_ok [OF R] free(2) fd(3) new at by (simp_all add: w0 conns_ok_def)
  from new_connection_ok [OF pre(1,2,3) ts(5) pre(4,5) tid pre(6) free(1) pre(7-10), of peer u] tid ts(3,6) at obtain w2 ts2 tc ch where
    w2: "nx_servers w2 ?s = Some ts2" "ts_connections ts2 = insort_key fst (fd, a) cs" "pool_inv (ts_threadpool ts2)"
    "pool_loops (ts_threadpool ts2) = pool_loops (ts_threadpool ts)" "same_setup ts2 ts" "conn_fresh a tc ch el w2" "installed ?s ts tc"
    "tc_fd tc = fd" "tc_socket tc = fd" "tc_channel tc = cc" "tc_loop tc = ?l"
    "nx_trace w2 = nx_trace w0 @ [Sys_setsockopt fd SOL_SOCKET SO_KEEPALIVE 1]"
    "Buffer_new kInitialSize = Inr (tc_input_buffer tc)" "tc_output_buffer tc = tc_input_buffer tc"
    "rx_channels w2 = (rx_channels w0)(cc \<mapsto> ch)" "rx_loops w2 = rx_loops w0" "nx_conns w2 = (nx_conns w0)(a \<mapsto> tc)"
    "nx_acceptors w2 = nx_acceptors w0" "ch_read_callback ch = Some (Conn_read a)" "ch_write_callback ch = Some (Conn_write a)"
    "ch_close_callback ch = Some (Conn_close a)" "ch_error_callback ch = Some (Conn_error a)" "\<not> ch_event_handling ch"
    and run: "TcpServer_new_connection u ?t ?s a cc fd peer w0 = TcpConnection_connect_established u ?t a w2"
    by (elim exE conjE) (rule that; simp)
  have "echoed fd ((nx_trace w @ [Sys_accept4 lfd (Io_ok (fd, peer))]) @ [Sys_setsockopt fd SOL_SOCKET SO_KEEPALIVE 1]) []"
    by (intro echoed_quiet echoed_accept) (simp_all add: quiet_def)
  then have ech: "echoed (tc_fd tc) (nx_trace w2) []" by (simp add: w2(8,12) w0)
  have cbs: "echo_cbs ?s tc" using w2(7) ts(7-9) by (simp add: installed_def echo_cbs_def)
  from established_conn [OF w2(6) tid cbs w2(13,14,19-23) _ ech, of k p n] w2(8-11) u obtain w' tc' ch' el' where
    w': "TcpConnection_connect_established u ?t a w2 = Inr w'" "echo_conn ?s ?l ?t n fd a w'" "others a cc w' = others a cc w2"
    "nx_conns w' a = Some tc'" "tc_fd tc' = fd" "tc_channel tc' = cc" "rx_channels w' cc = Some ch'" "ch_fd ch' = fd"
    "\<not> ch_event_handling ch'" "rx_loops w' ?l = Some el'" "loop_core el' = loop_core el" "nx_trace w' = nx_trace w2" by auto
  note O = othersD [OF w'(3)]
  have rest: "\<And>b. b \<noteq> a \<Longrightarrow> nx_conns w' b = nx_conns w b" "\<And>d. d \<noteq> cc \<Longrightarrow> rx_channels w' d = rx_channels w d"
    "nx_servers w' ?s = Some ts2" "nx_acceptors w' = nx_acceptors w" using O w2(1,15,17,18) by (simp_all add: w0)
  have "cc \<noteq> si_listen si" using shapeD(9) [OF D(2)] new(2) by (auto simp: chan_fd_def)
  then have "server_ok si (insort_key fst (fd, a) cs) w'"
    using server_ok_grow [OF D(3) ts(1) rest(3) w2(5,3,4) rest(4) rest(2)] w2(2) by auto
  moreover have "loop_ok si fs el'" using el(2) loop_coreD [OF w'(11)] by (simp add: loop_ok_def)
  moreover have "nx_trace w' = nx_trace w @ [Sys_accept4 lfd (Io_ok (fd, peer)), Sys_setsockopt fd SOL_SOCKET SO_KEEPALIVE 1]"
    using w'(12) w2(12) by (simp add: w0)
  ultimately have "run_inv si n cur (insort_key fst (fd, a) cs) ds [] fs w'"
    using run_inv_new [OF R fd(1,2) new cur w'(2,4-9) rest(1,2) w'(10)] by blast
  then show ?thesis using run w' rest by auto
qed

lemma run_inv_accept:
  fixes w :: "(echo_cb, 'z) server_net_scheme"
  assumes k: "kernel_ok k" "accepts_ok k (si_lfd si) (si_wfd si)" and al: "fresh_ok fresh"
    and R: "run_inv si n cur cs ds [] fs w" and cur: "\<And>d. cur = Some d \<Longrightarrow> rx_channels w d \<noteq> None"
  shows "\<exists>w' cs'. run_chan_cb k fresh (EchoServer_callbacks k (si_tid si) p) (si_tid si) (Accept_read (si_acceptor si)) w = Inr w' \<and>
    run_inv si n cur cs' ds [] fs w' \<and> set cs \<subseteq> set cs' \<and>
    (\<forall>b. nx_conns w b \<noteq> None \<longrightarrow> nx_conns w' b = nx_conns w b) \<and>
    (\<forall>d. rx_channels w d \<noteq> None \<longrightarrow> rx_channels w' d = rx_channels w d)"
proof -
  note D = run_invD [OF R]
  let ?t = "si_tid si" and ?lfd = "si_lfd si"
  let ?u = "run_user (EchoServer_callbacks k ?t p) ?t" and ?r = "k_accept4 k (nx_trace w) ?lfd"
  let ?w0 = "w\<lparr>nx_trace := nx_trace w @ [Sys_accept4 ?lfd ?r]\<rparr>"
  obtain el where el: "rx_loops w (si_loop si) = Some el" "el_tid el = ?t" using D(5) by (auto simp: loop_ok_def)
  have ac: "nx_acceptors w (si_acceptor si) = Some \<lparr>ac_loop = si_loop si, ac_listening = True, ac_socket = ?lfd, ac_channel = si_listen si,
      ac_new_connection_callback = Some (si_server si)\<rparr>" using D(3) by (auto simp: server_ok_def server_up_def)
  show ?thesis
  proof (cases ?r)
    case (Io_error e)
    then have "accept_logged e" using k(2) by (auto simp: accepts_ok_def dest: spec [of _ "nx_trace w"])
    with Io_error have "run_chan_cb k fresh (EchoServer_callbacks k ?t p) ?t (Accept_read (si_acceptor si)) w = Inr ?w0"
      using ac el by (simp add: run_chan_cb_def Acceptor_handle_read_def assert_in_loop_def EventLoop_is_in_loop_thread_def
          Socket_accept_def Let_def)
    moreover have "run_inv si n cur cs ds [] fs ?w0" by (rule run_inv_call [OF R]) (simp_all add: Io_error quiet_def)
    ultimately show ?thesis by (intro exI [of _ ?w0] exI [of _ cs]) simp
  next
    case (Io_ok x)
    obtain fd peer where x: "x = (fd, peer)" by (cases x)
    have fd: "fd \<notin> open_fds (nx_trace w)" "fd \<noteq> si_wfd si" "0 \<le> fd"
      using k(2) Io_ok x kernel_okD(3) [OF k(1)] by (auto simp: accepts_ok_def dest: spec [of _ "nx_trace w"])
    let ?a = "fst (fresh ?w0)" and ?cc = "snd (fresh ?w0)"
    have "nx_conns ?w0 ?a = None \<and> rx_channels ?w0 ?cc = None"
      using al [unfolded fresh_ok_def, rule_format, of ?w0] open_finite [OF D(2)] by simp
    then have new: "nx_conns w ?a = None" "rx_channels w ?cc = None" by simp_all
    with cur have "cur \<noteq> Some ?cc" by blast
    from run_new_connection [OF R fd new this, of ?w0 ?lfd peer ?u k p] Io_ok x obtain w' where
      w': "TcpServer_new_connection ?u ?t (si_server si) ?a ?cc fd peer ?w0 = Inr w'"
      "run_inv si n cur (insort_key fst (fd, ?a) cs) ds [] fs w'" "\<forall>b. b \<noteq> ?a \<longrightarrow> nx_conns w' b = nx_conns w b"
      "\<forall>d. d \<noteq> ?cc \<longrightarrow> rx_channels w' d = rx_channels w d" by auto
    have "run_chan_cb k fresh (EchoServer_callbacks k ?t p) ?t (Accept_read (si_acceptor si)) w = Inr w'"
      using ac el w'(1) Io_ok x fd(3) by (simp add: run_chan_cb_def Acceptor_handle_read_def assert_in_loop_def
          EventLoop_is_in_loop_thread_def Socket_accept_def Let_def)
    moreover have "set cs \<subseteq> set (insort_key fst (fd, ?a) cs)" by (auto simp: set_insort_key)
    moreover have "b \<noteq> ?a" if "nx_conns w b \<noteq> None" for b using that new(1) by metis
    moreover have "d \<noteq> ?cc" if "rx_channels w d \<noteq> None" for d using that new(2) by metis
    ultimately show ?thesis using w'(2,3,4) by blast
  qed
qed

section \<open>The events of the wake-up channel and of the acceptor\<close>

lemma plain_event:
  fixes w :: "(echo_cb, 'z) server_net_scheme"
  assumes R: "run_inv si n None cs ds [] fs w" and d: "rx_channels w d = Some ch" "plain_chan cb ch"
    and step: "\<And>v. run_inv si n (Some d) cs ds [] fs v \<Longrightarrow> rx_channels v d \<noteq> None \<Longrightarrow>
      \<exists>v' cs'. run cb v = Inr v' \<and> run_inv si n (Some d) cs' ds [] fs v' \<and> set cs \<subseteq> set cs' \<and>
        (\<forall>b. nx_conns v b \<noteq> None \<longrightarrow> nx_conns v' b = nx_conns v b) \<and>
        (\<forall>x. rx_channels v x \<noteq> None \<longrightarrow> rx_channels v' x = rx_channels v x)"
  shows "\<exists>w' cs'. Channel_handle_event conn_alive run (get_channel d) (upd_channel d) w = Inr w' \<and>
    run_inv si n None cs' ds [] fs w' \<and> set cs \<subseteq> set cs' \<and>
    (\<forall>b. nx_conns w b \<noteq> None \<longrightarrow> nx_conns w' b = nx_conns w b) \<and>
    (\<forall>x. x \<noteq> d \<longrightarrow> rx_channels w x \<noteq> None \<longrightarrow> rx_channels w' x = rx_channels w x)"
proof -
  let ?ch1 = "ch\<lparr>ch_event_handling := True\<rparr>" and ?in = "truth (ch_revents ch AND (EPOLLIN OR EPOLLPRI OR EPOLLRDHUP))"
  let ?w1 = "put_channel d ?ch1 w"
  have "marks (Some d) ?w1" using run_invD(8) [OF R] by (auto simp: marks_def)
  from run_inv_put_channel [OF R d(1) _ this] have R1: "run_inv si n (Some d) cs ds [] fs ?w1" by simp
  obtain w2 cs' where w2: "(if ?in then run cb ?w1 else Inr ?w1) = Inr w2" "run_inv si n (Some d) cs' ds [] fs w2" "set cs \<subseteq> set cs'"
    "\<forall>b. nx_conns w b \<noteq> None \<longrightarrow> nx_conns w2 b = nx_conns w b" "\<forall>x. rx_channels ?w1 x \<noteq> None \<longrightarrow> rx_channels w2 x = rx_channels ?w1 x"
  proof (cases ?in)
    case True
    with step [OF R1] that show ?thesis by auto
  next
    case False
    with R1 that show ?thesis by auto
  qed
  have d2: "rx_channels w2 d = Some ?ch1" using w2(5) by simp
  let ?w' = "put_channel d (ch\<lparr>ch_event_handling := False\<rparr>) w2"
  have "same_marks (ch\<lparr>ch_event_handling := False\<rparr>) ?ch1" unfolding same_marks_def by (intro exI [of _ "ch_revents ch"] exI [of _ False]) simp
  moreover have "marks None ?w'" using run_invD(8) [OF w2(2)] by (auto simp: marks_def)
  ultimately have "run_inv si n None cs' ds [] fs ?w'" by (rule run_inv_put_channel [OF w2(2) d2])
  with plain_handle [where run = run, OF d w2(1) d2] w2(3-5) show ?thesis by (intro exI [of _ ?w'] exI [of _ cs']) auto
qed

text \<open>The channels that still have to be handled in an iteration.\<close>

definition todo :: "site \<Rightarrow> (int \<times> addr) list \<Rightarrow> ('u, 'z) net_scheme \<Rightarrow> addr \<Rightarrow> bool" where
  "todo si cs w c \<longleftrightarrow> (\<exists>ch. rx_channels w c = Some ch \<and> (c \<in> {si_wake si, si_listen si} \<or>
     event_ok (ch_revents ch) \<and> (\<exists>fd a tc. (fd, a) \<in> set cs \<and> nx_conns w a = Some tc \<and> tc_channel tc = c)))"

lemma todo_keep:
  assumes "todo si cs w d" and "rx_channels w' d = rx_channels w d"
    and "\<And>fd a tc. (fd, a) \<in> set cs \<Longrightarrow> nx_conns w a = Some tc \<Longrightarrow> tc_channel tc = d \<Longrightarrow>
      (fd, a) \<in> set cs' \<and> nx_conns w' a = Some tc"
  shows "todo si cs' w' d"
proof -
  from assms(1) obtain ch where ch: "rx_channels w d = Some ch" "d \<in> {si_wake si, si_listen si} \<or>
    event_ok (ch_revents ch) \<and> (\<exists>fd a tc. (fd, a) \<in> set cs \<and> nx_conns w a = Some tc \<and> tc_channel tc = d)"
    unfolding todo_def by blast
  with assms(3) have "d \<in> {si_wake si, si_listen si} \<or>
    event_ok (ch_revents ch) \<and> (\<exists>fd a tc. (fd, a) \<in> set cs' \<and> nx_conns w' a = Some tc \<and> tc_channel tc = d)" by blast
  with ch(1) assms(2) show ?thesis by (simp add: todo_def)
qed

lemma todo_channel: "todo si cs w d \<Longrightarrow> rx_channels w d \<noteq> None"
  by (auto simp: todo_def)

lemma wake_event:
  fixes w :: "(echo_cb, 'z) server_net_scheme"
  assumes R: "run_inv si n cur cs ds gs fs w"
  shows "\<exists>w'. run_chan_cb k fresh v t (Loop_read (si_loop si)) w = Inr w' \<and> run_inv si n cur cs ds gs fs w' \<and>
    nx_conns w' = nx_conns w \<and> rx_channels w' = rx_channels w"
proof -
  from run_invD(5) [OF R] obtain el where el: "rx_loops w (si_loop si) = Some el" "loop_ok si fs el" by blast
  let ?w = "put_loop (si_loop si) (EventLoop_handle_read el) w"
  have rel: "rel_option same_marks (rx_channels w d) (rx_channels w d)" for d by (cases "rx_channels w d") simp_all
  have "run_chan_cb k fresh v t (Loop_read (si_loop si)) w = Inr ?w" using el(1) by (simp add: run_chan_cb_def upd_loop_def)
  moreover have "run_inv si n cur cs ds gs fs ?w"
    by (rule run_inv_remark [OF R el(1), of _ "EventLoop_handle_read el"])
      (use rel el(2) run_invD(8) [OF R] in \<open>simp_all add: EventLoop_handle_read_def loop_ok_def marks_def\<close>)
  ultimately show ?thesis by (intro exI [of _ ?w]) simp
qed

lemma run_event:
  fixes w :: "(echo_cb, 'z) server_net_scheme"
  assumes k: "kernel_ok k" "small_reads k" "accepts_ok k (si_lfd si) (si_wfd si)" and al: "fresh_ok fresh"
    and R: "run_inv si n None cs ds [] (map Connect_destoryed ds) w" and c: "todo si cs w c"
    and max: "8 + Suc n * kExtraBuf \<le> vector_max_size"
    and run: "run = run_chan_cb k fresh (EchoServer_callbacks k (si_tid si) p) (si_tid si)"
  shows "\<exists>w' cs' ds'. Channel_handle_event conn_alive run (get_channel c) (upd_channel c) w = Inr w' \<and>
    run_inv si (Suc n) None cs' ds' [] (map Connect_destoryed ds') w' \<and> (\<forall>d. d \<noteq> c \<longrightarrow> todo si cs w d \<longrightarrow> todo si cs' w' d)"
proof -
  note D = run_invD [OF R]
  have plain: ?thesis if "rx_channels w c = Some ch" "plain_chan cb ch" and
    step: "\<And>v. run_inv si n (Some c) cs ds [] (map Connect_destoryed ds) v \<Longrightarrow> rx_channels v c \<noteq> None \<Longrightarrow>
      \<exists>v' cs'. run cb v = Inr v' \<and> run_inv si n (Some c) cs' ds [] (map Connect_destoryed ds) v' \<and> set cs \<subseteq> set cs' \<and>
        (\<forall>b. nx_conns v b \<noteq> None \<longrightarrow> nx_conns v' b = nx_conns v b) \<and>
        (\<forall>x. rx_channels v x \<noteq> None \<longrightarrow> rx_channels v' x = rx_channels v x)" for ch cb
  proof -
    from plain_event [where run = run, OF R that(1,2) step] obtain w' cs' where
      w': "Channel_handle_event conn_alive run (get_channel c) (upd_channel c) w = Inr w'"
      "run_inv si n None cs' ds [] (map Connect_destoryed ds) w'" "set cs \<subseteq> set cs'"
      "\<forall>b. nx_conns w b \<noteq> None \<longrightarrow> nx_conns w' b = nx_conns w b"
      "\<forall>x. x \<noteq> c \<longrightarrow> rx_channels w x \<noteq> None \<longrightarrow> rx_channels w' x = rx_channels w x" by blast
    have "todo si cs' w' d" if "d \<noteq> c" "todo si cs w d" for d
      using that todo_channel [OF that(2)] w'(3-5) by (intro todo_keep [OF that(2)]) auto
    with w'(1) run_inv_mono [OF w'(2), of "Suc n"] show ?thesis by auto
  qed
  from c consider "c = si_wake si" | "c = si_listen si"
    | ch fd a tc where "rx_channels w c = Some ch" "event_ok (ch_revents ch)" "(fd, a) \<in> set cs" "nx_conns w a = Some tc" "tc_channel tc = c"
    by (auto simp: todo_def)
  then show ?thesis
  proof cases
    case 1
    from D(6) 1 obtain ch where ch: "rx_channels w c = Some ch" "plain_chan (Loop_read (si_loop si)) ch" by (auto simp: plain_at_def)
    show ?thesis
    proof (rule plain [OF ch])
      fix v :: "(echo_cb, 'z) server_net_scheme" assume "run_inv si n (Some c) cs ds [] (map Connect_destoryed ds) v"
      from wake_event [OF this] show "\<exists>v' cs'. run (Loop_read (si_loop si)) v = Inr v' \<and>
        run_inv si n (Some c) cs' ds [] (map Connect_destoryed ds) v' \<and> set cs \<subseteq> set cs' \<and>
        (\<forall>b. nx_conns v b \<noteq> None \<longrightarrow> nx_conns v' b = nx_conns v b) \<and>
        (\<forall>x. rx_channels v x \<noteq> None \<longrightarrow> rx_channels v' x = rx_channels v x)" unfolding run by fastforce
    qed
  next
    case 2
    from D(7) 2 obtain ch where ch: "rx_channels w c = Some ch" "plain_chan (Accept_read (si_acceptor si)) ch" by (auto simp: plain_at_def)
    show ?thesis
      by (rule plain [OF ch]) (unfold run, rule run_inv_accept [OF k(1,3) al], simp_all)
  next
    case (3 ch fd a tc)
    from conn_event [OF k(1,2) R 3(3,4,5,1,2) max run] obtain w' cs' ds' where
      w': "Channel_handle_event conn_alive run (get_channel c) (upd_channel c) w = Inr w'"
      "run_inv si (Suc n) None cs' ds' [] (map Connect_destoryed ds') w'" "\<forall>b. b \<noteq> a \<longrightarrow> nx_conns w' b = nx_conns w b"
      "\<forall>d. d \<noteq> c \<longrightarrow> rx_channels w' d = rx_channels w d" "\<forall>x \<in> set cs. snd x \<noteq> a \<longrightarrow> x \<in> set cs'" by blast
    have "todo si cs' w' d" if "d \<noteq> c" "todo si cs w d" for d
    proof (rule todo_keep [OF that(2)])
      show "rx_channels w' d = rx_channels w d" using w'(4) that(1) by blast
      fix fd' b tcb assume b: "(fd', b) \<in> set cs" "nx_conns w b = Some tcb" "tc_channel tcb = d"
      with that(1) 3(4,5) have "b \<noteq> a" by auto
      with b w'(3,5) show "(fd', b) \<in> set cs' \<and> nx_conns w' b = Some tcb" by auto
    qed
    with w'(1,2) show ?thesis by blast
  qed
qed

section \<open>A hang-up with urgent data\<close>

text \<open>Why \<open>event_ok\<close> is needed: \<open>handle_event\<close> closes the connection on a hang-up without
  data to read and goes on to the read callback when urgent data is reported with it; at the end of
  the stream that closes a second time, and the assertion on the state fails.\<close>

lemma dead_read_closes:
  fixes w :: "(echo_cb, 'z) server_net_scheme"
  assumes "conn_base a tc ch el w" and "t = el_tid el" and "tc_state tc = kDisconnected" and "drained (tc_input_buffer tc)"
    and "\<forall>tr cap. k_readv k tr (tc_fd tc) cap = Io_ok []"
  shows "TcpConnection_handle_read k u t a w = Inl Assertion_failed"
  using conn_base_assert_ok [OF assms(1,2)] conn_baseD [OF assms(1)] assms(2-5) read_nothing [OF assms(4)]
  by (simp add: TcpConnection_handle_read_def TcpConnection_handle_close_def assert_in_loop_def EventLoop_is_in_loop_thread_def)

lemma hup_with_urgent_data:
  fixes w :: "(echo_cb, 'z) server_net_scheme"
  assumes R: "run_inv si n None cs ds [] (map Connect_destoryed ds) w"
    and a: "(fd, a) \<in> set cs" "nx_conns w a = Some tc" "tc_channel tc = cc" and ch: "rx_channels w cc = Some ch" "ch_revents ch = EPOLLHUP OR EPOLLPRI"
    and eof: "\<forall>tr cap. k_readv k tr fd cap = Io_ok []"
    and run: "run = run_chan_cb k fresh (EchoServer_callbacks k (si_tid si) p) (si_tid si)"
  shows "Channel_handle_event conn_alive run (get_channel cc) (upd_channel cc) w = Inl Assertion_failed"
proof -
  let ?u = "run_user (EchoServer_callbacks k (si_tid si) p) (si_tid si)" and ?w1 = "put_channel cc (ch\<lparr>ch_event_handling := True\<rparr>) w"
  have bits: "truth ((EPOLLHUP OR EPOLLPRI) AND EPOLLHUP) \<and> \<not> truth ((EPOLLHUP OR EPOLLPRI) AND EPOLLIN)"
    "\<not> truth ((EPOLLHUP OR EPOLLPRI) AND EPOLLERR)" "truth ((EPOLLHUP OR EPOLLPRI) AND (EPOLLIN OR EPOLLPRI OR EPOLLRDHUP))" by code_simp+
  from run_conn [OF R a(1)] a(2,3) ch(1) have E: "conn_channel a ch" "tc_fd tc = fd" "drained (tc_input_buffer tc)"
    by (auto simp: echo_conn_def conn_base_def echo_state_def)
  have "marks (Some cc) ?w1" using run_invD(8) [OF R] by (auto simp: marks_def)
  from run_inv_put_channel [OF R ch(1) _ this] have R1: "run_inv si n (Some cc) cs ds [] (map Connect_destoryed ds) ?w1" by simp
  from run_inv_close [OF R1 a(1) refl, of k p] a(2,3) obtain w2 where
    w2: "TcpConnection_handle_close ?u (si_tid si) a ?w1 = Inr w2"
    "run_inv si n (Some cc) (filter (\<lambda>x. fst x \<noteq> fd) cs) (ds @ [a]) [] (map Connect_destoryed (ds @ [a])) w2"
    "nx_conns w2 a = Some (tc\<lparr>tc_state := kDisconnected\<rparr>)"
    "rx_channels w2 cc = Some (ch\<lparr>ch_event_handling := True, ch_events := kNoneEvent, ch_added_to_loop := True, ch_index := kDeleted\<rparr>)" by auto
  have "dead_conn (si_loop si) (si_tid si) a w2" using run_invD(4) [OF w2(2)] by (simp add: conns_inv_def)
  then obtain ch' el where dead: "conn_base a (tc\<lparr>tc_state := kDisconnected\<rparr>) ch' el w2" "el_tid el = si_tid si"
    using w2(3) by (auto simp: dead_conn_def conn_base_def)
  have "TcpConnection_handle_read k ?u (si_tid si) a w2 = Inl Assertion_failed"
    by (rule dead_read_closes [OF dead(1)]) (use dead(2) E eof in simp_all)
  then show ?thesis using w2(1,4) bits E(1) a(2) ch
    by (simp add: Channel_handle_event_def Channel_handle_event_with_guard_def upd_channel_def conn_alive_def conn_channel_def
        run_callback_def run run_chan_cb_def)
qed

end
