(* ===== verification/Echo_Run.thy ===== *)
theory Echo_Run
  imports Run_Events
begin

unbundle bit_operations_syntax

text \<open>
  The echo server from the start of \<open>main\<close> through any sequence of valid returns of
  \<open>epoll_wait\<close>: an iteration polls, dispatches, runs the functors that destroy the closed
  connections and drops them, and the invariant of the run holds again.
\<close>

section \<open>Dispatch\<close>

lemma run_inv_put_loop:
  fixes w :: "(echo_cb, 'z) server_net_scheme"
  assumes R: "run_inv si n cur cs ds gs fs w" and el: "rx_loops w (si_loop si) = Some el"
    and ep: "ep_channels (el_poller el') = ep_channels (el_poller el)" "ep_calls (el_poller el') = ep_calls (el_poller el)"
    and ok: "loop_ok si fs' el'"
  shows "run_inv si n cur cs ds gs fs' (put_loop (si_loop si) el' w)"
  by (rule run_inv_remark [OF R el _ _ _ _ _ _ ep ok]) (use run_invD(8) [OF R] same_marks_rel in \<open>simp_all add: marks_def\<close>)

lemma run_dispatch:
  fixes w :: "(echo_cb, 'z) server_net_scheme"
  assumes k: "kernel_ok k" "small_reads k" "accepts_ok k (si_lfd si) (si_wfd si)" and al: "fresh_ok fresh"
    and R: "run_inv si n None cs ds [] (map Connect_destoryed ds) w" and c: "distinct act" "\<And>c. c \<in> set act \<Longrightarrow> todo si cs w c"
    and max: "8 + (n + length act) * kExtraBuf \<le> vector_max_size"
    and run: "run = run_chan_cb k fresh (EchoServer_callbacks k (si_tid si) p) (si_tid si)"
  shows "\<exists>w' cs' ds'. dispatch conn_alive run (si_loop si) act w = Inr w' \<and>
    run_inv si (n + length act) None cs' ds' [] (map Connect_destoryed ds') w'"
  using R c max
proof (induction act arbitrary: n cs ds w)
  case (Cons c act)
  note R = Cons.prems(1)
  from run_invD(5) [OF R] obtain el where el: "rx_loops w (si_loop si) = Some el" "loop_ok si (map Connect_destoryed ds) el" by blast
  let ?w1 = "put_loop (si_loop si) (el\<lparr>el_current_active_channel := Some c\<rparr>) w"
  have R1: "run_inv si n None cs ds [] (map Connect_destoryed ds) ?w1"
    by (rule run_inv_put_loop [OF R el(1)]) (use el(2) in \<open>simp_all add: loop_ok_def\<close>)
  have todo1: "todo si cs ?w1 d" if "d \<in> set (c # act)" for d
    by (rule todo_keep [OF Cons.prems(3) [OF that]]) simp_all
  have n1: "8 + Suc n * kExtraBuf \<le> vector_max_size"
  proof -
    have "Suc n * kExtraBuf \<le> (n + length (c # act)) * kExtraBuf" by (rule mult_right_mono) simp_all
    then show ?thesis using Cons.prems(4) by linarith
  qed
  have "todo si cs ?w1 c" by (rule todo1) simp
  from run_event [OF k al R1 this n1 run] obtain w2 cs' ds' where
    w2: "Channel_handle_event conn_alive run (get_channel c) (upd_channel c) ?w1 = Inr w2"
    "run_inv si (Suc n) None cs' ds' [] (map Connect_destoryed ds') w2" "\<forall>d. d \<noteq> c \<longrightarrow> todo si cs ?w1 d \<longrightarrow> todo si cs' w2 d" by blast
  have "todo si cs' w2 d" if "d \<in> set act" for d
    using that Cons.prems(2) w2(3) todo1 [of d] by (cases "d = c") auto
  moreover have "distinct act" "8 + (Suc n + length act) * kExtraBuf \<le> vector_max_size" using Cons.prems(2,4) by auto
  ultimately show ?case using Cons.IH [OF w2(2)] el(1) w2(1) by (simp add: upd_loop_def)
qed auto

section \<open>Polling\<close>

text \<open>What \<open>epoll_wait\<close> may return: at most as many events as the buffer holds, each for a
  different channel, and each with the pointer that the kernel's list holds for a descriptor.\<close>

definition registered :: "epoller \<Rightarrow> 'cb store \<Rightarrow> addr \<Rightarrow> bool" where
  "registered ep st c \<longleftrightarrow> (case (st c, interest_list (ep_calls ep)) of
     (Some ch, Some m) \<Rightarrow> (case m (ch_fd ch) of Some (ev, d) \<Rightarrow> d = c | None \<Rightarrow> False) | _ \<Rightarrow> False)"

definition report_valid :: "addr \<Rightarrow> (addr \<times> events) list option \<Rightarrow> ('u, 'z) net_scheme \<Rightarrow> bool" where
  "report_valid l r w \<longleftrightarrow> (case (r, rx_loops w l) of
     (Some evs, Some el) \<Rightarrow> distinct (map fst evs) \<and> length evs \<le> ep_events_size (el_poller el) \<and>
        list_all (\<lambda>(c, ev). event_ok ev \<and> registered (el_poller el) (rx_channels w) c) evs
   | (r', _) \<Rightarrow> r' = None)"

definition report_size :: "(addr \<times> events) list option \<Rightarrow> nat" where
  "report_size r = (case r of None \<Rightarrow> 0 | Some evs \<Rightarrow> length evs)"

definition reported :: "(addr \<times> events) list \<Rightarrow> 'cb store \<Rightarrow> 'cb store" where
  "reported evs st c = (case map_of evs c of None \<Rightarrow> st c | Some ev \<Rightarrow> map_option (Channel_set_revents ev) (st c))"

lemma fill_active_ok:
  assumes "distinct (map fst evs)" and "\<And>c. c \<in> fst ` set evs \<Longrightarrow> \<exists>ch. st c = Some ch \<and> ep_channels ep (ch_fd ch) = Some c"
  shows "Epoller_fill_active_channels evs ep st act = Inr (reported evs st, act @ map fst evs)"
  using assms
proof (induction evs arbitrary: st act)
  case (Cons e evs)
  obtain c ev where e: "e = (c, ev)" by (cases e)
  obtain ch where ch: "st c = Some ch" "ep_channels ep (ch_fd ch) = Some c" using Cons.prems(2) [of c] e by auto
  have new: "map_of evs c = None" using Cons.prems(1) e by (simp add: map_of_eq_None_iff)
  have "\<exists>chd. (st(c \<mapsto> Channel_set_revents ev ch)) d = Some chd \<and> ep_channels ep (ch_fd chd) = Some d" if "d \<in> fst ` set evs" for d
    using that Cons.prems(2) [of d] Cons.prems(1) e by (cases "d = c") auto
  with Cons.prems(1) have "Epoller_fill_active_channels evs ep (st(c \<mapsto> Channel_set_revents ev ch)) (act @ [c]) =
      Inr (reported evs (st(c \<mapsto> Channel_set_revents ev ch)), (act @ [c]) @ map fst evs)" by (intro Cons.IH) simp_all
  then have "Epoller_fill_active_channels (e # evs) ep st act =
      Inr (reported evs (st(c \<mapsto> Channel_set_revents ev ch)), act @ map fst (e # evs))" using e ch by simp
  moreover have "reported evs (st(c \<mapsto> Channel_set_revents ev ch)) = reported (e # evs) st"
    using new ch(1) by (auto simp: reported_def fun_eq_iff e split: option.split)
  ultimately show ?case by simp
qed (simp add: reported_def fun_eq_iff)

lemma reported_marks: "rel_option same_marks (reported evs st c) (st c)"
  by (cases "st c") (auto simp: reported_def split: option.split)

lemma reported_handling: "reported evs st d = Some ch' \<Longrightarrow> \<exists>ch. st d = Some ch \<and> ch_event_handling ch' = ch_event_handling ch"
  by (auto simp: reported_def Channel_set_revents_def split: option.splits)

lemma registered_channel:
  assumes "ep_inv l st ep" and "registered ep st c"
  shows "\<exists>ch. st c = Some ch \<and> ep_channels ep (ch_fd ch) = Some c"
  using ep_invD(3) [OF assms(1)] assms(2) by (auto simp: registered_def ep_view_def split: option.splits if_splits)

lemma run_inv_todo:
  assumes R: "run_inv si n cur cs [] [] fs w" and c: "rx_channels w c = Some ch" "event_ok (ch_revents ch)"
  shows "todo si cs w c"
proof -
  from shapeD(7) [OF run_invD(2) [OF R]] c(1) consider "c \<in> {si_wake si, si_listen si}"
    | b tc where "nx_conns w b = Some tc" "tc_channel tc = c" by force
  then show ?thesis
  proof cases
    case (2 b tc)
    then have "b \<in> snd ` set cs" using run_invD(4) [OF R] by (auto simp: conns_inv_def)
    then obtain fd where "(fd, b) \<in> set cs" by force
    with 2 c show ?thesis by (auto simp: todo_def)
  qed (use c in \<open>auto simp: todo_def\<close>)
qed

text \<open>A valid report is taken in whole; it changes the marks of the channels and perhaps the
  size of the poller's buffer.\<close>

lemma poll_ok:
  fixes w :: "('u, 'z) net_scheme"
  assumes inv: "rx_inv w" and el: "rx_loops w l = Some el" and r: "report_valid l r w" and size: "0 < ep_events_size (el_poller el)"
  obtains ep evs where "Epoller_poll r (el_poller el) (rx_channels w) [] = Inr (ep, reported evs (rx_channels w), map fst evs)"
    "distinct (map fst evs)" "length evs = report_size r" "ep_channels ep = ep_channels (el_poller el)" "ep_calls ep = ep_calls (el_poller el)"
    "0 < ep_events_size ep" "\<forall>c ev. (c, ev) \<in> set evs \<longrightarrow> event_ok ev \<and> registered (el_poller el) (rx_channels w) c"
proof -
  have none: "reported [] (rx_channels w) = rx_channels w" by (simp add: reported_def fun_eq_iff)
  show ?thesis
  proof (cases "r = None \<or> r = Some []")
    case True
    then show ?thesis by (intro that [of "el_poller el" "[]"]) (use size none in \<open>auto simp: report_size_def Epoller_poll_def\<close>)
  next
    case False
    then obtain evs where evs: "r = Some evs" "evs \<noteq> []" by auto
    let ?ep = "if length evs = ep_events_size (el_poller el) then (el_poller el)\<lparr>ep_events_size := ep_events_size (el_poller el) * 2\<rparr>
      else el_poller el"
    from r evs el have e: "distinct (map fst evs)" "length evs \<le> ep_events_size (el_poller el)"
      "\<And>c ev. (c, ev) \<in> set evs \<Longrightarrow> event_ok ev \<and> registered (el_poller el) (rx_channels w) c"
      by (auto simp: report_valid_def list_all_iff)
    have reg: "\<exists>ch. rx_channels w c = Some ch \<and> ep_channels (el_poller el) (ch_fd ch) = Some c" if "c \<in> fst ` set evs" for c
      using that e(3) registered_channel [OF rx_invD [OF inv el]] by auto
    show ?thesis
      by (rule that [of ?ep evs]) (use evs e size fill_active_ok [OF e(1) reg, of "[]"] in \<open>simp_all add: report_size_def Epoller_poll_def\<close>)
  qed
qed

lemma reported_event:
  assumes "(c, ev) \<in> set evs" and "distinct (map fst evs)" and "st c = Some ch"
  shows "reported evs st c = Some (Channel_set_revents ev ch)"
  using assms by (simp add: reported_def)

lemma run_poll:
  fixes w :: "(echo_cb, 'z) server_net_scheme"
  assumes R: "run_inv si n None cs [] [] [] w" and r: "report_valid (si_loop si) r w" and el: "rx_loops w (si_loop si) = Some el"
  shows "\<exists>ep st act. Epoller_poll r (el_poller el) (rx_channels w) [] = Inr (ep, st, act) \<and> distinct act \<and> length act = report_size r \<and>
    run_inv si n None cs [] [] [] (put_loop (si_loop si) (el\<lparr>el_poller := ep, el_active_channels := act, el_event_handing := True\<rparr>)
      (w\<lparr>rx_channels := st\<rparr>)) \<and> (\<forall>c \<in> set act. \<exists>ch. st c = Some ch \<and> event_ok (ch_revents ch))"
proof -
  note D = run_invD [OF R]
  have ok: "loop_ok si [] el" using D(5) el by auto
  then have "0 < ep_events_size (el_poller el)" by (simp add: loop_ok_def)
  from poll_ok [OF D(1) el r this] obtain ep evs where
    p: "Epoller_poll r (el_poller el) (rx_channels w) [] = Inr (ep, reported evs (rx_channels w), map fst evs)" "distinct (map fst evs)"
    "length evs = report_size r" "ep_channels ep = ep_channels (el_poller el)" "ep_calls ep = ep_calls (el_poller el)"
    "0 < ep_events_size ep" "\<forall>c ev. (c, ev) \<in> set evs \<longrightarrow> event_ok ev \<and> registered (el_poller el) (rx_channels w) c" .
  let ?st = "reported evs (rx_channels w)"
  have "run_inv si n None cs [] [] [] (put_loop (si_loop si) (el\<lparr>el_poller := ep, el_active_channels := map fst evs, el_event_handing := True\<rparr>)
      (w\<lparr>rx_channels := ?st\<rparr>))"
    by (rule run_inv_remark [OF R el, of _ "el\<lparr>el_poller := ep, el_active_channels := map fst evs, el_event_handing := True\<rparr>"])
      (use p ok D(8) in \<open>auto simp: loop_ok_def marks_def reported_marks dest!: reported_handling\<close>)
  moreover have "\<exists>ch. ?st c = Some ch \<and> event_ok (ch_revents ch)" if "c \<in> set (map fst evs)" for c
  proof -
    from that obtain ev where ev: "(c, ev) \<in> set evs" by auto
    with p(7) registered_channel [OF rx_invD [OF D(1) el]] obtain ch where "rx_channels w c = Some ch" by blast
    from reported_event [where st = "rx_channels w", OF ev p(2) this] p(7) ev show ?thesis by (simp add: Channel_set_revents_def)
  qed
  ultimately show ?thesis using p(1-3) by (intro exI [of _ ep] exI [of _ ?st] exI [of _ "map fst evs"]) simp
qed

section \<open>The functors of an iteration\<close>

text \<open>The loop is not dispatching events.\<close>

definition idle :: "site \<Rightarrow> ('u, 'z) net_scheme \<Rightarrow> bool" where
  "idle si w \<longleftrightarrow> (\<exists>el. rx_loops w (si_loop si) = Some el \<and> \<not> el_event_handing el)"

lemma run_inv_destoryed:
  fixes w :: "(echo_cb, 'z) server_net_scheme"
  assumes R: "run_inv si n None cs (a # ds) gs fs w" and idle: "idle si w"
  shows "\<exists>w'. run_net_functor k v (si_tid si) (Connect_destoryed a) w = Inr w' \<and> run_inv si n None cs ds (gs @ [a]) fs w' \<and> idle si w'"
proof -
  note D = run_invD [OF R]
  obtain el where el: "rx_loops w (si_loop si) = Some el" "\<not> el_event_handing el" using idle by (auto simp: idle_def)
  let ?l = "si_loop si" and ?t = "si_tid si"
  have "dead_conn ?l ?t a w" using D(4) by (simp add: conns_inv_def)
  then obtain tc ch where E: "conn_base a tc ch el w" "el_tid el = ?t" "tc_loop tc = ?l" "tc_state tc = kDisconnected"
    "tc_socket tc = tc_fd tc" "ch_events ch = kNoneEvent" using el(1) unfolding dead_conn_def conn_base_def by auto
  note B = conn_baseD [OF E(1)]
  let ?ch = "ch\<lparr>ch_added_to_loop := False, ch_index := kNew\<rparr>"
  from connect_destoryed_closed [OF E(1) E(2) [symmetric] E(4,6) el(2), of "run_user v ?t"] E(3) obtain ep where
    run: "TcpConnection_connect_destoryed (run_user v ?t) ?t a w = Inr (put_loop ?l (el\<lparr>el_poller := ep\<rparr>) (put_channel (tc_channel tc) ?ch w))"
    and inv: "rx_inv (put_loop ?l (el\<lparr>el_poller := ep\<rparr>) (put_channel (tc_channel tc) ?ch w))"
    and ep: "ep_events_size ep = ep_events_size (el_poller el)" by (auto simp: Let_def)
  let ?w' = "put_loop ?l (el\<lparr>el_poller := ep\<rparr>) (put_channel (tc_channel tc) ?ch w)"
  have ok: "loop_ok si fs (el\<lparr>el_poller := ep\<rparr>)" using D(5) el(1) ep by (auto simp: loop_ok_def)
  have sh: "shape si ?w'" by (rule shape_cong [OF D(2)]) (use B in \<open>auto simp: conn_fd_def conn_chan_def chan_fd_def fun_eq_iff\<close>)
  have gone: "gone_conn ?l a ?w'" using B E by (auto simp: gone_conn_def)
  have kept: "conn_kept b ?l ?t w ?w'" if "b \<noteq> a" for b
    using inv E(2) that shape_distinct(2) [OF D(2) B(2) _ that [symmetric]] by (auto simp: conn_kept_def)
  have "a \<notin> snd ` set cs" using D(4) by (simp add: conns_inv_def)
  then have "(fd, a) \<notin> set cs" for fd by force
  then have "conns_inv si n cs ds (gs @ [a]) ?w'"
    by (intro conns_inv_change [OF D(4) _ _ _ _ kept, where tr = "[]" and a = a]) (use D(4) gone in \<open>auto simp: conns_inv_def\<close>)
  moreover have "tc_channel tc \<noteq> si_listen si" "tc_channel tc \<noteq> si_wake si" using shapeD(6) [OF D(2) B(2)] by auto
  moreover have "marks None ?w'" using D(8) B(3) by (auto simp: marks_def)
  ultimately have "run_inv si n None cs ds (gs @ [a]) fs ?w'"
    by (intro run_inv_step [OF R inv sh _ _ _ ok]) auto
  then show ?thesis using run el(2) by (intro exI [of _ ?w']) (simp add: run_net_functor_def idle_def)
qed

lemma run_destoryed:
  fixes w :: "(echo_cb, 'z) server_net_scheme"
  assumes "run_inv si n None cs ds gs fs w" and "idle si w"
  shows "\<exists>w'. run_functors (run_net_functor k v (si_tid si)) (map Connect_destoryed ds) w = Inr w' \<and> run_inv si n None cs [] (gs @ ds) fs w' \<and>
    idle si w'"
  using assms
proof (induction ds arbitrary: gs w)
  case (Cons a ds)
  from run_inv_destoryed [OF Cons.prems, of k v] obtain w1 where
    w1: "run_net_functor k v (si_tid si) (Connect_destoryed a) w = Inr w1" "run_inv si n None cs ds (gs @ [a]) fs w1" "idle si w1" by blast
  from Cons.IH [OF w1(2,3)] w1(1) show ?case by simp
qed simp

text \<open>The vector of functors goes, and with each functor the last pointer to its connection.\<close>

lemma shape_remove:
  assumes sh: "shape si w" and a: "nx_conns w a = Some tc"
    and w': "nx_conns w' = (nx_conns w)(a := None)" "rx_channels w' = (rx_channels w)(tc_channel tc := None)"
      "open_fds (nx_trace w') = open_fds (nx_trace w) - {tc_fd tc}"
  shows "shape si w'"
  using sh layout_remove [OF shape_layout(1) [OF sh] a w'] by (simp add: shape_def)

lemma destroy_servers:
  fixes w :: "('v, 'z) server_net_scheme"
  assumes "TcpConnection_destroy t a w = Inr w'"
  shows "nx_servers w' = nx_servers w" "nx_acceptors w' = nx_acceptors w"
  using assms by (auto simp: TcpConnection_destroy_def Channel_destroy_def bindE_Inr_iff)

lemma run_inv_drop:
  fixes w :: "(echo_cb, 'z) server_net_scheme"
  assumes R: "run_inv si n None cs [] (a # gs) [] w"
  shows "\<exists>w'. destroy_net_functor [si_server si] [si_loop si] (si_tid si) (map Connect_destoryed gs) (Connect_destoryed a) w = Inr w' \<and>
    run_inv si n None cs [] gs [] w' \<and> rx_loops w' = rx_loops w"
proof -
  note D = run_invD [OF R] and S = shapeD [OF run_invD(2) [OF R]]
  let ?l = "si_loop si" and ?t = "si_tid si"
  obtain el where el: "rx_loops w ?l = Some el" "loop_ok si [] el" using D(5) by blast
  obtain ts where ts: "nx_servers w (si_server si) = Some ts" "ts_connections ts = cs" using D(3) by (rule server_ok_ts)
  have C: "gone_conn ?l a w" "a \<notin> snd ` set cs" "a \<notin> set gs" using D(4) by (auto simp: conns_inv_def)
  from C(1) obtain tc ch where tc: "nx_conns w a = Some tc" "tc_loop tc = ?l" "tc_state tc = kDisconnected" "tc_socket tc = tc_fd tc"
    "rx_channels w (tc_channel tc) = Some ch" "ch_loop ch = ?l" "ch_fd ch = tc_fd tc" "ch_index ch = kNew" "\<not> ch_added_to_loop ch"
    unfolding gone_conn_def by blast
  have free: "ep_channels (el_poller el) (tc_fd tc) = None"
    by (rule unregistered_free [OF shape_layout(1) [OF D(2)] D(1) el(1) tc(1,5-8)])
  have "\<not> ch_event_handling ch" using D(8) tc(5) by (simp add: marks_def)
  from TcpConnection_destroy_ok [OF D(1) tc(1,3,5,8) this tc(9) _ tc(7) _ free, of ?t] tc(2,4,6) el(1) obtain w' where
    w': "TcpConnection_destroy ?t a w = Inr w'" "rx_inv w'" "nx_conns w' = (nx_conns w)(a := None)"
    "rx_channels w' = (rx_channels w)(tc_channel tc := None)" "rx_loops w' = rx_loops w" "nx_trace w' = nx_trace w @ [Sys_close (tc_fd tc)]" by auto
  have srv: "nx_servers w' = nx_servers w" "nx_acceptors w' = nx_acceptors w" using destroy_servers [OF w'(1)] by simp_all
  have "\<not> referenced [si_server si] [?l] (map Connect_destoryed gs) a w"
    using ts el C(2,3) by (auto simp: referenced_def loop_ok_def)
  then have run: "destroy_net_functor [si_server si] [?l] ?t (map Connect_destoryed gs) (Connect_destoryed a) w = Inr w'"
    using w'(1) by (simp add: destroy_net_functor_def release_def)
  have sh: "shape si w'" by (rule shape_remove [OF D(2) tc(1) w'(3,4)]) (simp add: w'(6))
  have kept: "conn_kept b ?l ?t w w'" if "b \<noteq> a" for b
    using w'(2-5) el that shape_distinct(2) [OF D(2) tc(1) _ that [symmetric]] by (auto simp: conn_kept_def loop_ok_def)
  have an: "(fd, a) \<notin> set cs" for fd using C(2) by force
  have "conns_inv si n cs [] gs w'"
    by (rule conns_inv_change [OF D(4) _ _ _ _ kept w'(6), where a = a])
      (use D(4) an C in \<open>auto simp: conns_inv_def w'(3) quiet_def\<close>)
  moreover have "tc_channel tc \<noteq> si_listen si" "tc_channel tc \<noteq> si_wake si" using S(6) [OF tc(1)] by auto
  moreover have "marks None w'" using D(8) by (auto simp: marks_def w'(4))
  ultimately have "run_inv si n None cs [] gs [] w'"
    by (intro run_inv_step [OF R w'(2) sh srv _ el(2)]) (use w'(4,5) el(1) in auto)
  with run w'(5) show ?thesis by blast
qed

lemma run_drop:
  fixes w :: "(echo_cb, 'z) server_net_scheme"
  assumes "run_inv si n None cs [] gs [] w"
  shows "\<exists>w'. destroy_functors (destroy_net_functor [si_server si] [si_loop si] (si_tid si)) (map Connect_destoryed gs) w = Inr w' \<and>
    run_inv si n None cs [] [] [] w' \<and> rx_loops w' = rx_loops w"
  using assms
proof (induction gs arbitrary: w)
  case (Cons a gs)
  from run_inv_drop [OF Cons.prems] obtain w1 where
    w1: "destroy_net_functor [si_server si] [si_loop si] (si_tid si) (map Connect_destoryed gs) (Connect_destoryed a) w = Inr w1"
    "run_inv si n None cs [] gs [] w1" "rx_loops w1 = rx_loops w" by blast
  from Cons.IH [OF w1(2)] w1(1,3) show ?case by simp
qed simp

lemma run_pending:
  fixes w :: "(echo_cb, 'z) server_net_scheme"
  assumes R: "run_inv si n None cs ds [] (map Connect_destoryed ds) w" and idle: "idle si w"
  shows "\<exists>w'. EventLoop_do_pending_functors (run_net_functor k v (si_tid si))
      (destroy_net_functor [si_server si] [si_loop si] (si_tid si)) (si_loop si) w = Inr w' \<and> run_inv si n None cs [] [] [] w' \<and> idle si w'"
proof -
  obtain el where el: "rx_loops w (si_loop si) = Some el" "\<not> el_event_handing el" using idle by (auto simp: idle_def)
  let ?el = "el\<lparr>el_calling_pending_functors := True, el_pending_functors := []\<rparr>"
  have ok: "loop_ok si (map Connect_destoryed ds) el" using run_invD(5) [OF R] el(1) by auto
  have "run_inv si n None cs ds [] [] (put_loop (si_loop si) ?el w)"
    by (rule run_inv_put_loop [OF R el(1)]) (use ok in \<open>simp_all add: loop_ok_def\<close>)
  from run_destoryed [OF this, of k v] el(2) obtain w1 where
    w1: "run_functors (run_net_functor k v (si_tid si)) (map Connect_destoryed ds) (put_loop (si_loop si) ?el w) = Inr w1"
    "run_inv si n None cs [] ds [] w1" "idle si w1" by (auto simp: idle_def)
  from run_invD(5) [OF w1(2)] w1(3) obtain el1 where el1: "rx_loops w1 (si_loop si) = Some el1" "loop_ok si [] el1" "\<not> el_event_handing el1"
    by (auto simp: idle_def)
  have "run_inv si n None cs [] ds [] (put_loop (si_loop si) (el1\<lparr>el_calling_pending_functors := False\<rparr>) w1)"
    by (rule run_inv_put_loop [OF w1(2) el1(1)]) (use el1(2) in \<open>simp_all add: loop_ok_def\<close>)
  from run_drop [OF this] show ?thesis
    using el(1) w1(1) el1(1,3) ok by (fastforce simp: EventLoop_do_pending_functors_def loop_ok_def upd_loop_def idle_def)
qed

section \<open>The loop\<close>

text \<open>The parts of the program that the loop runs.\<close>

abbreviation echo_iteration where
  "echo_iteration k fresh p si \<equiv> EventLoop_iteration conn_alive (run_chan_cb k fresh (EchoServer_callbacks k (si_tid si) p) (si_tid si))
     (run_net_functor k (EchoServer_callbacks k (si_tid si) p) (si_tid si))
     (destroy_net_functor [si_server si] [si_loop si] (si_tid si)) (si_loop si)"

abbreviation echo_loop where
  "echo_loop k fresh p si \<equiv> EventLoop_loop_body conn_alive (run_chan_cb k fresh (EchoServer_callbacks k (si_tid si) p) (si_tid si))
     (run_net_functor k (EchoServer_callbacks k (si_tid si) p) (si_tid si))
     (destroy_net_functor [si_server si] [si_loop si] (si_tid si)) (si_loop si)"

lemma run_iteration:
  fixes w :: "(echo_cb, 'z) server_net_scheme"
  assumes k: "kernel_ok k" "small_reads k" "accepts_ok k (si_lfd si) (si_wfd si)" and al: "fresh_ok fresh"
    and R: "run_inv si n None cs [] [] [] w" and r: "report_valid (si_loop si) r w"
    and max: "8 + (n + report_size r) * kExtraBuf \<le> vector_max_size"
  shows "\<exists>w' cs'. echo_iteration k fresh p si r w = Inr w' \<and> run_inv si (n + report_size r) None cs' [] [] [] w' \<and> idle si w'"
proof -
  from run_invD(5) [OF R] obtain el where el: "rx_loops w (si_loop si) = Some el" "loop_ok si [] el" by blast
  from run_poll [OF R r el(1)] obtain ep st act where
    poll: "Epoller_poll r (el_poller el) (rx_channels w) [] = Inr (ep, st, act)" "distinct act" "length act = report_size r"
    and R1: "run_inv si n None cs [] [] [] (put_loop (si_loop si) (el\<lparr>el_poller := ep, el_active_channels := act, el_event_handing := True\<rparr>)
      (w\<lparr>rx_channels := st\<rparr>))" and act: "\<forall>c \<in> set act. \<exists>ch. st c = Some ch \<and> event_ok (ch_revents ch)" by blast
  let ?w1 = "put_loop (si_loop si) (el\<lparr>el_poller := ep, el_active_channels := act, el_event_handing := True\<rparr>) (w\<lparr>rx_channels := st\<rparr>)"
  have todo: "todo si cs ?w1 c" if "c \<in> set act" for c
  proof -
    from act that obtain ch where "st c = Some ch" "event_ok (ch_revents ch)" by blast
    then show ?thesis by (intro run_inv_todo [OF R1]) simp_all
  qed
  have R1': "run_inv si n None cs [] [] (map Connect_destoryed []) ?w1" using R1 by simp
  have max': "8 + (n + length act) * kExtraBuf \<le> vector_max_size" using max poll(3) by simp
  from run_dispatch [OF k al R1' poll(2) todo max' refl, of p] obtain w2 cs' ds' where
    w2: "dispatch conn_alive (run_chan_cb k fresh (EchoServer_callbacks k (si_tid si) p) (si_tid si)) (si_loop si) act ?w1 = Inr w2"
    "run_inv si (n + report_size r) None cs' ds' [] (map Connect_destoryed ds') w2" using poll(3) by auto
  from run_invD(5) [OF w2(2)] obtain el2 where el2: "rx_loops w2 (si_loop si) = Some el2" "loop_ok si (map Connect_destoryed ds') el2" by blast
  let ?el2 = "el2\<lparr>el_current_active_channel := None, el_event_handing := False\<rparr>"
  have "run_inv si (n + report_size r) None cs' ds' [] (map Connect_destoryed ds') (put_loop (si_loop si) ?el2 w2)"
    by (rule run_inv_put_loop [OF w2(2) el2(1)]) (use el2(2) in \<open>simp_all add: loop_ok_def\<close>)
  from run_pending [OF this, of k "EchoServer_callbacks k (si_tid si) p"] show ?thesis
    using el(1) poll(1) w2(1) el2(1) by (auto simp: EventLoop_iteration_def upd_loop_def idle_def)
qed

text \<open>The reports of a run, each valid in the state in which the thread waits for it: \<open>prog\<close>
  is the program on a sequence of reports.\<close>

definition reports_valid :: "addr \<Rightarrow> ((addr \<times> events) list option list \<Rightarrow> ('u, 'z) net_scheme res) \<Rightarrow>
    (addr \<times> events) list option list \<Rightarrow> bool" where
  "reports_valid l prog rs \<longleftrightarrow>
     list_all (\<lambda>i. case prog (take i rs) of Inl e \<Rightarrow> True | Inr w \<Rightarrow> report_valid l (rs ! i) w) [0..<length rs]"

lemma reports_valid_snoc:
  "reports_valid l prog (rs @ [r]) \<longleftrightarrow> reports_valid l prog rs \<and> (case prog rs of Inl e \<Rightarrow> True | Inr w \<Rightarrow> report_valid l r w)"
  by (auto simp: reports_valid_def list_all_iff nth_append split: sum.splits)

lemma loop_body_snoc:
  assumes "EventLoop_loop_body alive run runf destroy l rs w = Inr w1" and "rx_loops w1 l = Some el" and "\<not> el_quit el"
  shows "EventLoop_loop_body alive run runf destroy l (rs @ [r]) w =
    bindE (EventLoop_iteration alive run runf destroy l r w1) (EventLoop_loop_body alive run runf destroy l [])"
  using assms(1)
proof (induction rs arbitrary: w)
  case Nil
  then have "w1 = w" "rx_loops w l = Some el" using assms(2,3)
    by (auto simp: EventLoop_loop_body.simps upd_loop_def bindE_Inr_iff split: if_splits)
  then show ?case using assms(3) by (simp add: EventLoop_loop_body.simps [of _ _ _ _ _ "[r]"])
next
  case (Cons x rs)
  obtain el0 where el0: "rx_loops w l = Some el0" using Cons.prems by (auto simp: EventLoop_loop_body.simps bindE_Inr_iff)
  have "\<not> el_quit el0" using Cons.prems el0 assms(2,3)
    by (auto simp: EventLoop_loop_body.simps [of _ _ _ _ _ "x # rs"] upd_loop_def split: if_splits)
  with el0 Cons.prems obtain w2 where w2: "EventLoop_iteration alive run runf destroy l x w = Inr w2"
    "EventLoop_loop_body alive run runf destroy l rs w2 = Inr w1"
    by (auto simp: EventLoop_loop_body.simps [of _ _ _ _ _ "x # rs"] bindE_Inr_iff)
  from Cons.IH [OF w2(2)] w2(1) el0 \<open>\<not> el_quit el0\<close> show ?case
    by (simp add: EventLoop_loop_body.simps [of _ _ _ _ _ "x # _"])
qed

lemma run_loop:
  fixes w :: "(echo_cb, 'z) server_net_scheme"
  assumes k: "kernel_ok k" "small_reads k" "accepts_ok k (si_lfd si) (si_wfd si)" and al: "fresh_ok fresh"
    and R: "run_inv si 0 None [] [] [] [] w" and on: "si_running si" "idle si w" and r: "reports_valid (si_loop si) (\<lambda>rs. echo_loop k fresh p si rs w) rs"
    and max: "8 + sum_list (map report_size rs) * kExtraBuf \<le> vector_max_size"
  shows "\<exists>w' cs. echo_loop k fresh p si rs w = Inr w' \<and> run_inv si (sum_list (map report_size rs)) None cs [] [] [] w' \<and> idle si w'"
  using r max
proof (induction rs rule: rev_induct)
  have stay: "echo_loop k fresh p si [] v = Inr v" if "run_inv si n None cs [] [] [] v" for n cs and v :: "(echo_cb, 'z) server_net_scheme"
    using run_invD(5) [OF that] on by (auto simp: EventLoop_loop_body.simps loop_ok_def)
  {
    case Nil
    from stay [OF R] R on(2) show ?case by auto
  next
    case (snoc r rs)
    have "8 + sum_list (map report_size rs) * kExtraBuf \<le> vector_max_size"
      using snoc.prems(2) by (simp add: distrib_right)
    with snoc.IH snoc.prems(1) obtain w1 cs where w1: "echo_loop k fresh p si rs w = Inr w1"
      "run_inv si (sum_list (map report_size rs)) None cs [] [] [] w1" by (auto simp: reports_valid_snoc)
    then have "report_valid (si_loop si) r w1" using snoc.prems(1) by (simp add: reports_valid_snoc)
    from run_iteration [OF k al w1(2) this, of p] snoc.prems(2) obtain w' cs' where
      w': "echo_iteration k fresh p si r w1 = Inr w'" "run_inv si (sum_list (map report_size rs) + report_size r) None cs' [] [] [] w'"
      "idle si w'" by auto
    obtain el where "rx_loops w1 (si_loop si) = Some el" "\<not> el_quit el" using run_invD(5) [OF w1(2)] on by (auto simp: loop_ok_def)
    from loop_body_snoc [OF w1(1) this, of r] w' stay [OF w'(2)] show ?case by auto
  }
qed

section \<open>The start\<close>

text \<open>Until the first connection every channel is as its constructor left it, apart from the
  read callback.\<close>

definition bare :: "'cb channel \<Rightarrow> bool" where
  "bare ch \<longleftrightarrow> \<not> ch_tied ch \<and> ch_write_callback ch = None \<and> ch_close_callback ch = None \<and> ch_error_callback ch = None \<and>
     \<not> ch_event_handling ch"

definition all_bare :: "('u, 'z) net_scheme \<Rightarrow> bool" where
  "all_bare w \<longleftrightarrow> (\<forall>d ch. rx_channels w d = Some ch \<longrightarrow> bare ch)"

lemma all_bare_simps [simp]:
  "all_bare w \<Longrightarrow> bare ch \<Longrightarrow> all_bare (put_channel c ch w)" "all_bare (put_loop l el w) = all_bare w"
  "all_bare (w\<lparr>nx_trace := tr\<rparr>) = all_bare w" "all_bare (w\<lparr>rx_loop_in_thread := m\<rparr>) = all_bare w"
  by (auto simp: all_bare_def)

lemma all_bare_server [simp]:
  fixes w :: "('v, 'z) server_net_scheme"
  shows "all_bare (put_server s ts w) = all_bare w" "all_bare (put_acceptor a ac w) = all_bare w"
  by (simp_all add: all_bare_def)

lemma set_events_bare:
  fixes w :: "('u, 'z) net_scheme"
  assumes "set_events t c f w = Inr w'" and "all_bare w"
  shows "all_bare w'"
  unfolding all_bare_def
proof (intro allI impI)
  fix d ch' assume "rx_channels w' d = Some ch'"
  with core_rel(2) [OF set_events_core [OF assms(1)], of d] obtain ch where ch: "rx_channels w d = Some ch" "chan_core ch' = chan_core ch"
    by (auto elim: option.rel_cases)
  have "bare (chan_core ch') = bare (chan_core ch)" by (simp only: ch(2))
  then have "bare ch' = bare ch" by (simp add: bare_def chan_core_def)
  with ch(1) assms(2) show "bare ch'" by (simp add: all_bare_def)
qed

lemma new_channel_bare: "Channel_new l fd = Inr ch \<Longrightarrow> bare (Channel_set_read_callback cb ch)"
  by (auto simp: Channel_new_def Channel_set_read_callback_def bare_def bindE_Inr_iff)

lemma EventLoop_new_bare:
  fixes w :: "('u, 'z) net_scheme"
  assumes "EventLoop_new t l c fd epfd cb w = Inr w'" and "all_bare w"
  shows "all_bare w'"
  using assms by (auto simp: EventLoop_new_def Channel_enable_reading_def bindE_Inr_iff new_channel_bare dest!: set_events_bare)

lemma EchoServer_new_bare:
  fixes w :: "(echo_cb, 'z) server_net_scheme"
  assumes "EchoServer_new k s a c l addr num w = Inr w'" and "all_bare w"
  shows "all_bare w'"
  using assms by (auto simp: EchoServer_new_def TcpServer_new_def Acceptor_new_def bindE_Inr_iff new_channel_bare Let_def split: if_splits)

lemma EchoServer_start_bare:
  fixes w :: "(echo_cb, 'z) server_net_scheme"
  assumes "EchoServer_start k loop_of t s w = Inr w'" and "all_bare w"
  shows "all_bare w'"
  using assms by (auto simp: EchoServer_start_def TcpServer_start_def EventLoop_run_in_loop_def Acceptor_listen_def Channel_enable_reading_def
      EventLoopThreadPool_start_def bindE_Inr_iff Let_def dest!: set_events_bare split: if_splits option.splits)

lemma main_setup_bare:
  fixes w :: "(echo_cb, 'z) server_net_scheme"
  assumes "main_setup k pton junk num loop_of t wfd epfd l wc s a c w = Inr w'" and "all_bare w"
  shows "all_bare w'"
  using assms by (auto simp: main_setup_def bindE_Inr_iff dest!: EventLoop_new_bare EchoServer_new_bare EchoServer_start_bare)

lemma run_start:
  fixes fresh :: "echo_cb server_net \<Rightarrow> addr \<times> addr"
  assumes "wc \<noteq> c" and "wfd \<noteq> - 1" and "epfd \<noteq> - 1" and "k_socket k [] AF_INET = lfd" and "lfd \<noteq> - 1" and "lfd \<noteq> wfd"
    and "\<forall>tr addr len. 0 \<le> k_bind k tr lfd addr len" and "\<forall>tr. 0 \<le> k_listen k tr lfd" and num: "num \<le> 0"
    and si: "si = \<lparr>si_loop = l, si_wake = wc, si_server = s, si_acceptor = a, si_listen = c, si_lfd = lfd, si_wfd = wfd, si_tid = t, si_running = True\<rparr>"
  shows "\<exists>w. run_inv si 0 None [] [] [] [] w \<and> idle si w \<and>
    (\<forall>rs. main_program k pton junk num loop_of t wfd epfd l wc s a c fresh p rs empty_server_net = echo_loop k fresh p si rs w)"
proof -
  let ?e = "empty_server_net :: echo_cb server_net"
  have e: "rx_inv ?e" "rx_loops ?e l = None" "rx_channels ?e wc = None" "rx_channels ?e c = None"
    "\<forall>d ch. rx_channels ?e d = Some ch \<longrightarrow> ch_loop ch \<noteq> l" "rx_loop_in_thread ?e t = None" "k_socket k (nx_trace ?e) AF_INET = lfd"
    "nx_conns ?e = Map.empty" "nx_trace ?e = []" "rx_channels ?e = Map.empty" "all_bare ?e"
    using assms(4) by (simp_all add: empty_server_net_def rx_inv_def all_bare_def)
  from main_setup_ok [OF e(1-4) assms(1) e(5,6) assms(2,3) e(7) assms(5-8), of pton junk num loop_of s a] num e(8-10) obtain w0 ts el addr r r' ch where
    w0: "main_setup k pton junk num loop_of t wfd epfd l wc s a c ?e = Inr w0"
    "nx_trace w0 = [Sys_socket AF_INET lfd, Sys_setsockopt lfd SOL_SOCKET SO_REUSEADDR 1,
      Sys_setsockopt lfd SOL_SOCKET SO_REUSEPORT 0, Sys_bind lfd addr 16 r, Sys_listen lfd r']"
    "server_up True s a c l lfd ts w0" "ts_connections ts = []" "pool_inv (ts_threadpool ts)" "pool_loops (ts_threadpool ts) = [l]"
    "ts_connection_callback ts = Some Handle_connect" "ts_message_callback ts = Some Handle_message" "rx_inv w0" "rx_loops w0 l = Some el"
    "el_tid el = t" "ts_write_complete_callback ts = None" "el_pending_functors el = []" "\<not> el_looping el" "\<not> el_quit el"
    "0 < ep_events_size (el_poller el)" "nx_conns w0 = Map.empty" "\<forall>d. d \<noteq> c \<and> d \<noteq> wc \<longrightarrow> rx_channels w0 d = None"
    "rx_channels w0 wc = Some ch" "ch_fd ch = wfd" "ch_read_callback ch = Some (Loop_read l)" "ch_loop ch = l" "ch_index ch = kAdded"
    "el_wakeup_channel el = wc" "\<not> el_event_handing el"
    by (elim exE conjE) (rule that; simp)
  let ?w = "put_loop l (el\<lparr>el_looping := True, el_quit := False\<rparr>) w0"
  obtain chl where chl: "rx_channels w0 c = Some chl" "ch_fd chl = lfd" "ch_read_callback chl = Some (Accept_read a)"
    "ch_loop chl = l" "ch_index chl = kAdded" using w0(3) by (auto simp: server_up_def)
  have bare: "bare x" if "rx_channels w0 d = Some x" for d x
    using main_setup_bare [OF w0(1) e(11)] that by (simp add: all_bare_def)
  have "open_fds (nx_trace w0) = {lfd}" using assms(5) by (simp add: w0(2) open_fds_def)
  moreover have "dom (rx_channels w0) \<subseteq> {wc, c}" using w0(18) by auto
  ultimately have sh: "shape si ?w"
    using assms(1,6) w0(17,19,20) chl(1,2) by (auto simp: shape_def layout_def si chan_fd_def map_le_def ran_def)
  have "server_ok si [] ?w"
    using w0(3-8,12) unfolding server_ok_def by (intro exI [of _ ts]) (simp add: si server_up_def)
  moreover have "conns_inv si 0 [] [] [] ?w" using w0(17) by (simp add: conns_inv_def)
  moreover have "loop_ok si [] (el\<lparr>el_looping := True, el_quit := False\<rparr>)" using w0(11,13,16,24) by (simp add: loop_ok_def si)
  moreover have "plain_at l wc (Loop_read l) ?w" "plain_at l c (Accept_read a) ?w"
    using w0(19,21-23) chl bare by (simp_all add: plain_at_def plain_chan_def bare_def)
  moreover have "marks None ?w" using bare by (auto simp: marks_def bare_def)
  moreover have "rx_inv ?w" by (rule rx_inv_put_loop [OF w0(9,10)]) simp
  ultimately have "run_inv si 0 None [] [] [] [] ?w" using sh by (simp add: run_inv_def si)
  then show ?thesis using w0(1,10,11,14,25) num
    by (intro exI [of _ ?w]) (simp add: idle_def main_program_def EventLoop_loop_def EventLoop_is_in_loop_thread_def si)
qed

lemma run_inv_state:
  fixes w :: "(echo_cb, 'z) server_net_scheme"
  assumes R: "run_inv si n cur cs [] [] fs w"
  shows "dom (nx_conns w) = snd ` set cs" "open_fds (nx_trace w) = insert (si_lfd si) (fst ` set cs)"
    "\<And>fd a. (fd, a) \<in> set cs \<Longrightarrow> \<exists>tc ch. nx_conns w a = Some tc \<and> rx_channels w (tc_channel tc) = Some ch \<and> tc_fd tc = fd \<and>
       tc_state tc = kConnected \<and> nb_contents (tc_input_buffer tc) = [] \<and>
       (Channel_is_writing ch \<longleftrightarrow> nb_contents (tc_output_buffer tc) \<noteq> []) \<and>
       (writes_ok fd (session fd (nx_trace w)) \<longrightarrow>
          wire fd (session fd (nx_trace w)) @ nb_contents (tc_output_buffer tc) = received fd (session fd (nx_trace w)))"
proof -
  show dom: "dom (nx_conns w) = snd ` set cs" using run_invD(4) [OF R] by (simp add: conns_inv_def)
  have "conn_fd w (snd x) = fst x" if "x \<in> set cs" for x
    using run_conn_fd [OF R, of "fst x" "snd x"] that by auto
  then have "conn_fd w ` snd ` set cs = fst ` set cs" by (simp add: image_image)
  with shapeD(10) [OF run_invD(2) [OF R]] dom show "open_fds (nx_trace w) = insert (si_lfd si) (fst ` set cs)" by simp
next
  fix fd a assume "(fd, a) \<in> set cs"
  from run_conn [OF R this] obtain tc ch el where E: "conn_base a tc ch el w" "tc_fd tc = fd"
    "echo_state (si_server si) n a tc ch (nx_trace w)" by (rule echo_connE)
  with conn_baseD [OF E(1)] echo_stateD [OF E(3)] show "\<exists>tc ch. nx_conns w a = Some tc \<and> rx_channels w (tc_channel tc) = Some ch \<and> tc_fd tc = fd \<and>
       tc_state tc = kConnected \<and> nb_contents (tc_input_buffer tc) = [] \<and>
       (Channel_is_writing ch \<longleftrightarrow> nb_contents (tc_output_buffer tc) \<noteq> []) \<and>
       (writes_ok fd (session fd (nx_trace w)) \<longrightarrow>
          wire fd (session fd (nx_trace w)) @ nb_contents (tc_output_buffer tc) = received fd (session fd (nx_trace w)))"
    by (intro exI [of _ tc] exI [of _ ch]) (auto simp: drained_def echoed_def conn_live_def)
qed

lemma echo_program_run:
  fixes fresh :: "echo_cb server_net \<Rightarrow> addr \<times> addr"
  assumes kernel: "kernel_ok k" "small_reads k" "accepts_ok k lfd wfd" and alloc: "fresh_ok fresh"
    and start: "wc \<noteq> c" "wfd \<noteq> - 1" "epfd \<noteq> - 1" "k_socket k [] AF_INET = lfd" "lfd \<noteq> - 1" "lfd \<noteq> wfd"
      "\<forall>tr addr len. 0 \<le> k_bind k tr lfd addr len" "\<forall>tr. 0 \<le> k_listen k tr lfd" "num \<le> 0"
    and reports: "reports_valid l (\<lambda>rs. main_program k pton junk num loop_of t wfd epfd l wc s ac c fresh p rs empty_server_net) rs"
      "8 + sum_list (map report_size rs) * kExtraBuf \<le> vector_max_size"
    and si: "si = \<lparr>si_loop = l, si_wake = wc, si_server = s, si_acceptor = ac, si_listen = c, si_lfd = lfd, si_wfd = wfd, si_tid = t,
      si_running = True\<rparr>"
  shows "\<exists>w' cs. main_program k pton junk num loop_of t wfd epfd l wc s ac c fresh p rs empty_server_net = Inr w' \<and>
    run_inv si (sum_list (map report_size rs)) None cs [] [] [] w' \<and> idle si w'"
proof -
  have si': "si_loop si = l" "si_lfd si = lfd" "si_wfd si = wfd" "si_running si" by (simp_all add: si)
  from run_start [OF start si, of pton junk loop_of fresh p] obtain w0 where w0: "run_inv si 0 None [] [] [] [] w0" "idle si w0"
    "\<And>rs. main_program k pton junk num loop_of t wfd epfd l wc s ac c fresh p rs empty_server_net = echo_loop k fresh p si rs w0" by blast
  have "reports_valid (si_loop si) (\<lambda>rs. echo_loop k fresh p si rs w0) rs" using reports(1) by (simp only: w0(3) si')
  from run_loop [OF kernel(1,2) _ alloc w0(1) si'(4) w0(2) this reports(2)] kernel(3) show ?thesis by (auto simp: si' w0(3))
qed


section \<open>A run to evaluate on\<close>

text \<open>The acceptor's channel is always registered, so the kernel may always report it.\<close>

lemma listen_valid:
  fixes w :: "(echo_cb, 'z) server_net_scheme"
  assumes R: "run_inv si n cur cs ds gs fs w" and ev: "event_ok ev"
  shows "report_valid (si_loop si) (Some [(si_listen si, ev)]) w"
proof -
  from run_invD(3) [OF R] obtain ch where ch: "rx_channels w (si_listen si) = Some ch" "ch_loop ch = si_loop si" "ch_index ch = kAdded"
    by (auto simp: server_ok_def server_up_def)
  obtain el where el: "rx_loops w (si_loop si) = Some el" "0 < ep_events_size (el_poller el)" using run_invD(5) [OF R] by (auto simp: loop_ok_def)
  note inv = rx_invD [OF run_invD(1) [OF R] el(1)]
  have "ep_view (rx_channels w) (el_poller el) (ch_fd ch) = Some (ch_events ch, si_listen si)" using ch by (simp add: ep_view_iff [OF inv])
  then have "registered (el_poller el) (rx_channels w) (si_listen si)" using ch(1) ep_invD(3) [OF inv] by (simp add: registered_def)
  then show ?thesis using el ev by (simp add: report_valid_def)
qed

lemma listen_run:
  fixes w :: "(echo_cb, 'z) server_net_scheme"
  assumes k: "kernel_ok k" "small_reads k" "accepts_ok k (si_lfd si) (si_wfd si)" and al: "fresh_ok fresh"
    and R: "run_inv si 0 None [] [] [] [] w" "si_running si" "idle si w" and ev: "event_ok ev"
  shows "8 + n * kExtraBuf \<le> vector_max_size \<Longrightarrow>
    reports_valid (si_loop si) (\<lambda>rs. echo_loop k fresh p si rs w) (replicate n (Some [(si_listen si, ev)]))"
proof (induction n)
  case (Suc n)
  let ?rs = "replicate n (Some [(si_listen si, ev)])"
  have size: "sum_list (map report_size (replicate m (Some [(si_listen si, ev)]))) = m" for m
    by (simp add: report_size_def sum_list_replicate)
  have max: "8 + n * kExtraBuf \<le> vector_max_size" using Suc.prems by simp
  note IH = Suc.IH [OF max]
  from run_loop [OF k al R IH] max size [of n] obtain w' cs where "echo_loop k fresh p si ?rs w = Inr w'"
    "run_inv si n None cs [] [] [] w'" by auto
  with IH listen_valid [OF _ ev] show ?case by (simp add: replicate_append_same [symmetric] reports_valid_snoc)
qed (simp add: reports_valid_def)

text \<open>A kernel that accepts one peer at a time on descriptor 9, and an allocator.\<close>

definition one_peer_kernel :: kernel where
  "one_peer_kernel = chatty_kernel\<lparr>k_accept4 := \<lambda>tr _. if 9 \<in> open_fds tr then Io_error EMFILE else Io_ok (9, InetAddress_default)\<rparr>"

lemma one_peer_kernel_ok:
  "kernel_ok one_peer_kernel" "small_reads one_peer_kernel" "accepts_ok one_peer_kernel 3 5" "\<And>tr fam. k_socket one_peer_kernel tr fam = 3"
  "\<And>tr fd addr len. 0 \<le> k_bind one_peer_kernel tr fd addr len" "\<And>tr fd. 0 \<le> k_listen one_peer_kernel tr fd"
  by (auto simp: kernel_ok_def small_reads_def accepts_ok_def one_peer_kernel_def chatty_kernel_def slow_kernel_def kExtraBuf_def
      accept_logged_def split: if_splits)

definition next_addr :: "('u, 'z) net_scheme \<Rightarrow> addr \<times> addr" where
  "next_addr w = (Suc (Max (insert 0 (dom (nx_conns w)))), Suc (Max (insert 0 (dom (rx_channels w)))))"

lemma Suc_Max_fresh: "finite (dom m) \<Longrightarrow> m (Suc (Max (insert 0 (dom m)))) = None"
  using Max_ge [of "insert 0 (dom m)" "Suc (Max (insert 0 (dom m)))"] by (fastforce simp: domIff)

lemma next_addr_ok: "fresh_ok next_addr"
  by (simp add: fresh_ok_def next_addr_def Suc_Max_fresh)

lemma one_peer_run:
  "reports_valid 0 (\<lambda>rs. main_program one_peer_kernel (\<lambda>_ _. None) [] 0 (\<lambda>_. 0) 7 5 6 0 1 20 21 22 next_addr 30 rs empty_server_net)
     [Some [(22, EPOLLIN)], Some [(22, EPOLLIN)]]"
  "8 + sum_list (map report_size [Some [(22, EPOLLIN)], Some [(22, EPOLLIN)]]) * kExtraBuf \<le> vector_max_size"
proof -
  let ?si = "\<lparr>si_loop = 0, si_wake = 1, si_server = 20, si_acceptor = 21, si_listen = 22, si_lfd = 3, si_wfd = 5, si_tid = 7, si_running = True\<rparr>"
  let ?main = "\<lambda>rs. main_program one_peer_kernel (\<lambda>_ _. None) [] 0 (\<lambda>_. 0) 7 5 6 0 1 20 21 22 next_addr 30 rs empty_server_net"
  note K = one_peer_kernel_ok
  have ev: "event_ok EPOLLIN" by code_simp
  have max: "8 + 2 * kExtraBuf \<le> vector_max_size" by (simp add: kExtraBuf_def vector_max_size_def)
  from run_start [of 1 22 5 6 one_peer_kernel 3 0 ?si 0 20 21 7 "\<lambda>_ _. None" "[]" "\<lambda>_. 0" next_addr 30] K(4-6) obtain w0 where
    w0: "run_inv ?si 0 None [] [] [] [] w0" "idle ?si w0" "\<And>rs. ?main rs = echo_loop one_peer_kernel next_addr 30 ?si rs w0" by auto
  from listen_run [OF K(1,2) _ next_addr_ok w0(1) _ w0(2) ev max, of 30] K(3) show "reports_valid 0 ?main [Some [(22, EPOLLIN)], Some [(22, EPOLLIN)]]"
    unfolding w0(3) by (simp add: numeral_2_eq_2)
  from max show "8 + sum_list (map report_size [Some [(22, EPOLLIN)], Some [(22, EPOLLIN)]]) * kExtraBuf \<le> vector_max_size"
    by (simp add: report_size_def)
qed


end
