(* ===== verification/Echo_Teardown.thy ===== *)
theory Echo_Teardown
  imports Echo_Run
begin

unbundle bit_operations_syntax

text \<open>
  The end of the echo server: the loop is left after a \<open>quit\<close>, the server is destroyed with
  all its connections, and the loop after it.  Nothing is left of them.
\<close>

section \<open>Leaving the loop\<close>

lemma run_inv_stop:
  fixes w :: "(echo_cb, 'z) server_net_scheme"
  assumes R: "run_inv si n cur cs ds gs fs w" and el: "rx_loops w (si_loop si) = Some el"
  shows "run_inv (si\<lparr>si_running := False\<rparr>) n cur cs ds gs fs (put_loop (si_loop si) (el\<lparr>el_quit := True, el_looping := False\<rparr>) w)"
proof -
  let ?el = "el\<lparr>el_quit := True, el_looping := False\<rparr>"
  let ?w = "put_loop (si_loop si) ?el w"
  note D = run_invD [OF R]
  have inv: "rx_inv ?w" by (rule rx_inv_put_loop [OF D(1) el]) simp
  have "loop_ok si fs el" using D(5) el by auto
  then have ok: "loop_ok (si\<lparr>si_running := False\<rparr>) fs ?el" by (simp add: loop_ok_def)
  have sh: "shape si ?w" by (rule shape_cong [OF D(2)]) (simp_all add: conn_fd_def conn_chan_def chan_fd_def fun_eq_iff)
  have "conn_kept b (si_loop si) (si_tid si) w ?w" for b
    using inv \<open>loop_ok si fs el\<close> by (auto simp: conn_kept_def loop_ok_def)
  then have "conns_inv si n cs ds gs ?w" by (intro conns_inv_kept [OF D(4), where A = "{}" and tr = "[]"]) simp_all
  with inv sh ok D(3,6,7,8) show ?thesis
    by (auto simp: run_inv_def shape_def conns_inv_def server_ok_def server_up_def plain_at_def marks_def)
qed

section \<open>The destructor of the server\<close>

lemma run_destroy_connection:
  fixes w :: "(echo_cb, 'z) server_net_scheme"
  assumes R: "run_inv si n None ((fd, a) # cs) [] [] [] w" and idle: "idle si w"
    and u: "u = run_user (EchoServer_callbacks k (si_tid si) p) (si_tid si)"
  shows "\<exists>w'. destroy_connections [si_server si] [si_loop si] u (si_tid si) (si_server si) ((fd, a) # rest) w =
      destroy_connections [si_server si] [si_loop si] u (si_tid si) (si_server si) rest w' \<and>
    run_inv si n None cs [] [] [] w' \<and> idle si w'"
proof -
  note D = run_invD [OF R]
  let ?l = "si_loop si" and ?t = "si_tid si" and ?s = "si_server si"
  from run_conn [OF R, of fd a] obtain tc ch el where E: "conn_base a tc ch el w" "el_tid el = ?t" "tc_loop tc = ?l" "tc_fd tc = fd"
    "echo_state ?s n a tc ch (nx_trace w)" by (auto elim: echo_connE)
  note B = conn_baseD [OF E(1)] and S = echo_stateD [OF E(5)]
  obtain ts where ts: "nx_servers w ?s = Some ts" "ts_connections ts = (fd, a) # cs" using D(3) by (rule server_ok_ts)
  have cs: "filter (\<lambda>x. fst x \<noteq> fd) cs = cs" using D(4) by (auto simp: conns_inv_def filter_id_conv)
  let ?tc = "tc\<lparr>tc_state := kDisconnected\<rparr>" and ?w1 = "put_server ?s (ts\<lparr>ts_connections := cs\<rparr>) w"
  let ?w2 = "put_conn a ?tc ?w1" and ?ch = "ch\<lparr>ch_events := kNoneEvent, ch_added_to_loop := True, ch_index := kDeleted\<rparr>"
  have pre: "rx_inv ?w2" "rx_channels ?w2 (tc_channel tc) = Some ch" "rx_loops ?w2 (ch_loop ch) = Some el" "?t = el_tid el"
    "ch_index ch = kNew \<longrightarrow> ep_channels (el_poller el) (ch_fd ch) = None" using B E(2) by (simp_all add: rx_inv_def)
  from set_events_ok [OF pre, of "\<lambda>_. kNoneEvent"] B(5) E(3) obtain ep where
    w3: "set_events ?t (tc_channel tc) (\<lambda>_. kNoneEvent) ?w2 = Inr (put_loop ?l (el\<lparr>el_poller := ep\<rparr>) (put_channel (tc_channel tc) ?ch ?w2))"
    "rx_inv (put_loop ?l (el\<lparr>el_poller := ep\<rparr>) (put_channel (tc_channel tc) ?ch ?w2))"
    "ep_events_size ep = ep_events_size (el_poller el)" using reading_added [OF E(1) S(9)] by (auto simp: Let_def)
  let ?w3 = "put_loop ?l (el\<lparr>el_poller := ep\<rparr>) (put_channel (tc_channel tc) ?ch ?w2)"
  have el: "rx_loops w ?l = Some el" using B(4) E(3) by simp
  have ok: "loop_ok si [] (el\<lparr>el_poller := ep\<rparr>)" using D(5) el w3(3) by (auto simp: loop_ok_def)
  have W: "nx_conns ?w3 = (nx_conns w)(a \<mapsto> ?tc)" "rx_channels ?w3 = (rx_channels w)(tc_channel tc \<mapsto> ?ch)"
    "rx_loops ?w3 ?l = Some (el\<lparr>el_poller := ep\<rparr>)" "nx_trace ?w3 = nx_trace w"
    "nx_servers ?w3 ?s = Some (ts\<lparr>ts_connections := filter (\<lambda>x. fst x \<noteq> fd) ((fd, a) # cs)\<rparr>)" "nx_acceptors ?w3 = nx_acceptors w"
    by (simp_all add: cs, simp add: put_conn_def)
  have R3: "run_inv si n None cs [a] [] [] ?w3"
    using run_inv_retire [OF R _ E(1,3,4) _ ts(1) refl W w3(2) ok] S(3) E(4) by (simp add: cs)
  have idle3: "idle si ?w3" using idle el by (simp add: idle_def)
  from run_inv_destoryed [OF R3 idle3, of k "EchoServer_callbacks k ?t p"] obtain w4 where
    w4: "TcpConnection_connect_destoryed u ?t a ?w3 = Inr w4" "run_inv si n None cs [] [a] [] w4" "idle si w4"
    by (auto simp: run_net_functor_def u)
  from run_inv_drop [OF w4(2)] obtain w5 where w5: "release [?s] [?l] [] ?t a w4 = Inr w5" "run_inv si n None cs [] [] [] w5"
    "rx_loops w5 = rx_loops w4" by (auto simp: destroy_net_functor_def)
  have cb: "tc_connection_callback tc = Some (User Handle_connect)" using S(4) by (simp add: echo_cbs_def)
  have "TcpConnection_connect_destoryed u ?t a ?w1 = Channel_remove ?t (tc_channel tc) ?w3"
    using B(2) el E(2,3) S(2) w3(1) cb
    by (simp add: TcpConnection_connect_destoryed_def assert_in_loop_def EventLoop_is_in_loop_thread_def Channel_disable_all_def
        TcpConnection_set_state_def call_user_def u run_user_def EchoServer_callbacks_def EchoServer_handle_connect_def)
  also have "\<dots> = Inr w4"
    using w4(1) E(2,3) by (simp add: TcpConnection_connect_destoryed_def assert_in_loop_def EventLoop_is_in_loop_thread_def)
  finally have "destroy_connections [?s] [?l] u ?t ?s ((fd, a) # rest) w = destroy_connections [?s] [?l] u ?t ?s rest w5"
    using ts B(2) el E(2,3) w5(1) by (simp add: cs EventLoop_run_in_loop_def EventLoop_is_in_loop_thread_def)
  moreover have "idle si w5" using w4(3) w5(3) by (simp add: idle_def)
  ultimately show ?thesis using w5(2) by blast
qed

lemma run_destroy_connections:
  fixes w :: "(echo_cb, 'z) server_net_scheme"
  assumes "run_inv si n None cs [] [] [] w" and "idle si w" and "u = run_user (EchoServer_callbacks k (si_tid si) p) (si_tid si)"
  shows "\<exists>w'. destroy_connections [si_server si] [si_loop si] u (si_tid si) (si_server si) cs w = Inr w' \<and>
    run_inv si n None [] [] [] [] w' \<and> idle si w'"
  using assms
proof (induction cs arbitrary: w)
  case (Cons x cs)
  obtain fd a where x: "x = (fd, a)" by (cases x)
  from run_destroy_connection [OF Cons.prems [unfolded x], of cs] obtain w1 where
    w1: "destroy_connections [si_server si] [si_loop si] u (si_tid si) (si_server si) (x # cs) w =
      destroy_connections [si_server si] [si_loop si] u (si_tid si) (si_server si) cs w1"
    "run_inv si n None cs [] [] [] w1" "idle si w1" unfolding x by blast
  from Cons.IH [OF w1(2,3) Cons.prems(3)] w1(1) show ?case by simp
qed auto

section \<open>The acceptor and the loop\<close>

lemma channel_retire:
  assumes inv: "rx_inv w" and ch: "rx_channels w d = Some ch" "ch_loop ch = l" "ch_index ch \<noteq> kNew"
    and el: "rx_loops w l = Some el" "t = el_tid el" "\<not> el_event_handing el"
  shows "\<exists>w1 ep ch'. Channel_disable_all t d w = Inr w1 \<and>
    Channel_remove t d w1 = Inr (put_loop l (el\<lparr>el_poller := ep\<rparr>) (put_channel d ch' w)) \<and>
    rx_inv (put_loop l (el\<lparr>el_poller := ep\<rparr>) (put_channel d ch' w)) \<and> ep_channels ep (ch_fd ch) = None \<and>
    ch_index ch' = kNew \<and> \<not> ch_added_to_loop ch' \<and> ch_event_handling ch' = ch_event_handling ch \<and> ch_loop ch' = l \<and> ch_fd ch' = ch_fd ch"
proof -
  have pre: "rx_loops w (ch_loop ch) = Some el" "ch_index ch = kNew \<longrightarrow> ep_channels (el_poller el) (ch_fd ch) = None" using ch el by simp_all
  let ?ch1 = "\<lambda>i. ch\<lparr>ch_events := kNoneEvent, ch_added_to_loop := True, ch_index := i\<rparr>"
  let ?w1 = "\<lambda>ep i. put_loop l (el\<lparr>el_poller := ep\<rparr>) (put_channel d (?ch1 i) w)"
  from set_events_ok [OF inv ch(1) pre(1) el(2) pre(2), of "\<lambda>_. kNoneEvent"] ch(2) obtain ep i where
    w1: "set_events t d (\<lambda>_. kNoneEvent) w = Inr (?w1 ep i)" "rx_inv (?w1 ep i)" "i \<noteq> kNew" by (auto simp: Let_def)
  let ?ch2 = "ch\<lparr>ch_events := kNoneEvent, ch_added_to_loop := False, ch_index := kNew\<rparr>"
  have "rx_channels (?w1 ep i) d = Some (?ch1 i)" "rx_loops (?w1 ep i) (ch_loop (?ch1 i)) = Some (el\<lparr>el_poller := ep\<rparr>)"
    "t = el_tid (el\<lparr>el_poller := ep\<rparr>)" "Channel_is_none_event (?ch1 i)" "ch_index (?ch1 i) \<noteq> kNew"
    using ch(2) el(2) w1(3) by (simp_all add: Channel_is_none_event_def)
  from Channel_remove_ok [OF w1(2) this] el(3) ch(2) obtain ep' where
    w2: "Channel_remove t d (?w1 ep i) = Inr (put_loop l (el\<lparr>el_poller := ep'\<rparr>) (put_channel d ?ch2 (?w1 ep i)))"
    "rx_inv (put_loop l (el\<lparr>el_poller := ep'\<rparr>) (put_channel d ?ch2 (?w1 ep i)))" "ep_channels ep' (ch_fd ch) = None" by (auto simp: Let_def)
  have eq: "put_loop l (el\<lparr>el_poller := ep'\<rparr>) (put_channel d ?ch2 (?w1 ep i)) = put_loop l (el\<lparr>el_poller := ep'\<rparr>) (put_channel d ?ch2 w)"
    by (simp add: put_loop_def put_channel_def)
  show ?thesis using w1(1) ch(2) w2(1,2) [unfolded eq] w2(3)
    by (intro exI [of _ "?w1 ep i"] exI [of _ ep'] exI [of _ ?ch2]) (simp add: Channel_disable_all_def)
qed

lemma channel_destroy:
  assumes "rx_channels w d = Some ch" "\<not> ch_added_to_loop ch" "\<not> ch_event_handling ch" "rx_loops w (ch_loop ch) = Some el"
    and "ep_channels (el_poller el) (ch_fd ch) = None"
  shows "Channel_destroy t d w = Inr (w\<lparr>rx_channels := (rx_channels w)(d := None)\<rparr>)"
  using assms by (simp add: Channel_destroy_def EventLoop_has_channel_def EventLoop_is_in_loop_thread_def Epoller_has_channel_def)

lemma rx_inv_drop_channel:
  assumes "rx_inv w" and "rx_channels w d = Some ch" and "ch_index ch = kNew"
  shows "rx_inv (w\<lparr>rx_channels := (rx_channels w)(d := None)\<rparr>)"
  using rx_invD [OF assms(1)] assms(2,3) by (auto simp: rx_inv_def intro: ep_inv_destroy)

text \<open>What is left when the server is gone: the wake-up channel and the loop.\<close>

definition only_loop :: "site \<Rightarrow> ('v, 'z) server_net_scheme \<Rightarrow> bool" where
  "only_loop si w \<longleftrightarrow> rx_inv w \<and> nx_conns w = Map.empty \<and> open_fds (nx_trace w) = {} \<and>
     (\<exists>ch. rx_channels w = [si_wake si \<mapsto> ch] \<and> ch_loop ch = si_loop si \<and> ch_index ch \<noteq> kNew \<and> \<not> ch_event_handling ch) \<and>
     (\<exists>el. rx_loops w (si_loop si) = Some el \<and> \<not> el_event_handing el \<and> el_tid el = si_tid si \<and> el_wakeup_channel el = si_wake si \<and>
        el_pending_functors el = [])"

lemma run_destroy_acceptor:
  fixes w :: "(echo_cb, 'z) server_net_scheme"
  assumes R: "run_inv si n None [] [] [] [] w" and idle: "idle si w"
  shows "\<exists>w'. Acceptor_destroy (si_tid si) (si_acceptor si) w = Inr w' \<and> only_loop si w' \<and> nx_acceptors w' (si_acceptor si) = None"
proof -
  let ?l = "si_loop si" and ?t = "si_tid si" and ?d = "si_listen si"
  note D = run_invD [OF R] and S = shapeD [OF run_invD(2) [OF R]]
  obtain el where el: "rx_loops w ?l = Some el" "loop_ok si [] el" "\<not> el_event_handing el" using D(5) idle by (auto simp: idle_def)
  have conns: "nx_conns w = Map.empty" using D(4) by (auto simp: conns_inv_def)
  obtain ch where ch: "rx_channels w ?d = Some ch" "ch_loop ch = ?l" "ch_index ch \<noteq> kNew" "ch_fd ch = si_lfd si"
    using D(7) S(9) by (auto simp: plain_at_def chan_fd_def)
  obtain chw where chw: "rx_channels w (si_wake si) = Some chw" "ch_loop chw = ?l" "ch_index chw \<noteq> kNew"
    using D(6) by (auto simp: plain_at_def)
  have quiet: "\<not> ch_event_handling ch" "\<not> ch_event_handling chw" using D(8) ch(1) chw(1) by (auto simp: marks_def)
  have acc: "nx_acceptors w (si_acceptor si) = Some \<lparr>ac_loop = ?l, ac_listening = True, ac_socket = si_lfd si, ac_channel = ?d,
      ac_new_connection_callback = Some (si_server si)\<rparr>" using D(3) by (auto simp: server_ok_def server_up_def)
  have tid: "?t = el_tid el" using el(2) by (simp add: loop_ok_def)
  from channel_retire [OF D(1) ch(1-3) el(1) tid el(3)] obtain w2 ep ch' where
    w2: "Channel_disable_all ?t ?d w = Inr w2" "Channel_remove ?t ?d w2 = Inr (put_loop ?l (el\<lparr>el_poller := ep\<rparr>) (put_channel ?d ch' w))"
    "rx_inv (put_loop ?l (el\<lparr>el_poller := ep\<rparr>) (put_channel ?d ch' w))" "ep_channels ep (ch_fd ch) = None" "ch_index ch' = kNew"
    "\<not> ch_added_to_loop ch'" "ch_event_handling ch' = ch_event_handling ch" "ch_loop ch' = ?l" "ch_fd ch' = ch_fd ch" by blast
  let ?w3 = "put_loop ?l (el\<lparr>el_poller := ep\<rparr>) (put_channel ?d ch' w)"
  let ?w4 = "?w3\<lparr>rx_channels := (rx_channels ?w3)(?d := None)\<rparr>"
  let ?w' = "?w4\<lparr>nx_trace := nx_trace w @ [Sys_close (si_lfd si)], nx_acceptors := (nx_acceptors w)(si_acceptor si := None)\<rparr>"
  have inv: "rx_inv ?w4" by (rule rx_inv_drop_channel [OF w2(3) _ w2(5)]) simp
  have "Channel_destroy ?t ?d ?w3 = Inr ?w4"
    by (rule channel_destroy [where ch = ch' and el = "el\<lparr>el_poller := ep\<rparr>"]) (use w2 quiet in simp_all)
  then have run: "Acceptor_destroy ?t (si_acceptor si) w = Inr ?w'"
    using acc w2(1,2) by (simp add: Acceptor_destroy_def Socket_destroy_def)
  have "(rx_channels w)(?d := None) = [si_wake si \<mapsto> chw]"
    using S(5,7) chw(1) conns by (auto simp: fun_eq_iff dom_def)
  then have "only_loop si ?w'"
    unfolding only_loop_def using inv conns chw(2,3) quiet(2) el S(10)
    by (intro conjI exI [of _ chw] exI [of _ "el\<lparr>el_poller := ep\<rparr>"]) (simp_all add: rx_inv_def loop_ok_def)
  with run show ?thesis by (intro exI [of _ ?w']) simp
qed

lemma run_destroy_server:
  fixes w :: "(echo_cb, 'z) server_net_scheme"
  assumes R: "run_inv si n None cs [] [] [] w" and idle: "idle si w"
    and u: "u = run_user (EchoServer_callbacks k (si_tid si) p) (si_tid si)"
  shows "\<exists>w'. TcpServer_destroy [si_server si] [si_loop si] u (si_tid si) (si_server si) w = Inr w' \<and> only_loop si w' \<and>
    nx_servers w' (si_server si) = None \<and> nx_acceptors w' (si_acceptor si) = None"
proof -
  let ?l = "si_loop si" and ?t = "si_tid si" and ?s = "si_server si"
  from run_invD(3) [OF R] obtain ts where ts: "nx_servers w ?s = Some ts" "ts_loop ts = ?l" "ts_connections ts = cs"
    "ts_acceptor ts = si_acceptor si" by (auto simp: server_ok_def server_up_def)
  obtain el where el: "rx_loops w ?l = Some el" "el_tid el = ?t" using run_invD(5) [OF R] by (auto simp: loop_ok_def)
  from run_destroy_connections [OF R idle u] obtain w1 where
    w1: "destroy_connections [?s] [?l] u ?t ?s cs w = Inr w1" "run_inv si n None [] [] [] [] w1" "idle si w1" by blast
  from run_destroy_acceptor [OF w1(2,3)] obtain w2 where w2: "Acceptor_destroy ?t (si_acceptor si) w1 = Inr w2" "only_loop si w2"
    "nx_acceptors w2 (si_acceptor si) = None" by blast
  have "TcpServer_destroy [?s] [?l] u ?t ?s w = Inr (w2\<lparr>nx_servers := (nx_servers w2)(?s := None)\<rparr>)"
    using ts el w1(1) w2(1) by (simp add: TcpServer_destroy_def assert_in_loop_def EventLoop_is_in_loop_thread_def)
  moreover have "only_loop si (w2\<lparr>nx_servers := (nx_servers w2)(?s := None)\<rparr>)" using w2(2) by (simp add: only_loop_def rx_inv_def)
  ultimately show ?thesis using w2(3) by auto
qed

lemma destroy_loop:
  fixes w :: "(echo_cb, 'z) server_net_scheme"
  assumes "only_loop si w"
  shows "\<exists>w'. EventLoop_destroy destroy (si_tid si) (si_loop si) w = Inr w' \<and> rx_channels w' = Map.empty \<and> rx_loops w' (si_loop si) = None \<and>
    nx_conns w' = Map.empty \<and> open_fds (nx_trace w') = {} \<and> rx_loop_in_thread w' (si_tid si) = None"
proof -
  let ?l = "si_loop si" and ?t = "si_tid si" and ?d = "si_wake si"
  from assms obtain ch el where w: "rx_inv w" "nx_conns w = Map.empty" "open_fds (nx_trace w) = {}" "rx_channels w = [?d \<mapsto> ch]"
    "ch_loop ch = ?l" "ch_index ch \<noteq> kNew" "\<not> ch_event_handling ch" "rx_loops w ?l = Some el" "\<not> el_event_handing el" "?t = el_tid el"
    "el_wakeup_channel el = ?d" "el_pending_functors el = []" unfolding only_loop_def by metis
  have "rx_channels w ?d = Some ch" using w(4) by simp
  from channel_retire [OF w(1) this w(5,6,8,10,9)] obtain w1 ep ch' where
    w1: "Channel_disable_all ?t ?d w = Inr w1" "Channel_remove ?t ?d w1 = Inr (put_loop ?l (el\<lparr>el_poller := ep\<rparr>) (put_channel ?d ch' w))"
    "ep_channels ep (ch_fd ch) = None" "\<not> ch_added_to_loop ch'" "ch_event_handling ch' = ch_event_handling ch" "ch_loop ch' = ?l"
    "ch_fd ch' = ch_fd ch" by blast
  let ?w2 = "put_loop ?l (el\<lparr>el_poller := ep\<rparr>) (put_channel ?d ch' w)"
  let ?w3 = "put_loop ?l (el\<lparr>el_poller := ep, el_pending_functors := []\<rparr>)
      (?w2\<lparr>rx_loop_in_thread := (rx_loop_in_thread ?w2)(?t := None)\<rparr>)"
  have "Channel_destroy ?t ?d ?w3 = Inr (?w3\<lparr>rx_channels := (rx_channels ?w3)(?d := None)\<rparr>)"
    by (rule channel_destroy [where ch = ch' and el = "el\<lparr>el_poller := ep, el_pending_functors := []\<rparr>"]) (use w1 w(7) in simp_all)
  then have "EventLoop_destroy destroy ?t ?l w = Inr (?w3\<lparr>rx_channels := (rx_channels ?w3)(?d := None), rx_loops := (rx_loops ?w3)(?l := None)\<rparr>)"
    using w(8,11,12) w1(1,2) by (simp add: EventLoop_destroy_def upd_loop_def)
  then show ?thesis using w(2-4) by simp
qed

section \<open>The whole shutdown\<close>

text \<open>
  C6. Shutting down leaves nothing behind: whatever run the echo server had on its loop, when the
  loop is left after a \<open>quit\<close> in its thread, the destructor of the server passes every
  assertion, destroying each of its connections and the acceptor, and so does the destructor of the
  loop after it; no connection, no channel and no open descriptor of a socket is left.
\<close>

theorem EchoServer_shutdown:
  fixes fresh :: "echo_cb server_net \<Rightarrow> addr \<times> addr"
  assumes kernel: "kernel_ok k" "small_reads k" "accepts_ok k lfd wfd" and alloc: "fresh_ok fresh"
    and start: "wc \<noteq> c" "wfd \<noteq> - 1" "epfd \<noteq> - 1" "k_socket k [] AF_INET = lfd" "lfd \<noteq> - 1" "lfd \<noteq> wfd"
      "\<forall>tr addr len. 0 \<le> k_bind k tr lfd addr len" "\<forall>tr. 0 \<le> k_listen k tr lfd" "num \<le> 0"
    and reports: "reports_valid l (\<lambda>rs. main_program k pton junk num loop_of t wfd epfd l wc s ac c fresh p rs empty_server_net) rs"
      "8 + sum_list (map report_size rs) * kExtraBuf \<le> vector_max_size"
  shows "\<exists>w w1 w2 w3. main_program k pton junk num loop_of t wfd epfd l wc s ac c fresh p rs empty_server_net = Inr w \<and>
    bindE (upd_loop l (EventLoop_quit t) w)
      (EventLoop_loop_body conn_alive (run_chan_cb k fresh (EchoServer_callbacks k t p) t)
         (run_net_functor k (EchoServer_callbacks k t p) t) (destroy_net_functor [s] [l] t) l []) = Inr w1 \<and>
    TcpServer_destroy [s] [l] (run_user (EchoServer_callbacks k t p) t) t s w1 = Inr w2 \<and>
    EventLoop_destroy (destroy_net_functor [] [l] t) t l w2 = Inr w3 \<and>
    nx_servers w2 s = None \<and> nx_acceptors w2 ac = None \<and> nx_conns w3 = Map.empty \<and> rx_channels w3 = Map.empty \<and>
    rx_loops w3 l = None \<and> open_fds (nx_trace w3) = {}"
proof -
  define si where "si = \<lparr>si_loop = l, si_wake = wc, si_server = s, si_acceptor = ac, si_listen = c, si_lfd = lfd, si_wfd = wfd, si_tid = t,
    si_running = True\<rparr>"
  have si': "si_loop si = l" "si_server si = s" "si_tid si = t" "si_acceptor si = ac" by (simp_all add: si_def)
  from echo_program_run [OF assms si_def] obtain w cs where
    w: "main_program k pton junk num loop_of t wfd epfd l wc s ac c fresh p rs empty_server_net = Inr w"
    "run_inv si (sum_list (map report_size rs)) None cs [] [] [] w" "idle si w" by blast
  obtain el where el: "rx_loops w l = Some el" "el_tid el = t" "\<not> el_event_handing el"
    using run_invD(5) [OF w(2)] w(3) by (auto simp: idle_def loop_ok_def si')
  let ?w1 = "put_loop l (el\<lparr>el_quit := True, el_looping := False\<rparr>) w" and ?si = "si\<lparr>si_running := False\<rparr>"
  have stop: "bindE (upd_loop l (EventLoop_quit t) w) (EventLoop_loop_body alive run runf destroy l []) = Inr ?w1" for alive run runf destroy
    using el by (simp add: upd_loop_def EventLoop_quit_def EventLoop_is_in_loop_thread_def EventLoop_loop_body.simps Let_def put_loop_def)
  have "run_inv ?si (sum_list (map report_size rs)) None cs [] [] [] ?w1" "idle ?si ?w1"
    using run_inv_stop [OF w(2), of el] el by (simp_all add: si' idle_def)
  from run_destroy_server [OF this, of "run_user (EchoServer_callbacks k t p) t" k p] obtain w2 where
    w2: "TcpServer_destroy [s] [l] (run_user (EchoServer_callbacks k t p) t) t s ?w1 = Inr w2" "only_loop ?si w2" "nx_servers w2 s = None"
    "nx_acceptors w2 ac = None" by (auto simp: si')
  from destroy_loop [OF w2(2), of "destroy_net_functor [] [l] t"] obtain w3 where
    "EventLoop_destroy (destroy_net_functor [] [l] t) t l w2 = Inr w3" "rx_channels w3 = Map.empty" "rx_loops w3 l = None"
    "nx_conns w3 = Map.empty" "open_fds (nx_trace w3) = {}" by (auto simp: si')
  with w(1) stop w2 show ?thesis by blast
qed

theorem EchoServer_shutdown_witness:
  "\<exists>(w :: echo_cb server_net) w1 w2 w3. main_program one_peer_kernel (\<lambda>_ _. None) [] 0 (\<lambda>_. 0) 7 5 6 0 1 20 21 22 next_addr 30
       [Some [(22, EPOLLIN)], Some [(22, EPOLLIN)]] empty_server_net = Inr w \<and>
     bindE (upd_loop 0 (EventLoop_quit 7) w)
       (EventLoop_loop_body conn_alive (run_chan_cb one_peer_kernel next_addr (EchoServer_callbacks one_peer_kernel 7 30) 7)
         (run_net_functor one_peer_kernel (EchoServer_callbacks one_peer_kernel 7 30) 7) (destroy_net_functor [20] [0] 7) 0 []) = Inr w1 \<and>
     TcpServer_destroy [20] [0] (run_user (EchoServer_callbacks one_peer_kernel 7 30) 7) 7 20 w1 = Inr w2 \<and>
     EventLoop_destroy (destroy_net_functor [] [0] 7) 7 0 w2 = Inr w3 \<and> open_fds (nx_trace w3) = {}"
proof -
  note K = one_peer_kernel_ok
  from EchoServer_shutdown [OF K(1-3) next_addr_ok, of 1 22 6 0 0 "\<lambda>_ _. None" "[]" "\<lambda>_. 0" 7 20 21 30, OF _ _ _ _ _ _ _ _ _ one_peer_run]
    K(4-6) show ?thesis by simp blast
qed

end
