(* ===== verification/Pool_Model.thy ===== *)
theory Pool_Model
  imports Echo_Teardown
begin

unbundle bit_operations_syntax

text \<open>
  The echo server in the configuration that test/test_server.cc builds: \<open>set_thread_num()\<close>
  asks for as many threads as the machine has, so that the main thread runs the loop of the
  acceptor and every connection lives on the loop of a thread of the pool.  The threads run
  \<open>EventLoop::loop\<close> side by side; here the loop is cut into the steps that a thread takes,
  and a step of one thread may come between any two steps of another.  A step is one return of
  \<open>epoll_wait\<close>, the handler of one channel, the swap of the queue of functors, one functor, or
  the destruction of one functor.  A handler or functor is one step because it shares nothing
  with those of other threads but the queues of functors, to which it adds under the mutex, and
  the kernel.
\<close>

section \<open>Threads\<close>

text \<open>A thread with its loop: the addresses of the loop and of its wake-up channel, the
  descriptors of \<open>eventfd\<close> and \<open>epoll_create1\<close>, and the thread's id.\<close>

record worker =
  wk_loop :: addr
  wk_wake :: addr
  wk_wfd :: int
  wk_epfd :: int
  wk_tid :: int

text \<open>The main thread, the threads of the pool, the server, its acceptor and the acceptor's
  channel, and the listening descriptor.\<close>

record pool_site =
  ps_base :: worker
  ps_crew :: "worker list"
  ps_server :: addr
  ps_acceptor :: addr
  ps_listen :: addr
  ps_lfd :: int

definition ps_all :: "pool_site \<Rightarrow> worker list" where
  "ps_all P = ps_base P # ps_crew P"

text \<open>Where a thread is in \<open>EventLoop::loop\<close>.\<close>

datatype 'f thread_at =
    At_loop                         \<comment> \<open>about to call \<open>loop\<close>\<close>
  | At_poll                         \<comment> \<open>at the head of the \<open>while\<close>, or in \<open>epoll_wait\<close>\<close>
  | At_dispatch "addr list"         \<comment> \<open>these of the active channels are still to be handled\<close>
  | At_call "'f list" "'f list"     \<comment> \<open>in \<open>do_pending_functors\<close>: still to be run, already run\<close>
  | At_drop "'f list"               \<comment> \<open>its local vector is being destroyed\<close>
  | At_end                          \<comment> \<open>\<open>loop\<close> has returned\<close>

type_synonym echo_functor = "echo_cb server_cb net_functor"

record pool_state =
  pl_net :: "echo_cb server_net"
  pl_at :: "addr \<Rightarrow> echo_functor thread_at"

definition move :: "addr \<Rightarrow> echo_functor thread_at \<Rightarrow> pool_state \<Rightarrow> echo_cb server_net \<Rightarrow> pool_state" where
  "move l pc x w = x\<lparr>pl_net := w, pl_at := (pl_at x)(l := pc)\<rparr>"

text \<open>The functors that a thread has taken out of its queue and not yet destroyed.\<close>

fun at_functors :: "'f thread_at \<Rightarrow> 'f list" where
  "at_functors (At_call fs ds) = fs @ ds"
| "at_functors (At_drop fs) = fs"
| "at_functors _ = []"

definition held_elsewhere :: "pool_site \<Rightarrow> addr \<Rightarrow> pool_state \<Rightarrow> echo_functor list" where
  "held_elsewhere P l x = concat (map (\<lambda>m. if wk_loop m = l then [] else at_functors (pl_at x (wk_loop m))) (ps_all P))"

section \<open>Steps\<close>

text \<open>The next step of the thread \<open>m\<close>; \<open>r\<close> is what \<open>epoll_wait\<close> returns if the thread is
  at it, \<open>p\<close> the address of the string in \<open>handle_message\<close>.\<close>

definition thread_act ::
    "kernel \<Rightarrow> (echo_cb server_net \<Rightarrow> addr \<times> addr) \<Rightarrow> addr \<Rightarrow> pool_site \<Rightarrow> worker \<Rightarrow> (addr \<times> events) list option \<Rightarrow>
     pool_state \<Rightarrow> pool_state res" where
  "thread_act k fresh p P m r x =
     (let l = wk_loop m; t = wk_tid m; w = pl_net x
      in case pl_at x l of
           At_loop \<Rightarrow> bindE (get_loop l w) (\<lambda>el.
             bindE (assertE (\<not> el_looping el \<and> EventLoop_is_in_loop_thread t el)) (\<lambda>_.
               Inr (move l At_poll x (put_loop l (el\<lparr>el_looping := True, el_quit := False\<rparr>) w))))
         | At_poll \<Rightarrow> bindE (get_loop l w) (\<lambda>el.
             if el_quit el then Inr (move l At_end x (put_loop l (el\<lparr>el_looping := False\<rparr>) w))
             else bindE (Epoller_poll r (el_poller el) (rx_channels w) []) (\<lambda>(ep, st, active).
               Inr (move l (At_dispatch active) x (put_loop l (el\<lparr>el_poller := ep, el_active_channels := active, el_event_handing := True\<rparr>)
                 (w\<lparr>rx_channels := st\<rparr>)))))
         | At_dispatch (c # cs) \<Rightarrow> bindE (upd_loop l (\<lambda>el. el\<lparr>el_current_active_channel := Some c\<rparr>) w) (\<lambda>w1.
             bindE (Channel_handle_event conn_alive (run_chan_cb k fresh (EchoServer_callbacks k t p) t) (get_channel c) (upd_channel c) w1) (\<lambda>w2.
               Inr (move l (At_dispatch cs) x w2)))
         | At_dispatch [] \<Rightarrow> bindE (upd_loop l (\<lambda>el. el\<lparr>el_current_active_channel := None, el_event_handing := False\<rparr>) w) (\<lambda>w1.
             bindE (get_loop l w1) (\<lambda>el.
               Inr (move l (At_call (el_pending_functors el) []) x
                 (put_loop l (el\<lparr>el_calling_pending_functors := True, el_pending_functors := []\<rparr>) w1))))
         | At_call (f # fs) ds \<Rightarrow> bindE (run_net_functor k (EchoServer_callbacks k t p) t f w) (\<lambda>w1.
             Inr (move l (At_call fs (ds @ [f])) x w1))
         | At_call [] ds \<Rightarrow> bindE (upd_loop l (\<lambda>el. el\<lparr>el_calling_pending_functors := False\<rparr>) w) (\<lambda>w1.
             Inr (move l (At_drop ds) x w1))
         | At_drop (f # fs) \<Rightarrow> bindE (destroy_net_functor [ps_server P] (map wk_loop (ps_all P)) t (fs @ held_elsewhere P l x) f w) (\<lambda>w1.
             Inr (move l (At_drop fs) x w1))
         | At_drop [] \<Rightarrow> Inr (move l At_poll x w)
         | At_end \<Rightarrow> Inr x)"

section \<open>The start\<close>

text \<open>The loop that a thread constructs: \<open>main\<close> its own, \<open>thread_func\<close> that of each thread
  of the pool.\<close>

definition worker_loop :: "worker \<Rightarrow> (echo_cb, 'z) server_net_scheme \<Rightarrow> (echo_cb, 'z) server_net_scheme res" where
  "worker_loop m = EventLoop_new (wk_tid m) (wk_loop m) (wk_wake m) (wk_wfd m) (wk_epfd m) (Loop_read (wk_loop m))"

fun start_workers :: "worker list \<Rightarrow> (echo_cb, 'z) server_net_scheme \<Rightarrow> (echo_cb, 'z) server_net_scheme res" where
  "start_workers [] w = Inr w"
| "start_workers (m # ms) w = bindE (worker_loop m w) (start_workers ms)"

text \<open>\<open>main\<close> up to the call of \<open>loop\<close>: \<open>EchoServer_start\<close> starts the pool and listens, and
  \<open>start_loop\<close> returns only when the thread has constructed its loop.\<close>

definition pool_setup ::
    "kernel \<Rightarrow> (16 word \<Rightarrow> string \<Rightarrow> byte list option) \<Rightarrow> byte list \<Rightarrow> pool_site \<Rightarrow> pool_state res" where
  "pool_setup k pton junk P =
     bindE (worker_loop (ps_base P) empty_server_net) (\<lambda>w1.
     bindE (EchoServer_new k (ps_server P) (ps_acceptor P) (ps_listen P) (wk_loop (ps_base P))
              (InetAddress_new pton junk ''0.0.0.0'' 1818 False) (int (length (ps_crew P))) w1) (\<lambda>w2.
     bindE (start_workers (ps_crew P) w2) (\<lambda>w3.
     bindE (EchoServer_start k (\<lambda>i. wk_loop (ps_crew P ! i)) (wk_tid (ps_base P)) (ps_server P) w3) (\<lambda>w4.
       Inr \<lparr>pl_net = w4, pl_at = (\<lambda>_. At_loop)\<rparr>))))"

text \<open>The states a run reaches, with the number of channel events handled on the way: any
  thread takes the next step, with any valid report.\<close>

definition handles :: "worker \<Rightarrow> pool_state \<Rightarrow> nat" where
  "handles m x = (case pl_at x (wk_loop m) of At_dispatch (c # cs) \<Rightarrow> 1 | _ \<Rightarrow> 0)"

inductive pool_run ::
    "kernel \<Rightarrow> (16 word \<Rightarrow> string \<Rightarrow> byte list option) \<Rightarrow> byte list \<Rightarrow> (echo_cb server_net \<Rightarrow> addr \<times> addr) \<Rightarrow> addr \<Rightarrow> pool_site \<Rightarrow>
     nat \<Rightarrow> pool_state \<Rightarrow> bool"
  for k pton junk fresh p P where
  start: "pool_setup k pton junk P = Inr x \<Longrightarrow> pool_run k pton junk fresh p P 0 x"
| act: "pool_run k pton junk fresh p P n x \<Longrightarrow> m \<in> set (ps_all P) \<Longrightarrow> report_valid (wk_loop m) r (pl_net x) \<Longrightarrow>
    thread_act k fresh p P m r x = Inr x' \<Longrightarrow> pool_run k pton junk fresh p P (n + handles m x) x'"

lemma move_simps [simp]:
  "pl_net (move l pc x w) = w" "pl_at (move l pc x w) = (pl_at x)(l := pc)" "move l pc' (move l pc x w) w' = move l pc' x w'"
  by (simp_all add: move_def)

lemma held_elsewhere_move [simp]: "held_elsewhere P l (move l pc x w) = held_elsewhere P l x"
  unfolding held_elsewhere_def by (intro arg_cong [of _ _ concat] map_cong) simp_all

section \<open>The steps of one thread make up its loop\<close>

fun thread_acts ::
    "kernel \<Rightarrow> (echo_cb server_net \<Rightarrow> addr \<times> addr) \<Rightarrow> addr \<Rightarrow> pool_site \<Rightarrow> worker \<Rightarrow> (addr \<times> events) list option \<Rightarrow>
     nat \<Rightarrow> pool_state \<Rightarrow> pool_state res" where
  "thread_acts k fresh p P m r 0 x = Inr x"
| "thread_acts k fresh p P m r (Suc n) x = bindE (thread_act k fresh p P m r x) (thread_acts k fresh p P m r n)"

lemma thread_acts_add:
  "thread_acts k fresh p P m r (i + j) x = bindE (thread_acts k fresh p P m r i x) (thread_acts k fresh p P m r j)"
  by (induction i arbitrary: x) (auto simp: bindE_def split: sum.splits)

lemma acts_dispatch:
  "thread_acts k fresh p P m r (length cs) (move (wk_loop m) (At_dispatch cs) x w) =
   bindE (dispatch conn_alive (run_chan_cb k fresh (EchoServer_callbacks k (wk_tid m) p) (wk_tid m)) (wk_loop m) cs w)
     (\<lambda>w1. Inr (move (wk_loop m) (At_dispatch []) x w1))"
  by (induction cs arbitrary: w) (auto simp: thread_act_def Let_def bindE_def split: sum.splits)

lemma acts_call:
  "thread_acts k fresh p P m r (length fs) (move (wk_loop m) (At_call fs ds) x w) =
   bindE (run_functors (run_net_functor k (EchoServer_callbacks k (wk_tid m) p) (wk_tid m)) fs w)
     (\<lambda>w1. Inr (move (wk_loop m) (At_call [] (ds @ fs)) x w1))"
  by (induction fs arbitrary: w ds) (auto simp: thread_act_def Let_def bindE_def split: sum.splits)

lemma acts_drop:
  "thread_acts k fresh p P m r (length fs) (move (wk_loop m) (At_drop fs) x w) =
   bindE (destroy_functors (\<lambda>gs. destroy_net_functor [ps_server P] (map wk_loop (ps_all P)) (wk_tid m) (gs @ held_elsewhere P (wk_loop m) x)) fs w)
     (\<lambda>w1. Inr (move (wk_loop m) (At_drop []) x w1))"
  by (induction fs arbitrary: w) (auto simp: thread_act_def Let_def bindE_def split: sum.splits)


lemma acts_pending:
  "thread_acts k fresh p P m r (length fs + Suc (length fs + 1)) (move (wk_loop m) (At_call fs []) x w) =
   bindE (run_functors (run_net_functor k (EchoServer_callbacks k (wk_tid m) p) (wk_tid m)) fs w) (\<lambda>w1.
   bindE (upd_loop (wk_loop m) (\<lambda>el. el\<lparr>el_calling_pending_functors := False\<rparr>) w1) (\<lambda>w2.
   bindE (destroy_functors (\<lambda>gs. destroy_net_functor [ps_server P] (map wk_loop (ps_all P)) (wk_tid m) (gs @ held_elsewhere P (wk_loop m) x)) fs w2) (\<lambda>w3.
     Inr (move (wk_loop m) At_poll x w3))))"
proof -
  have call: "thread_act k fresh p P m r (move (wk_loop m) (At_call [] fs) x w1) =
      bindE (upd_loop (wk_loop m) (\<lambda>el. el\<lparr>el_calling_pending_functors := False\<rparr>) w1) (\<lambda>w2. Inr (move (wk_loop m) (At_drop fs) x w2))" for w1
    by (simp add: thread_act_def Let_def)
  have drop: "thread_acts k fresh p P m r 1 (move (wk_loop m) (At_drop []) x w3) = Inr (move (wk_loop m) At_poll x w3)" for w3
    by (simp add: thread_act_def Let_def)
  show ?thesis
    by (simp only: thread_acts_add acts_call thread_acts.simps call acts_drop bindE_assoc bindE_simps append_Nil drop)
qed


text \<open>The main thread and a pool of one.\<close>

definition duo_site :: pool_site where
  "duo_site = \<lparr>ps_base = \<lparr>wk_loop = 0, wk_wake = 1, wk_wfd = 5, wk_epfd = 6, wk_tid = 7\<rparr>,
     ps_crew = [\<lparr>wk_loop = 2, wk_wake = 3, wk_wfd = 15, wk_epfd = 16, wk_tid = 8\<rparr>],
     ps_server = 20, ps_acceptor = 21, ps_listen = 22, ps_lfd = 3\<rparr>"

text \<open>The main thread waits, alone in the store.\<close>

definition lone_state :: pool_state where
  "lone_state = \<lparr>pl_net = put_loop 0 \<lparr>el_looping = True, el_quit = False, el_event_handing = False,
       el_calling_pending_functors = False, el_tid = 7, el_wakeup_fd = 5, el_wakeup_channel = 1, el_current_active_channel = None,
       el_poller = \<lparr>ep_events_size = 16, ep_channels = Map.empty, ep_calls = []\<rparr>, el_active_channels = [],
       el_pending_functors = [], el_wakeups = 0\<rparr> empty_server_net,
     pl_at = (\<lambda>_. At_poll)\<rparr>"


end
