(* ===== verification/Pool_Inv.thy ===== *)
theory Pool_Inv
  imports Pool_Model
begin

unbundle bit_operations_syntax

text \<open>
  The invariant of the server on a pool of threads.  Every connection is in one of five stages;
  the stage says in which state its object is, whether the server's map holds it, and which one
  functor, on which loop's queue, will move it on.  The queues of the loops hold exactly these
  functors, and a connection that no functor will touch again is kept alive by functors that were
  run and not yet destroyed.
\<close>

section \<open>Stages of a connection\<close>

datatype stage =
    Fresh      \<comment> \<open>accepted by the main thread, \<open>connect_established\<close> is queued on its loop\<close>
  | Up         \<comment> \<open>established\<close>
  | Closing    \<comment> \<open>closed in its thread, the removal from the map is queued on the main loop\<close>
  | Removed    \<comment> \<open>out of the map, \<open>connect_destoryed\<close> is queued on its loop\<close>
  | Gone       \<comment> \<open>kept by functors that were run\<close>

definition fresh_state :: "addr \<Rightarrow> addr \<Rightarrow> echo_cb server_cb tcp_connection \<Rightarrow> chan_cb channel \<Rightarrow> trace \<Rightarrow> bool" where
  "fresh_state s a tc ch tr \<longleftrightarrow> tc_state tc = kConnecting \<and> tc_socket tc = tc_fd tc \<and> echo_cbs s tc \<and>
     Buffer_new kInitialSize = Inr (tc_input_buffer tc) \<and> tc_output_buffer tc = tc_input_buffer tc \<and>
     nb_inv (tc_input_buffer tc) \<and> nb_contents (tc_input_buffer tc) = [] \<and>
     ch_loop ch = tc_loop tc \<and> ch_fd ch = tc_fd tc \<and> ch_index ch = kNew \<and> ch_events ch = kNoneEvent \<and>
     ch_read_callback ch = Some (Conn_read a) \<and> ch_write_callback ch = Some (Conn_write a) \<and>
     ch_close_callback ch = Some (Conn_close a) \<and> ch_error_callback ch = Some (Conn_error a) \<and> echoed (tc_fd tc) tr []"

definition fresh_conn :: "addr \<Rightarrow> addr \<Rightarrow> int \<Rightarrow> addr \<Rightarrow> (echo_cb server_cb, 'z) net_scheme \<Rightarrow> bool" where
  "fresh_conn s l t a w \<longleftrightarrow> (\<exists>tc ch el. nx_conns w a = Some tc \<and> tc_loop tc = l \<and> rx_channels w (tc_channel tc) = Some ch \<and>
     rx_loops w l = Some el \<and> el_tid el = t \<and> fresh_state s a tc ch (nx_trace w))"

lemma fresh_conn_kept:
  assumes "fresh_conn s l t a w" and "conn_kept a l t w w'" and "nx_trace w' = nx_trace w @ tr" and "quiet (conn_fd w a) tr"
  shows "fresh_conn s l t a w'"
proof -
  from assms(1) obtain tc ch el where F: "nx_conns w a = Some tc" "tc_loop tc = l" "rx_channels w (tc_channel tc) = Some ch"
    "fresh_state s a tc ch (nx_trace w)" unfolding fresh_conn_def by blast
  from assms(2) F(1,3) obtain ch' el' where K: "nx_conns w' a = Some tc" "rx_loops w' l = Some el'" "el_tid el' = t"
    "rx_channels w' (tc_channel tc) = Some ch'" "same_marks ch' ch" unfolding conn_kept_def by auto
  have "fresh_state s a tc ch' (nx_trace w')"
    using F(1,4) K(5) echoed_quiet [of "tc_fd tc" "nx_trace w" "[]" tr] assms(3,4) by (auto simp: fresh_state_def same_marks_def)
  with K F(2) show ?thesis unfolding fresh_conn_def by blast
qed

text \<open>What the stage of the connection \<open>a\<close>, whose loop is that of the thread \<open>m\<close>, says of its
  object.\<close>

fun stage_ok :: "pool_site \<Rightarrow> nat \<Rightarrow> worker \<Rightarrow> stage \<Rightarrow> addr \<Rightarrow> (echo_cb server_cb, 'z) net_scheme \<Rightarrow> bool" where
  "stage_ok P n m Fresh a w = fresh_conn (ps_server P) (wk_loop m) (wk_tid m) a w"
| "stage_ok P n m Up a w = echo_conn (ps_server P) (wk_loop m) (wk_tid m) n (conn_fd w a) a w"
| "stage_ok P n m Closing a w = dead_conn (wk_loop m) (wk_tid m) a w"
| "stage_ok P n m Removed a w = dead_conn (wk_loop m) (wk_tid m) a w"
| "stage_ok P n m Gone a w = gone_conn (wk_loop m) a w"

lemma stage_loop:
  assumes "stage_ok P n m st a w"
  shows "\<exists>tc. nx_conns w a = Some tc \<and> tc_loop tc = wk_loop m"
  using assms by (cases st) (auto simp: fresh_conn_def echo_conn_def dead_conn_def gone_conn_def conn_base_def)

lemma stage_kept:
  assumes "stage_ok P n m st a w" and "conn_kept a (wk_loop m) (wk_tid m) w w'" and "nx_trace w' = nx_trace w @ tr"
    and "quiet (conn_fd w a) tr" and "n \<le> n'"
  shows "stage_ok P n' m st a w'"
proof -
  have "conn_fd w' a = conn_fd w a" using assms(2) by (auto simp: conn_kept_def conn_fd_def)
  with assms show ?thesis
    by (cases st) (auto intro: fresh_conn_kept echo_conn_kept dead_conn_kept gone_conn_kept)
qed

section \<open>The queues\<close>

fun at_todo :: "'f thread_at \<Rightarrow> 'f list" where
  "at_todo (At_call fs ds) = fs"
| "at_todo _ = []"

fun at_held :: "'f thread_at \<Rightarrow> 'f list" where
  "at_held (At_call fs ds) = ds"
| "at_held (At_drop fs) = fs"
| "at_held _ = []"

lemma at_functors_eq: "at_functors pc = at_todo pc @ at_held pc"
  by (cases pc) simp_all

definition pending :: "('u, 'z) net_scheme \<Rightarrow> addr \<Rightarrow> 'u net_functor list" where
  "pending w l = (case rx_loops w l of None \<Rightarrow> [] | Some el \<Rightarrow> el_pending_functors el)"

text \<open>The functors that still have to be run in the thread of the loop \<open>l\<close>, in order.\<close>

definition waiting :: "(addr \<Rightarrow> 'u net_functor thread_at) \<Rightarrow> ('u, 'z) net_scheme \<Rightarrow> addr \<Rightarrow> 'u net_functor list" where
  "waiting at w l = at_todo (at l) @ pending w l"

text \<open>The functor that moves a connection on, with the loop it is run on.\<close>

definition job :: "pool_site \<Rightarrow> (addr \<Rightarrow> stage) \<Rightarrow> (echo_cb server_cb, 'z) net_scheme \<Rightarrow> addr \<Rightarrow> (addr \<times> echo_functor) option" where
  "job P st w a = (case nx_conns w a of None \<Rightarrow> None | Some tc \<Rightarrow> (case st a of
       Fresh \<Rightarrow> Some (tc_loop tc, Connect_established a)
     | Closing \<Rightarrow> Some (wk_loop (ps_base P), Remove_connection_in_loop (ps_server P) a)
     | Removed \<Rightarrow> Some (tc_loop tc, Connect_destoryed a)
     | _ \<Rightarrow> None))"

lemma job_holds: "job P st w a = Some (l, f) \<Longrightarrow> holds f = Some a"
  by (auto simp: job_def split: option.splits stage.splits)

lemma job_cong: "nx_conns w' a = nx_conns w a \<Longrightarrow> st' a = st a \<Longrightarrow> job P st' w' a = job P st w a"
  by (simp only: job_def)

definition queues_inv :: "pool_site \<Rightarrow> (addr \<Rightarrow> stage) \<Rightarrow> (addr \<Rightarrow> echo_functor thread_at) \<Rightarrow> (echo_cb server_cb, 'z) net_scheme \<Rightarrow> bool" where
  "queues_inv P st at w \<longleftrightarrow> (\<forall>m \<in> set (ps_all P). distinct (waiting at w (wk_loop m))) \<and>
     (\<forall>l f. l \<in> wk_loop ` set (ps_all P) \<and> f \<in> set (waiting at w l) \<longleftrightarrow> (\<exists>a. job P st w a = Some (l, f)))"

definition job_at :: "(addr \<times> 'f) option \<Rightarrow> addr \<Rightarrow> 'f list" where
  "job_at y l = (case y of None \<Rightarrow> [] | Some (l', f) \<Rightarrow> if l' = l then [f] else [])"

lemma job_at_simps [simp]: "job_at None l = []" "job_at (Some (l', f)) l = (if l' = l then [f] else [])"
  by (simp_all add: job_at_def)

lemma job_at_None: "job_at None = (\<lambda>_. [])"
  by (simp add: fun_eq_iff)

lemma queues_inv_iff:
  "queues_inv P st at w \<Longrightarrow> m \<in> set (ps_all P) \<Longrightarrow> f \<in> set (waiting at w (wk_loop m)) \<longleftrightarrow> (\<exists>a. job P st w a = Some (wk_loop m, f))"
  unfolding queues_inv_def by (metis imageI)

text \<open>One connection moves on: its functor leaves the head of its queue, and the next one, if
  there is one, is added to the end of another.\<close>

lemma queues_inv_change:
  assumes Q: "queues_inv P st at w" and job: "job P st' w' = (job P st w)(a := new)"
    and "on": "\<And>l g. new = Some (l, g) \<Longrightarrow> l \<in> wk_loop ` set (ps_all P) \<and> holds g = Some a"
    and W: "\<And>m. m \<in> set (ps_all P) \<Longrightarrow> \<exists>fs. waiting at w (wk_loop m) = job_at (job P st w a) (wk_loop m) @ fs \<and>
      waiting at' w' (wk_loop m) = fs @ job_at new (wk_loop m)"
  shows "queues_inv P st' at' w'"
proof -
  have mem: "f \<in> set (waiting at' w' (wk_loop m)) \<longleftrightarrow> (\<exists>b. job P st' w' b = Some (wk_loop m, f))"
    and dist: "distinct (waiting at' w' (wk_loop m))" if m: "m \<in> set (ps_all P)" for m f
  proof -
    obtain fs where fs: "waiting at w (wk_loop m) = job_at (job P st w a) (wk_loop m) @ fs"
      "waiting at' w' (wk_loop m) = fs @ job_at new (wk_loop m)" using W [OF m] by blast
    have d: "distinct (job_at (job P st w a) (wk_loop m) @ fs)" using Q m unfolding queues_inv_def fs(1) [symmetric] by blast
    have old: "f \<in> set fs \<longleftrightarrow> (\<exists>b. b \<noteq> a \<and> job P st w b = Some (wk_loop m, f))" for f
    proof
      assume f: "f \<in> set fs"
      then obtain b where b: "job P st w b = Some (wk_loop m, f)" using queues_inv_iff [OF Q m, of f] fs(1) by auto
      moreover have "b \<noteq> a" using b d f by auto
      ultimately show "\<exists>b. b \<noteq> a \<and> job P st w b = Some (wk_loop m, f)" by blast
    next
      assume "\<exists>b. b \<noteq> a \<and> job P st w b = Some (wk_loop m, f)"
      then obtain b where b: "b \<noteq> a" "job P st w b = Some (wk_loop m, f)" by blast
      then have "f \<in> set (job_at (job P st w a) (wk_loop m) @ fs)" using queues_inv_iff [OF Q m, of f] fs(1) by auto
      moreover have "f \<notin> set (job_at (job P st w a) (wk_loop m))"
        using job_holds [OF b(2)] b(1) by (cases "job P st w a") (auto dest: job_holds)
      ultimately show "f \<in> set fs" by simp
    qed
    show "f \<in> set (waiting at' w' (wk_loop m)) \<longleftrightarrow> (\<exists>b. job P st' w' b = Some (wk_loop m, f))"
      unfolding fs(2) job set_append Un_iff old by (cases new) auto
    have "g \<notin> set fs" if "g \<in> set (job_at new (wk_loop m))" for g
    proof -
      have "new = Some (wk_loop m, g)" using that by (auto simp: job_at_def split: option.splits if_splits)
      then show ?thesis using old [of g] "on" job_holds by fastforce
    qed
    moreover have "distinct (job_at new l)" for l by (auto simp: job_at_def split: option.split)
    ultimately show "distinct (waiting at' w' (wk_loop m))" using d fs(2) by auto
  qed
  have inl: "l \<in> wk_loop ` set (ps_all P)" if "job P st' w' b = Some (l, f)" for b l f
  proof (cases "b = a")
    case True
    with that job "on" show ?thesis by auto
  next
    case False
    with that job have "job P st w b = Some (l, f)" by simp
    with Q show ?thesis unfolding queues_inv_def by blast
  qed
  have "l \<in> wk_loop ` set (ps_all P) \<and> f \<in> set (waiting at' w' l) \<longleftrightarrow> (\<exists>b. job P st' w' b = Some (l, f))" for l f
  proof (cases "l \<in> wk_loop ` set (ps_all P)")
    case True
    then obtain m where "m \<in> set (ps_all P)" "l = wk_loop m" by blast
    with mem [of m f] show ?thesis by simp
  qed (use inl in blast)
  with dist show ?thesis by (simp add: queues_inv_def)
qed

lemma queues_inv_same:
  assumes "queues_inv P st at w" and "job P st w' = job P st w" and "\<And>m. m \<in> set (ps_all P) \<Longrightarrow> waiting at' w' (wk_loop m) = waiting at w (wk_loop m)"
  shows "queues_inv P st at' w'"
proof -
  have "l \<in> wk_loop ` set (ps_all P) \<and> f \<in> set (waiting at' w' l) \<longleftrightarrow> l \<in> wk_loop ` set (ps_all P) \<and> f \<in> set (waiting at w l)" for l f
    using assms(3) by auto
  with assms show ?thesis by (simp add: queues_inv_def)
qed


section \<open>The invariant\<close>

definition ps_fixed :: "pool_site \<Rightarrow> addr \<Rightarrow> int option" where
  "ps_fixed P = (map_of (map (\<lambda>m. (wk_wake m, wk_wfd m)) (ps_all P)))(ps_listen P \<mapsto> ps_lfd P)"

definition site_ok :: "pool_site \<Rightarrow> bool" where
  "site_ok P \<longleftrightarrow> ps_crew P \<noteq> [] \<and> distinct (map wk_loop (ps_all P)) \<and> distinct (map wk_wake (ps_all P)) \<and>
     distinct (map wk_tid (ps_all P)) \<and> ps_listen P \<notin> wk_wake ` set (ps_all P) \<and> ps_lfd P \<notin> wk_wfd ` set (ps_all P)"

lemma worker_eq: "site_ok P \<Longrightarrow> m \<in> set (ps_all P) \<Longrightarrow> m' \<in> set (ps_all P) \<Longrightarrow> wk_loop m = wk_loop m' \<Longrightarrow> m = m'"
  by (auto simp: site_ok_def distinct_map inj_on_def)

lemma worker_wake_eq: "site_ok P \<Longrightarrow> m \<in> set (ps_all P) \<Longrightarrow> m' \<in> set (ps_all P) \<Longrightarrow> wk_wake m = wk_wake m' \<Longrightarrow> m = m'"
  by (auto simp: site_ok_def distinct_map inj_on_def)

lemma crew_all [simp]: "m \<in> set (ps_crew P) \<Longrightarrow> m \<in> set (ps_all P)" "ps_base P \<in> set (ps_all P)"
  by (simp_all add: ps_all_def)

lemma crew_not_base: "site_ok P \<Longrightarrow> m \<in> set (ps_crew P) \<Longrightarrow> wk_loop m \<noteq> wk_loop (ps_base P) \<and> wk_tid m \<noteq> wk_tid (ps_base P)"
  by (simp add: site_ok_def ps_all_def) (metis imageI)

lemma ps_fixed_dom: "dom (ps_fixed P) = insert (ps_listen P) (wk_wake ` set (ps_all P))"
  by (auto simp: ps_fixed_def dom_map_of_conv_image_fst image_image)

lemma ps_fixed_ran: "fd \<in> ran (ps_fixed P) \<Longrightarrow> fd = ps_lfd P \<or> fd \<in> wk_wfd ` set (ps_all P)"
  by (auto simp: ps_fixed_def ran_def dest!: map_of_SomeD split: if_splits)

definition server_at :: "pool_site \<Rightarrow> (int \<times> addr) list \<Rightarrow> (echo_cb, 'z) server_net_scheme \<Rightarrow> bool" where
  "server_at P cs w \<longleftrightarrow> (\<exists>ts. server_up True (ps_server P) (ps_acceptor P) (ps_listen P) (wk_loop (ps_base P)) (ps_lfd P) ts w \<and>
     ts_connections ts = cs \<and> pool_inv (ts_threadpool ts) \<and> pool_loops (ts_threadpool ts) = map wk_loop (ps_crew P) \<and>
     ts_connection_callback ts = Some Handle_connect \<and> ts_message_callback ts = Some Handle_message \<and>
     ts_write_complete_callback ts = None)"

text \<open>The store apart from the single connections; \<open>cur\<close> is the channel that is being
  handled.\<close>

definition store_ok :: "pool_site \<Rightarrow> addr option \<Rightarrow> (int \<times> addr) list \<Rightarrow> (echo_cb, 'z) server_net_scheme \<Rightarrow> bool" where
  "store_ok P cur cs w \<longleftrightarrow> rx_inv w \<and> layout (ps_fixed P) (ps_lfd P) w \<and> marks cur w \<and> server_at P cs w \<and>
     plain_at (wk_loop (ps_base P)) (ps_listen P) (Accept_read (ps_acceptor P)) w \<and>
     (\<forall>m \<in> set (ps_all P). plain_at (wk_loop m) (wk_wake m) (Loop_read (wk_loop m)) w)"

definition loop_at :: "worker \<Rightarrow> 'f thread_at \<Rightarrow> 'f event_loop \<Rightarrow> bool" where
  "loop_at m pc el \<longleftrightarrow> el_tid el = wk_tid m \<and> 0 < ep_events_size (el_poller el) \<and> \<not> el_quit el \<and>
     (el_looping el \<longleftrightarrow> pc \<noteq> At_loop) \<and> (el_event_handing el \<longleftrightarrow> (\<exists>cs. pc = At_dispatch cs)) \<and> pc \<noteq> At_end"

definition loops_ok :: "pool_site \<Rightarrow> (addr \<Rightarrow> 'u net_functor thread_at) \<Rightarrow> ('u, 'z) net_scheme \<Rightarrow> bool" where
  "loops_ok P at w \<longleftrightarrow> (\<forall>m \<in> set (ps_all P). \<exists>el. rx_loops w (wk_loop m) = Some el \<and> loop_at m (at (wk_loop m)) el)"

definition conns_at :: "pool_site \<Rightarrow> nat \<Rightarrow> (addr \<Rightarrow> stage) \<Rightarrow> (echo_cb server_cb, 'z) net_scheme \<Rightarrow> bool" where
  "conns_at P n st w \<longleftrightarrow> (\<forall>a \<in> dom (nx_conns w). \<exists>m \<in> set (ps_crew P). stage_ok P n m (st a) a w)"

text \<open>The server's map.\<close>

definition entries :: "(addr \<Rightarrow> stage) \<Rightarrow> (int \<times> addr) list \<Rightarrow> ('u, 'z) net_scheme \<Rightarrow> bool" where
  "entries st cs w \<longleftrightarrow> sorted (map fst cs) \<and> distinct (map fst cs) \<and>
     (\<forall>fd a. (fd, a) \<in> set cs \<longleftrightarrow> (\<exists>tc. nx_conns w a = Some tc \<and> tc_fd tc = fd) \<and> st a \<in> {Fresh, Up, Closing})"

definition held :: "pool_site \<Rightarrow> (addr \<Rightarrow> stage) \<Rightarrow> (addr \<Rightarrow> 'u net_functor thread_at) \<Rightarrow> ('u, 'z) net_scheme \<Rightarrow> bool" where
  "held P st at w \<longleftrightarrow> (\<forall>m \<in> set (ps_all P). \<forall>f \<in> set (at_held (at (wk_loop m))). \<exists>a \<in> dom (nx_conns w). holds f = Some a) \<and>
     (\<forall>a \<in> dom (nx_conns w). st a = Gone \<longrightarrow> (\<exists>m \<in> set (ps_all P). Some a \<in> holds ` set (at_held (at (wk_loop m)))))"

text \<open>The channels that a thread has still to handle are fixed ones of its loop or those of
  established connections of its loop.\<close>

definition todo_at :: "pool_site \<Rightarrow> (addr \<Rightarrow> stage) \<Rightarrow> worker \<Rightarrow> ('u, 'z) net_scheme \<Rightarrow> addr \<Rightarrow> bool" where
  "todo_at P st m w c \<longleftrightarrow> c = wk_wake m \<or> m = ps_base P \<and> c = ps_listen P \<or>
     (\<exists>a tc ch. nx_conns w a = Some tc \<and> tc_channel tc = c \<and> tc_loop tc = wk_loop m \<and> st a = Up \<and>
        rx_channels w c = Some ch \<and> event_ok (ch_revents ch))"

definition todos :: "pool_site \<Rightarrow> (addr \<Rightarrow> stage) \<Rightarrow> (addr \<Rightarrow> 'u net_functor thread_at) \<Rightarrow> ('u, 'z) net_scheme \<Rightarrow> bool" where
  "todos P st at w \<longleftrightarrow> (\<forall>m \<in> set (ps_all P). \<forall>cs. at (wk_loop m) = At_dispatch cs \<longrightarrow> distinct cs \<and> (\<forall>c \<in> set cs. todo_at P st m w c))"

definition pool_ok :: "pool_site \<Rightarrow> nat \<Rightarrow> addr option \<Rightarrow> (addr \<Rightarrow> stage) \<Rightarrow> (int \<times> addr) list \<Rightarrow>
    (addr \<Rightarrow> echo_functor thread_at) \<Rightarrow> (echo_cb, 'z) server_net_scheme \<Rightarrow> bool" where
  "pool_ok P n cur st cs at w \<longleftrightarrow> site_ok P \<and> store_ok P cur cs w \<and> loops_ok P at w \<and> conns_at P n st w \<and> entries st cs w \<and>
     queues_inv P st at w \<and> held P st at w \<and> todos P st at w"

lemma pool_okD:
  assumes "pool_ok P n cur st cs at w"
  shows "site_ok P" "store_ok P cur cs w" "loops_ok P at w" "conns_at P n st w" "entries st cs w"
    "queues_inv P st at w" "held P st at w" "todos P st at w"
  using assms by (simp_all add: pool_ok_def)

lemma store_okD:
  assumes "store_ok P cur cs w"
  shows "rx_inv w" "layout (ps_fixed P) (ps_lfd P) w" "marks cur w" "server_at P cs w"
    "plain_at (wk_loop (ps_base P)) (ps_listen P) (Accept_read (ps_acceptor P)) w"
    "m \<in> set (ps_all P) \<Longrightarrow> plain_at (wk_loop m) (wk_wake m) (Loop_read (wk_loop m)) w"
  using assms by (simp_all add: store_ok_def)

lemma loops_okE:
  assumes "loops_ok P at w" and "m \<in> set (ps_all P)"
  obtains el where "rx_loops w (wk_loop m) = Some el" "loop_at m (at (wk_loop m)) el" "el_tid el = wk_tid m"
  using assms unfolding loops_ok_def loop_at_def by blast

lemma conns_atE:
  assumes "conns_at P n st w" and "nx_conns w a = Some tc"
  obtains m where "m \<in> set (ps_crew P)" "stage_ok P n m (st a) a w" "tc_loop tc = wk_loop m"
proof -
  from assms obtain m where m: "m \<in> set (ps_crew P)" "stage_ok P n m (st a) a w" unfolding conns_at_def by blast
  with stage_loop [OF m(2)] assms(2) that show ?thesis by auto
qed


section \<open>What a step leaves alone\<close>

lemma server_at_cong:
  assumes "server_at P cs w" and "nx_servers w' = nx_servers w" and "nx_acceptors w' = nx_acceptors w"
    and "rel_option same_marks (rx_channels w' (ps_listen P)) (rx_channels w (ps_listen P))"
  shows "server_at P cs w'"
proof -
  from assms(1) obtain ts where ts: "server_up True (ps_server P) (ps_acceptor P) (ps_listen P) (wk_loop (ps_base P)) (ps_lfd P) ts w"
    "ts_connections ts = cs" "pool_inv (ts_threadpool ts)" "pool_loops (ts_threadpool ts) = map wk_loop (ps_crew P)"
    "ts_connection_callback ts = Some Handle_connect" "ts_message_callback ts = Some Handle_message" "ts_write_complete_callback ts = None"
    unfolding server_at_def by blast
  have "server_up True (ps_server P) (ps_acceptor P) (ps_listen P) (wk_loop (ps_base P)) (ps_lfd P) ts w'"
    using ts(1) assms(2-4) unfolding server_up_def by (auto simp: option_rel_Some2 same_marks_def)
  with ts show ?thesis unfolding server_at_def by blast
qed

text \<open>The fixed channels are untouched up to the marks of the dispatch.\<close>

definition fixed_kept :: "pool_site \<Rightarrow> ('u, 'z) net_scheme \<Rightarrow> ('u, 'z) net_scheme \<Rightarrow> bool" where
  "fixed_kept P w w' \<longleftrightarrow> (\<forall>d \<in> dom (ps_fixed P). rel_option same_marks (rx_channels w' d) (rx_channels w d))"

lemma store_ok_step:
  assumes S: "store_ok P cur cs w" and inv: "rx_inv w'" "layout (ps_fixed P) (ps_lfd P) w'" "marks cur' w'" "server_at P cs' w'"
    and ch: "fixed_kept P w w'"
  shows "store_ok P cur' cs' w'"
proof -
  have "rel_option same_marks (rx_channels w' (wk_wake m)) (rx_channels w (wk_wake m))" if "m \<in> set (ps_all P)" for m
    using ch that by (simp add: fixed_kept_def ps_fixed_dom)
  then have "plain_at (wk_loop m) (wk_wake m) (Loop_read (wk_loop m)) w'" if "m \<in> set (ps_all P)" for m
    using that plain_at_marks [OF store_okD(6) [OF S that]] by blast
  moreover have "plain_at (wk_loop (ps_base P)) (ps_listen P) (Accept_read (ps_acceptor P)) w'"
    using ch by (intro plain_at_marks [OF store_okD(5) [OF S]]) (simp add: fixed_kept_def ps_fixed_dom)
  ultimately show ?thesis using inv by (simp add: store_ok_def)
qed

lemma conns_at_change:
  fixes w w' :: "(echo_cb server_cb, 'z) net_scheme"
  assumes C: "conns_at P n st w" and inv: "rx_inv w'" and L: "loops_ok P at' w'" and n: "n \<le> n'"
    and kept: "\<And>b tc. b \<notin> A \<Longrightarrow> nx_conns w' b = Some tc \<Longrightarrow> nx_conns w b = Some tc \<and> st' b = st b \<and>
      rel_option same_marks (rx_channels w' (tc_channel tc)) (rx_channels w (tc_channel tc))"
    and tr: "nx_trace w' = nx_trace w @ tr" "\<And>b tc. b \<notin> A \<Longrightarrow> nx_conns w b = Some tc \<Longrightarrow> quiet (tc_fd tc) tr"
    and own: "\<And>a. a \<in> A \<Longrightarrow> nx_conns w' a \<noteq> None \<Longrightarrow> \<exists>m \<in> set (ps_crew P). stage_ok P n' m (st' a) a w'"
  shows "conns_at P n' st' w'"
  unfolding conns_at_def
proof
  fix b assume "b \<in> dom (nx_conns w')"
  then obtain tc where tc: "nx_conns w' b = Some tc" by blast
  show "\<exists>m \<in> set (ps_crew P). stage_ok P n' m (st' b) b w'"
  proof (cases "b \<in> A")
    case False
    note K = kept [OF False tc]
    from conns_atE [OF C conjunct1 [OF K]] obtain m where m: "m \<in> set (ps_crew P)" "stage_ok P n m (st b) b w" .
    from loops_okE [OF L crew_all(1) [OF m(1)]] obtain el where el: "rx_loops w' (wk_loop m) = Some el" "el_tid el = wk_tid m" .
    have "conn_kept b (wk_loop m) (wk_tid m) w w'" using inv el K tc by (auto simp: conn_kept_def option_rel_Some2)
    from stage_kept [OF m(2) this tr(1) _ n] tr(2) [OF False] K m(1) show ?thesis by auto
  qed (use own tc in auto)
qed

lemma entries_cong:
  assumes "entries st cs w" and "\<And>b. map_option tc_fd (nx_conns w' b) = map_option tc_fd (nx_conns w b)"
    and "\<And>b. nx_conns w b \<noteq> None \<Longrightarrow> st' b \<in> {Fresh, Up, Closing} \<longleftrightarrow> st b \<in> {Fresh, Up, Closing}"
  shows "entries st' cs w'"
proof -
  have "(\<exists>tc. nx_conns w' a = Some tc \<and> tc_fd tc = fd) \<and> st' a \<in> {Fresh, Up, Closing} \<longleftrightarrow>
      (\<exists>tc. nx_conns w a = Some tc \<and> tc_fd tc = fd) \<and> st a \<in> {Fresh, Up, Closing}" for fd a
    using assms(2) [of a] assms(3) [of a] by (cases "nx_conns w a"; cases "nx_conns w' a") auto
  with assms(1) show ?thesis by (simp add: entries_def)
qed

lemma todos_cong:
  assumes T: "todos P st at w" and at: "\<And>m cs'. m \<in> set (ps_all P) \<Longrightarrow> at' (wk_loop m) = At_dispatch cs' \<Longrightarrow>
      \<exists>cs. at (wk_loop m) = At_dispatch cs \<and> set cs' \<subseteq> set cs \<and> distinct cs'"
    and keep: "\<And>m cs' a tc ch. m \<in> set (ps_all P) \<Longrightarrow> at' (wk_loop m) = At_dispatch cs' \<Longrightarrow> nx_conns w a = Some tc \<Longrightarrow> tc_channel tc \<in> set cs' \<Longrightarrow>
      tc_loop tc = wk_loop m \<Longrightarrow> st a = Up \<Longrightarrow> rx_channels w (tc_channel tc) = Some ch \<Longrightarrow>
      nx_conns w' a = Some tc \<and> st' a = Up \<and> (\<exists>ch'. rx_channels w' (tc_channel tc) = Some ch' \<and> ch_revents ch' = ch_revents ch)"
  shows "todos P st' at' w'"
  unfolding todos_def
proof (intro ballI allI impI)
  fix m cs' assume m: "m \<in> set (ps_all P)" "at' (wk_loop m) = At_dispatch cs'"
  from at [OF m] obtain cs where cs: "at (wk_loop m) = At_dispatch cs" "set cs' \<subseteq> set cs" "distinct cs'" by blast
  have "todo_at P st' m w' c" if c: "c \<in> set cs'" for c
  proof -
    have "todo_at P st m w c" using T m(1) cs c unfolding todos_def by blast
    then consider "c = wk_wake m \<or> m = ps_base P \<and> c = ps_listen P"
      | a tc ch where "nx_conns w a = Some tc" "tc_channel tc = c" "tc_loop tc = wk_loop m" "st a = Up" "rx_channels w c = Some ch" "event_ok (ch_revents ch)"
      unfolding todo_at_def by blast
    then show ?thesis
    proof cases
      case (2 a tc ch)
      with keep [OF m 2(1) _ 2(3,4)] c show ?thesis unfolding todo_at_def by fastforce
    qed (auto simp: todo_at_def)
  qed
  with cs(3) show "distinct cs' \<and> (\<forall>c \<in> set cs'. todo_at P st' m w' c)" by blast
qed

lemma held_cong:
  assumes H: "held P st at w" and dom: "dom (nx_conns w') = dom (nx_conns w)"
    and at: "\<And>m. m \<in> set (ps_all P) \<Longrightarrow> set (at_held (at' (wk_loop m))) = set (at_held (at (wk_loop m)))"
    and st: "\<And>a. a \<in> dom (nx_conns w) \<Longrightarrow> st' a = Gone \<Longrightarrow> st a = Gone"
  shows "held P st' at' w'"
  using H st unfolding held_def dom by (auto simp: at)

section \<open>Steps on the marks\<close>

text \<open>A step that changes the marks of the poller, of the dispatch and of the thread's own loop
  only.\<close>

lemma pool_ok_mark:
  fixes w w' :: "(echo_cb, 'z) server_net_scheme"
  assumes R: "pool_ok P n cur st cs at w" and m: "m \<in> set (ps_all P)" and el: "rx_loops w (wk_loop m) = Some el"
    and w': "rx_loops w' = (rx_loops w)(wk_loop m \<mapsto> el')" "nx_conns w' = nx_conns w" "nx_trace w' = nx_trace w"
      "nx_servers w' = nx_servers w" "nx_acceptors w' = nx_acceptors w"
    and ch: "\<And>d. rel_option same_marks (rx_channels w' d) (rx_channels w d)"
    and ep: "ep_channels (el_poller el') = ep_channels (el_poller el)" "ep_calls (el_poller el') = ep_calls (el_poller el)"
    and pc: "loop_at m pc' el'" "at_todo pc' @ el_pending_functors el' = at_todo (at (wk_loop m)) @ el_pending_functors el"
      "set (at_held pc') = set (at_held (at (wk_loop m)))"
    and m': "marks cur' w'" and n: "n \<le> n'" and T: "todos P st (at(wk_loop m := pc')) w'"
  shows "pool_ok P n' cur' st cs (at(wk_loop m := pc')) w'"
proof -
  note D = pool_okD [OF R]
  note S = store_okD [OF D(2)]
  let ?at = "at(wk_loop m := pc')"
  have inv: "rx_inv w'" by (rule rx_inv_remark [OF S(1) el w'(1) ch ep])
  have store: "store_ok P cur' cs w'"
    by (rule store_ok_step [OF D(2) inv layout_remark [OF S(2) w'(2,3) ch] m' server_at_cong [OF S(4) w'(4,5) ch]])
      (simp add: fixed_kept_def ch)
  have "\<exists>el. rx_loops w' (wk_loop m') = Some el \<and> loop_at m' (?at (wk_loop m')) el" if "m' \<in> set (ps_all P)" for m'
    using D(3) that pc(1) worker_eq [OF D(1) that m] by (cases "wk_loop m' = wk_loop m") (auto simp: loops_ok_def w'(1))
  then have loops: "loops_ok P ?at w'" by (simp add: loops_ok_def)
  have conns: "conns_at P n' st w'"
    by (rule conns_at_change [OF D(4) inv loops n, where A = "{}" and tr = "[]"]) (use w' ch in simp_all)
  have "waiting ?at w' (wk_loop m') = waiting at w (wk_loop m')" for m'
    using pc(2) el by (cases "wk_loop m' = wk_loop m") (simp_all add: waiting_def pending_def w'(1))
  then have queues: "queues_inv P st ?at w'" by (intro queues_inv_same [OF D(6)]) (simp_all add: job_def w'(2) fun_eq_iff)
  have "held P st ?at w'" by (rule held_cong [OF D(7)]) (simp_all add: w'(2) pc(3))
  moreover have "entries st cs w'" by (rule entries_cong [OF D(5)]) (simp_all add: w'(2))
  ultimately show ?thesis using D(1) store loops conns queues T by (simp add: pool_ok_def)
qed


lemma pool_ok_mono:
  assumes R: "pool_ok P n cur st cs at w" and n: "n \<le> n'"
  shows "pool_ok P n' cur st cs at w"
proof -
  note D = pool_okD [OF R]
  have "conns_at P n' st w"
    by (rule conns_at_change [OF D(4) store_okD(1) [OF D(2)] D(3) n, where A = "{}" and tr = "[]"]) (simp_all add: same_marks_rel)
  with D show ?thesis by (simp add: pool_ok_def)
qed

end
