(* ===== verification/Pool_Events.thy ===== *)
theory Pool_Events
  imports Pool_Inv
begin

unbundle bit_operations_syntax

text \<open>
  What the threads of the pool do to the invariant: the handler of a connection, the functors
  that establish, remove and destroy a connection, the acceptor, the wake-up channel and the
  destruction of the functors that were run.
\<close>

section \<open>The loops under a step\<close>

text \<open>A loop apart from what a handler may change in it: the tables of the poller, the queue of
  functors and the wake-ups.\<close>

definition loop_rest :: "'f event_loop \<Rightarrow> 'f event_loop" where
  "loop_rest el = (loop_core el)\<lparr>el_pending_functors := [], el_wakeups := 0\<rparr>"

lemma loop_rest_at:
  assumes "loop_rest el' = loop_rest el"
  shows "loop_at m pc el' = loop_at m pc el"
  using arg_cong [OF assms, of el_tid] arg_cong [OF assms, of el_quit] arg_cong [OF assms, of el_looping]
    arg_cong [OF assms, of el_event_handing] arg_cong [OF assms, of "\<lambda>e. ep_events_size (el_poller e)"]
  by (simp add: loop_rest_def loop_core_def loop_at_def)

lemma loop_rest_core: "loop_core el' = loop_core el \<Longrightarrow> loop_rest el' = loop_rest el"
  by (simp add: loop_rest_def)

lemma loop_rest_queue [simp]: "loop_rest (EventLoop_queue_in_loop t f el) = loop_rest el"
  by (simp add: loop_rest_def loop_core_def EventLoop_queue_in_loop_def EventLoop_queue_wake_def EventLoop_queue_push_def EventLoop_wakeup_def)

lemma loop_rest_poller [simp]: "ep_events_size ep = ep_events_size (el_poller el) \<Longrightarrow> loop_rest (el\<lparr>el_poller := ep\<rparr>) = loop_rest el"
  by (cases ep) (simp add: loop_rest_def loop_core_def)

text \<open>\<open>add\<close> gives the functors that were queued.\<close>

definition loops_grow :: "(addr \<Rightarrow> 'u net_functor list) \<Rightarrow> ('u, 'z) net_scheme \<Rightarrow> ('u, 'z) net_scheme \<Rightarrow> bool" where
  "loops_grow add w w' \<longleftrightarrow> (\<forall>l. rel_option (\<lambda>el' el. loop_rest el' = loop_rest el \<and>
     el_pending_functors el' = el_pending_functors el @ add l) (rx_loops w' l) (rx_loops w l))"

lemma loops_growE:
  assumes "loops_grow add w w'" and "rx_loops w l = Some el"
  obtains el' where "rx_loops w' l = Some el'" "loop_rest el' = loop_rest el" "el_pending_functors el' = el_pending_functors el @ add l"
  using assms unfolding loops_grow_def by (auto simp: option_rel_Some2 dest!: spec [of _ l])

lemma loops_grow_core:
  fixes w w' :: "('u, 'z) net_scheme"
  assumes "net_core w' = net_core w"
  shows "loops_grow (\<lambda>_. []) w w'"
  unfolding loops_grow_def
proof
  fix l
  have "map_option loop_core (rx_loops w' l) = map_option loop_core (rx_loops w l)" using assms by (auto simp: net_core_def fun_eq_iff)
  from map_option_rel [OF this] show "rel_option (\<lambda>el' el. loop_rest el' = loop_rest el \<and> el_pending_functors el' = el_pending_functors el @ [])
      (rx_loops w' l) (rx_loops w l)" by (auto elim!: option.rel_mono_strong intro: loop_rest_core dest: loop_coreD)
qed

lemma loops_grow_trans:
  assumes "loops_grow add w w1" and "loops_grow add' w1 w2"
  shows "loops_grow (\<lambda>l. add l @ add' l) w w2"
  unfolding loops_grow_def
proof
  fix l
  show "rel_option (\<lambda>el' el. loop_rest el' = loop_rest el \<and> el_pending_functors el' = el_pending_functors el @ add l @ add' l)
      (rx_loops w2 l) (rx_loops w l)"
    using assms [unfolded loops_grow_def, THEN spec, of l]
    by (cases "rx_loops w l"; cases "rx_loops w1 l"; cases "rx_loops w2 l") auto
qed

lemma loops_grow_ok:
  assumes L: "loops_ok P at w" and g: "loops_grow add w w'"
    and at: "\<And>m el. m \<in> set (ps_all P) \<Longrightarrow> loop_at m (at (wk_loop m)) el \<Longrightarrow> loop_at m (at' (wk_loop m)) el"
  shows "loops_ok P at' w'"
  unfolding loops_ok_def
proof
  fix m assume m: "m \<in> set (ps_all P)"
  from loops_okE [OF L m] obtain el where el: "rx_loops w (wk_loop m) = Some el" "loop_at m (at (wk_loop m)) el" .
  from loops_growE [OF g el(1)] obtain el' where "rx_loops w' (wk_loop m) = Some el'" "loop_rest el' = loop_rest el" .
  with at [OF m el(2)] show "\<exists>el. rx_loops w' (wk_loop m) = Some el \<and> loop_at m (at' (wk_loop m)) el"
    using loop_rest_at by blast
qed

lemma loops_grow_pending:
  "loops_ok P at w \<Longrightarrow> loops_grow add w w' \<Longrightarrow> m \<in> set (ps_all P) \<Longrightarrow> pending w' (wk_loop m) = pending w (wk_loop m) @ add (wk_loop m)"
  by (erule (1) loops_okE, erule (1) loops_growE) (simp add: pending_def)

section \<open>A step on one connection\<close>

definition conn_step :: "addr \<Rightarrow> addr \<Rightarrow> int \<Rightarrow> (addr \<Rightarrow> 'v server_cb net_functor list) \<Rightarrow>
    ('v, 'z) server_net_scheme \<Rightarrow> ('v, 'z) server_net_scheme \<Rightarrow> bool" where
  "conn_step a cc fd add w w' \<longleftrightarrow> rx_inv w' \<and> others a cc w' = others a cc w \<and>
     (\<exists>tr. nx_trace w' = nx_trace w @ tr \<and> list_all (io_call fd) tr) \<and>
     (\<exists>tc tc'. nx_conns w a = Some tc \<and> nx_conns w' a = Some tc' \<and> tc_channel tc = cc \<and> tc_fd tc = fd \<and>
        tc_channel tc' = cc \<and> tc_fd tc' = fd \<and> tc_loop tc' = tc_loop tc) \<and>
     (\<exists>ch ch'. rx_channels w cc = Some ch \<and> rx_channels w' cc = Some ch' \<and> ch_fd ch' = ch_fd ch \<and> ch_event_handling ch' = ch_event_handling ch) \<and>
     loops_grow add w w'"

text \<open>What it keeps of the layout and of the marks.\<close>

lemma conn_step_store:
  assumes c: "conn_step a cc fd add w w'" and S: "store_ok P cur cs w"
  shows "store_ok P cur cs w'"
proof -
  note D = store_okD [OF S]
  from c have inv: "rx_inv w'" and o: "others a cc w' = others a cc w" by (simp_all add: conn_step_def)
  note O = othersD [OF o]
  from c obtain tr tc tc' ch ch' where C: "nx_trace w' = nx_trace w @ tr" "list_all (io_call fd) tr" "nx_conns w a = Some tc" "nx_conns w' a = Some tc'"
    "tc_channel tc = cc" "tc_fd tc = fd" "tc_channel tc' = cc" "tc_fd tc' = fd" "rx_channels w cc = Some ch" "rx_channels w' cc = Some ch'"
    "ch_fd ch' = ch_fd ch" "ch_event_handling ch' = ch_event_handling ch" unfolding conn_step_def by blast
  have "nx_conns w' b = None \<longleftrightarrow> nx_conns w b = None" for b using O(1) [of b] C(3,4) by (cases "b = a") auto
  then have dom: "dom (nx_conns w') = dom (nx_conns w)" by (simp add: dom_def)
  have lay: "layout (ps_fixed P) (ps_lfd P) w'"
  proof (rule layout_cong [OF D(2) dom])
    show "conn_fd w' b = conn_fd w b \<and> conn_chan w' b = conn_chan w b" for b
      using O(1) [of b] C(3-8) by (cases "b = a") (auto simp: conn_fd_def conn_chan_def)
    show "chan_fd w' = chan_fd w"
    proof
      fix d show "chan_fd w' d = chan_fd w d" using O(2) [of d] C(9-11) by (cases "d = cc") (auto simp: chan_fd_def)
    qed
    show "open_fds (nx_trace w') = open_fds (nx_trace w)" using io_calls_open [OF C(2)] C(1) by simp
  qed
  have marks: "marks cur w'"
    unfolding marks_def
  proof (intro allI impI)
    fix d chd assume "rx_channels w' d = Some chd"
    with O(2) [of d] C(9,10,12) D(3) show "ch_event_handling chd = (cur = Some d)" by (cases "d = cc") (auto simp: marks_def)
  qed
  have out: "cc \<notin> dom (ps_fixed P)" using layoutD(7) [OF D(2) C(3)] C(5) by simp
  have fx: "fixed_kept P w w'"
    unfolding fixed_kept_def
  proof
    fix d assume "d \<in> dom (ps_fixed P)"
    with out have "d \<noteq> cc" by blast
    from O(2) [OF this] show "rel_option same_marks (rx_channels w' d) (rx_channels w d)" by (simp add: same_marks_rel)
  qed
  have "server_at P cs w'"
    by (rule server_at_cong [OF D(4) O(3,4)]) (use fx in \<open>simp add: fixed_kept_def ps_fixed_dom\<close>)
  with inv lay marks fx show ?thesis by (intro store_ok_step [OF S])
qed

text \<open>The connection's thread takes a step on it: in the handler of its channel, or in the functor
  that waits for it.\<close>

definition advance :: "(addr \<times> 'f) option \<Rightarrow> addr \<Rightarrow> addr \<Rightarrow> 'f thread_at \<Rightarrow> 'f thread_at \<Rightarrow> bool" where
  "advance y l cc pc pc' \<longleftrightarrow> (y = None \<and> pc' = pc \<and> (\<exists>cs. pc = At_dispatch cs \<and> cc \<notin> set cs)) \<or>
     (\<exists>f fs ds. y = Some (l, f) \<and> pc = At_call (f # fs) ds \<and> pc' = At_call fs (ds @ [f]))"

lemma advance_at: "advance y l cc pc pc' \<Longrightarrow> loop_at m pc el \<Longrightarrow> loop_at m pc' el"
  by (auto simp: advance_def loop_at_def)

lemma advance_todo: "advance y l cc pc pc' \<Longrightarrow> at_todo pc = job_at y l @ at_todo pc'"
  by (auto simp: advance_def)

lemma advance_job: "advance y l cc pc pc' \<Longrightarrow> y = None \<or> (\<exists>f. y = Some (l, f))"
  by (auto simp: advance_def)

lemma advance_held: "advance y l cc pc pc' \<Longrightarrow> set (at_held pc') = set (at_held pc) \<union> set (job_at y l)"
  by (auto simp: advance_def)

text \<open>What the advance of a thread and one connection means for the queues and for the functors
  that were run.\<close>

lemma job_update:
  assumes "\<And>b. b \<noteq> a \<Longrightarrow> nx_conns w' b = nx_conns w b"
  shows "job P (st(a := s')) w' = (job P st w)(a := job P (st(a := s')) w' a)"
proof
  fix b show "job P (st(a := s')) w' b = ((job P st w)(a := job P (st(a := s')) w' a)) b"
    using assms [of b] by (cases "b = a") (auto intro: job_cong)
qed

lemma queues_advance:
  assumes Q: "queues_inv P st at w" and L: "loops_ok P at w" and g: "loops_grow (job_at new) w w'"
    and job: "job P st' w' = (job P st w)(a := new)" and adv: "advance (job P st w a) (wk_loop m) cc (at (wk_loop m)) pc'"
    and "on": "\<And>l f. new = Some (l, f) \<Longrightarrow> l \<in> wk_loop ` set (ps_all P)"
  shows "queues_inv P st' (at(wk_loop m := pc')) w'"
proof (rule queues_inv_change [OF Q job])
  fix l f assume n: "new = Some (l, f)"
  then have "job P st' w' a = Some (l, f)" using fun_cong [OF job, of a] by simp
  with "on" [OF n] show "l \<in> wk_loop ` set (ps_all P) \<and> holds f = Some a" by (blast dest: job_holds)
next
  fix m' assume m': "m' \<in> set (ps_all P)"
  have "at_todo (at (wk_loop m')) = job_at (job P st w a) (wk_loop m') @ at_todo ((at(wk_loop m := pc')) (wk_loop m'))"
    using advance_todo [OF adv] advance_job [OF adv] by (cases "wk_loop m' = wk_loop m") auto
  then show "\<exists>fs. waiting at w (wk_loop m') = job_at (job P st w a) (wk_loop m') @ fs \<and>
      waiting (at(wk_loop m := pc')) w' (wk_loop m') = fs @ job_at new (wk_loop m')"
    using loops_grow_pending [OF L g m']
    by (intro exI [of _ "at_todo ((at(wk_loop m := pc')) (wk_loop m')) @ pending w (wk_loop m')"]) (simp only: waiting_def append_assoc)
qed

lemma held_advance:
  assumes H: "held P st at w" and dom: "dom (nx_conns w') = dom (nx_conns w)" and m: "m \<in> set (ps_all P)" and a: "a \<in> dom (nx_conns w)"
    and adv: "advance (job P st w a) (wk_loop m) cc (at (wk_loop m)) pc'" and gone: "s' = Gone \<Longrightarrow> job P st w a \<noteq> None"
  shows "held P (st(a := s')) (at(wk_loop m := pc')) w'"
  unfolding held_def dom
proof (intro conjI ballI impI)
  have new: "\<exists>b \<in> dom (nx_conns w). holds f = Some b" if "f \<in> set (job_at (job P st w a) (wk_loop m))" for f
    using that job_holds [of P st w a] a by (cases "job P st w a") (auto split: if_splits)
  fix m' f assume "m' \<in> set (ps_all P)" "f \<in> set (at_held ((at(wk_loop m := pc')) (wk_loop m')))"
  then show "\<exists>b \<in> dom (nx_conns w). holds f = Some b"
    using H new advance_held [OF adv] m unfolding held_def by (cases "wk_loop m' = wk_loop m") auto
next
  fix b assume b: "b \<in> dom (nx_conns w)" "(st(a := s')) b = Gone"
  show "\<exists>m' \<in> set (ps_all P). Some b \<in> holds ` set (at_held ((at(wk_loop m := pc')) (wk_loop m')))"
  proof (cases "b = a")
    case True
    with b(2) gone advance_job [OF adv] obtain f where "job P st w a = Some (wk_loop m, f)" by auto
    with job_holds [OF this] advance_held [OF adv] True m show ?thesis by (intro bexI [of _ m]) auto
  next
    case False
    with b H obtain m' where m': "m' \<in> set (ps_all P)" "Some b \<in> holds ` set (at_held (at (wk_loop m')))" unfolding held_def by auto
    then have "Some b \<in> holds ` set (at_held ((at(wk_loop m := pc')) (wk_loop m')))"
      using advance_held [OF adv] by (cases "wk_loop m' = wk_loop m") auto
    with m'(1) show ?thesis by blast
  qed
qed

lemma pool_ok_conn:
  fixes w w' :: "(echo_cb, 'z) server_net_scheme"
  assumes R: "pool_ok P n cur st cs at w" and m: "m \<in> set (ps_crew P)" and tc: "nx_conns w a = Some tc" "tc_loop tc = wk_loop m"
    and step: "conn_step a (tc_channel tc) (tc_fd tc) (job_at (job P (st(a := s')) w' a)) w w'"
    and stage: "stage_ok P n' m s' a w'" and n: "n \<le> n'"
    and map: "s' \<in> {Fresh, Up, Closing} \<longleftrightarrow> st a \<in> {Fresh, Up, Closing}"
    and adv: "advance (job P st w a) (wk_loop m) (tc_channel tc) (at (wk_loop m)) pc'" and gone: "s' = Gone \<Longrightarrow> job P st w a \<noteq> None"
  shows "pool_ok P n' cur (st(a := s')) cs (at(wk_loop m := pc')) w'"
proof -
  note D = pool_okD [OF R] and all = crew_all(1) [OF m]
  let ?st = "st(a := s')" and ?at = "at(wk_loop m := pc')" and ?l = "wk_loop m"
  from step have inv: "rx_inv w'" and o: "others a (tc_channel tc) w' = others a (tc_channel tc) w"
    and g: "loops_grow (job_at (job P ?st w' a)) w w'" by (simp_all add: conn_step_def)
  note O = othersD [OF o] and lay = store_okD(2) [OF D(2)]
  from step tc(1) obtain tr tc' where C: "nx_trace w' = nx_trace w @ tr" "list_all (io_call (tc_fd tc)) tr" "nx_conns w' a = Some tc'"
    "tc_channel tc' = tc_channel tc" "tc_fd tc' = tc_fd tc" "tc_loop tc' = tc_loop tc" unfolding conn_step_def by auto
  have store: "store_ok P cur cs w'" by (rule conn_step_store [OF step D(2)])
  have loops: "loops_ok P ?at w'"
    by (rule loops_grow_ok [OF D(3) g]) (use advance_at [OF adv] worker_eq [OF D(1) _ all] in auto)
  have conns: "conns_at P n' ?st w'"
  proof (rule conns_at_change [OF D(4) inv loops n _ C(1), where A = "{a}"])
    fix b tcb assume b: "b \<notin> {a}" "nx_conns w' b = Some tcb"
    then have "nx_conns w b = Some tcb" using O(1) [of b] by simp
    moreover from layout_distinct(2) [OF lay tc(1) this] b(1) have "tc_channel tcb \<noteq> tc_channel tc" by blast
    ultimately show "nx_conns w b = Some tcb \<and> ?st b = st b \<and> rel_option same_marks (rx_channels w' (tc_channel tcb)) (rx_channels w (tc_channel tcb))"
      using O(2) [of "tc_channel tcb"] b(1) by (simp add: same_marks_rel)
  next
    fix b tcb assume b: "b \<notin> {a}" "nx_conns w b = Some tcb"
    from layout_distinct(1) [OF lay tc(1) b(2)] b(1) show "quiet (tc_fd tcb) tr" by (intro quiet_io [OF C(2)]) auto
  qed (use m stage in auto)
  have queues: "queues_inv P ?st ?at w'"
  proof (rule queues_advance [OF D(6,3) g job_update [OF O(1)] adv])
    fix l f assume "job P ?st w' a = Some (l, f)"
    with C(3,6) tc(2) have "l = ?l \<or> l = wk_loop (ps_base P)" by (auto simp: job_def split: stage.splits)
    with all crew_all(2) show "l \<in> wk_loop ` set (ps_all P)" by blast
  qed
  have "nx_conns w' b = None \<longleftrightarrow> nx_conns w b = None" for b using O(1) [of b] tc(1) C(3) by (cases "b = a") auto
  then have dom: "dom (nx_conns w') = dom (nx_conns w)" by (simp add: dom_def)
  have "held P ?st ?at w'" by (rule held_advance [OF D(7) dom all _ adv gone]) (use tc(1) in auto)
  moreover have "entries ?st cs w'"
  proof (rule entries_cong [OF D(5)])
    show "map_option tc_fd (nx_conns w' b) = map_option tc_fd (nx_conns w b)" for b using O(1) [of b] tc(1) C(3,5) by (cases "b = a") auto
  qed (use map in auto)
  moreover have "todos P ?st ?at w'"
  proof (rule todos_cong [OF D(8)])
    fix m' cs' assume "m' \<in> set (ps_all P)" "?at (wk_loop m') = At_dispatch cs'"
    then show "\<exists>cs. at (wk_loop m') = At_dispatch cs \<and> set cs' \<subseteq> set cs \<and> distinct cs'"
      using adv D(8) all unfolding todos_def by (cases "wk_loop m' = ?l") (auto simp: advance_def)
  next
    fix m' cs' b tcb chb
    assume b: "m' \<in> set (ps_all P)" "?at (wk_loop m') = At_dispatch cs'" "nx_conns w b = Some tcb" "tc_channel tcb \<in> set cs'"
      "tc_loop tcb = wk_loop m'" "st b = Up" "rx_channels w (tc_channel tcb) = Some chb"
    have ne: "b \<noteq> a" using b tc adv by (cases "wk_loop m' = ?l") (auto simp: advance_def)
    then have "tc_channel tcb \<noteq> tc_channel tc" using layout_distinct(2) [OF lay tc(1) b(3)] by blast
    with O ne b show "nx_conns w' b = Some tcb \<and> ?st b = Up \<and> (\<exists>ch'. rx_channels w' (tc_channel tcb) = Some ch' \<and> ch_revents ch' = ch_revents chb)"
      by simp
  qed
  ultimately show ?thesis using D(1) store loops conns queues by (simp add: pool_ok_def)
qed

section \<open>The event of a connection\<close>

lemma conn_step_trans:
  assumes 1: "conn_step a cc fd add w w1" and 2: "conn_step a cc fd add' w1 w2"
  shows "conn_step a cc fd (\<lambda>l. add l @ add' l) w w2"
proof -
  from 1 obtain tr tc tc1 ch ch1 where A: "others a cc w1 = others a cc w" "nx_trace w1 = nx_trace w @ tr" "list_all (io_call fd) tr"
    "nx_conns w a = Some tc" "nx_conns w1 a = Some tc1" "tc_channel tc = cc" "tc_fd tc = fd" "tc_channel tc1 = cc" "tc_fd tc1 = fd"
    "tc_loop tc1 = tc_loop tc" "rx_channels w cc = Some ch" "rx_channels w1 cc = Some ch1" "ch_fd ch1 = ch_fd ch"
    "ch_event_handling ch1 = ch_event_handling ch" "loops_grow add w w1" unfolding conn_step_def by blast
  from 2 A(5,12) obtain tr' tc2 ch2 where B: "rx_inv w2" "others a cc w2 = others a cc w1" "nx_trace w2 = nx_trace w1 @ tr'" "list_all (io_call fd) tr'"
    "nx_conns w2 a = Some tc2" "tc_channel tc2 = cc" "tc_fd tc2 = fd"
    "tc_loop tc2 = tc_loop tc1" "rx_channels w2 cc = Some ch2" "ch_fd ch2 = ch_fd ch1"
    "ch_event_handling ch2 = ch_event_handling ch1" "loops_grow add' w1 w2" unfolding conn_step_def by auto
  show ?thesis unfolding conn_step_def using A B loops_grow_trans [OF A(15) B(12)] by auto
qed

lemma served_conn_step:
  fixes w w' :: "(echo_cb, 'z) server_net_scheme"
  assumes s: "served s l t n fd a cc w w'" and tc: "nx_conns w a = Some tc" "tc_channel tc = cc" "tc_fd tc = fd" and ch: "rx_channels w cc = Some ch"
  shows "conn_step a cc fd (\<lambda>_. []) w w'"
proof -
  from s have core: "net_core w' = net_core w" and loc: "local_step a cc fd w w'" and E: "echo_conn s l t n fd a w'" by (simp_all add: served_def)
  from core_conn [OF core tc(1)] obtain tc' where tc': "nx_conns w' a = Some tc'" "conn_core tc' = conn_core tc" by blast
  from core_channel [OF core ch] obtain ch' where ch': "rx_channels w' cc = Some ch'" "chan_core ch' = chan_core ch" by blast
  have "rx_inv w'" using E by (auto simp: echo_conn_def conn_base_def)
  with loc tc tc' ch ch' conn_coreD [OF tc'(2)] chan_coreD(7,8) [OF ch'(2)] loops_grow_core [OF core] show ?thesis
    by (auto simp: conn_step_def local_step_def)
qed

text \<open>A loop other than the connection's gets the functor.\<close>

lemma loops_grow_queue:
  fixes w :: "('u, 'z) net_scheme"
  assumes "rx_loops w l = Some el"
  shows "loops_grow (job_at (Some (l, f))) w (put_loop l (EventLoop_queue_in_loop t f el) w)"
  unfolding loops_grow_def
proof
  fix k
  have "el_pending_functors (EventLoop_queue_in_loop t f el) = el_pending_functors el @ [f]"
    by (simp add: EventLoop_queue_in_loop_def EventLoop_queue_wake_def EventLoop_queue_push_def EventLoop_wakeup_def)
  with assms show "rel_option (\<lambda>el' el. loop_rest el' = loop_rest el \<and> el_pending_functors el' = el_pending_functors el @ job_at (Some (l, f)) k)
      (rx_loops (put_loop l (EventLoop_queue_in_loop t f el) w) k) (rx_loops w k)" by (cases "rx_loops w k") auto
qed

lemma conn_step_queue:
  fixes w :: "('v, 'z) server_net_scheme"
  assumes "conn_step a cc fd (\<lambda>_. []) w w1" and "rx_loops w1 l = Some el"
  shows "conn_step a cc fd (job_at (Some (l, f))) w (put_loop l (EventLoop_queue_in_loop t f el) w1)"
proof -
  let ?w = "put_loop l (EventLoop_queue_in_loop t f el) w1"
  have "rx_inv ?w" using assms by (intro rx_inv_put_loop [OF _ assms(2)]) (simp_all add: conn_step_def)
  then have "conn_step a cc fd (job_at (Some (l, f))) w1 ?w"
    using assms(1) loops_grow_queue [OF assms(2), of f t] unfolding conn_step_def by (intro conjI) auto
  from conn_step_trans [OF assms(1) this] show ?thesis by (simp only: append_Nil)
qed

text \<open>While the thread \<open>m\<close> handles the event \<open>ev\<close> of its connection \<open>a\<close>, starting from
  \<open>w\<close>: once the connection is closed, its removal is queued on the main loop.\<close>

definition pool_hold :: "pool_site \<Rightarrow> worker \<Rightarrow> events \<Rightarrow> int \<Rightarrow> addr \<Rightarrow> addr \<Rightarrow> (echo_cb, 'z) server_net_scheme \<Rightarrow>
    nat \<Rightarrow> bool \<Rightarrow> (echo_cb, 'z) server_net_scheme \<Rightarrow> bool" where
  "pool_hold P m ev fd a cc w n closed v \<longleftrightarrow>
     conn_step a cc fd (if closed then job_at (Some (wk_loop (ps_base P), Remove_connection_in_loop (ps_server P) a)) else (\<lambda>_. [])) w v \<and>
     (if closed then dead_conn (wk_loop m) (wk_tid m) a v else echo_conn (ps_server P) (wk_loop m) (wk_tid m) n fd a v) \<and>
     (\<exists>tc ch. nx_conns v a = Some tc \<and> tc_channel tc = cc \<and> tc_fd tc = fd \<and> rx_channels v cc = Some ch \<and>
        conn_channel a ch \<and> ch_revents ch = ev)"

lemma echo_conn_mono:
  assumes "echo_conn s l t n fd a w" and "n \<le> n'"
  shows "echo_conn s l t n' fd a w"
proof -
  from assms(1) obtain tc ch el where E: "conn_base a tc ch el w" "el_tid el = t" "tc_loop tc = l" by (rule echo_connE)
  have "conn_kept a l t w w" using conn_baseD [OF E(1)] E(2,3) by (auto simp: conn_kept_def)
  from echo_conn_kept [OF assms(1) this _ _ assms(2), of "[]"] show ?thesis by simp
qed

lemma pool_hold_served:
  fixes v v' :: "(echo_cb, 'z) server_net_scheme"
  assumes H: "pool_hold P m ev fd a cc w n False v" and s: "served (ps_server P) (wk_loop m) (wk_tid m) n' fd a cc v v'"
  shows "pool_hold P m ev fd a cc w n' False v'"
proof -
  from H obtain tc ch where h: "nx_conns v a = Some tc" "tc_channel tc = cc" "tc_fd tc = fd" "rx_channels v cc = Some ch"
    "conn_channel a ch" "ch_revents ch = ev" and c: "conn_step a cc fd (\<lambda>_. []) w v" by (auto simp: pool_hold_def)
  from s have core: "net_core v' = net_core v" and E: "echo_conn (ps_server P) (wk_loop m) (wk_tid m) n' fd a v'" by (simp_all add: served_def)
  from core_conn [OF core h(1)] obtain tc' where tc': "nx_conns v' a = Some tc'" "conn_core tc' = conn_core tc" by blast
  from core_channel [OF core h(4)] obtain ch' where ch': "rx_channels v' cc = Some ch'" "chan_core ch' = chan_core ch" by blast
  have "conn_step a cc fd (\<lambda>_. []) w v'" using conn_step_trans [OF c served_conn_step [OF s h(1-4)]] by simp
  with E tc' ch' h conn_coreD [OF tc'(2)] chan_coreD(5) [OF ch'(2)] conn_channel_core [OF ch'(2), of a] show ?thesis
    by (simp add: pool_hold_def)
qed

text \<open>The handlers of the connection, up to the server.\<close>

lemma closed_conn_step:
  fixes w :: "(echo_cb, 'z) server_net_scheme"
  assumes B: "conn_base a tc ch el w" and w1: "w1 = put_loop (tc_loop tc) (el\<lparr>el_poller := ep\<rparr>) (put_channel (tc_channel tc)
      (ch\<lparr>ch_events := kNoneEvent, ch_added_to_loop := True, ch_index := kDeleted\<rparr>) (put_conn a (tc\<lparr>tc_state := kDisconnected\<rparr>) w))"
    and inv: "rx_inv w1" "ep_events_size ep = ep_events_size (el_poller el)" and sock: "tc_socket tc = tc_fd tc" and t: "el_tid el = t"
  shows "conn_step a (tc_channel tc) (tc_fd tc) (\<lambda>_. []) w w1" "dead_conn (tc_loop tc) t a w1"
proof -
  note D = conn_baseD [OF B]
  have "rel_option (\<lambda>el' el. loop_rest el' = loop_rest el \<and> el_pending_functors el' = el_pending_functors el @ []) (rx_loops w1 l) (rx_loops w l)" for l
    using D(4) inv(2) by (cases "rx_loops w l") (auto simp: w1)
  then have "loops_grow (\<lambda>_. []) w w1" by (simp add: loops_grow_def)
  then show "conn_step a (tc_channel tc) (tc_fd tc) (\<lambda>_. []) w w1"
    using inv(1) D unfolding conn_step_def by (intro conjI) (auto simp: w1)
  have "conn_base a (tc\<lparr>tc_state := kDisconnected\<rparr>) (ch\<lparr>ch_events := kNoneEvent, ch_added_to_loop := True, ch_index := kDeleted\<rparr>) (el\<lparr>el_poller := ep\<rparr>) w1"
    using D inv(1) by (simp add: conn_base_def w1 kDeleted_def kNew_def)
  with sock t show "dead_conn (tc_loop tc) t a w1" unfolding dead_conn_def by fastforce
qed

lemma pool_hold_close:
  fixes v :: "(echo_cb, 'z) server_net_scheme"
  assumes R: "pool_ok P n0 cur st cs at w" and m: "m \<in> set (ps_crew P)" and H: "pool_hold P m ev fd a cc w n False v"
  shows "\<exists>v'. TcpConnection_handle_close (run_user (EchoServer_callbacks k (wk_tid m) p) (wk_tid m)) (wk_tid m) a v = Inr v' \<and>
    pool_hold P m ev fd a cc w n True v'"
proof -
  note D = pool_okD [OF R]
  let ?t = "wk_tid m" and ?l = "wk_loop m" and ?s = "ps_server P" and ?lb = "wk_loop (ps_base P)"
  from H obtain tc ch where h: "nx_conns v a = Some tc" "tc_channel tc = cc" "tc_fd tc = fd" "rx_channels v cc = Some ch"
    "conn_channel a ch" "ch_revents ch = ev" and c: "conn_step a cc fd (\<lambda>_. []) w v" and "echo_conn ?s ?l ?t n fd a v" by (auto simp: pool_hold_def)
  then obtain el where E: "conn_base a tc ch el v" "el_tid el = ?t" "tc_loop tc = ?l" "echo_state ?s n a tc ch (nx_trace v)"
    by (auto simp: echo_conn_def conn_base_def)
  note B = conn_baseD [OF E(1)] and S = echo_stateD [OF E(4)]
  from echo_close [OF E(1,2,4), of k p] h(2) E(3) obtain ep where
    close: "TcpConnection_handle_close (run_user (EchoServer_callbacks k ?t p) ?t) ?t a v = TcpServer_remove_connection ?t ?s a
       (put_loop (tc_loop tc) (el\<lparr>el_poller := ep\<rparr>) (put_channel (tc_channel tc) (ch\<lparr>ch_events := kNoneEvent, ch_added_to_loop := True, ch_index := kDeleted\<rparr>)
         (put_conn a (tc\<lparr>tc_state := kDisconnected\<rparr>) v)))"
    and w1: "rx_inv (put_loop (tc_loop tc) (el\<lparr>el_poller := ep\<rparr>) (put_channel (tc_channel tc) (ch\<lparr>ch_events := kNoneEvent, ch_added_to_loop := True, ch_index := kDeleted\<rparr>)
         (put_conn a (tc\<lparr>tc_state := kDisconnected\<rparr>) v)))" "ep_events_size ep = ep_events_size (el_poller el)" by (auto simp: Let_def)
  let ?ch = "ch\<lparr>ch_events := kNoneEvent, ch_added_to_loop := True, ch_index := kDeleted\<rparr>"
  define v1 where "v1 = put_loop (tc_loop tc) (el\<lparr>el_poller := ep\<rparr>) (put_channel (tc_channel tc) ?ch (put_conn a (tc\<lparr>tc_state := kDisconnected\<rparr>) v))"
  note cl = closed_conn_step [OF E(1) v1_def w1(1) [folded v1_def] w1(2) S(3) E(2)]
  have c1: "conn_step a cc fd (\<lambda>_. []) w v1" using conn_step_trans [OF c] cl(1) h(2,3) by simp
  then have g: "loops_grow (\<lambda>_. []) w v1" and o: "others a cc v1 = others a cc w" by (simp_all add: conn_step_def)
  from store_okD(4) [OF D(2)] obtain ts where ts: "nx_servers w ?s = Some ts" "ts_loop ts = ?lb" by (auto simp: server_at_def server_up_def)
  from loops_okE [OF D(3) crew_all(2)] obtain elb where elb: "rx_loops w ?lb = Some elb" "el_tid elb = wk_tid (ps_base P)" .
  from loops_growE [OF g elb(1)] obtain elb' where elb': "rx_loops v1 ?lb = Some elb'" "loop_rest elb' = loop_rest elb" .
  have "el_tid elb' \<noteq> ?t" using arg_cong [OF elb'(2), of el_tid] elb(2) crew_not_base [OF D(1) m] by (simp add: loop_rest_def loop_core_def)
  then have "TcpServer_remove_connection ?t ?s a v1 = Inr (put_loop ?lb (EventLoop_queue_in_loop ?t (Remove_connection_in_loop ?s a) elb') v1)"
    using elb'(1) ts othersD(3) [OF o] by (simp add: TcpServer_remove_connection_def EventLoop_run_in_loop_def EventLoop_is_in_loop_thread_def)
  moreover have "dead_conn ?l ?t a (put_loop ?lb (EventLoop_queue_in_loop ?t (Remove_connection_in_loop ?s a) elb') v1)"
  proof (rule dead_conn_kept)
    show "dead_conn ?l ?t a v1" using cl(2) E(3) by simp
    have "rx_inv (put_loop ?lb (EventLoop_queue_in_loop ?t (Remove_connection_in_loop ?s a) elb') v1)"
      by (rule rx_inv_put_loop [OF _ elb'(1)]) (use c1 in \<open>simp_all add: conn_step_def\<close>)
    then show "conn_kept a ?l ?t v1 (put_loop ?lb (EventLoop_queue_in_loop ?t (Remove_connection_in_loop ?s a) elb') v1)"
      using crew_not_base [OF D(1) m] E(2,3) by (auto simp: conn_kept_def v1_def)
  qed
  ultimately show ?thesis using close [folded v1_def] conn_step_queue [OF c1 elb'(1), of "Remove_connection_in_loop ?s a" ?t] h
    by (simp add: pool_hold_def v1_def conn_channel_def)
qed

lemma pool_hold_getsockopt:
  assumes "pool_hold P m ev fd a cc w n c v"
  shows "pool_hold P m ev fd a cc w n c (v\<lparr>nx_trace := nx_trace v @ [Sys_getsockopt fd]\<rparr>)" (is "pool_hold _ _ _ _ _ _ _ _ _ ?v")
proof -
  from assms obtain add where st: "conn_step a cc fd add w v"
    "add = (if c then job_at (Some (wk_loop (ps_base P), Remove_connection_in_loop (ps_server P) a)) else (\<lambda>_. []))" by (simp add: pool_hold_def)
  have "conn_step a cc fd (\<lambda>_. []) v ?v"
    using st(1) loops_grow_core [of ?v v] unfolding conn_step_def by (intro conjI) auto
  from conn_step_trans [OF st(1) this] have "conn_step a cc fd add w ?v" by simp
  moreover have "echo_conn (ps_server P) (wk_loop m) (wk_tid m) n fd a ?v" if "echo_conn (ps_server P) (wk_loop m) (wk_tid m) n fd a v"
  proof -
    from that obtain tc ch el where "conn_base a tc ch el v" "el_tid el = wk_tid m" "tc_loop tc = wk_loop m" by (rule echo_connE)
    then have "conn_kept a (wk_loop m) (wk_tid m) v ?v" using conn_baseD [of a tc ch el v] by (auto simp: conn_kept_def)
    from echo_conn_kept [OF that this _ _ le_refl, of "[Sys_getsockopt fd]"] show ?thesis by (simp add: quiet_def)
  qed
  moreover have "dead_conn (wk_loop m) (wk_tid m) a ?v" if "dead_conn (wk_loop m) (wk_tid m) a v"
    using that by (auto simp: dead_conn_def)
  ultimately show ?thesis using assms by (simp add: pool_hold_def st(2))
qed

text \<open>The server on a pool of threads hosts its connections.\<close>

interpretation pool_host: conn_host "\<lambda>n c v. m \<in> set (ps_crew P) \<and> pool_ok P n0 cur st cs at w \<and> pool_hold P m ev fd a cc w n c v"
    "ps_server P" "wk_loop m" "wk_tid m" fd a cc ev k p
  for P m n0 cur st cs at ev fd a cc and w :: "(echo_cb, 'z) server_net_scheme" and k p
proof (unfold_locales, goal_cases)
  case (1 n v)
  then show ?case by (simp add: pool_hold_def)
next
  case (2 n v n' v')
  then show ?case using pool_hold_served by blast
next
  case (3 n v)
  then show ?case using pool_hold_close by blast
next
  case (4 n v)
  then show ?case by (simp add: pool_hold_def)
next
  case (5 n c v)
  then show ?case by (auto simp: pool_hold_def)
next
  case (6 n c v)
  then show ?case using pool_hold_getsockopt by blast
next
  case (7 n c v n')
  then show ?case by (auto simp: pool_hold_def intro: echo_conn_mono)
qed

text \<open>The marks of one channel.\<close>

lemma pool_ok_channel:
  fixes w :: "(echo_cb, 'z) server_net_scheme"
  assumes R: "pool_ok P n cur st cs at w" and d: "rx_channels w d = Some ch" "same_marks ch' ch" "ch_revents ch' = ch_revents ch"
    and m: "marks cur' (put_channel d ch' w)"
  shows "pool_ok P n cur' st cs at (put_channel d ch' w)"
proof -
  note D = pool_okD [OF R]
  from loops_okE [OF D(3) crew_all(2)] obtain el where el: "rx_loops w (wk_loop (ps_base P)) = Some el"
    "loop_at (ps_base P) (at (wk_loop (ps_base P))) el" .
  have rel: "rel_option same_marks (rx_channels (put_channel d ch' w) x) (rx_channels w x)" for x
    using d by (cases "rx_channels w x") auto
  have "todos P st at (put_channel d ch' w)"
    using D(8) d by (intro todos_cong [OF D(8)]) (auto simp: todos_def)
  then have "pool_ok P n cur' st cs (at(wk_loop (ps_base P) := at (wk_loop (ps_base P)))) (put_channel d ch' w)"
    by (intro pool_ok_mark [OF R crew_all(2) el(1) _ _ _ _ _ rel refl refl el(2) refl refl m le_refl]) (use el in \<open>simp_all add: fun_upd_idem\<close>)
  then show ?thesis by simp
qed

lemma pool_up:
  assumes R: "pool_ok P n cur st cs at w" and m: "m \<in> set (ps_crew P)" and a: "nx_conns w a = Some tc" "tc_loop tc = wk_loop m"
  shows "stage_ok P n m (st a) a w"
proof -
  from conns_atE [OF pool_okD(4) [OF R] a(1)] obtain m' where m': "m' \<in> set (ps_crew P)" "stage_ok P n m' (st a) a w" "tc_loop tc = wk_loop m'" .
  from worker_eq [OF pool_okD(1) [OF R] crew_all(1) [OF m'(1)] crew_all(1) [OF m]] m' a(2) show ?thesis by simp
qed

lemma pool_conn_event:
  fixes w :: "(echo_cb, 'z) server_net_scheme"
  assumes k: "kernel_ok k" "small_reads k" and R: "pool_ok P n None st cs at w" and m: "m \<in> set (ps_crew P)"
    and a: "nx_conns w a = Some tc" "tc_loop tc = wk_loop m" "st a = Up" "tc_channel tc = cc"
    and ch: "rx_channels w cc = Some ch" "event_ok (ch_revents ch)" and at: "at (wk_loop m) = At_dispatch ds" "cc \<notin> set ds"
    and max: "8 + Suc n * kExtraBuf \<le> vector_max_size"
    and run: "run = run_chan_cb k fresh (EchoServer_callbacks k (wk_tid m) p) (wk_tid m)"
  shows "\<exists>w' st'. Channel_handle_event conn_alive run (get_channel cc) (upd_channel cc) w = Inr w' \<and> pool_ok P (Suc n) None st' cs at w'"
proof -
  note D = pool_okD [OF R]
  let ?w1 = "put_channel cc (ch\<lparr>ch_event_handling := True\<rparr>) w" and ?fd = "tc_fd tc"
  have "marks (Some cc) ?w1" using store_okD(3) [OF D(2)] by (auto simp: marks_def)
  from pool_ok_channel [OF R ch(1) _ _ this] have R1: "pool_ok P n (Some cc) st cs at ?w1" by simp
  have a1: "nx_conns ?w1 a = Some tc" using a(1) by simp
  from pool_up [OF R1 m a1 a(2)] a(1,3) have E: "echo_conn (ps_server P) (wk_loop m) (wk_tid m) n ?fd a ?w1" by simp
  then have "served (ps_server P) (wk_loop m) (wk_tid m) n ?fd a cc ?w1 ?w1" by (simp add: served_def)
  from served_conn_step [OF this a1 a(4) refl] have "conn_step a cc ?fd (\<lambda>_. []) ?w1 ?w1" by simp
  moreover have "conn_channel a (ch\<lparr>ch_event_handling := True\<rparr>)" using E a(4) a1 by (auto simp: echo_conn_def conn_base_def echo_state_def)
  ultimately have H: "m \<in> set (ps_crew P) \<and> pool_ok P n (Some cc) st cs at ?w1 \<and> pool_hold P m (ch_revents ch) ?fd a cc ?w1 n False ?w1"
    using R1 m E a1 a(4) by (simp add: pool_hold_def)
  from pool_host.host_event [OF k max ch(2) run ch(1) H] obtain w5 c ch5 where
    h: "Channel_handle_event conn_alive run (get_channel cc) (upd_channel cc) w = Inr (put_channel cc (ch5\<lparr>ch_event_handling := False\<rparr>) w5)"
    "rx_channels w5 cc = Some ch5" "pool_hold P m (ch_revents ch) ?fd a cc ?w1 (Suc n) c w5" by blast
  let ?s = "if c then Closing else Up" and ?w' = "put_channel cc (ch5\<lparr>ch_event_handling := False\<rparr>) w5"
  from h(3) obtain tc5 where tc5: "nx_conns w5 a = Some tc5" "tc_fd tc5 = ?fd" by (auto simp: pool_hold_def)
  have none: "job P st ?w1 a = None" using a(3) a1 by (simp add: job_def)
  have "job P (st(a := ?s)) w5 a = (if c then Some (wk_loop (ps_base P), Remove_connection_in_loop (ps_server P) a) else None)"
    using tc5(1) by (simp add: job_def)
  then have "conn_step a (tc_channel tc) ?fd (job_at (job P (st(a := ?s)) w5 a)) ?w1 w5"
    using h(3) a(4) by (cases c) (simp_all add: pool_hold_def job_at_None)
  moreover have "stage_ok P (Suc n) m ?s a w5" using h(3) tc5 by (cases c) (simp_all add: pool_hold_def)
  ultimately have "pool_ok P (Suc n) (Some cc) (st(a := ?s)) cs (at(wk_loop m := at (wk_loop m))) w5"
    by (intro pool_ok_conn [OF R1 m a1 a(2)]) (use a(3,4) at none in \<open>auto simp: advance_def split: if_splits\<close>)
  then have R5: "pool_ok P (Suc n) (Some cc) (st(a := ?s)) cs at w5" by simp
  have "marks None ?w'" using store_okD(3) [OF pool_okD(2) [OF R5]] by (auto simp: marks_def)
  from pool_ok_channel [OF R5 h(2) _ _ this] h(1) show ?thesis by auto
qed

end
