(* ===== verification/Pool_Steps.thy ===== *)
theory Pool_Steps
  imports Pool_Events
begin

unbundle bit_operations_syntax

text \<open>
  The functors of the pool, the acceptor and the destruction of connections, each with respect
  to the invariant: a connection comes into being on the main thread, is established on its own,
  is taken out of the map on the main thread, taken out of its poller on its own, and is destroyed
  by the thread that drops the last functor it is bound in.
\<close>

section \<open>Functors on the connection's own loop\<close>

text \<open>The functor at the head of the batch belongs to a connection that waits for it.\<close>

lemma waiting_job:
  assumes R: "pool_ok P n cur st cs at w" and m: "m \<in> set (ps_all P)" and at: "at (wk_loop m) = At_call (f # fs) ds"
  obtains a tc where "job P st w a = Some (wk_loop m, f)" "nx_conns w a = Some tc"
proof -
  have "f \<in> set (waiting at w (wk_loop m))" using at by (simp add: waiting_def)
  with queues_inv_iff [OF pool_okD(6) [OF R] m] obtain a where a: "job P st w a = Some (wk_loop m, f)" by blast
  moreover from a obtain tc where "nx_conns w a = Some tc" by (auto simp: job_def split: option.splits)
  ultimately show ?thesis using that by blast
qed

text \<open>What the run of a functor queues: a removal queues the destruction of the connection on its
  loop, the others queue nothing.\<close>

definition follow_up :: "echo_functor \<Rightarrow> (addr \<times> echo_functor) option \<Rightarrow> bool" where
  "follow_up f y \<longleftrightarrow> y = None \<or> (\<exists>s a l. f = Remove_connection_in_loop s a \<and> y = Some (l, Connect_destoryed a))"

lemma pool_established:
  fixes w :: "(echo_cb, 'z) server_net_scheme"
  assumes R: "pool_ok P n None st cs at w" and m: "m \<in> set (ps_crew P)" and a: "nx_conns w a = Some tc" "tc_loop tc = wk_loop m" "st a = Fresh"
    and at: "at (wk_loop m) = At_call (Connect_established a # fs) ds"
  shows "\<exists>w'. run_net_functor k (EchoServer_callbacks k (wk_tid m) p) (wk_tid m) (Connect_established a) w = Inr w' \<and>
    pool_ok P n None (st(a := Up)) cs (at(wk_loop m := At_call fs (ds @ [Connect_established a]))) w' \<and> loops_grow (job_at None) w w'"
proof -
  note D = pool_okD [OF R]
  note S = store_okD [OF D(2)]
  from pool_up [OF R m a(1,2)] a(1,3) obtain ch el where F: "rx_channels w (tc_channel tc) = Some ch" "rx_loops w (wk_loop m) = Some el"
    "el_tid el = wk_tid m" "fresh_state (ps_server P) a tc ch (nx_trace w)" by (auto simp: fresh_conn_def)
  have fs: "tc_state tc = kConnecting" "tc_socket tc = tc_fd tc" "echo_cbs (ps_server P) tc" "Buffer_new kInitialSize = Inr (tc_input_buffer tc)"
    "tc_output_buffer tc = tc_input_buffer tc" "nb_inv (tc_input_buffer tc)" "nb_contents (tc_input_buffer tc) = []"
    "ch_loop ch = tc_loop tc" "ch_fd ch = tc_fd tc" "ch_index ch = kNew" "ch_events ch = kNoneEvent"
    "ch_read_callback ch = Some (Conn_read a)" "ch_write_callback ch = Some (Conn_write a)"
    "ch_close_callback ch = Some (Conn_close a)" "ch_error_callback ch = Some (Conn_error a)" "echoed (tc_fd tc) (nx_trace w) []"
    using F(4) by (simp_all add: fresh_state_def)
  have free: "ep_channels (el_poller el) (tc_fd tc) = None"
    by (rule unregistered_free [OF S(2,1) F(2) a(1) F(1) _ fs(9,10)]) (simp add: fs(8) a(2))
  have fresh: "conn_fresh a tc ch el w" unfolding conn_fresh_def using S(1) a(1,2) F fs free by simp
  have idle: "\<not> ch_event_handling ch" using S(3) F(1) by (simp add: marks_def)
  from established_conn [OF fresh F(3) fs(3-5,12-15) idle fs(2,16), of k p n] a(2) obtain w' tc' ch' el' where
    w': "TcpConnection_connect_established (run_user (EchoServer_callbacks k (wk_tid m) p) (wk_tid m)) (wk_tid m) a w = Inr w'"
    "echo_conn (ps_server P) (wk_loop m) (wk_tid m) n (tc_fd tc) a w'" "others a (tc_channel tc) w' = others a (tc_channel tc) w"
    "nx_conns w' a = Some tc'" "tc_fd tc' = tc_fd tc" "tc_channel tc' = tc_channel tc"
    "rx_channels w' (tc_channel tc) = Some ch'" "ch_fd ch' = tc_fd tc" "\<not> ch_event_handling ch'" "nx_trace w' = nx_trace w" by auto
  have cb: "tc_connection_callback tc = Some (User Handle_connect)" using fs(3) by (simp add: echo_cbs_def)
  have "net_core w' = net_core (put_channel (tc_channel tc) (Channel_tie a ch) (put_conn a (TcpConnection_set_state kConnected tc) w))"
    by (rule connect_established_core [OF w'(1) a(1) F(1)])
      (simp add: cb call_user_def run_user_def EchoServer_callbacks_def EchoServer_handle_connect_def bindE_Inr_iff)
  from loops_grow_core [OF this] have grow: "loops_grow (\<lambda>_. []) w w'" by (simp add: loops_grow_def)
  have new: "job P (st(a := Up)) w' a = None" using w'(4) by (simp add: job_def)
  have inv: "rx_inv w'" and lp: "tc_loop tc' = wk_loop m" using w'(2,4) by (auto simp: echo_conn_def conn_base_def)
  have "conn_step a (tc_channel tc) (tc_fd tc) (job_at (job P (st(a := Up)) w' a)) w w'"
    unfolding new job_at_None conn_step_def using inv w'(3-10) a(1,2) F(1) fs(9) idle lp grow by auto
  moreover have "stage_ok P n m Up a w'" using w'(2,4,5) by simp
  moreover have "advance (job P st w a) (wk_loop m) (tc_channel tc) (at (wk_loop m)) (At_call fs (ds @ [Connect_established a]))"
    using a at by (simp add: advance_def job_def)
  ultimately have "pool_ok P n None (st(a := Up)) cs (at(wk_loop m := At_call fs (ds @ [Connect_established a]))) w'"
    by (intro pool_ok_conn [OF R m a(1,2)]) (use a(3) in simp_all)
  with w'(1) grow show ?thesis by (simp add: run_net_functor_def job_at_None)
qed

lemma pool_destoryed:
  fixes w :: "(echo_cb, 'z) server_net_scheme"
  assumes R: "pool_ok P n None st cs at w" and m: "m \<in> set (ps_crew P)" and a: "nx_conns w a = Some tc" "tc_loop tc = wk_loop m" "st a = Removed"
    and at: "at (wk_loop m) = At_call (Connect_destoryed a # fs) ds"
  shows "\<exists>w'. run_net_functor k (EchoServer_callbacks k (wk_tid m) p) (wk_tid m) (Connect_destoryed a) w = Inr w' \<and>
    pool_ok P n None (st(a := Gone)) cs (at(wk_loop m := At_call fs (ds @ [Connect_destoryed a]))) w' \<and> loops_grow (job_at None) w w'"
proof -
  note D = pool_okD [OF R]
  from loops_okE [OF D(3) crew_all(1) [OF m]] obtain el where el: "rx_loops w (wk_loop m) = Some el" "loop_at m (at (wk_loop m)) el" .
  from pool_up [OF R m a(1,2)] a el(1) obtain ch where E: "conn_base a tc ch el w" "el_tid el = wk_tid m" "tc_state tc = kDisconnected"
    "tc_socket tc = tc_fd tc" "ch_events ch = kNoneEvent" by (auto simp: dead_conn_def conn_base_def)
  note B = conn_baseD [OF E(1)]
  have idle: "\<not> el_event_handing el" using el(2) at by (simp add: loop_at_def)
  let ?ch = "ch\<lparr>ch_added_to_loop := False, ch_index := kNew\<rparr>" and ?u = "run_user (EchoServer_callbacks k (wk_tid m) p) (wk_tid m)"
  from connect_destoryed_closed [OF E(1) E(2) [symmetric] E(3,5) idle, of ?u] a(2) obtain ep where
    run: "TcpConnection_connect_destoryed ?u (wk_tid m) a w = Inr (put_loop (wk_loop m) (el\<lparr>el_poller := ep\<rparr>) (put_channel (tc_channel tc) ?ch w))"
    and inv: "rx_inv (put_loop (wk_loop m) (el\<lparr>el_poller := ep\<rparr>) (put_channel (tc_channel tc) ?ch w))"
    and ep: "ep_events_size ep = ep_events_size (el_poller el)" by (auto simp: Let_def)
  let ?w' = "put_loop (wk_loop m) (el\<lparr>el_poller := ep\<rparr>) (put_channel (tc_channel tc) ?ch w)"
  have "rel_option (\<lambda>el' el. loop_rest el' = loop_rest el \<and> el_pending_functors el' = el_pending_functors el @ []) (rx_loops ?w' l) (rx_loops w l)" for l
    using el(1) ep by (cases "rx_loops w l") auto
  then have grow: "loops_grow (\<lambda>_. []) w ?w'" by (simp add: loops_grow_def)
  have new: "job P (st(a := Gone)) ?w' a = None" using a(1) by (simp add: job_def)
  have "conn_step a (tc_channel tc) (tc_fd tc) (job_at (job P (st(a := Gone)) ?w' a)) w ?w'"
    unfolding new job_at_None conn_step_def using inv B grow by auto
  moreover have "gone_conn (wk_loop m) a ?w'" using B E a(2) by (auto simp: gone_conn_def)
  moreover have job: "job P st w a = Some (wk_loop m, Connect_destoryed a)" using a by (simp add: job_def)
  moreover from this at have "advance (job P st w a) (wk_loop m) (tc_channel tc) (at (wk_loop m)) (At_call fs (ds @ [Connect_destoryed a]))"
    by (simp add: advance_def)
  ultimately have "pool_ok P n None (st(a := Gone)) cs (at(wk_loop m := At_call fs (ds @ [Connect_destoryed a]))) ?w'"
    by (intro pool_ok_conn [OF R m a(1,2)]) (use a(3) in simp_all)
  with run grow show ?thesis by (simp add: run_net_functor_def job_at_None)
qed

section \<open>The removal on the main loop\<close>

lemma server_at_grow:
  assumes "server_at P cs w" and "nx_servers w (ps_server P) = Some ts" and "nx_servers w' (ps_server P) = Some ts'"
    and "same_setup ts' ts" and "pool_inv (ts_threadpool ts')" and "pool_loops (ts_threadpool ts') = pool_loops (ts_threadpool ts)"
    and "nx_acceptors w' = nx_acceptors w" and "rx_channels w' (ps_listen P) = rx_channels w (ps_listen P)"
  shows "server_at P (ts_connections ts') w'"
  using assms by (auto simp: server_at_def server_up_def same_setup_def)

lemma server_atE:
  assumes "server_at P cs w"
  obtains ts where "nx_servers w (ps_server P) = Some ts" "ts_loop ts = wk_loop (ps_base P)" "tp_base_loop (ts_threadpool ts) = wk_loop (ps_base P)"
    "ts_connections ts = cs" "pool_inv (ts_threadpool ts)" "pool_loops (ts_threadpool ts) = map wk_loop (ps_crew P)"
    "ts_connection_callback ts = Some Handle_connect" "ts_message_callback ts = Some Handle_message" "ts_write_complete_callback ts = None"
    "nx_acceptors w (ps_acceptor P) = Some \<lparr>ac_loop = wk_loop (ps_base P), ac_listening = True, ac_socket = ps_lfd P, ac_channel = ps_listen P,
       ac_new_connection_callback = Some (ps_server P)\<rparr>"
  using assms unfolding server_at_def server_up_def by blast

lemma entries_mem:
  assumes "entries st cs w" and "nx_conns w a = Some tc" and "st a \<in> {Fresh, Up, Closing}"
  shows "(tc_fd tc, a) \<in> set cs" "map_of cs (tc_fd tc) = Some a"
proof -
  show m: "(tc_fd tc, a) \<in> set cs" using assms unfolding entries_def by blast
  with assms(1) show "map_of cs (tc_fd tc) = Some a" by (simp add: entries_def)
qed

lemma entries_erase:
  assumes E: "entries st cs w" and a: "nx_conns w a = Some tc" "st a \<in> {Fresh, Up, Closing}" and w': "nx_conns w' = nx_conns w"
  shows "entries (st(a := Removed)) (filter (\<lambda>x. fst x \<noteq> tc_fd tc) cs) w'"
proof -
  have dist: "distinct (map fst cs)" "sorted (map fst cs)" using E by (simp_all add: entries_def)
  have "(fd, b) \<in> set cs \<and> fd \<noteq> tc_fd tc \<longleftrightarrow> (\<exists>tc. nx_conns w b = Some tc \<and> tc_fd tc = fd) \<and> (st(a := Removed)) b \<in> {Fresh, Up, Closing}" for fd b
  proof (cases "b = a")
    case True
    then show ?thesis using E a unfolding entries_def by auto
  next
    case False
    have "(tc_fd tc, b) \<notin> set cs" using entries_mem(1) [where st = st, OF E a] False dist(1) by (metis eq_key_imp_eq_value)
    with False E show ?thesis unfolding entries_def by auto
  qed
  with dist show ?thesis by (auto simp: entries_def w' sorted_filter distinct_map_filter)
qed

lemma pool_removed:
  fixes w :: "(echo_cb, 'z) server_net_scheme"
  assumes R: "pool_ok P n None st cs at w" and a: "nx_conns w a = Some tc" "st a = Closing"
    and at: "at (wk_loop (ps_base P)) = At_call (Remove_connection_in_loop (ps_server P) a # fs) ds"
  shows "\<exists>w' cs' l. run_net_functor k (EchoServer_callbacks k (wk_tid (ps_base P)) p) (wk_tid (ps_base P)) (Remove_connection_in_loop (ps_server P) a) w = Inr w' \<and>
    pool_ok P n None (st(a := Removed)) cs' (at(wk_loop (ps_base P) := At_call fs (ds @ [Remove_connection_in_loop (ps_server P) a]))) w' \<and>
    loops_grow (job_at (Some (l, Connect_destoryed a))) w w'"
proof -
  note D = pool_okD [OF R]
  note S = store_okD [OF D(2)]
  let ?s = "ps_server P" and ?lb = "wk_loop (ps_base P)" and ?t = "wk_tid (ps_base P)" and ?st = "st(a := Removed)"
  let ?cs = "filter (\<lambda>x. fst x \<noteq> tc_fd tc) cs" and ?at = "at(wk_loop (ps_base P) := At_call fs (ds @ [Remove_connection_in_loop (ps_server P) a]))"
  from S(4) obtain ts where ts: "nx_servers w ?s = Some ts" "ts_loop ts = ?lb" "ts_connections ts = cs" "pool_inv (ts_threadpool ts)" by (rule server_atE)
  from loops_okE [OF D(3) crew_all(2)] obtain elb where elb: "rx_loops w ?lb = Some elb" "el_tid elb = ?t" .
  from conns_atE [OF D(4) a(1)] obtain m where m: "m \<in> set (ps_crew P)" "stage_ok P n m (st a) a w" "tc_loop tc = wk_loop m" .
  from loops_okE [OF D(3) crew_all(1) [OF m(1)]] obtain el where el: "rx_loops w (wk_loop m) = Some el" "el_tid el = wk_tid m" .
  have inm: "st a \<in> {Fresh, Up, Closing}" by (simp add: a(2))
  have one: "length cs - length ?cs = 1" using entries_mem [where st = st, OF D(5) a(1) inm] D(5) by (intro erase_one) (simp_all add: entries_def)
  let ?w1 = "put_server ?s (ts\<lparr>ts_connections := ?cs\<rparr>) w"
  let ?w' = "put_loop (wk_loop m) (EventLoop_queue_in_loop ?t (Connect_destoryed a) el) ?w1"
  have run: "TcpServer_remove_connection_in_loop ?t ?s a w = Inr ?w'"
    using ts elb a(1) entries_mem(2) [where st = st, OF D(5) a(1) inm] one el(1) m(3)
    by (simp add: TcpServer_remove_connection_in_loop_def assert_in_loop_def EventLoop_is_in_loop_thread_def upd_loop_def)
  have inv: "rx_inv ?w'" by (rule rx_inv_put_loop [of _ _ el]) (use S(1) el(1) in simp_all)
  have "server_at P ?cs ?w'"
    using server_at_grow [OF S(4) ts(1), of ?w' "ts\<lparr>ts_connections := ?cs\<rparr>"] ts(4) by (simp add: same_setup_def)
  moreover have "layout (ps_fixed P) (ps_lfd P) ?w'" by (rule layout_cong [OF S(2)]) (simp_all add: conn_fd_def conn_chan_def chan_fd_def fun_eq_iff)
  moreover have "marks None ?w'" "fixed_kept P w ?w'" using S(3) by (simp_all add: marks_def fixed_kept_def same_marks_rel)
  ultimately have store: "store_ok P None ?cs ?w'" by (intro store_ok_step [OF D(2) inv])
  have job': "job P ?st ?w' a = Some (wk_loop m, Connect_destoryed a)" using a(1) m(3) by (simp add: job_def)
  have g: "loops_grow (job_at (job P ?st ?w' a)) w ?w'"
    using loops_grow_queue [of ?w1 "wk_loop m" el "Connect_destoryed a" ?t] el(1) unfolding job' by (simp add: loops_grow_def)
  have adv: "advance (job P st w a) ?lb (tc_channel tc) (at ?lb) (At_call fs (ds @ [Remove_connection_in_loop ?s a]))"
    using a at by (simp add: advance_def job_def)
  have loops: "loops_ok P ?at ?w'"
    by (rule loops_grow_ok [OF D(3) g]) (use at worker_eq [OF D(1) _ crew_all(2)] in \<open>auto simp: loop_at_def\<close>)
  have conns: "conns_at P n ?st ?w'"
  proof (rule conns_at_change [OF D(4) inv loops le_refl, where A = "{a}" and tr = "[]"])
    have "conn_kept a (wk_loop m) (wk_tid m) w ?w'" using inv el(2) by (auto simp: conn_kept_def)
    then show "\<exists>m \<in> set (ps_crew P). stage_ok P n m (?st b) b ?w'" if "b \<in> {a}" for b
      using that m dead_conn_kept [of "wk_loop m" "wk_tid m" a w ?w'] a(2) by auto
  qed (simp_all add: same_marks_rel)
  have "queues_inv P ?st ?at ?w'"
    by (rule queues_advance [OF D(6,3) g job_update adv]) (use m(1) job' in auto)
  moreover have "held P ?st ?at ?w'" by (rule held_advance [OF D(7) _ crew_all(2) _ adv]) (use a(1) in auto)
  moreover have "entries ?st ?cs ?w'" by (rule entries_erase [OF D(5) a(1) inm]) simp
  moreover have "todos P ?st ?at ?w'"
    using D(8) a(2) by (intro todos_cong [OF D(8)]) (auto simp: todos_def split: if_splits)
  ultimately show ?thesis using run D(1) store loops conns g [unfolded job']
    by (intro exI [of _ ?w'] exI [of _ ?cs] exI [of _ "wk_loop m"]) (simp add: pool_ok_def run_net_functor_def)
qed

section \<open>Dropping a functor\<close>

text \<open>\<open>rs\<close> are the functors that still exist outside the queues.\<close>

definition rest_of :: "pool_site \<Rightarrow> addr \<Rightarrow> 'f list \<Rightarrow> (addr \<Rightarrow> 'f thread_at) \<Rightarrow> 'f list \<Rightarrow> bool" where
  "rest_of P l fs at rs \<longleftrightarrow> set rs = set fs \<union> (\<Union>m \<in> {m \<in> set (ps_all P). wk_loop m \<noteq> l}. set (at_functors (at (wk_loop m))))"

lemma rest_of_held: "rest_of P l fs (pl_at x) (fs @ held_elsewhere P l x)"
  by (auto simp: rest_of_def held_elsewhere_def split: if_splits)

lemma rest_other:
  assumes "rest_of P l fs at rs" and "m \<in> set (ps_all P)" and "wk_loop m \<noteq> l"
  shows "set (at_todo (at (wk_loop m))) \<subseteq> set rs" "set (at_held (at (wk_loop m))) \<subseteq> set rs"
  using assms by (auto simp: rest_of_def at_functors_eq)

text \<open>What refers to a connection, in terms of its stage: the map, the one functor that waits
  for it, and functors that were run.\<close>

lemma gone_held:
  assumes R: "pool_ok P n cur st cs at w" and a: "nx_conns w a = Some tc" "st a = Gone"
    and m0: "m0 \<in> set (ps_all P)" "rest_of P (wk_loop m0) fs at rs" and ref: "referenced [ps_server P] (map wk_loop (ps_all P)) rs a w"
  shows "\<exists>m \<in> set (ps_all P). Some a \<in> holds ` set (at_held ((at(wk_loop m0 := At_drop fs)) (wk_loop m)))"
proof -
  note D = pool_okD [OF R]
  have no: "Some a \<notin> holds ` set (waiting at w (wk_loop m))" if m: "m \<in> set (ps_all P)" for m
  proof
    assume "Some a \<in> holds ` set (waiting at w (wk_loop m))"
    then obtain g where g: "g \<in> set (waiting at w (wk_loop m))" "holds g = Some a" by force
    with queues_inv_iff [OF D(6) m] obtain b where b: "job P st w b = Some (wk_loop m, g)" by blast
    with job_holds [OF b] g(2) a show False by (auto simp: job_def)
  qed
  obtain ts where ts: "nx_servers w (ps_server P) = Some ts" "ts_connections ts = cs" using store_okD(4) [OF D(2)] by (rule server_atE)
  have "(fd, a) \<notin> set cs" for fd using D(5) a unfolding entries_def by auto
  then have "a \<notin> snd ` set cs" by force
  moreover have "Some a \<notin> holds ` set (el_pending_functors el)" if "m \<in> set (ps_all P)" "rx_loops w (wk_loop m) = Some el" for m el
    using no [OF that(1)] that(2) by (auto simp: waiting_def pending_def)
  ultimately have "Some a \<in> holds ` set rs" using ref ts by (auto simp: referenced_def list_ex_iff split: option.splits)
  then obtain g where g: "g \<in> set rs" "holds g = Some a" by force
  from g(1) m0(2) consider "g \<in> set fs" | m where "m \<in> set (ps_all P)" "wk_loop m \<noteq> wk_loop m0" "g \<in> set (at_functors (at (wk_loop m)))"
    unfolding rest_of_def by auto
  then show ?thesis
  proof cases
    case 1
    with g(2) m0(1) show ?thesis by (intro bexI [of _ m0]) force+
  next
    case (2 m)
    have "g \<notin> set (at_todo (at (wk_loop m)))" using no [OF 2(1)] g(2) by (force simp: waiting_def)
    with 2(3) g(2) have "Some a \<in> holds ` set (at_held (at (wk_loop m)))" by (force simp: at_functors_eq)
    with 2(1,2) show ?thesis by auto
  qed
qed

lemma unreferenced_gone:
  assumes R: "pool_ok P n cur st cs at w" and a: "nx_conns w a = Some tc" and at: "at l = At_drop (f # fs)" and rs: "rest_of P l fs at rs"
    and ref: "\<not> referenced [ps_server P] (map wk_loop (ps_all P)) rs a w"
  shows "st a = Gone"
proof (rule ccontr)
  note D = pool_okD [OF R]
  assume ng: "st a \<noteq> Gone"
  obtain ts where ts: "nx_servers w (ps_server P) = Some ts" "ts_connections ts = cs" using store_okD(4) [OF D(2)] by (rule server_atE)
  show False
  proof (cases "st a \<in> {Fresh, Up, Closing}")
    case True
    from entries_mem(1) [where st = st, OF D(5) a True] have "a \<in> snd ` set cs" by force
    with ref ts show False by (simp add: referenced_def)
  next
    case False
    with ng have st: "st a = Removed" by (cases "st a") simp_all
    from conns_atE [OF D(4) a] obtain m where m: "m \<in> set (ps_crew P)" "tc_loop tc = wk_loop m" .
    note m' = crew_all(1) [OF m(1)]
    have "job P st w a = Some (wk_loop m, Connect_destoryed a)" using a st m(2) by (simp add: job_def)
    with queues_inv_iff [OF D(6) m'] have "Connect_destoryed a \<in> set (waiting at w (wk_loop m))" by blast
    moreover from loops_okE [OF D(3) m'] obtain el where el: "rx_loops w (wk_loop m) = Some el" .
    ultimately consider "Connect_destoryed a \<in> set (el_pending_functors el)" | "Connect_destoryed a \<in> set (at_todo (at (wk_loop m)))"
      by (auto simp: waiting_def pending_def)
    then show False
    proof cases
      case 1
      then have "Some a \<in> holds ` set (el_pending_functors el)" by force
      with ref el m' show False by (force simp: referenced_def list_ex_iff)
    next
      case 2
      then have "wk_loop m \<noteq> l" using at by auto
      from rest_other(1) [OF rs m' this] 2 have "Some a \<in> holds ` set rs" by force
      with ref show False by (simp add: referenced_def)
    qed
  qed
qed

lemma pool_ok_destroy:
  fixes w w' :: "(echo_cb, 'z) server_net_scheme"
  assumes R: "pool_ok P n None st cs at w" and m: "m \<in> set (ps_all P)" and a: "nx_conns w a = Some tc" "st a = Gone"
    and at: "at (wk_loop m) = At_drop (f # fs)" "holds f = Some a" and rs: "rest_of P (wk_loop m) fs at rs" "Some a \<notin> holds ` set rs"
    and w': "rx_inv w'" "nx_conns w' = (nx_conns w)(a := None)" "rx_channels w' = (rx_channels w)(tc_channel tc := None)"
      "rx_loops w' = rx_loops w" "nx_trace w' = nx_trace w @ [Sys_close (tc_fd tc)]" "nx_servers w' = nx_servers w" "nx_acceptors w' = nx_acceptors w"
  shows "pool_ok P n None st cs (at(wk_loop m := At_drop fs)) w'"
proof -
  note D = pool_okD [OF R]
  note S = store_okD [OF D(2)]
  let ?at = "at(wk_loop m := At_drop fs)"
  have lay: "layout (ps_fixed P) (ps_lfd P) w'" by (rule layout_remove [OF S(2) a(1) w'(2,3)]) (simp add: w'(5))
  have out: "tc_channel tc \<notin> dom (ps_fixed P)" using layoutD(7) [OF S(2) a(1)] by simp
  have fx: "rx_channels w' d = rx_channels w d" if "d \<in> dom (ps_fixed P)" for d using that out w'(3) by auto
  have "server_at P cs w'" by (rule server_at_cong [OF S(4) w'(6,7)]) (use fx same_marks_rel in \<open>simp add: ps_fixed_dom\<close>)
  then have store: "store_ok P None cs w'"
    by (intro store_ok_step [OF D(2) w'(1) lay]) (use S(3) fx same_marks_rel in \<open>auto simp: marks_def w'(3) fixed_kept_def\<close>)
  have loops: "loops_ok P ?at w'"
    unfolding loops_ok_def w'(4)
  proof
    fix m' assume m': "m' \<in> set (ps_all P)"
    from loops_okE [OF D(3) m'] obtain el where el: "rx_loops w (wk_loop m') = Some el" "loop_at m' (at (wk_loop m')) el" .
    with at(1) show "\<exists>el. rx_loops w (wk_loop m') = Some el \<and> loop_at m' (?at (wk_loop m')) el"
      by (cases "wk_loop m' = wk_loop m") (auto simp: loop_at_def)
  qed
  have sep: "tc_channel tcb \<noteq> tc_channel tc" if "b \<noteq> a" "nx_conns w b = Some tcb" for b tcb
    using layout_distinct(2) [OF S(2) a(1) that(2)] that(1) by blast
  have conns: "conns_at P n st w'"
    by (rule conns_at_change [OF D(4) w'(1) loops le_refl _ w'(5), where A = "{a}"])
      (use sep same_marks_rel in \<open>auto simp: w'(2,3) quiet_def\<close>)
  have "job P st w' b = job P st w b" for b using a by (cases "b = a") (auto simp: job_def w'(2))
  then have "job P st w' = job P st w" by blast
  moreover have "waiting ?at w' (wk_loop m') = waiting at w (wk_loop m')" for m'
    using at(1) by (cases "wk_loop m' = wk_loop m") (simp_all add: waiting_def pending_def w'(4))
  ultimately have queues: "queues_inv P st ?at w'" by (intro queues_inv_same [OF D(6)])
  have others: "g \<in> set rs" if "m' \<in> set (ps_all P)" "g \<in> set (at_held (?at (wk_loop m')))" for m' g
    using that rest_other(2) [OF rs(1) that(1)] rs(1) by (cases "wk_loop m' = wk_loop m") (auto simp: rest_of_def)
  have "held P st ?at w'"
    unfolding held_def
  proof (intro conjI ballI impI)
    fix m' g assume g: "m' \<in> set (ps_all P)" "g \<in> set (at_held (?at (wk_loop m')))"
    have "g \<in> set (at_held (at (wk_loop m')))" using g(2) at(1) by (cases "wk_loop m' = wk_loop m") auto
    with D(7) g(1) obtain b where b: "b \<in> dom (nx_conns w)" "holds g = Some b" unfolding held_def by blast
    moreover have "b \<noteq> a" using others [OF g] b(2) rs(2) by force
    ultimately show "\<exists>b \<in> dom (nx_conns w'). holds g = Some b" by (auto simp: w'(2))
  next
    fix b assume b: "b \<in> dom (nx_conns w')" "st b = Gone"
    then have "b \<noteq> a" "b \<in> dom (nx_conns w)" by (auto simp: w'(2) split: if_splits)
    with D(7) b(2) obtain m' where m': "m' \<in> set (ps_all P)" "Some b \<in> holds ` set (at_held (at (wk_loop m')))" unfolding held_def by blast
    then have "Some b \<in> holds ` set (at_held (?at (wk_loop m')))" using at \<open>b \<noteq> a\<close> by (cases "wk_loop m' = wk_loop m") auto
    with m'(1) show "\<exists>m' \<in> set (ps_all P). Some b \<in> holds ` set (at_held (?at (wk_loop m')))" by blast
  qed
  moreover have "entries st cs w'" using D(5) a unfolding entries_def by (auto simp: w'(2) split: if_splits)
  moreover have "todos P st ?at w'"
    by (rule todos_cong [OF D(8)]) (use D(8) a sep in \<open>auto simp: todos_def w'(2,3) split: if_splits\<close>)
  ultimately show ?thesis using D(1) store loops conns queues by (simp add: pool_ok_def)
qed

lemma pool_ok_unheld:
  assumes R: "pool_ok P n cur st cs at w" and m: "m \<in> set (ps_all P)" and at: "at (wk_loop m) = At_drop (f # fs)" "holds f = Some a"
    and ref: "st a = Gone \<Longrightarrow> \<exists>m' \<in> set (ps_all P). Some a \<in> holds ` set (at_held ((at(wk_loop m := At_drop fs)) (wk_loop m')))"
  shows "pool_ok P n cur st cs (at(wk_loop m := At_drop fs)) w"
proof -
  note D = pool_okD [OF R]
  let ?at = "at(wk_loop m := At_drop fs)"
  have sub: "set (at_held (?at (wk_loop m'))) \<subseteq> set (at_held (at (wk_loop m')))" for m'
    using at(1) by (cases "wk_loop m' = wk_loop m") auto
  have "held P st ?at w"
    unfolding held_def
  proof (intro conjI ballI impI)
    fix m' g assume "m' \<in> set (ps_all P)" "g \<in> set (at_held (?at (wk_loop m')))"
    with sub D(7) show "\<exists>b \<in> dom (nx_conns w). holds g = Some b" unfolding held_def by blast
  next
    fix b assume b: "b \<in> dom (nx_conns w)" "st b = Gone"
    show "\<exists>m' \<in> set (ps_all P). Some b \<in> holds ` set (at_held (?at (wk_loop m')))"
    proof (cases "b = a")
      case False
      from b D(7) obtain m' where m': "m' \<in> set (ps_all P)" "Some b \<in> holds ` set (at_held (at (wk_loop m')))" unfolding held_def by blast
      then have "Some b \<in> holds ` set (at_held (?at (wk_loop m')))" using at False by (cases "wk_loop m' = wk_loop m") auto
      with m'(1) show ?thesis by blast
    qed (use ref b(2) in blast)
  qed
  moreover have "loops_ok P ?at w" using D(3) at(1) unfolding loops_ok_def by (auto simp: loop_at_def)
  moreover have "queues_inv P st ?at w"
    by (rule queues_inv_same [OF D(6)]) (use at(1) in \<open>auto simp: waiting_def\<close>)
  moreover have "todos P st ?at w" using D(8) unfolding todos_def by auto
  ultimately show ?thesis using D by (simp add: pool_ok_def)
qed

lemma pool_dropped:
  fixes w :: "(echo_cb, 'z) server_net_scheme"
  assumes R: "pool_ok P n None st cs at w" and m: "m \<in> set (ps_all P)" and at: "at (wk_loop m) = At_drop (f # fs)"
    and rs: "rest_of P (wk_loop m) fs at rs"
  shows "\<exists>w'. destroy_net_functor [ps_server P] (map wk_loop (ps_all P)) (wk_tid m) rs f w = Inr w' \<and>
    pool_ok P n None st cs (at(wk_loop m := At_drop fs)) w' \<and> rx_loops w' = rx_loops w"
proof -
  note D = pool_okD [OF R]
  note S = store_okD [OF D(2)]
  have "f \<in> set (at_held (at (wk_loop m)))" using at by simp
  with D(7) m obtain a tc where a: "holds f = Some a" "nx_conns w a = Some tc" unfolding held_def by blast
  let ?ref = "referenced [ps_server P] (map wk_loop (ps_all P)) rs a w"
  show ?thesis
  proof (cases ?ref)
    case True
    have "pool_ok P n None st cs (at(wk_loop m := At_drop fs)) w"
      by (rule pool_ok_unheld [OF R m at a(1)]) (rule gone_held [OF R a(2) _ m rs True])
    with True a(1) show ?thesis by (simp add: destroy_net_functor_def release_def)
  next
    case False
    have gone: "st a = Gone" by (rule unreferenced_gone [OF R a(2) at rs False])
    from conns_atE [OF D(4) a(2)] obtain m' where m': "m' \<in> set (ps_crew P)" "stage_ok P n m' (st a) a w" "tc_loop tc = wk_loop m'" .
    from m' gone a(2) obtain ch where g: "tc_state tc = kDisconnected" "tc_socket tc = tc_fd tc" "rx_channels w (tc_channel tc) = Some ch"
      "ch_loop ch = tc_loop tc" "ch_fd ch = tc_fd tc" "ch_index ch = kNew" "\<not> ch_added_to_loop ch" by (auto simp: gone_conn_def)
    from loops_okE [OF D(3) crew_all(1) [OF m'(1)]] obtain el where el: "rx_loops w (wk_loop m') = Some el" .
    have free: "ep_channels (el_poller el) (tc_fd tc) = None"
      by (rule unregistered_free [OF S(2,1) el a(2) g(3) _ g(5,6)]) (simp add: g(4) m'(3))
    have "\<not> ch_event_handling ch" using S(3) g(3) by (simp add: marks_def)
    from TcpConnection_destroy_ok [OF S(1) a(2) g(1,3,6) this g(7,4,5) _ free, of "wk_tid m"] el m'(3) g(2) obtain w' where
      w': "TcpConnection_destroy (wk_tid m) a w = Inr w'" "rx_inv w'" "nx_conns w' = (nx_conns w)(a := None)"
      "rx_channels w' = (rx_channels w)(tc_channel tc := None)" "rx_loops w' = rx_loops w" "nx_trace w' = nx_trace w @ [Sys_close (tc_fd tc)]" by auto
    have no: "Some a \<notin> holds ` set rs" using False by (simp add: referenced_def)
    have "pool_ok P n None st cs (at(wk_loop m := At_drop fs)) w'"
      by (rule pool_ok_destroy [OF R m a(2) gone at a(1) rs no w'(2-6) destroy_servers [OF w'(1)]])
    with w'(1,5) False a(1) show ?thesis by (auto simp: destroy_net_functor_def release_def)
  qed
qed

section \<open>Accepting on the main loop\<close>

lemma entries_insert:
  assumes E: "entries st cs w" and new: "nx_conns w a = None" "\<And>b tcb. nx_conns w b = Some tcb \<Longrightarrow> tc_fd tcb \<noteq> tc_fd tc"
    and w': "nx_conns w' = (nx_conns w)(a \<mapsto> tc)"
  shows "entries (st(a := Fresh)) (insort_key fst (tc_fd tc, a) cs) w'" "map_of cs (tc_fd tc) = None"
proof -
  have fd: "fd \<noteq> tc_fd tc" "b \<noteq> a" if "(fd, b) \<in> set cs" for fd b using that E new unfolding entries_def by auto
  then have "tc_fd tc \<notin> fst ` set cs" by force
  then have "distinct (map fst (insort_key fst (tc_fd tc, a) cs))" "map_of cs (tc_fd tc) = None"
    using E by (simp_all add: entries_def distinct_insort_fst map_of_eq_None_iff)
  moreover have "(fd, b) = (tc_fd tc, a) \<or> (fd, b) \<in> set cs \<longleftrightarrow> (\<exists>tc. nx_conns w' b = Some tc \<and> tc_fd tc = fd) \<and> (st(a := Fresh)) b \<in> {Fresh, Up, Closing}" for fd b
    using E fd(2) [of fd b] unfolding entries_def by (cases "b = a") (auto simp: w')
  ultimately show "entries (st(a := Fresh)) (insort_key fst (tc_fd tc, a) cs) w'" "map_of cs (tc_fd tc) = None"
    using E by (simp_all add: entries_def set_insort_key sorted_insort_key)
qed

lemma pool_ok_new:
  fixes w w' :: "(echo_cb, 'z) server_net_scheme"
  assumes R: "pool_ok P n cur st cs at w" and fd: "tc_fd tc \<notin> open_fds (nx_trace w)" "tc_fd tc \<notin> ran (ps_fixed P)"
    and new: "nx_conns w a = None" "rx_channels w (tc_channel tc) = None" "cur \<noteq> Some (tc_channel tc)"
    and m: "m \<in> set (ps_crew P)" "tc_loop tc = wk_loop m" and ch: "ch_fd ch = tc_fd tc" "\<not> ch_event_handling ch"
    and W: "rx_inv w'" "nx_conns w' = (nx_conns w)(a \<mapsto> tc)" "rx_channels w' = (rx_channels w)(tc_channel tc \<mapsto> ch)"
      "loops_grow (job_at (Some (wk_loop m, Connect_established a))) w w'" "nx_acceptors w' = nx_acceptors w"
    and fresh: "fresh_state (ps_server P) a tc ch (nx_trace w')" and srv: "server_at P (insort_key fst (tc_fd tc, a) cs) w'"
    and tr: "nx_trace w' = nx_trace w @ [Sys_accept4 lfd (Io_ok (tc_fd tc, peer)), Sys_setsockopt (tc_fd tc) SOL_SOCKET SO_KEEPALIVE 1]"
  shows "pool_ok P n cur (st(a := Fresh)) (insort_key fst (tc_fd tc, a) cs) at w'"
proof -
  note D = pool_okD [OF R] and all = crew_all(1) [OF m(1)]
  note S = store_okD [OF D(2)]
  let ?st = "st(a := Fresh)" and ?cs = "insort_key fst (tc_fd tc, a) cs"
  have "open_fds ((nx_trace w @ [Sys_accept4 lfd (Io_ok (tc_fd tc, peer))]) @ [Sys_setsockopt (tc_fd tc) SOL_SOCKET SO_KEEPALIVE 1]) =
      insert (tc_fd tc) (open_fds (nx_trace w))" by (simp del: append_assoc)
  then have op: "open_fds (nx_trace w') = insert (tc_fd tc) (open_fds (nx_trace w))" by (simp add: tr)
  have lay: "layout (ps_fixed P) (ps_lfd P) w'" by (rule layout_insert [OF S(2) new(1,2) fd W(2,3) op refl refl ch(1)])
  have fx: "rx_channels w' d = rx_channels w d" if "d \<in> dom (ps_fixed P)" for d
    using that layoutD(3) [OF S(2)] new(2) by (fastforce simp: W(3) chan_fd_def)
  then have store: "store_ok P cur ?cs w'"
    by (intro store_ok_step [OF D(2) W(1) lay _ srv]) (use S(3) ch(2) new(3) same_marks_rel in \<open>auto simp: marks_def W(3) fixed_kept_def\<close>)
  have loops: "loops_ok P at w'" by (rule loops_grow_ok [OF D(3) W(4)])
  have other: "tc_fd tcb \<noteq> tc_fd tc" "tc_channel tcb \<noteq> tc_channel tc" "b \<noteq> a" if "nx_conns w b = Some tcb" for b tcb
    using layout_open [OF S(2) that] layoutD(7) [OF S(2) that] fd(1) new that by (auto simp: chan_fd_def)
  have conns: "conns_at P n ?st w'"
  proof (rule conns_at_change [OF D(4) W(1) loops le_refl _ tr, where A = "{a}"])
    from loops_okE [OF loops all] obtain el where "rx_loops w' (wk_loop m) = Some el" "el_tid el = wk_tid m" .
    with fresh m W show "\<exists>m \<in> set (ps_crew P). stage_ok P n m (?st b) b w'" if "b \<in> {a}" for b
      using that by (auto simp: fresh_conn_def intro!: bexI [of _ m])
  qed (use other same_marks_rel in \<open>auto simp: W(2,3) quiet_def\<close>)
  have job: "job P ?st w' a = Some (wk_loop m, Connect_established a)" "job P st w a = None" using m(2) new(1) by (simp_all add: job_def W(2))
  have queues: "queues_inv P ?st at w'"
  proof (rule queues_inv_change [OF D(6) job_update])
    show "\<exists>fs. waiting at w (wk_loop m') = job_at (job P st w a) (wk_loop m') @ fs \<and>
        waiting at w' (wk_loop m') = fs @ job_at (job P ?st w' a) (wk_loop m')" if "m' \<in> set (ps_all P)" for m'
      using loops_grow_pending [OF D(3) W(4) that] unfolding job by (simp add: waiting_def)
  qed (use job all in \<open>auto simp: W(2)\<close>)
  have "held P ?st at w'" using D(7) new(1) unfolding held_def W(2) by auto
  moreover have "entries ?st ?cs w'" by (rule entries_insert(1) [OF D(5) new(1) other(1) W(2)])
  moreover have "todos P ?st at w'"
    by (rule todos_cong [OF D(8)]) (use D(8) other in \<open>auto simp: todos_def W(2,3)\<close>)
  ultimately show ?thesis using D(1) store loops conns queues by (simp add: pool_ok_def)
qed

lemma pool_new_connection:
  fixes w :: "(echo_cb, 'z) server_net_scheme"
  assumes R: "pool_ok P n cur st cs at w" and fd: "fd \<notin> open_fds (nx_trace w)" "fd \<notin> ran (ps_fixed P)" "0 \<le> fd"
    and new: "nx_conns w a = None" "rx_channels w cc = None" "cur \<noteq> Some cc"
    and w0: "w0 = w\<lparr>nx_trace := nx_trace w @ [Sys_accept4 lfd (Io_ok (fd, peer))]\<rparr>"
  shows "\<exists>w'. TcpServer_new_connection u (wk_tid (ps_base P)) (ps_server P) a cc fd peer w0 = Inr w' \<and>
    pool_ok P n cur (st(a := Fresh)) (insort_key fst (fd, a) cs) at w' \<and> (\<forall>d. d \<noteq> cc \<longrightarrow> rx_channels w' d = rx_channels w d)"
proof -
  note D = pool_okD [OF R]
  note S = store_okD [OF D(2)]
  let ?lb = "wk_loop (ps_base P)" and ?t = "wk_tid (ps_base P)" and ?s = "ps_server P"
  obtain ts where ts: "nx_servers w ?s = Some ts" "ts_loop ts = ?lb" "tp_base_loop (ts_threadpool ts) = ?lb" "ts_connections ts = cs"
    "pool_inv (ts_threadpool ts)" "pool_loops (ts_threadpool ts) = map wk_loop (ps_crew P)" "ts_connection_callback ts = Some Handle_connect"
    "ts_message_callback ts = Some Handle_message" "ts_write_complete_callback ts = None" using S(4) by (rule server_atE)
  let ?i = "pool_at (ts_threadpool ts)"
  have i: "?i < length (ps_crew P)" using thread_pool.at_bound [OF ts(5)] ts(6) by simp
  define m where "m = ps_crew P ! ?i"
  have m: "m \<in> set (ps_crew P)" "pool_loops (ts_threadpool ts) ! ?i = wk_loop m" using i ts(6) by (simp_all add: m_def)
  from loops_okE [OF D(3) crew_all(2)] obtain elb where elb: "rx_loops w ?lb = Some elb" "el_tid elb = ?t" .
  from loops_okE [OF D(3) crew_all(1) [OF m(1)]] obtain el where el: "rx_loops w (wk_loop m) = Some el" "el_tid el = wk_tid m" .
  have free: "ep_channels (el_poller el) fd = None" by (rule layout_free [OF S(2,1) el(1) fd(1,2)])
  have "fd \<notin> fst ` set cs" using D(5) layout_open [OF S(2)] fd(1) unfolding entries_def by fastforce
  then have pre: "rx_inv w0" "nx_servers w0 ?s = Some ts" "conns_ok (ts_connections ts) w0" "tp_base_loop (ts_threadpool ts) = ts_loop ts"
    "rx_loops w0 (ts_loop ts) = Some elb" "rx_loops w0 (pool_loops (ts_threadpool ts) ! ?i) = Some el"
    "map_of (ts_connections ts) fd = None" "fd \<noteq> - 1" "nx_conns w0 a = None" "rx_channels w0 cc = None"
    using S(1) D(5) ts elb(1) el(1) m(2) fd(3) new by (auto simp: w0 conns_ok_def entries_def map_of_eq_None_iff)
  have ne: "el_tid el \<noteq> ?t" using el(2) crew_not_base [OF D(1) m(1)] by simp
  from new_connection_ok [OF pre(1,2,3) ts(5) pre(4,5) elb(2) pre(6) free pre(7-10), of peer u] ne m(2) ts(4) obtain w2 ts2 tc ch where
    w2: "nx_servers w2 ?s = Some ts2" "ts_connections ts2 = insort_key fst (fd, a) cs" "pool_inv (ts_threadpool ts2)"
    "pool_loops (ts_threadpool ts2) = pool_loops (ts_threadpool ts)" "same_setup ts2 ts" "conn_fresh a tc ch el w2" "installed ?s ts tc"
    "tc_fd tc = fd" "tc_socket tc = fd" "tc_channel tc = cc" "tc_loop tc = wk_loop m"
    "nx_trace w2 = nx_trace w0 @ [Sys_setsockopt fd SOL_SOCKET SO_KEEPALIVE 1]"
    "Buffer_new kInitialSize = Inr (tc_input_buffer tc)" "tc_output_buffer tc = tc_input_buffer tc"
    "rx_channels w2 = (rx_channels w0)(cc \<mapsto> ch)" "rx_loops w2 = rx_loops w0" "nx_conns w2 = (nx_conns w0)(a \<mapsto> tc)"
    "nx_acceptors w2 = nx_acceptors w0" "ch_read_callback ch = Some (Conn_read a)" "ch_write_callback ch = Some (Conn_write a)"
    "ch_close_callback ch = Some (Conn_close a)" "ch_error_callback ch = Some (Conn_error a)" "\<not> ch_event_handling ch"
    and run: "TcpServer_new_connection u ?t ?s a cc fd peer w0 =
      Inr (put_loop (wk_loop m) (EventLoop_queue_in_loop ?t (Connect_established a) el) w2)"
    by (elim exE conjE) (rule that; simp)
  let ?w' = "put_loop (wk_loop m) (EventLoop_queue_in_loop ?t (Connect_established a) el) w2"
  note F = w2(6) [unfolded conn_fresh_def]
  have tr: "nx_trace ?w' = nx_trace w @ [Sys_accept4 lfd (Io_ok (tc_fd tc, peer)), Sys_setsockopt (tc_fd tc) SOL_SOCKET SO_KEEPALIVE 1]"
    by (simp add: w2(8,12) w0)
  have "echoed fd ((nx_trace w @ [Sys_accept4 lfd (Io_ok (fd, peer))]) @ [Sys_setsockopt fd SOL_SOCKET SO_KEEPALIVE 1]) []"
    by (intro echoed_quiet echoed_accept) (simp_all add: quiet_def)
  then have fresh: "fresh_state ?s a tc ch (nx_trace ?w')"
    using F w2(7-14,19-22) ts(7-9) by (simp add: fresh_state_def echo_cbs_def installed_def w0)
  have el2: "rx_loops w2 (wk_loop m) = Some el" using el(1) by (simp add: w2(16) w0)
  have inv: "rx_inv ?w'" by (rule rx_inv_put_loop [OF _ el2]) (use F in simp_all)
  have grow: "loops_grow (job_at (Some (wk_loop m, Connect_established a))) w ?w'"
    using loops_grow_queue [OF el2, of "Connect_established a" ?t] by (simp add: loops_grow_def w2(16) w0)
  have "rx_channels ?w' (ps_listen P) = rx_channels w (ps_listen P)"
    using layoutD(3) [OF S(2), of "ps_listen P"] new(2) by (auto simp: w2(15) w0 ps_fixed_def chan_fd_def)
  then have srv: "server_at P (insort_key fst (tc_fd tc, a) cs) ?w'"
    using server_at_grow [OF S(4) ts(1), of ?w' ts2] w2(1-5,8,18) by (simp add: w0)
  have "pool_ok P n cur (st(a := Fresh)) (insort_key fst (tc_fd tc, a) cs) at ?w'"
    by (rule pool_ok_new [OF R _ _ new(1) _ _ m(1) w2(11) _ w2(23) inv _ _ grow _ fresh srv tr])
      (use fd new w2(8,10,15,17,18) F in \<open>simp_all add: w0\<close>)
  with run show ?thesis by (intro exI [of _ ?w']) (simp add: w2(8,15) w0)
qed

text \<open>A call that concerns no connection: a failed accept.\<close>

lemma pool_ok_call:
  assumes R: "pool_ok P n cur st cs at w" and c: "\<And>S. fd_change c S = S" "\<And>fd. quiet fd [c]"
  shows "pool_ok P n cur st cs at (w\<lparr>nx_trace := nx_trace w @ [c]\<rparr>)" (is "pool_ok _ _ _ _ _ _ ?w")
proof -
  note D = pool_okD [OF R]
  note S = store_okD [OF D(2)]
  have inv: "rx_inv ?w" and loops: "loops_ok P at ?w" using S(1) D(3) by (simp_all add: loops_ok_def)
  have "layout (ps_fixed P) (ps_lfd P) ?w" by (rule layout_cong [OF S(2)]) (simp_all add: conn_fd_def conn_chan_def chan_fd_def fun_eq_iff c(1))
  moreover have "server_at P cs ?w" by (rule server_at_cong [OF S(4)]) (simp_all add: same_marks_rel)
  ultimately have "store_ok P cur cs ?w"
    using S(3) by (intro store_ok_step [OF D(2) inv]) (simp_all add: marks_def fixed_kept_def same_marks_rel)
  moreover have "conns_at P n st ?w"
    by (rule conns_at_change [OF D(4) inv loops le_refl, where A = "{}" and tr = "[c]"]) (simp_all add: same_marks_rel c(2))
  moreover have "queues_inv P st at ?w"
    by (rule queues_inv_same [OF D(6)]) (simp_all add: job_def waiting_def pending_def fun_eq_iff)
  moreover have "held P st at ?w" by (rule held_cong [OF D(7)]) simp_all
  moreover have "entries st cs ?w" by (rule entries_cong [OF D(5)]) simp_all
  moreover have "todos P st at ?w" by (rule todos_cong [OF D(8)]) (use D(8) in \<open>auto simp: todos_def\<close>)
  ultimately show ?thesis using D(1) loops by (simp add: pool_ok_def)
qed

lemma pool_accept:
  fixes w :: "(echo_cb, 'z) server_net_scheme"
  assumes k: "kernel_ok k" "\<And>m. m \<in> set (ps_all P) \<Longrightarrow> accepts_ok k (ps_lfd P) (wk_wfd m)" and al: "fresh_ok fresh"
    and R: "pool_ok P n cur st cs at w" and cur: "\<And>d. cur = Some d \<Longrightarrow> rx_channels w d \<noteq> None"
  shows "\<exists>w' st' cs'. run_chan_cb k fresh (EchoServer_callbacks k (wk_tid (ps_base P)) p) (wk_tid (ps_base P)) (Accept_read (ps_acceptor P)) w = Inr w' \<and>
    pool_ok P n cur st' cs' at w' \<and> (\<forall>d. rx_channels w d \<noteq> None \<longrightarrow> rx_channels w' d = rx_channels w d)"
proof -
  note D = pool_okD [OF R]
  note S = store_okD [OF D(2)]
  let ?t = "wk_tid (ps_base P)" and ?lfd = "ps_lfd P"
  let ?r = "k_accept4 k (nx_trace w) ?lfd" and ?u = "run_user (EchoServer_callbacks k ?t p) ?t"
  let ?w0 = "w\<lparr>nx_trace := nx_trace w @ [Sys_accept4 ?lfd ?r]\<rparr>"
  from loops_okE [OF D(3) crew_all(2)] obtain el where el: "rx_loops w (wk_loop (ps_base P)) = Some el" "el_tid el = ?t" .
  obtain ts where "nx_servers w (ps_server P) = Some ts" and ac: "nx_acceptors w (ps_acceptor P) = Some \<lparr>ac_loop = wk_loop (ps_base P), ac_listening = True, ac_socket = ?lfd,
      ac_channel = ps_listen P, ac_new_connection_callback = Some (ps_server P)\<rparr>" using S(4) by (rule server_atE)
  note defs = run_chan_cb_def Acceptor_handle_read_def assert_in_loop_def EventLoop_is_in_loop_thread_def Socket_accept_def Let_def
  note acc = k(2) [unfolded accepts_ok_def, rule_format, of _ "nx_trace w"]
  show ?thesis
  proof (cases ?r)
    case (Io_error e)
    then have "accept_logged e" using acc [OF crew_all(2)] by simp
    with Io_error have "run_chan_cb k fresh (EchoServer_callbacks k ?t p) ?t (Accept_read (ps_acceptor P)) w = Inr ?w0"
      using ac el by (simp add: defs)
    moreover have "pool_ok P n cur st cs at ?w0" by (rule pool_ok_call [OF R]) (simp_all add: Io_error quiet_def)
    ultimately show ?thesis by (intro exI [of _ ?w0] exI [of _ st] exI [of _ cs]) simp
  next
    case (Io_ok x)
    obtain fd peer where x: "x = (fd, peer)" by (cases x)
    have open_fd: "fd \<notin> open_fds (nx_trace w)" "0 \<le> fd" using acc [OF crew_all(2)] Io_ok x kernel_okD(3) [OF k(1)] by auto
    have "fd \<notin> wk_wfd ` set (ps_all P)" using acc Io_ok x by auto
    moreover have "fd \<noteq> ?lfd" using open_fd(1) layoutD(9) [OF S(2)] by auto
    ultimately have fx: "fd \<notin> ran (ps_fixed P)" by (auto dest: ps_fixed_ran)
    let ?a = "fst (fresh ?w0)" and ?cc = "snd (fresh ?w0)"
    have "nx_conns ?w0 ?a = None \<and> rx_channels ?w0 ?cc = None"
      using al [unfolded fresh_ok_def, rule_format, of ?w0] layout_finite [OF S(2)] by simp
    then have new: "nx_conns w ?a = None" "rx_channels w ?cc = None" by simp_all
    with cur have "cur \<noteq> Some ?cc" by blast
    from pool_new_connection [OF R open_fd(1) fx open_fd(2) new this, of ?w0 ?lfd peer ?u] Io_ok x obtain w' where
      w': "TcpServer_new_connection ?u ?t (ps_server P) ?a ?cc fd peer ?w0 = Inr w'"
      "pool_ok P n cur (st(?a := Fresh)) (insort_key fst (fd, ?a) cs) at w'" "\<forall>d. d \<noteq> ?cc \<longrightarrow> rx_channels w' d = rx_channels w d" by auto
    have "run_chan_cb k fresh (EchoServer_callbacks k ?t p) ?t (Accept_read (ps_acceptor P)) w = Inr w'"
      using ac el w'(1) Io_ok x open_fd(2) by (simp add: defs)
    moreover have "d \<noteq> ?cc" if "rx_channels w d \<noteq> None" for d using that new(2) by metis
    ultimately show ?thesis using w'(2,3) by blast
  qed
qed

section \<open>The fixed channels\<close>

lemma pool_wake:
  fixes w :: "(echo_cb, 'z) server_net_scheme"
  assumes R: "pool_ok P n cur st cs at w" and m: "m \<in> set (ps_all P)"
  shows "\<exists>w'. run_chan_cb k fresh v t (Loop_read (wk_loop m)) w = Inr w' \<and> pool_ok P n cur st cs at w' \<and> rx_channels w' = rx_channels w"
proof -
  note D = pool_okD [OF R]
  from loops_okE [OF D(3) m] obtain el where el: "rx_loops w (wk_loop m) = Some el" "loop_at m (at (wk_loop m)) el" .
  let ?w = "put_loop (wk_loop m) (EventLoop_handle_read el) w"
  have "todos P st at ?w" by (rule todos_cong [OF D(8)]) (use D(8) in \<open>auto simp: todos_def\<close>)
  then have "pool_ok P n cur st cs (at(wk_loop m := at (wk_loop m))) ?w"
    using el(2) store_okD(3) [OF D(2)]
    by (intro pool_ok_mark [OF R m el(1), of _ "EventLoop_handle_read el"]) (simp_all add: same_marks_rel EventLoop_handle_read_def loop_at_def marks_def)
  then show ?thesis using el(1) by (intro exI [of _ ?w]) (simp add: run_chan_cb_def upd_loop_def)
qed

lemma pool_plain:
  fixes w :: "(echo_cb, 'z) server_net_scheme"
  assumes R: "pool_ok P n None st cs at w" and d: "rx_channels w d = Some ch" "plain_chan cb ch"
    and step: "\<And>v. pool_ok P n (Some d) st cs at v \<Longrightarrow> rx_channels v d \<noteq> None \<Longrightarrow>
      \<exists>v' st' cs'. run cb v = Inr v' \<and> pool_ok P n (Some d) st' cs' at v' \<and> (\<forall>x. rx_channels v x \<noteq> None \<longrightarrow> rx_channels v' x = rx_channels v x)"
  shows "\<exists>w' st' cs'. Channel_handle_event conn_alive run (get_channel d) (upd_channel d) w = Inr w' \<and> pool_ok P n None st' cs' at w'"
proof -
  let ?ch1 = "ch\<lparr>ch_event_handling := True\<rparr>" and ?in = "truth (ch_revents ch AND (EPOLLIN OR EPOLLPRI OR EPOLLRDHUP))"
  let ?w1 = "put_channel d ?ch1 w"
  have "marks (Some d) ?w1" using store_okD(3) [OF pool_okD(2) [OF R]] by (auto simp: marks_def)
  from pool_ok_channel [OF R d(1) _ _ this] have R1: "pool_ok P n (Some d) st cs at ?w1" by simp
  obtain w2 st' cs' where w2: "(if ?in then run cb ?w1 else Inr ?w1) = Inr w2" "pool_ok P n (Some d) st' cs' at w2"
    "\<forall>x. rx_channels ?w1 x \<noteq> None \<longrightarrow> rx_channels w2 x = rx_channels ?w1 x"
  proof (cases ?in)
    case True
    with step [OF R1] that show ?thesis by auto
  next
    case False
    with R1 that show ?thesis by auto
  qed
  have d2: "rx_channels w2 d = Some ?ch1" using w2(3) by simp
  let ?w' = "put_channel d (ch\<lparr>ch_event_handling := False\<rparr>) w2"
  have "same_marks (ch\<lparr>ch_event_handling := False\<rparr>) ?ch1" unfolding same_marks_def by (intro exI [of _ "ch_revents ch"] exI [of _ False]) simp
  moreover have "marks None ?w'" using store_okD(3) [OF pool_okD(2) [OF w2(2)]] by (auto simp: marks_def)
  ultimately have "pool_ok P n None st' cs' at ?w'" by (intro pool_ok_channel [OF w2(2) d2]) simp_all
  with plain_handle [where run = run, OF d w2(1) d2] show ?thesis by blast
qed

end
