(* ===== verification/Pool_Start.thy ===== *)
theory Pool_Start
  imports Pool_Inv
begin

unbundle bit_operations_syntax

text \<open>
  The start of the echo server on a pool of threads: \<open>main\<close> constructs its loop and the server,
  the threads construct theirs, and the server listens.  The invariant of the pool holds with no
  connection.
\<close>

section \<open>The loops of the threads\<close>

definition worker_free :: "worker \<Rightarrow> ('u, 'z) net_scheme \<Rightarrow> bool" where
  "worker_free m w \<longleftrightarrow> rx_loops w (wk_loop m) = None \<and> rx_channels w (wk_wake m) = None \<and> rx_loop_in_thread w (wk_tid m) = None \<and>
     (\<forall>d ch. rx_channels w d = Some ch \<longrightarrow> ch_loop ch \<noteq> wk_loop m)"

definition worker_up :: "worker \<Rightarrow> (echo_cb, 'z) server_net_scheme \<Rightarrow> bool" where
  "worker_up m w \<longleftrightarrow> (\<exists>el ch. rx_loops w (wk_loop m) = Some el \<and> loop_at m At_loop el \<and> el_pending_functors el = [] \<and>
     rx_channels w (wk_wake m) = Some ch \<and> ch_loop ch = wk_loop m \<and> ch_fd ch = wk_wfd m \<and>
     ch_read_callback ch = Some (Loop_read (wk_loop m)) \<and> ch_index ch = kAdded)"

text \<open>What the construction of the loops \<open>ms\<close> leaves alone.\<close>

definition spared :: "worker set \<Rightarrow> (echo_cb, 'z) server_net_scheme \<Rightarrow> (echo_cb, 'z) server_net_scheme \<Rightarrow> bool" where
  "spared ms w w' \<longleftrightarrow> (\<forall>l. l \<notin> wk_loop ` ms \<longrightarrow> rx_loops w' l = rx_loops w l) \<and>
     (\<forall>d. d \<notin> wk_wake ` ms \<longrightarrow> rx_channels w' d = rx_channels w d) \<and>
     (\<forall>t. t \<notin> wk_tid ` ms \<longrightarrow> rx_loop_in_thread w' t = rx_loop_in_thread w t) \<and>
     nx_servers w' = nx_servers w \<and> nx_acceptors w' = nx_acceptors w \<and> nx_conns w' = nx_conns w \<and> nx_trace w' = nx_trace w"

lemma EventLoop_new_server:
  fixes w :: "('v, 'z) server_net_scheme"
  assumes "EventLoop_new t l c fd epfd cb w = Inr w'"
  shows "nx_servers w' = nx_servers w" "nx_acceptors w' = nx_acceptors w" "nx_conns w' = nx_conns w" "nx_trace w' = nx_trace w"
  using assms by (auto simp: EventLoop_new_def Channel_enable_reading_def set_events_def upd_channel_def Channel_update_def
      EventLoop_update_channel_def bindE_Inr_iff)

lemma worker_loop_ok:
  fixes w :: "(echo_cb, 'z) server_net_scheme"
  assumes "rx_inv w" and "worker_free m w" and "wk_wfd m \<noteq> - 1" and "wk_epfd m \<noteq> - 1"
  shows "\<exists>w'. worker_loop m w = Inr w' \<and> rx_inv w' \<and> worker_up m w' \<and> spared {m} w w'"
proof -
  have F: "rx_loops w (wk_loop m) = None" "rx_channels w (wk_wake m) = None" "\<forall>d ch. rx_channels w d = Some ch \<longrightarrow> ch_loop ch \<noteq> wk_loop m"
    "rx_loop_in_thread w (wk_tid m) = None" using assms(2) by (simp_all add: worker_free_def)
  from EventLoop_new_ok [OF assms(1) F(1-3) assms(3,4) F(4), of "Loop_read (wk_loop m)"] obtain w' el ch where
    w': "worker_loop m w = Inr w'" "rx_inv w'" "rx_loops w' = (rx_loops w)(wk_loop m \<mapsto> el)" "rx_channels w' = (rx_channels w)(wk_wake m \<mapsto> ch)"
    "rx_loop_in_thread w' = (rx_loop_in_thread w)(wk_tid m \<mapsto> wk_loop m)" "el_tid el = wk_tid m" "el_pending_functors el = []"
    "\<not> el_looping el" "\<not> el_quit el" "\<not> el_event_handing el" "ep_events_size (el_poller el) = kInitEventListSize"
    "ch_loop ch = wk_loop m" "ch_fd ch = wk_wfd m" "ch_read_callback ch = Some (Loop_read (wk_loop m))" "ch_index ch = kAdded"
    unfolding worker_loop_def by blast
  then have "worker_up m w'" by (simp add: worker_up_def loop_at_def kInitEventListSize_def)
  moreover have "spared {m} w w'" using w' EventLoop_new_server [OF w'(1) [unfolded worker_loop_def]] by (simp add: spared_def)
  ultimately show ?thesis using w'(1,2) by blast
qed

lemma spared_trans:
  assumes "spared A w w1" and "spared B w1 w2" and "A \<union> B \<subseteq> C"
  shows "spared C w w2"
  using assms unfolding spared_def by (simp add: subset_iff image_iff)

lemma start_workers_ok:
  fixes w :: "(echo_cb, 'z) server_net_scheme"
  assumes "rx_inv w" and "distinct (map wk_loop ms)" and "distinct (map wk_wake ms)" and "distinct (map wk_tid ms)"
    and "\<And>m. m \<in> set ms \<Longrightarrow> worker_free m w \<and> wk_wfd m \<noteq> - 1 \<and> wk_epfd m \<noteq> - 1"
  shows "\<exists>w'. start_workers ms w = Inr w' \<and> rx_inv w' \<and> (\<forall>m \<in> set ms. worker_up m w') \<and> spared (set ms) w w'"
  using assms
proof (induction ms arbitrary: w)
  case Nil
  then show ?case by (simp add: spared_def)
next
  case (Cons m ms)
  have m: "worker_free m w" "wk_wfd m \<noteq> - 1" "wk_epfd m \<noteq> - 1" using Cons.prems(5) [of m] by simp_all
  from worker_loop_ok [OF Cons.prems(1) m] obtain w1 where w1: "worker_loop m w = Inr w1" "rx_inv w1" "worker_up m w1" "spared {m} w w1" by blast
  have free: "worker_free m' w1" if m': "m' \<in> set ms" for m'
  proof -
    have ne: "wk_loop m' \<noteq> wk_loop m" "wk_wake m' \<noteq> wk_wake m" "wk_tid m' \<noteq> wk_tid m" using Cons.prems(2-4) m' by (simp_all, metis imageI, metis imageI, metis imageI)
    have f: "worker_free m' w" using Cons.prems(5) [of m'] m' by simp
    have "ch_loop ch \<noteq> wk_loop m'" if "rx_channels w1 d = Some ch" for d ch
      using that w1(3,4) f ne by (cases "d = wk_wake m") (auto simp: worker_up_def worker_free_def spared_def)
    with f ne w1(4) show ?thesis by (auto simp: worker_free_def spared_def)
  qed
  have "distinct (map wk_loop ms)" "distinct (map wk_wake ms)" "distinct (map wk_tid ms)" using Cons.prems(2-4) by simp_all
  from Cons.IH [OF w1(2) this] free Cons.prems(5) obtain w' where
    w': "start_workers ms w1 = Inr w'" "rx_inv w'" "\<forall>m \<in> set ms. worker_up m w'" "spared (set ms) w1 w'" by auto
  have "wk_loop m \<notin> wk_loop ` set ms" "wk_wake m \<notin> wk_wake ` set ms" using Cons.prems(2,3) by simp_all
  then have "worker_up m w'" using w1(3) w'(4) by (simp add: worker_up_def spared_def)
  moreover have "spared (set (m # ms)) w w'" by (rule spared_trans [OF w1(4) w'(4)]) simp
  ultimately show ?case using w1(1) w' by simp
qed

lemma start_workers_bare: "start_workers ms w = Inr w' \<Longrightarrow> all_bare w \<Longrightarrow> all_bare w'"
  by (induction ms arbitrary: w) (auto simp: bindE_Inr_iff worker_loop_def dest: EventLoop_new_bare)

lemma EchoServer_new_threads:
  fixes w :: "(echo_cb, 'z) server_net_scheme"
  assumes "EchoServer_new k s a c l addr num w = Inr w'"
  shows "rx_loop_in_thread w' = rx_loop_in_thread w"
  using assms by (auto simp: EchoServer_new_def TcpServer_new_def Acceptor_new_def bindE_Inr_iff Let_def
      put_server_def put_acceptor_def put_channel_def split: if_splits)

section \<open>The invariant after the start\<close>

lemma ps_fixed_wake:
  assumes "site_ok P" and "m \<in> set (ps_all P)"
  shows "ps_fixed P (wk_wake m) = Some (wk_wfd m)"
proof -
  have "distinct (map fst (map (\<lambda>m. (wk_wake m, wk_wfd m)) (ps_all P)))" using assms(1) by (simp add: site_ok_def comp_def)
  then have "map_of (map (\<lambda>m. (wk_wake m, wk_wfd m)) (ps_all P)) (wk_wake m) = Some (wk_wfd m)" using assms(2) by (intro map_of_is_SomeI) auto
  moreover have "wk_wake m \<noteq> ps_listen P" using assms unfolding site_ok_def by (metis imageI)
  ultimately show ?thesis by (simp add: ps_fixed_def)
qed

lemma start_layout:
  assumes site: "site_ok P" and up: "\<And>m. m \<in> set (ps_all P) \<Longrightarrow> worker_up m w"
    and ls: "rx_channels w (ps_listen P) = Some ch" "ch_fd ch = ps_lfd P"
    and rest: "dom (rx_channels w) \<subseteq> insert (ps_listen P) (wk_wake ` set (ps_all P))" "nx_conns w = Map.empty" "open_fds (nx_trace w) = {ps_lfd P}"
  shows "layout (ps_fixed P) (ps_lfd P) w"
proof -
  have "ps_fixed P d = chan_fd w d" if "d \<in> dom (ps_fixed P)" for d
  proof -
    from that consider "d = ps_listen P" | m where "m \<in> set (ps_all P)" "d = wk_wake m" unfolding ps_fixed_dom by blast
    then show ?thesis
    proof cases
      case 1
      then show ?thesis using ls by (simp add: ps_fixed_def chan_fd_def)
    next
      case (2 m)
      with up [OF 2(1)] ps_fixed_wake [OF site 2(1)] show ?thesis by (auto simp: worker_up_def chan_fd_def)
    qed
  qed
  moreover have "ps_lfd P \<in> ran (ps_fixed P)" by (auto simp: ps_fixed_def ran_def)
  moreover have "finite (dom (ps_fixed P))" by (simp add: ps_fixed_dom)
  ultimately show ?thesis using rest by (simp add: layout_def map_le_def ps_fixed_dom)
qed

lemma start_pool_ok:
  fixes w :: "(echo_cb, 'z) server_net_scheme"
  assumes site: "site_ok P" and inv: "rx_inv w" and up: "\<And>m. m \<in> set (ps_all P) \<Longrightarrow> worker_up m w" and bare: "all_bare w"
    and srv: "server_at P [] w" and rest: "dom (rx_channels w) \<subseteq> insert (ps_listen P) (wk_wake ` set (ps_all P))" "nx_conns w = Map.empty"
      "open_fds (nx_trace w) = {ps_lfd P}"
  shows "pool_ok P 0 None st [] (\<lambda>_. At_loop) w"
proof -
  from srv obtain ch where ch: "rx_channels w (ps_listen P) = Some ch" "ch_fd ch = ps_lfd P" "ch_read_callback ch = Some (Accept_read (ps_acceptor P))"
    "ch_loop ch = wk_loop (ps_base P)" "ch_index ch = kAdded" by (auto simp: server_at_def server_up_def)
  have b: "bare x" if "rx_channels w d = Some x" for d x using bare that by (simp add: all_bare_def)
  have "plain_at (wk_loop m) (wk_wake m) (Loop_read (wk_loop m)) w" if "m \<in> set (ps_all P)" for m
    using up [OF that] b by (auto simp: worker_up_def plain_at_def plain_chan_def bare_def)
  moreover have "plain_at (wk_loop (ps_base P)) (ps_listen P) (Accept_read (ps_acceptor P)) w"
    using ch b [OF ch(1)] by (simp add: plain_at_def plain_chan_def bare_def)
  moreover have "marks None w" using b by (auto simp: marks_def bare_def)
  ultimately have "store_ok P None [] w" using inv srv start_layout [OF site up ch(1,2) rest] by (simp add: store_ok_def)
  moreover have "loops_ok P (\<lambda>_. At_loop) w" using up by (fastforce simp: loops_ok_def worker_up_def)
  moreover have "waiting (\<lambda>_. At_loop) w (wk_loop m) = []" if "m \<in> set (ps_all P)" for m
    using up [OF that] by (auto simp: waiting_def pending_def worker_up_def)
  then have "queues_inv P st (\<lambda>_. At_loop) w" using rest(2) by (auto simp: queues_inv_def job_def)
  ultimately show ?thesis using site rest(2) by (simp add: pool_ok_def conns_at_def entries_def held_def todos_def)
qed

definition pool_start_ok :: "kernel \<Rightarrow> pool_site \<Rightarrow> bool" where
  "pool_start_ok k P \<longleftrightarrow> site_ok P \<and> (\<forall>m \<in> set (ps_all P). wk_wfd m \<noteq> - 1 \<and> wk_epfd m \<noteq> - 1) \<and>
     k_socket k [] AF_INET = ps_lfd P \<and> ps_lfd P \<noteq> - 1 \<and>
     (\<forall>tr addr len. 0 \<le> k_bind k tr (ps_lfd P) addr len) \<and> (\<forall>tr. 0 \<le> k_listen k tr (ps_lfd P))"

text \<open>The main thread's loop and the server, and then the loops of the pool.\<close>

definition server_built :: "pool_site \<Rightarrow> 'v tcp_server \<Rightarrow> ('v, 'z) server_net_scheme \<Rightarrow> bool" where
  "server_built P ts w \<longleftrightarrow> server_up False (ps_server P) (ps_acceptor P) (ps_listen P) (wk_loop (ps_base P)) (ps_lfd P) ts w \<and> not_started ts \<and>
     tp_num_threads (ts_threadpool ts) = int (length (ps_crew P)) \<and> ts_connections ts = [] \<and> ts_write_complete_callback ts = None"

lemma main_built:
  assumes "pool_start_ok k P" and addr: "InetAddress_family addr = AF_INET"
  obtains w1 w2 :: "echo_cb server_net" and ts where "worker_loop (ps_base P) empty_server_net = Inr w1"
    "EchoServer_new k (ps_server P) (ps_acceptor P) (ps_listen P) (wk_loop (ps_base P)) addr (int (length (ps_crew P))) w1 = Inr w2"
    "rx_inv w2" "worker_up (ps_base P) w2" "all_bare w2" "server_built P ts w2"
    "ts_connection_callback ts = Some Handle_connect" "ts_message_callback ts = Some Handle_message" "nx_conns w2 = Map.empty"
    "dom (rx_channels w2) \<subseteq> {ps_listen P, wk_wake (ps_base P)}" "nx_trace w2 = bind_calls k addr False (ps_lfd P) []"
    "\<forall>l. l \<noteq> wk_loop (ps_base P) \<longrightarrow> rx_loops w2 l = None" "\<forall>t. t \<noteq> wk_tid (ps_base P) \<longrightarrow> rx_loop_in_thread w2 t = None"
proof -
  let ?e = "empty_server_net :: echo_cb server_net" and ?b = "ps_base P" and ?n = "int (length (ps_crew P))" and ?lfd = "ps_lfd P"
  from assms have A: "site_ok P" "\<And>m. m \<in> set (ps_all P) \<Longrightarrow> wk_wfd m \<noteq> - 1 \<and> wk_epfd m \<noteq> - 1" "k_socket k [] AF_INET = ?lfd" "?lfd \<noteq> - 1"
    "\<forall>tr addr len. 0 \<le> k_bind k tr ?lfd addr len" by (simp_all add: pool_start_ok_def)
  have e: "rx_inv ?e" "nx_conns ?e = Map.empty" "nx_trace ?e = []" "rx_channels ?e = Map.empty" "all_bare ?e" "rx_loops ?e = Map.empty"
    "rx_loop_in_thread ?e = (\<lambda>_. None)" by (simp_all add: empty_server_net_def rx_inv_def all_bare_def)
  have "worker_free ?b ?e" by (simp add: worker_free_def e)
  from worker_loop_ok [OF e(1) this] A(2) [OF crew_all(2)] obtain w1 where
    w1: "worker_loop ?b ?e = Inr w1" "rx_inv w1" "worker_up ?b w1" "spared {?b} ?e w1" by blast
  have c1: "rx_channels w1 d = None" if "d \<noteq> wk_wake ?b" for d using w1(4) that e(4) by (simp add: spared_def)
  have ls: "wk_wake ?b \<noteq> ps_listen P" using A(1) crew_all(2) unfolding site_ok_def by (metis imageI)
  then have l1: "rx_channels w1 (ps_listen P) = None" by (intro c1) simp
  have s1: "k_socket k (nx_trace w1) AF_INET = ?lfd" using w1(4) e(3) A(3) by (simp add: spared_def)
  from EchoServer_new_ok [OF w1(2) l1 addr s1 A(4), of "ps_server P" "ps_acceptor P" "wk_loop ?b" ?n] A(5) obtain w2 ts where
    w2: "EchoServer_new k (ps_server P) (ps_acceptor P) (ps_listen P) (wk_loop ?b) addr ?n w1 = Inr w2" "rx_inv w2"
    "server_up False (ps_server P) (ps_acceptor P) (ps_listen P) (wk_loop ?b) ?lfd ts w2" "not_started ts" "ts_write_complete_callback ts = None"
    "tp_num_threads (ts_threadpool ts) = ?n" "ts_connections ts = []" "ts_connection_callback ts = Some Handle_connect"
    "ts_message_callback ts = Some Handle_message" "rx_loops w2 = rx_loops w1" "nx_conns w2 = nx_conns w1"
    "\<forall>d. d \<noteq> ps_listen P \<longrightarrow> rx_channels w2 d = rx_channels w1 d" "nx_trace w2 = nx_trace w1 @ bind_calls k addr False ?lfd (nx_trace w1)" by auto
  have "all_bare w2" by (rule EchoServer_new_bare [OF w2(1) EventLoop_new_bare [OF w1(1) [unfolded worker_loop_def] e(5)]])
  moreover have "worker_up ?b w2" using w1(3) w2(10,12) ls by (simp add: worker_up_def)
  moreover have "dom (rx_channels w2) \<subseteq> {ps_listen P, wk_wake ?b}"
  proof
    fix d assume "d \<in> dom (rx_channels w2)"
    then show "d \<in> {ps_listen P, wk_wake ?b}" using w2(12) c1 [of d] by (cases "d = ps_listen P"; cases "d = wk_wake ?b") auto
  qed
  ultimately show ?thesis using w1(1,4) w2 EchoServer_new_threads [OF w2(1)]
    by (intro that [OF w1(1) w2(1,2)]) (simp_all add: server_built_def spared_def e)
qed

lemma pool_built:
  fixes w :: "echo_cb server_net"
  assumes "pool_start_ok k P" and w: "rx_inv w" "worker_up (ps_base P) w" "all_bare w" "server_built P ts w"
    "dom (rx_channels w) \<subseteq> {ps_listen P, wk_wake (ps_base P)}"
    "\<forall>l. l \<noteq> wk_loop (ps_base P) \<longrightarrow> rx_loops w l = None" "\<forall>t. t \<noteq> wk_tid (ps_base P) \<longrightarrow> rx_loop_in_thread w t = None"
  obtains w' where "start_workers (ps_crew P) w = Inr w'" "rx_inv w'" "\<forall>m \<in> set (ps_all P). worker_up m w'" "all_bare w'"
    "server_built P ts w'" "dom (rx_channels w') \<subseteq> insert (ps_listen P) (wk_wake ` set (ps_all P))" "nx_conns w' = nx_conns w" "nx_trace w' = nx_trace w"
proof -
  let ?b = "ps_base P"
  have A: "\<And>m. m \<in> set (ps_all P) \<Longrightarrow> wk_wfd m \<noteq> - 1 \<and> wk_epfd m \<noteq> - 1" and site: "distinct (map wk_loop (ps_all P))"
    "distinct (map wk_wake (ps_all P))" "distinct (map wk_tid (ps_all P))" "ps_listen P \<notin> wk_wake ` set (ps_all P)"
    using assms(1) by (simp_all add: pool_start_ok_def site_ok_def)
  have ls: "wk_wake m \<noteq> ps_listen P" if "m \<in> set (ps_all P)" for m using site(4) that by (metis imageI)
  have up: "server_up False (ps_server P) (ps_acceptor P) (ps_listen P) (wk_loop ?b) (ps_lfd P) ts w" using w(4) by (simp add: server_built_def)
  have lp: "ch_loop ch = wk_loop ?b" if "rx_channels w d = Some ch" for d ch
    using that w(2,5) up by (auto simp: server_up_def worker_up_def)
  have free: "worker_free m w \<and> wk_wfd m \<noteq> - 1 \<and> wk_epfd m \<noteq> - 1" if m: "m \<in> set (ps_crew P)" for m
  proof -
    have ne: "wk_loop m \<noteq> wk_loop ?b" "wk_wake m \<noteq> wk_wake ?b" "wk_tid m \<noteq> wk_tid ?b"
      using m site(1-3) by (simp_all add: ps_all_def, metis imageI, metis imageI, metis imageI)
    moreover have "rx_channels w (wk_wake m) = None" using w(5) ne(2) ls [OF crew_all(1) [OF m]] by auto
    ultimately show ?thesis using lp w(6,7) A [OF crew_all(1) [OF m]] by (auto simp: worker_free_def)
  qed
  from start_workers_ok [of w "ps_crew P", OF w(1) _ _ _ free] site(1-3) obtain w' where
    w': "start_workers (ps_crew P) w = Inr w'" "rx_inv w'" "\<forall>m \<in> set (ps_crew P). worker_up m w'" "spared (set (ps_crew P)) w w'"
    by (auto simp: ps_all_def)
  have b: "wk_loop ?b \<notin> wk_loop ` set (ps_crew P)" "wk_wake ?b \<notin> wk_wake ` set (ps_crew P)" "ps_listen P \<notin> wk_wake ` set (ps_crew P)"
    using site(1,2,4) by (simp_all add: ps_all_def)
  have "worker_up ?b w'" using w(2) w'(4) b(1,2) by (simp add: worker_up_def spared_def)
  moreover have "server_built P ts w'" using w(4) w'(4) b(3) by (simp add: server_built_def server_up_def spared_def)
  moreover have "dom (rx_channels w') \<subseteq> insert (ps_listen P) (wk_wake ` set (ps_all P))"
  proof
    fix d assume d: "d \<in> dom (rx_channels w')"
    show "d \<in> insert (ps_listen P) (wk_wake ` set (ps_all P))"
    proof (cases "d \<in> wk_wake ` set (ps_crew P)")
      case False
      with d w'(4) have "d \<in> dom (rx_channels w)" by (auto simp: spared_def)
      with w(5) show ?thesis by (auto simp: ps_all_def)
    qed (auto simp: ps_all_def)
  qed
  ultimately show ?thesis using w'
    by (intro that [OF w'(1,2) _ start_workers_bare [OF w'(1) w(3)]]) (simp_all add: ps_all_def spared_def)
qed

lemma listen_free:
  fixes w :: "echo_cb server_net"
  assumes inv: "rx_inv w" and ups: "\<forall>m \<in> set (ps_all P). worker_up m w" and ne: "ps_lfd P \<notin> wk_wfd ` set (ps_all P)"
    and dom: "dom (rx_channels w) \<subseteq> insert (ps_listen P) (wk_wake ` set (ps_all P))"
    and up: "server_up False (ps_server P) (ps_acceptor P) (ps_listen P) (wk_loop (ps_base P)) (ps_lfd P) ts w"
    and el: "rx_loops w (wk_loop (ps_base P)) = Some el"
  shows "ep_channels (el_poller el) (ps_lfd P) = None"
proof (rule ccontr)
  assume "ep_channels (el_poller el) (ps_lfd P) \<noteq> None"
  then obtain d where d: "ep_channels (el_poller el) (ps_lfd P) = Some d" by blast
  note I = rx_invD [OF inv el]
  from ep_invD(2) [OF I d] obtain ch where ch: "rx_channels w d = Some ch" "ch_fd ch = ps_lfd P" "ch_loop ch = wk_loop (ps_base P)" by blast
  have "d \<in> insert (ps_listen P) (wk_wake ` set (ps_all P))" using dom ch(1) by blast
  then consider "d = ps_listen P" | m where "m \<in> set (ps_all P)" "d = wk_wake m" by blast
  then show False
  proof cases
    case 1
    with up ch(1) have "ch_index ch = kNew" by (auto simp: server_up_def)
    with ep_invD(1) [OF I ch(1)] ch(2,3) d show False by (simp add: chan_ok_def)
  next
    case (2 m)
    with ups ch(1) have "ch_fd ch = wk_wfd m" by (force simp: worker_up_def)
    with ch(2) ne 2(1) show False by (metis imageI)
  qed
qed

lemma pool_setup_ok:
  assumes S: "pool_start_ok k P"
  shows "\<exists>x. pool_setup k pton junk P = Inr x \<and> pool_ok P 0 None st [] (pl_at x) (pl_net x)"
proof -
  let ?addr = "InetAddress_new pton junk ''0.0.0.0'' 1818 False" and ?lfd = "ps_lfd P" and ?b = "ps_base P"
  have addr: "InetAddress_family ?addr = AF_INET"
    by (auto simp: InetAddress_new_def InetAddress_family_def write_sin_addr_def Let_def split: option.split)
  have A: "site_ok P" "?lfd \<noteq> - 1" "\<forall>tr. 0 \<le> k_listen k tr ?lfd" "?lfd \<notin> wk_wfd ` set (ps_all P)" "ps_crew P \<noteq> []"
    using S by (simp_all add: pool_start_ok_def site_ok_def)
  from main_built [OF S addr] obtain w1 w2 ts where
    w2: "worker_loop ?b empty_server_net = Inr w1" "EchoServer_new k (ps_server P) (ps_acceptor P) (ps_listen P) (wk_loop ?b) ?addr (int (length (ps_crew P))) w1 = Inr w2"
    "rx_inv w2" "worker_up ?b w2" "all_bare w2" "server_built P ts w2"
    "ts_connection_callback ts = Some Handle_connect" "ts_message_callback ts = Some Handle_message" "nx_conns w2 = Map.empty"
    "dom (rx_channels w2) \<subseteq> {ps_listen P, wk_wake ?b}" "nx_trace w2 = bind_calls k ?addr False ?lfd []"
    "\<forall>l. l \<noteq> wk_loop ?b \<longrightarrow> rx_loops w2 l = None" "\<forall>t. t \<noteq> wk_tid ?b \<longrightarrow> rx_loop_in_thread w2 t = None" .
  from pool_built [OF S w2(3-6,10,12,13)] obtain w3 where
    w3: "start_workers (ps_crew P) w2 = Inr w3" "rx_inv w3" "\<forall>m \<in> set (ps_all P). worker_up m w3" "all_bare w3"
    "server_built P ts w3" "dom (rx_channels w3) \<subseteq> insert (ps_listen P) (wk_wake ` set (ps_all P))" "nx_conns w3 = nx_conns w2" "nx_trace w3 = nx_trace w2" .
  have up: "server_up False (ps_server P) (ps_acceptor P) (ps_listen P) (wk_loop ?b) ?lfd ts w3" "not_started ts"
    "tp_num_threads (ts_threadpool ts) = int (length (ps_crew P))" "ts_connections ts = []" "ts_write_complete_callback ts = None"
    using w3(5) by (simp_all add: server_built_def)
  from w3(3) obtain el where el: "rx_loops w3 (wk_loop ?b) = Some el" "wk_tid ?b = el_tid el" by (force simp: worker_up_def loop_at_def)
  have free: "ep_channels (el_poller el) ?lfd = None"
    by (rule listen_free [OF w3(2,3) A(4) w3(6) up(1) el(1)])
  from TcpServer_start_ok [OF w3(2) up(1,2) el free, of k "\<lambda>i. wk_loop (ps_crew P ! i)" "\<lambda>_. Inr"] A(3) up(3) A(5) obtain w4 ep q where
    w4: "EchoServer_start k (\<lambda>i. wk_loop (ps_crew P ! i)) (wk_tid ?b) (ps_server P) w3 = Inr w4" "rx_inv w4"
    "ep_events_size ep = ep_events_size (el_poller el)" "pool_inv q"
    "server_up True (ps_server P) (ps_acceptor P) (ps_listen P) (wk_loop ?b) ?lfd (ts\<lparr>ts_started := 1, ts_threadpool := q\<rparr>) w4"
    "pool_loops q = map (\<lambda>i. wk_loop (ps_crew P ! i)) [0..<length (ps_crew P)]" "rx_loops w4 = (rx_loops w3)(wk_loop ?b \<mapsto> el\<lparr>el_poller := ep\<rparr>)"
    "nx_conns w4 = nx_conns w3" "\<forall>d. d \<noteq> ps_listen P \<longrightarrow> rx_channels w4 d = rx_channels w3 d"
    "nx_trace w4 = nx_trace w3 @ [Sys_listen ?lfd (k_listen k (nx_trace w3) ?lfd)]" by (auto simp: EchoServer_start_def)
  have "map (\<lambda>i. wk_loop (ps_crew P ! i)) [0..<length (ps_crew P)] = map wk_loop (ps_crew P)" by (rule nth_equalityI) simp_all
  then have srv: "server_at P [] w4" using w4(4-6) up(4,5) w2(7,8) unfolding server_at_def
    by (intro exI [of _ "ts\<lparr>ts_started := 1, ts_threadpool := q\<rparr>"]) simp
  have wake: "wk_wake m \<noteq> ps_listen P" if "m \<in> set (ps_all P)" for m using A(1) that unfolding site_ok_def by (metis imageI)
  have ups: "worker_up m w4" if "m \<in> set (ps_all P)" for m
    using w3(3) that wake [OF that] w4(3,7,9) el(1) by (cases "wk_loop m = wk_loop ?b") (auto simp: worker_up_def loop_at_def)
  have "dom (rx_channels w4) \<subseteq> insert (ps_listen P) (wk_wake ` set (ps_all P))"
  proof
    fix d assume "d \<in> dom (rx_channels w4)"
    then show "d \<in> insert (ps_listen P) (wk_wake ` set (ps_all P))" using w4(9) subsetD [OF w3(6), of d] by (cases "d = ps_listen P") (auto simp: domIff)
  qed
  moreover have "open_fds (nx_trace w4) = {?lfd}" using A(2) by (simp add: w4(10) w3(8) w2(11) bind_calls_def open_fds_def Let_def)
  ultimately have "pool_ok P 0 None st [] (\<lambda>_. At_loop) w4"
    by (intro start_pool_ok [OF A(1) w4(2) ups EchoServer_start_bare [OF w4(1) w3(4)] srv]) (simp_all add: w4(8) w3(7) w2(9))
  then show ?thesis using w2(1,2) w3(1) w4(1) by (simp add: pool_setup_def)
qed

end
