(* ===== verification/Pool_Run.thy ===== *)
theory Pool_Run
  imports Pool_Steps Pool_Start
begin

unbundle bit_operations_syntax

text \<open>
  The echo server on a pool of threads as a whole: every step of every thread succeeds and keeps
  the invariant, from the start of \<open>main\<close> on and in every interleaving.
\<close>

section \<open>Polling\<close>

lemma registered_added:
  assumes "ep_inv l st ep" and "registered ep st c"
  shows "\<exists>ch. st c = Some ch \<and> ch_loop ch = l \<and> ch_index ch = kAdded"
  using ep_invD(3) [OF assms(1)] assms(2) ep_view_iff [OF assms(1)] by (fastforce simp: registered_def split: option.splits)

text \<open>What the kernel may report to a thread: its own wake-up channel, the acceptor's on the main
  thread, and the established connections of its loop.\<close>

lemma registered_todo:
  fixes w :: "(echo_cb, 'z) server_net_scheme"
  assumes R: "pool_ok P n cur st cs at w" and m: "m \<in> set (ps_all P)" and el: "rx_loops w (wk_loop m) = Some el"
    and reg: "registered (el_poller el) (rx_channels w) c"
  shows "c = wk_wake m \<or> m = ps_base P \<and> c = ps_listen P \<or>
    (\<exists>a tc. nx_conns w a = Some tc \<and> tc_channel tc = c \<and> tc_loop tc = wk_loop m \<and> st a = Up)"
proof -
  note D = pool_okD [OF R]
  note S = store_okD [OF D(2)]
  from registered_added [OF rx_invD [OF S(1) el] reg] obtain ch where ch: "rx_channels w c = Some ch" "ch_loop ch = wk_loop m" "ch_index ch = kAdded" by blast
  from S(2) ch(1) show ?thesis
  proof (cases rule: layout_cases)
    case (fixed fd)
    then have "c \<in> dom (ps_fixed P)" by blast
    then consider "c = ps_listen P" | m' where "m' \<in> set (ps_all P)" "c = wk_wake m'" unfolding ps_fixed_dom by blast
    then show ?thesis
    proof cases
      case 1
      with S(5) ch(1,2) have "wk_loop m = wk_loop (ps_base P)" by (auto simp: plain_at_def)
      with worker_eq [OF D(1) m crew_all(2)] 1 show ?thesis by blast
    next
      case (2 m')
      with S(6) [OF 2(1)] ch(1,2) have "wk_loop m = wk_loop m'" by (auto simp: plain_at_def)
      with worker_eq [OF D(1) m 2(1)] 2 show ?thesis by blast
    qed
  next
    case (conn a tc)
    from conns_atE [OF D(4) conn(1)] obtain m' where m': "stage_ok P n m' (st a) a w" "tc_loop tc = wk_loop m'" .
    then have "ch_loop ch = tc_loop tc \<and> st a = Up" using ch conn(1,2)
      by (cases "st a") (auto simp: fresh_conn_def fresh_state_def echo_conn_def dead_conn_def gone_conn_def conn_base_def
          kNew_def kAdded_def kDeleted_def)
    with conn(1,2) ch(2) show ?thesis by auto
  qed
qed

definition state_ok :: "pool_site \<Rightarrow> nat \<Rightarrow> pool_state \<Rightarrow> bool" where
  "state_ok P n x \<longleftrightarrow> (\<exists>st cs. pool_ok P n None st cs (pl_at x) (pl_net x))"

text \<open>The channels of other threads that wait for their handlers may be marked again, with a valid
  event.\<close>

lemma todos_report:
  assumes T: "todos P st at w" and own: "\<And>c. c \<in> set act \<Longrightarrow> todo_at P st m w' c" "distinct act"
    and w': "nx_conns w' = nx_conns w" and ch: "\<And>c ch. rx_channels w c = Some ch \<Longrightarrow> event_ok (ch_revents ch) \<Longrightarrow> \<exists>ch'. rx_channels w' c = Some ch' \<and> event_ok (ch_revents ch')"
    and site: "site_ok P" and m: "m \<in> set (ps_all P)"
  shows "todos P st (at(wk_loop m := At_dispatch act)) w'"
  unfolding todos_def
proof (intro ballI allI impI)
  fix m' cs assume m': "m' \<in> set (ps_all P)" "(at(wk_loop m := At_dispatch act)) (wk_loop m') = At_dispatch cs"
  show "distinct cs \<and> (\<forall>c \<in> set cs. todo_at P st m' w' c)"
  proof (cases "wk_loop m' = wk_loop m")
    case True
    with worker_eq [OF site m'(1) m] own m'(2) show ?thesis by auto
  next
    case False
    with T m' have t: "distinct cs" "\<forall>c \<in> set cs. todo_at P st m' w c" unfolding todos_def by auto
    have "todo_at P st m' w' c" if "todo_at P st m' w c" for c
      using that ch [of c] unfolding todo_at_def w' by blast
    with t show ?thesis by blast
  qed
qed

lemma act_poll:
  assumes R: "pool_ok P n None st cs (pl_at x) (pl_net x)" and m: "m \<in> set (ps_all P)" and at: "pl_at x (wk_loop m) = At_poll"
    and r: "report_valid (wk_loop m) r (pl_net x)"
  shows "\<exists>x'. thread_act k fresh p P m r x = Inr x' \<and> state_ok P n x'"
proof -
  note D = pool_okD [OF R]
  note S = store_okD [OF D(2)]
  let ?w = "pl_net x" and ?l = "wk_loop m"
  from loops_okE [OF D(3) m] obtain el where el: "rx_loops ?w ?l = Some el" "loop_at m (pl_at x ?l) el" .
  then have "0 < ep_events_size (el_poller el)" "\<not> el_quit el" by (simp_all add: loop_at_def)
  from poll_ok [OF S(1) el(1) r this(1)] obtain ep evs where
    p: "Epoller_poll r (el_poller el) (rx_channels ?w) [] = Inr (ep, reported evs (rx_channels ?w), map fst evs)" "distinct (map fst evs)"
    "length evs = report_size r" "ep_channels ep = ep_channels (el_poller el)" "ep_calls ep = ep_calls (el_poller el)"
    "0 < ep_events_size ep" "\<forall>c ev. (c, ev) \<in> set evs \<longrightarrow> event_ok ev \<and> registered (el_poller el) (rx_channels ?w) c" .
  let ?st = "reported evs (rx_channels ?w)" and ?el = "el\<lparr>el_poller := ep, el_active_channels := map fst evs, el_event_handing := True\<rparr>"
  let ?w' = "put_loop ?l ?el (?w\<lparr>rx_channels := ?st\<rparr>)"
  have act: "thread_act k fresh p P m r x = Inr (move ?l (At_dispatch (map fst evs)) x ?w')"
    using at el(1) \<open>\<not> el_quit el\<close> p(1) by (simp add: thread_act_def Let_def)
  have ev: "\<exists>ch'. ?st c = Some ch' \<and> event_ok (ch_revents ch')" if "(c, ev) \<in> set evs" "rx_channels ?w c = Some ch" for c ev ch
    using reported_event [where st = "rx_channels ?w", OF that(1) p(2) that(2)] p(7) that(1) by (auto simp: Channel_set_revents_def)
  have "todo_at P st m ?w' c" if "c \<in> set (map fst evs)" for c
  proof -
    from that obtain ev where e: "(c, ev) \<in> set evs" by auto
    from p(7) e registered_added [OF rx_invD [OF S(1) el(1)]] obtain ch where "rx_channels ?w c = Some ch" by blast
    with ev [OF e] registered_todo [OF R m el(1)] p(7) e show ?thesis unfolding todo_at_def by fastforce
  qed
  moreover have "\<exists>ch'. rx_channels ?w' c = Some ch' \<and> event_ok (ch_revents ch')" if c: "rx_channels ?w c = Some ch" "event_ok (ch_revents ch)" for c ch
  proof (cases "map_of evs c")
    case None
    with c show ?thesis by (simp add: reported_def)
  next
    case (Some e)
    from ev [OF map_of_SomeD [OF Some] c(1)] show ?thesis by simp
  qed
  ultimately have T: "todos P st ((pl_at x)(?l := At_dispatch (map fst evs))) ?w'"
    by (intro todos_report [OF D(8) _ p(2) _ _ D(1) m]) simp_all
  have "pool_ok P n None st cs ((pl_at x)(?l := At_dispatch (map fst evs))) ?w'"
    by (rule pool_ok_mark [OF R m el(1), of _ ?el])
      (use p el(2) at S(3) T in \<open>auto simp: loop_at_def marks_def reported_marks dest!: reported_handling\<close>)
  with act show ?thesis by (auto simp: state_ok_def)
qed

section \<open>Dispatch\<close>

lemma pool_ok_put_loop:
  fixes w :: "(echo_cb, 'z) server_net_scheme"
  assumes R: "pool_ok P n cur st cs at w" and m: "m \<in> set (ps_all P)" and el: "rx_loops w (wk_loop m) = Some el"
    and ep: "ep_channels (el_poller el') = ep_channels (el_poller el)" "ep_calls (el_poller el') = ep_calls (el_poller el)"
    and pc: "loop_at m pc' el'" "at_todo pc' @ el_pending_functors el' = at_todo (at (wk_loop m)) @ el_pending_functors el"
      "set (at_held pc') = set (at_held (at (wk_loop m)))"
    and disp: "\<And>ds'. pc' = At_dispatch ds' \<Longrightarrow> \<exists>ds. at (wk_loop m) = At_dispatch ds \<and> set ds' \<subseteq> set ds \<and> distinct ds'"
  shows "pool_ok P n cur st cs (at(wk_loop m := pc')) (put_loop (wk_loop m) el' w)"
proof (rule pool_ok_mark [OF R m el _ _ _ _ _ _ ep pc])
  note D = pool_okD [OF R]
  show "marks cur (put_loop (wk_loop m) el' w)" using store_okD(3) [OF D(2)] by (simp add: marks_def)
  show "todos P st (at(wk_loop m := pc')) (put_loop (wk_loop m) el' w)"
  proof (rule todos_cong [OF D(8)])
    fix m' ds' assume "m' \<in> set (ps_all P)" "(at(wk_loop m := pc')) (wk_loop m') = At_dispatch ds'"
    then show "\<exists>ds. at (wk_loop m') = At_dispatch ds \<and> set ds' \<subseteq> set ds \<and> distinct ds'"
      using disp D(8) unfolding todos_def by (cases "wk_loop m' = wk_loop m") auto
  qed simp
qed (simp_all add: same_marks_rel)

lemma act_channel:
  assumes k: "kernel_ok k" "small_reads k" "\<And>m. m \<in> set (ps_all P) \<Longrightarrow> accepts_ok k (ps_lfd P) (wk_wfd m)" and al: "fresh_ok fresh"
    and R: "pool_ok P n None st cs (pl_at x) (pl_net x)" and m: "m \<in> set (ps_all P)" and at: "pl_at x (wk_loop m) = At_dispatch (c # ds)"
    and max: "8 + Suc n * kExtraBuf \<le> vector_max_size"
  shows "\<exists>x'. thread_act k fresh p P m r x = Inr x' \<and> state_ok P (Suc n) x'"
proof -
  note D = pool_okD [OF R]
  let ?w = "pl_net x" and ?l = "wk_loop m" and ?run = "run_chan_cb k fresh (EchoServer_callbacks k (wk_tid m) p) (wk_tid m)"
  from loops_okE [OF D(3) m] obtain el where el: "rx_loops ?w ?l = Some el" "loop_at m (pl_at x ?l) el" .
  let ?w1 = "put_loop ?l (el\<lparr>el_current_active_channel := Some c\<rparr>) ?w" and ?at = "(pl_at x)(?l := At_dispatch ds)"
  have T: "distinct (c # ds)" "todo_at P st m ?w c" using D(8) m at unfolding todos_def by auto
  have R1: "pool_ok P n None st cs ?at ?w1"
    by (rule pool_ok_put_loop [OF R m el(1)]) (use el(2) at T(1) in \<open>auto simp: loop_at_def\<close>)
  note S1 = store_okD [OF pool_okD(2) [OF R1]]
  have "\<exists>w' st' cs'. Channel_handle_event conn_alive ?run (get_channel c) (upd_channel c) ?w1 = Inr w' \<and> pool_ok P (Suc n) None st' cs' ?at w'"
  proof -
    have more: "pool_ok P (Suc n) None st' cs' ?at w'" if "pool_ok P n None st' cs' ?at w'" for st' cs' w'
      using that by (rule pool_ok_mono) simp
    from T(2) consider "c = wk_wake m" | "m = ps_base P" "c = ps_listen P"
      | a tc ch where "nx_conns ?w a = Some tc" "tc_channel tc = c" "tc_loop tc = wk_loop m" "st a = Up" "rx_channels ?w c = Some ch" "event_ok (ch_revents ch)"
      unfolding todo_at_def by blast
    then show ?thesis
    proof cases
      case 1
      with S1(6) [OF m] obtain ch where ch: "rx_channels ?w1 c = Some ch" "plain_chan (Loop_read ?l) ch" by (auto simp: plain_at_def)
      have "\<exists>w' st' cs'. Channel_handle_event conn_alive ?run (get_channel c) (upd_channel c) ?w1 = Inr w' \<and> pool_ok P n None st' cs' ?at w'"
      proof (rule pool_plain [OF R1 ch])
        fix v :: "echo_cb server_net" assume "pool_ok P n (Some c) st cs ?at v"
        from pool_wake [OF this m] show "\<exists>v' st' cs'. ?run (Loop_read ?l) v = Inr v' \<and> pool_ok P n (Some c) st' cs' ?at v' \<and>
          (\<forall>x. rx_channels v x \<noteq> None \<longrightarrow> rx_channels v' x = rx_channels v x)" by metis
      qed
      with more show ?thesis by blast
    next
      case 2
      from S1(5) 2(2) obtain ch where ch: "rx_channels ?w1 c = Some ch" "plain_chan (Accept_read (ps_acceptor P)) ch" by (auto simp: plain_at_def)
      have "\<exists>w' st' cs'. Channel_handle_event conn_alive ?run (get_channel c) (upd_channel c) ?w1 = Inr w' \<and> pool_ok P n None st' cs' ?at w'"
        by (rule pool_plain [OF R1 ch]) (unfold 2(1), rule pool_accept [OF k(1,3) al], simp_all)
      with more show ?thesis by blast
    next
      case (3 a tc ch)
      from conns_atE [OF D(4) 3(1)] obtain m' where m': "m' \<in> set (ps_crew P)" "tc_loop tc = wk_loop m'" .
      have "m' = m" using worker_eq [OF D(1) crew_all(1) [OF m'(1)] m] m'(2) 3(3) by simp
      with m'(1) have "m \<in> set (ps_crew P)" by simp
      from pool_conn_event [OF k(1,2) R1 this _ 3(3,4,2) _ 3(6) _ _ max refl, of ds fresh p] 3 T(1) show ?thesis by auto
    qed
  qed
  then obtain w' st' cs' where w': "Channel_handle_event conn_alive ?run (get_channel c) (upd_channel c) ?w1 = Inr w'" "pool_ok P (Suc n) None st' cs' ?at w'" by blast
  then have "thread_act k fresh p P m r x = Inr (move ?l (At_dispatch ds) x w')" using at el(1) by (simp add: thread_act_def Let_def upd_loop_def)
  with w'(2) show ?thesis by (auto simp: state_ok_def)
qed

section \<open>Functors\<close>

lemma act_functor:
  assumes R: "pool_ok P n None st cs (pl_at x) (pl_net x)" and m: "m \<in> set (ps_all P)" and at: "pl_at x (wk_loop m) = At_call (f # fs) ds"
  shows "\<exists>w' y. thread_act k fresh p P m r x = Inr (move (wk_loop m) (At_call fs (ds @ [f])) x w') \<and>
    state_ok P n (move (wk_loop m) (At_call fs (ds @ [f])) x w') \<and> loops_grow (job_at y) (pl_net x) w' \<and> follow_up f y"
proof -
  note D = pool_okD [OF R]
  let ?w = "pl_net x" and ?l = "wk_loop m" and ?at = "(pl_at x)(wk_loop m := At_call fs (ds @ [f]))"
  obtain a tc where a: "job P st ?w a = Some (?l, f)" "nx_conns ?w a = Some tc" using waiting_job [OF R m at] .
  have crew: "m \<in> set (ps_crew P)" if l: "tc_loop tc = ?l"
  proof -
    from conns_atE [OF D(4) a(2)] obtain m' where "m' \<in> set (ps_crew P)" "tc_loop tc = wk_loop m'" .
    with worker_eq [OF D(1) crew_all(1) m, of m'] l show ?thesis by auto
  qed
  have "\<exists>w' st' cs' y. run_net_functor k (EchoServer_callbacks k (wk_tid m) p) (wk_tid m) f ?w = Inr w' \<and> pool_ok P n None st' cs' ?at w' \<and>
    loops_grow (job_at y) ?w w' \<and> follow_up f y"
  proof (cases "st a")
    case Fresh
    with a have f: "f = Connect_established a" "tc_loop tc = ?l" by (auto simp: job_def)
    from pool_established [OF R crew [OF f(2)] a(2) f(2) Fresh at [unfolded f(1)], of k p] show ?thesis unfolding f(1) follow_up_def by blast
  next
    case Closing
    with a have f: "f = Remove_connection_in_loop (ps_server P) a" "wk_loop (ps_base P) = ?l" by (auto simp: job_def)
    have b: "m = ps_base P" using worker_eq [OF D(1) crew_all(2) m f(2)] by simp
    from pool_removed [OF R a(2) Closing at [unfolded f(1) b], of k p] show ?thesis unfolding f(1) b follow_up_def by blast
  next
    case Removed
    with a have f: "f = Connect_destoryed a" "tc_loop tc = ?l" by (auto simp: job_def)
    from pool_destoryed [OF R crew [OF f(2)] a(2) f(2) Removed at [unfolded f(1)], of k p] show ?thesis unfolding f(1) follow_up_def by blast
  qed (use a in \<open>simp_all add: job_def\<close>)
  then obtain w' st' cs' y where w': "run_net_functor k (EchoServer_callbacks k (wk_tid m) p) (wk_tid m) f ?w = Inr w'" "pool_ok P n None st' cs' ?at w'"
    "loops_grow (job_at y) ?w w'" "follow_up f y" by blast
  then have "thread_act k fresh p P m r x = Inr (move ?l (At_call fs (ds @ [f])) x w')" using at by (simp add: thread_act_def Let_def)
  with w'(2-4) show ?thesis by (auto simp: state_ok_def)
qed

lemma act_drop:
  assumes R: "pool_ok P n None st cs (pl_at x) (pl_net x)" and m: "m \<in> set (ps_all P)" and at: "pl_at x (wk_loop m) = At_drop (f # fs)"
  shows "\<exists>w'. thread_act k fresh p P m r x = Inr (move (wk_loop m) (At_drop fs) x w') \<and>
    state_ok P n (move (wk_loop m) (At_drop fs) x w') \<and> rx_loops w' = rx_loops (pl_net x)"
proof -
  from pool_dropped [OF R m at rest_of_held] obtain w' where
    w': "destroy_net_functor [ps_server P] (map wk_loop (ps_all P)) (wk_tid m) (fs @ held_elsewhere P (wk_loop m) x) f (pl_net x) = Inr w'"
    "pool_ok P n None st cs ((pl_at x)(wk_loop m := At_drop fs)) w'" "rx_loops w' = rx_loops (pl_net x)" by blast
  then have "thread_act k fresh p P m r x = Inr (move (wk_loop m) (At_drop fs) x w')" using at by (simp add: thread_act_def Let_def)
  with w'(2,3) show ?thesis by (auto simp: state_ok_def)
qed

text \<open>The steps that only change what the loop says of its own state.\<close>

lemma act_marks:
  assumes R: "pool_ok P n None st cs (pl_at x) (pl_net x)" and m: "m \<in> set (ps_all P)"
    and at: "pl_at x (wk_loop m) \<in> {At_loop, At_dispatch [], At_drop []} \<or> (\<exists>ds. pl_at x (wk_loop m) = At_call [] ds)"
  shows "\<exists>x'. thread_act k fresh p P m r x = Inr x' \<and> state_ok P n x'"
proof -
  note D = pool_okD [OF R]
  let ?w = "pl_net x" and ?l = "wk_loop m"
  from loops_okE [OF D(3) m] obtain el where el: "rx_loops ?w ?l = Some el" "loop_at m (pl_at x ?l) el" "el_tid el = wk_tid m" .
  have step: ?thesis if "thread_act k fresh p P m r x = Inr (move ?l pc x (put_loop ?l el' ?w))"
    "ep_channels (el_poller el') = ep_channels (el_poller el)" "ep_calls (el_poller el') = ep_calls (el_poller el)" "loop_at m pc el'"
    "at_todo pc @ el_pending_functors el' = at_todo (pl_at x ?l) @ el_pending_functors el" "set (at_held pc) = set (at_held (pl_at x ?l))"
    "\<And>ds. pc \<noteq> At_dispatch ds" for pc el'
    using that(1) pool_ok_put_loop [OF R m el(1) that(2-6)] that(7) unfolding state_ok_def by fastforce
  have same: "put_loop ?l el ?w = ?w" using el(1) by (simp add: put_loop_def fun_upd_idem)
  from at consider "pl_at x ?l = At_loop" | "pl_at x ?l = At_dispatch []" | "pl_at x ?l = At_drop []" | ds where "pl_at x ?l = At_call [] ds" by blast
  then show ?thesis
  proof cases
    case 1
    then show ?thesis using el
      by (intro step [of At_poll "el\<lparr>el_looping := True, el_quit := False\<rparr>"])
        (auto simp: thread_act_def Let_def loop_at_def EventLoop_is_in_loop_thread_def)
  next
    case 2
    then show ?thesis using el
      by (intro step [of "At_call (el_pending_functors el) []"
            "el\<lparr>el_current_active_channel := None, el_event_handing := False, el_calling_pending_functors := True, el_pending_functors := []\<rparr>"])
        (auto simp: thread_act_def Let_def loop_at_def upd_loop_def)
  next
    case 3
    then show ?thesis using el same by (intro step [of At_poll el]) (auto simp: thread_act_def Let_def loop_at_def)
  next
    case (4 ds)
    then show ?thesis using el
      by (intro step [of "At_drop ds" "el\<lparr>el_calling_pending_functors := False\<rparr>"]) (auto simp: thread_act_def Let_def loop_at_def upd_loop_def)
  qed
qed

section \<open>A step of any thread\<close>

text \<open>What the program relies on: the kernel delivers less than 64 KiB at a time, hands out
  descriptors that are not open and fails \<open>accept4\<close> only in the ways the code expects; the
  allocator hands out addresses that are not in use.\<close>

definition pool_kernel :: "kernel \<Rightarrow> pool_site \<Rightarrow> bool" where
  "pool_kernel k P \<longleftrightarrow> kernel_ok k \<and> small_reads k \<and> (\<forall>m \<in> set (ps_all P). accepts_ok k (ps_lfd P) (wk_wfd m))"

lemma act_ok:
  assumes k: "pool_kernel k P" and al: "fresh_ok fresh" and x: "state_ok P n x" and m: "m \<in> set (ps_all P)"
    and r: "report_valid (wk_loop m) r (pl_net x)" and max: "8 + Suc n * kExtraBuf \<le> vector_max_size"
  shows "\<exists>x'. thread_act k fresh p P m r x = Inr x' \<and> state_ok P (n + handles m x) x'"
proof -
  from x obtain st cs where R: "pool_ok P n None st cs (pl_at x) (pl_net x)" unfolding state_ok_def by blast
  from k have K: "kernel_ok k" "small_reads k" "\<And>m. m \<in> set (ps_all P) \<Longrightarrow> accepts_ok k (ps_lfd P) (wk_wfd m)" by (auto simp: pool_kernel_def)
  from loops_okE [OF pool_okD(3) [OF R] m] obtain el where "loop_at m (pl_at x (wk_loop m)) el" .
  then have run: "pl_at x (wk_loop m) \<noteq> At_end" by (simp add: loop_at_def)
  show ?thesis
  proof (cases "pl_at x (wk_loop m)")
    case At_loop
    with act_marks [OF R m] show ?thesis by (simp add: handles_def)
  next
    case At_poll
    with act_poll [OF R m At_poll r] show ?thesis by (simp add: handles_def)
  next
    case (At_dispatch ds)
    then show ?thesis
    proof (cases ds)
      case Nil
      with At_dispatch act_marks [OF R m] show ?thesis by (simp add: handles_def)
    next
      case (Cons c cs)
      with At_dispatch act_channel [OF K al R m _ max] show ?thesis by (simp add: handles_def)
    qed
  next
    case (At_call fs ds)
    with act_marks [OF R m] act_functor [OF R m, where k = k and fresh = fresh and p = p and r = r] show ?thesis
      by (cases fs) (simp_all add: handles_def, blast)
  next
    case (At_drop fs)
    with act_marks [OF R m] act_drop [OF R m, where k = k and fresh = fresh and p = p and r = r] show ?thesis
      by (cases fs) (simp_all add: handles_def, blast)
  qed (use run in simp)
qed

section \<open>Runs\<close>

lemma pool_run_ok:
  assumes run: "pool_run k pton junk fresh p P n x" and k: "pool_kernel k P" "pool_start_ok k P" and al: "fresh_ok fresh"
    and max: "8 + Suc n * kExtraBuf \<le> vector_max_size"
  shows "state_ok P n x"
  using run max
proof (induction rule: pool_run.induct)
  case (start x)
  with pool_setup_ok [OF k(2), of pton junk] show ?case by (auto simp: state_ok_def)
next
  case (act n x m r x')
  have "8 + Suc n * kExtraBuf \<le> vector_max_size" using act.prems by (simp add: distrib_right)
  with act.IH act_ok [OF k(1) al _ act.hyps(2,3), of n p] act.hyps(4) show ?case by auto
qed


text \<open>What the invariant says of a connection that is connected.\<close>

lemma connected_up:
  assumes R: "pool_ok P n None st cs at w" and a: "nx_conns w a = Some tc" "tc_state tc = kConnected"
  shows "st a = Up"
proof -
  from conns_atE [OF pool_okD(4) [OF R] a(1)] obtain m where "stage_ok P n m (st a) a w" .
  with a show ?thesis by (cases "st a") (auto simp: fresh_conn_def fresh_state_def dead_conn_def gone_conn_def conn_base_def)
qed

definition conn_echoes :: "('u, 'z) net_scheme \<Rightarrow> 'u tcp_connection \<Rightarrow> bool" where
  "conn_echoes w tc \<longleftrightarrow> (\<exists>ch. rx_channels w (tc_channel tc) = Some ch \<and> nb_contents (tc_input_buffer tc) = [] \<and>
     (Channel_is_writing ch \<longleftrightarrow> nb_contents (tc_output_buffer tc) \<noteq> []) \<and>
     (writes_ok (tc_fd tc) (session (tc_fd tc) (nx_trace w)) \<longrightarrow>
        wire (tc_fd tc) (session (tc_fd tc) (nx_trace w)) @ nb_contents (tc_output_buffer tc) = received (tc_fd tc) (session (tc_fd tc) (nx_trace w))))"

lemma up_conn:
  assumes R: "pool_ok P n None st cs at w" and a: "nx_conns w a = Some tc" "st a = Up"
  shows "tc_state tc = kConnected" "(tc_fd tc, a) \<in> set cs" "conn_echoes w tc"
proof -
  note D = pool_okD [OF R]
  from conns_atE [OF D(4) a(1)] obtain m where "stage_ok P n m (st a) a w" .
  with a obtain ch el where E: "conn_base a tc ch el w" "echo_state (ps_server P) n a tc ch (nx_trace w)" by (auto simp: echo_conn_def conn_base_def)
  show "tc_state tc = kConnected" using echo_stateD(2) [OF E(2)] .
  show "(tc_fd tc, a) \<in> set cs" by (rule entries_mem(1) [where st = st, OF D(5) a(1)]) (simp add: a(2))
  from conn_baseD [OF E(1)] echo_stateD [OF E(2)] show "conn_echoes w tc"
    by (auto simp: conn_echoes_def drained_def echoed_def conn_live_def)
qed

text \<open>When every thread waits and nothing is queued, every connection is established.\<close>

lemma quiet_up:
  assumes R: "pool_ok P n None st cs at w" and a: "nx_conns w a = Some tc"
    and idle: "\<And>m. m \<in> set (ps_all P) \<Longrightarrow> at (wk_loop m) = At_poll \<and> pending w (wk_loop m) = []"
  shows "st a = Up"
proof -
  note D = pool_okD [OF R]
  have none: "waiting at w (wk_loop m) = []" if "m \<in> set (ps_all P)" for m using idle [OF that] by (simp add: waiting_def)
  from conns_atE [OF D(4) a] obtain m where m: "m \<in> set (ps_crew P)" "tc_loop tc = wk_loop m" .
  have job: "job P st w a = None"
  proof (rule ccontr)
    assume "job P st w a \<noteq> None"
    then obtain l f where j: "job P st w a = Some (l, f)" by auto
    with D(6) obtain m' where "m' \<in> set (ps_all P)" "l = wk_loop m'" "f \<in> set (waiting at w l)" unfolding queues_inv_def by blast
    with none show False by simp
  qed
  have "st a \<noteq> Gone" using D(7) a idle unfolding held_def by fastforce
  with job a show ?thesis by (cases "st a") (simp_all add: job_def)
qed

text \<open>
  C2. The state of the server in every state of every such run.  The map holds existing connections
  only, each under its descriptor and each on a loop of the pool; the open descriptors are the
  listening one and one for each existing connection, so that none leaks and none is shared; a
  connection that is connected is in the map, has nothing left unread, waits for writability exactly
  when it has bytes to send, and unless a write on it failed for good since it was accepted, what was
  sent to the peer followed by what waits in the output buffer is exactly what was received from
  it, in order, whatever the other threads do.  And when all threads wait and no functor is queued,
  the existing connections are exactly those of the map, and all of them are connected: no closed
  connection is kept.
\<close>

theorem EchoServer_pool_state:
  fixes fresh :: "echo_cb server_net \<Rightarrow> addr \<times> addr"
  assumes "pool_kernel k P" and "pool_start_ok k P" and "fresh_ok fresh"
    and "pool_run k pton junk fresh p P n x" and "8 + Suc n * kExtraBuf \<le> vector_max_size"
  shows "\<exists>ts. nx_servers (pl_net x) (ps_server P) = Some ts \<and> distinct (map fst (ts_connections ts)) \<and>
    (\<forall>(fd, a) \<in> set (ts_connections ts). \<exists>tc. nx_conns (pl_net x) a = Some tc \<and> tc_fd tc = fd \<and> tc_loop tc \<in> wk_loop ` set (ps_crew P)) \<and>
    open_fds (nx_trace (pl_net x)) = insert (ps_lfd P) (conn_fd (pl_net x) ` dom (nx_conns (pl_net x))) \<and>
    inj_on (conn_fd (pl_net x)) (dom (nx_conns (pl_net x))) \<and>
    (\<forall>a tc. nx_conns (pl_net x) a = Some tc \<longrightarrow> tc_state tc = kConnected \<longrightarrow> (tc_fd tc, a) \<in> set (ts_connections ts) \<and> conn_echoes (pl_net x) tc) \<and>
    ((\<forall>m \<in> set (ps_all P). pl_at x (wk_loop m) = At_poll \<and> pending (pl_net x) (wk_loop m) = []) \<longrightarrow>
       dom (nx_conns (pl_net x)) = snd ` set (ts_connections ts) \<and> (\<forall>a tc. nx_conns (pl_net x) a = Some tc \<longrightarrow> tc_state tc = kConnected))"
proof -
  let ?w = "pl_net x"
  from pool_run_ok [OF assms(4,1,2,3,5)] obtain st cs where R: "pool_ok P n None st cs (pl_at x) ?w" unfolding state_ok_def by blast
  note D = pool_okD [OF R]
  note S = store_okD [OF D(2)]
  obtain ts where ts: "nx_servers ?w (ps_server P) = Some ts" "ts_connections ts = cs" using S(4) by (rule server_atE)
  have mem: "\<exists>tc. nx_conns ?w a = Some tc \<and> tc_fd tc = fd" if "(fd, a) \<in> set cs" for fd a using D(5) that unfolding entries_def by blast
  have pool: "tc_loop tc \<in> wk_loop ` set (ps_crew P)" if "nx_conns ?w a = Some tc" for a tc
    using conns_atE [OF D(4) that] by (metis imageI)
  have quiet: "dom (nx_conns ?w) = snd ` set cs \<and> (\<forall>a tc. nx_conns ?w a = Some tc \<longrightarrow> tc_state tc = kConnected)"
    if idle: "\<forall>m \<in> set (ps_all P). pl_at x (wk_loop m) = At_poll \<and> pending ?w (wk_loop m) = []"
  proof -
    have up: "st a = Up" if "nx_conns ?w a = Some tc" for a tc by (rule quiet_up [OF R that]) (use idle in blast)
    have "a \<in> snd ` set cs" if "nx_conns ?w a = Some tc" for a tc using up_conn(2) [OF R that up [OF that]] by force
    then have "dom (nx_conns ?w) = snd ` set cs" using mem by fastforce
    with up up_conn(1) [OF R] show ?thesis by blast
  qed
  have dist: "distinct (map fst cs)" using D(5) by (simp add: entries_def)
  have own: "\<forall>(fd, a) \<in> set cs. \<exists>tc. nx_conns ?w a = Some tc \<and> tc_fd tc = fd \<and> tc_loop tc \<in> wk_loop ` set (ps_crew P)"
    using mem pool by fastforce
  have "\<forall>a tc. nx_conns ?w a = Some tc \<longrightarrow> tc_state tc = kConnected \<longrightarrow> (tc_fd tc, a) \<in> set cs \<and> conn_echoes ?w tc"
    using up_conn(2,3) [OF R _ connected_up [OF R]] by blast
  with ts(1) dist own layoutD(5,9) [OF S(2)] quiet show ?thesis by (intro exI [of _ ts]) (simp add: ts(2))
qed

section \<open>A run to evaluate on\<close>

lemma duo_site_ok: "pool_kernel one_peer_kernel duo_site" "pool_start_ok one_peer_kernel duo_site"
proof -
  have "accepts_ok one_peer_kernel 3 15"
    by (simp add: accepts_ok_def one_peer_kernel_def accept_logged_def)
  with one_peer_kernel_ok show "pool_kernel one_peer_kernel duo_site" by (simp add: pool_kernel_def duo_site_def ps_all_def)
  show "pool_start_ok one_peer_kernel duo_site"
    using one_peer_kernel_ok(4-6) by (simp add: pool_start_ok_def site_ok_def duo_site_def ps_all_def)
qed

text \<open>The acceptor's channel is always registered, so the kernel may always report it.\<close>

lemma pool_listen_valid:
  assumes R: "pool_ok P n cur st cs at w" and ev: "event_ok ev"
  shows "report_valid (wk_loop (ps_base P)) (Some [(ps_listen P, ev)]) w"
proof -
  note D = pool_okD [OF R]
  note S = store_okD [OF D(2)]
  from S(5) obtain ch where ch: "rx_channels w (ps_listen P) = Some ch" "ch_loop ch = wk_loop (ps_base P)" "ch_index ch = kAdded"
    by (auto simp: plain_at_def)
  from loops_okE [OF D(3) crew_all(2)] obtain el where el: "rx_loops w (wk_loop (ps_base P)) = Some el" "loop_at (ps_base P) (at (wk_loop (ps_base P))) el" .
  note inv = rx_invD [OF S(1) el(1)]
  have "ep_view (rx_channels w) (el_poller el) (ch_fd ch) = Some (ch_events ch, ps_listen P)" using ch by (simp add: ep_view_iff [OF inv])
  then have "registered (el_poller el) (rx_channels w) (ps_listen P)" using ch(1) ep_invD(3) [OF inv] by (simp add: registered_def)
  then show ?thesis using el ev by (simp add: report_valid_def loop_at_def)
qed

lemma fill_active: "Epoller_fill_active_channels evs ep st act = Inr (st', act') \<Longrightarrow> act' = act @ map fst evs"
  by (induction evs arbitrary: st act) (fastforce simp: bindE_Inr_iff split: option.splits)+

text \<open>The main thread enters its loop, polls, and accepts.\<close>

lemma duo_run:
  "\<exists>x. pool_run one_peer_kernel (\<lambda>_ _. None) [] next_addr 30 duo_site 1 x \<and> (\<forall>l cs. pl_at x l = At_dispatch cs \<longrightarrow> cs = [])"
proof -
  let ?k = one_peer_kernel and ?P = duo_site and ?m = "ps_base duo_site"
  let ?run = "pool_run ?k (\<lambda>_ _. None) [] next_addr 30 ?P" and ?r = "Some [(ps_listen ?P, EPOLLIN)]"
  have max: "8 + Suc 0 * kExtraBuf \<le> vector_max_size" by (simp add: kExtraBuf_def vector_max_size_def)
  have ok: "\<exists>st cs. pool_ok ?P 0 None st cs (pl_at x) (pl_net x)" if "?run 0 x" for x
    using pool_run_ok [OF that duo_site_ok next_addr_ok max] by (simp add: state_ok_def)
  have ev: "event_ok EPOLLIN" by code_simp
  have step: "\<exists>x'. thread_act ?k next_addr 30 ?P ?m ?r x = Inr x' \<and> ?run (handles ?m x) x'" if x: "?run 0 x" for x
  proof -
    from ok [OF x] pool_listen_valid [OF _ ev] have r: "report_valid (wk_loop ?m) ?r (pl_net x)" by blast
    from act_ok [OF duo_site_ok(1) next_addr_ok pool_run_ok [OF x duo_site_ok next_addr_ok max] crew_all(2) r max, of 30] obtain x' where
      "thread_act ?k next_addr 30 ?P ?m ?r x = Inr x'" by blast
    with pool_run.act [OF x crew_all(2) r this] show ?thesis by auto
  qed
  from pool_setup_ok [OF duo_site_ok(2)] obtain x0 where x0: "pool_setup ?k (\<lambda>_ _. None) [] ?P = Inr x0" by blast
  then have at0: "pl_at x0 = (\<lambda>_. At_loop)" by (auto simp: pool_setup_def bindE_Inr_iff)
  from step [OF pool_run.start [OF x0]] at0 obtain x1 where
    x1: "thread_act ?k next_addr 30 ?P ?m ?r x0 = Inr x1" "?run 0 x1" by (auto simp: handles_def)
  then have at1: "pl_at x1 = (\<lambda>_. At_loop)(wk_loop ?m := At_poll)" using at0 by (auto simp: thread_act_def Let_def bindE_Inr_iff)
  from step [OF x1(2)] at1 obtain x2 where
    x2: "thread_act ?k next_addr 30 ?P ?m ?r x1 = Inr x2" "?run 0 x2" by (auto simp: handles_def)
  have "pl_at x2 (wk_loop ?m) = At_end \<or> pl_at x2 = (\<lambda>_. At_loop)(wk_loop ?m := At_dispatch [ps_listen ?P])"
    using x2(1) at1 by (auto simp: thread_act_def Let_def Epoller_poll_def bindE_Inr_iff simp del: Epoller_fill_active_channels.simps
        dest!: fill_active split: if_splits)
  moreover have "pl_at x2 (wk_loop ?m) \<noteq> At_end" using ok [OF x2(2)] loops_okE [OF pool_okD(3) crew_all(2)] by (metis loop_at_def)
  ultimately have at2: "pl_at x2 = (\<lambda>_. At_loop)(wk_loop ?m := At_dispatch [ps_listen ?P])" by blast
  from step [OF x2(2)] obtain x3 where x3: "thread_act ?k next_addr 30 ?P ?m ?r x2 = Inr x3" "?run (handles ?m x2) x3" by blast
  then have "pl_at x3 = (\<lambda>_. At_loop)(wk_loop ?m := At_dispatch [])" using at2 by (auto simp: thread_act_def Let_def bindE_Inr_iff)
  moreover have "handles ?m x2 = 1" using at2 by (simp add: handles_def)
  ultimately show ?thesis using x3(2) by (intro exI [of _ x3]) simp
qed


theorem EchoServer_pool_state_witness:
  "\<exists>x ts. pool_run one_peer_kernel (\<lambda>_ _. None) [] next_addr 30 duo_site 1 x \<and> nx_servers (pl_net x) 20 = Some ts \<and>
     distinct (map fst (ts_connections ts)) \<and> open_fds (nx_trace (pl_net x)) = insert 3 (conn_fd (pl_net x) ` dom (nx_conns (pl_net x)))"
proof -
  from duo_run obtain x where x: "pool_run one_peer_kernel (\<lambda>_ _. None) [] next_addr 30 duo_site 1 x" by blast
  have "8 + Suc 1 * kExtraBuf \<le> vector_max_size" by (simp add: kExtraBuf_def vector_max_size_def)
  from EchoServer_pool_state [OF duo_site_ok next_addr_ok x this] x show ?thesis by (auto simp: duo_site_def)
qed

end
