(* ===== verification/Pool_Drain.thy ===== *)
theory Pool_Drain
  imports Pool_Run
begin

text \<open>
  The server on a pool of threads comes to rest.  When nothing more is reported, every schedule
  of the threads that have something to do ends, with all threads in \<open>epoll_wait\<close> and all queues
  empty: no functor is left behind, no two threads keep each other busy, and a connection that was
  closed is destroyed.  The proof is a measure: a handler takes a channel from a list of active
  ones; a functor leaves a smaller one behind, or none; a pass that takes the queue leaves an empty
  one; and otherwise a thread goes on in its pass.
\<close>

section \<open>Threads that have nothing to do\<close>

definition thread_idle :: "worker \<Rightarrow> pool_state \<Rightarrow> bool" where
  "thread_idle m x \<longleftrightarrow> pl_at x (wk_loop m) = At_poll \<and> pending (pl_net x) (wk_loop m) = []"

definition at_rest :: "pool_site \<Rightarrow> pool_state \<Rightarrow> bool" where
  "at_rest P x \<longleftrightarrow> list_all (\<lambda>m. thread_idle m x) (ps_all P)"

text \<open>A step of a thread that has something to do, with no report: a thread in \<open>epoll_wait\<close>
  returns only when a functor was queued.\<close>

definition quiet_act :: "kernel \<Rightarrow> (echo_cb server_net \<Rightarrow> addr \<times> addr) \<Rightarrow> addr \<Rightarrow> pool_site \<Rightarrow> pool_state \<Rightarrow> pool_state \<Rightarrow> bool" where
  "quiet_act k fresh p P x x' \<longleftrightarrow> (\<exists>m \<in> set (ps_all P). \<not> thread_idle m x \<and> thread_act k fresh p P m None x = Inr x')"

section \<open>The measure\<close>

text \<open>A sum over the threads in which only one summand changes.\<close>

definition over :: "pool_site \<Rightarrow> (addr \<Rightarrow> nat) \<Rightarrow> nat" where
  "over P g = (\<Sum>m\<leftarrow>ps_all P. g (wk_loop m))"

lemma over_eq: "(\<And>m. m \<in> set (ps_all P) \<Longrightarrow> g (wk_loop m) = h (wk_loop m)) \<Longrightarrow> over P g = over P h"
  unfolding over_def by (intro arg_cong [of _ _ sum_list] map_cong) simp_all

lemma over_add: "over P (\<lambda>l. g l + h l) = over P g + over P h"
  by (simp add: over_def sum_list_addf)

lemma over_only:
  assumes "site_ok P" and "m \<in> set (ps_all P)"
  shows "over P (\<lambda>l. if l = wk_loop m then c else 0) = c"
proof -
  have one: "(\<Sum>m'\<leftarrow>ms. if wk_loop m' = l then c else 0) = (if l \<in> wk_loop ` set ms then c else 0)" if "distinct (map wk_loop ms)" for ms and l
    using that by (induction ms) auto
  have "distinct (map wk_loop (ps_all P))" using assms(1) by (simp add: site_ok_def)
  from one [OF this] assms(2) show ?thesis by (simp add: over_def)
qed

lemma over_change:
  assumes "site_ok P" and m: "m \<in> set (ps_all P)" and other: "\<And>m'. m' \<in> set (ps_all P) \<Longrightarrow> wk_loop m' \<noteq> wk_loop m \<Longrightarrow> g' (wk_loop m') = g (wk_loop m')"
  shows "over P g' + g (wk_loop m) = over P g + g' (wk_loop m)"
proof -
  let ?one = "\<lambda>c l. if l = wk_loop m then c else 0 :: nat"
  have "over P (\<lambda>l. g' l + ?one (g (wk_loop m)) l) = over P (\<lambda>l. g l + ?one (g' (wk_loop m)) l)"
    using other by (intro over_eq) (metis add.commute add.right_neutral)
  then show ?thesis by (simp only: over_add over_only [OF assms(1,2)])
qed

text \<open>The four parts of the measure: active channels to be handled, functors to be run (a removal
  counts for the destruction it queues), threads that will take their queue, and the place of
  each thread in its pass.\<close>

fun at_channels :: "'f thread_at \<Rightarrow> nat" where
  "at_channels (At_dispatch cs) = length cs"
| "at_channels _ = 0"

fun at_place :: "'f thread_at \<Rightarrow> nat" where
  "at_place (At_call fs ds) = length ds + 4"
| "at_place (At_drop ds) = length ds + 3"
| "at_place At_loop = 3"
| "at_place At_poll = 2"
| "at_place (At_dispatch cs) = 1"
| "at_place At_end = 0"

fun work :: "'u net_functor \<Rightarrow> nat" where
  "work (Remove_connection_in_loop s a) = 2"
| "work _ = 1"

definition work_of :: "'u net_functor list \<Rightarrow> nat" where
  "work_of fs = sum_list (map work fs)"

lemma work_of_simps [simp]: "work_of [] = 0" "work_of (f # fs) = work f + work_of fs" "work_of (fs @ gs) = work_of fs + work_of gs"
  by (simp_all add: work_of_def)

definition unhandled :: "pool_site \<Rightarrow> pool_state \<Rightarrow> nat" where
  "unhandled P x = over P (\<lambda>l. at_channels (pl_at x l))"

definition work_left :: "pool_site \<Rightarrow> pool_state \<Rightarrow> nat" where
  "work_left P x = over P (\<lambda>l. work_of (waiting (pl_at x) (pl_net x) l))"

definition takes :: "pool_state \<Rightarrow> addr \<Rightarrow> nat" where
  "takes x l = (if (\<exists>cs. pl_at x l = At_dispatch cs) \<or> pending (pl_net x) l \<noteq> [] then 1 else 0)"

definition drain_order :: "pool_site \<Rightarrow> (pool_state \<times> pool_state) set" where
  "drain_order P = measures [unhandled P, work_left P, \<lambda>x. over P (takes x), \<lambda>x. over P (\<lambda>l. at_place (pl_at x l))]"

lemma pending_put_loop [simp]: "pending (put_loop l el w) = (pending w)(l := el_pending_functors el)"
  by (simp add: pending_def fun_eq_iff)

lemma pending_channels [simp]: "pending (w\<lparr>rx_channels := st\<rparr>) = pending w"
  by (simp add: pending_def fun_eq_iff)

text \<open>A step that changes the place of one thread and its queue, without running a functor.\<close>

lemma drain_move:
  assumes P: "site_ok P" "m \<in> set (ps_all P)"
    and pend: "\<And>l. l \<noteq> wk_loop m \<Longrightarrow> pending w' l = pending (pl_net x) l"
    and wait: "waiting (pl_at (move (wk_loop m) pc x w')) w' (wk_loop m) = waiting (pl_at x) (pl_net x) (wk_loop m)"
    and ch: "at_channels pc = at_channels (pl_at x (wk_loop m))"
    and less: "takes (move (wk_loop m) pc x w') (wk_loop m) < takes x (wk_loop m) \<or>
      takes (move (wk_loop m) pc x w') (wk_loop m) = takes x (wk_loop m) \<and> at_place pc < at_place (pl_at x (wk_loop m))"
  shows "(move (wk_loop m) pc x w', x) \<in> drain_order P" "unhandled P (move (wk_loop m) pc x w') = unhandled P x"
proof -
  let ?x = "move (wk_loop m) pc x w'" and ?l = "wk_loop m"
  have u: "unhandled P ?x = unhandled P x" unfolding unhandled_def using ch by (intro over_eq) simp
  have "work_left P ?x = work_left P x" unfolding work_left_def
  proof (rule over_eq)
    fix m' show "work_of (waiting (pl_at ?x) (pl_net ?x) (wk_loop m')) = work_of (waiting (pl_at x) (pl_net x) (wk_loop m'))"
      using wait pend by (cases "wk_loop m' = ?l") (simp_all add: waiting_def del: work_of_simps)
  qed
  moreover have "over P (takes ?x) + takes x ?l = over P (takes x) + takes ?x ?l"
    by (rule over_change [OF P]) (use pend in \<open>simp add: takes_def\<close>)
  moreover have "over P (\<lambda>l. at_place (pl_at ?x l)) + at_place (pl_at x ?l) = over P (\<lambda>l. at_place (pl_at x l)) + at_place pc"
    using over_change [OF P, of "\<lambda>l. at_place (pl_at ?x l)" "\<lambda>l. at_place (pl_at x l)"] by simp
  ultimately show "(?x, x) \<in> drain_order P" using less u by (auto simp: drain_order_def)
  show "unhandled P ?x = unhandled P x" by (rule u)
qed

lemma drain_handle:
  assumes P: "site_ok P" "m \<in> set (ps_all P)" and at: "pl_at x (wk_loop m) = At_dispatch (c # cs)"
  shows "(move (wk_loop m) (At_dispatch cs) x w', x) \<in> drain_order P" "unhandled P x = Suc (unhandled P (move (wk_loop m) (At_dispatch cs) x w'))"
proof -
  let ?x = "move (wk_loop m) (At_dispatch cs) x w'"
  show u: "unhandled P x = Suc (unhandled P ?x)"
    using over_change [OF P, of "\<lambda>l. at_channels (pl_at ?x l)" "\<lambda>l. at_channels (pl_at x l)"] at by (simp add: unhandled_def)
  then show "(?x, x) \<in> drain_order P" by (simp add: drain_order_def)
qed

text \<open>A functor makes less work than it was.\<close>

lemma follow_up_work:
  assumes "site_ok P" and "follow_up f y"
  shows "over P (\<lambda>l. work_of (job_at y l)) < work f"
proof (cases y)
  case None
  then show ?thesis by (cases f) (simp_all add: over_def)
next
  case (Some z)
  with assms(2) obtain s a l where f: "f = Remove_connection_in_loop s a" "y = Some (l, Connect_destoryed a)" by (auto simp: follow_up_def)
  have "over P (\<lambda>l'. work_of (job_at y l')) \<le> 1"
  proof (cases "\<exists>m \<in> set (ps_all P). wk_loop m = l")
    case True
    then obtain m where m: "m \<in> set (ps_all P)" "wk_loop m = l" by blast
    have "over P (\<lambda>l'. work_of (job_at y l')) = over P (\<lambda>l'. if l' = wk_loop m then 1 else 0)"
      by (rule over_eq) (simp add: f m(2))
    then show ?thesis by (simp add: over_only [OF assms(1) m(1)])
  next
    case False
    then have "over P (\<lambda>l'. work_of (job_at y l')) = over P (\<lambda>_. 0)" by (intro over_eq) (auto simp: f)
    also have "\<dots> = 0" by (simp add: over_def)
    finally show ?thesis by simp
  qed
  then show ?thesis by (simp add: f(1))
qed

lemma drain_functor:
  assumes P: "site_ok P" "m \<in> set (ps_all P)" "loops_ok P (pl_at x) (pl_net x)" and at: "pl_at x (wk_loop m) = At_call (f # fs) ds"
    and g: "loops_grow (job_at y) (pl_net x) w'" "follow_up f y"
  shows "(move (wk_loop m) (At_call fs (ds @ [f])) x w', x) \<in> drain_order P"
    "unhandled P (move (wk_loop m) (At_call fs (ds @ [f])) x w') = unhandled P x"
proof -
  let ?l = "wk_loop m" and ?x = "move (wk_loop m) (At_call fs (ds @ [f])) x w'"
  let ?g = "\<lambda>l. work_of (at_todo (pl_at ?x l) @ pending (pl_net x) l)"
  have "work_left P ?x = over P (\<lambda>l. ?g l + work_of (job_at y l))"
    unfolding work_left_def waiting_def by (rule over_eq) (simp add: loops_grow_pending [OF P(3) g(1)])
  moreover have "over P ?g + work_of (waiting (pl_at x) (pl_net x) ?l) = work_left P x + ?g ?l"
    unfolding work_left_def by (rule over_change [OF P(1,2)]) (simp add: waiting_def)
  ultimately have "work_left P ?x < work_left P x" using follow_up_work [OF P(1) g(2)] at by (simp add: over_add waiting_def)
  moreover show "unhandled P ?x = unhandled P x" unfolding unhandled_def using at by (intro over_eq) simp
  ultimately show "(?x, x) \<in> drain_order P" by (simp add: drain_order_def)
qed

section \<open>Every step goes down\<close>

lemma quiet_poll:
  assumes "rx_loops (pl_net x) (wk_loop m) = Some el" and "\<not> el_quit el" and "pl_at x (wk_loop m) = At_poll"
  shows "thread_act k fresh p P m None x = Inr (move (wk_loop m) (At_dispatch []) x
    (put_loop (wk_loop m) (el\<lparr>el_active_channels := [], el_event_handing := True\<rparr>) (pl_net x)))"
  using assms by (simp add: thread_act_def Let_def Epoller_poll_def)

lemma act_drains:
  assumes R: "pool_ok P n None st cs (pl_at x) (pl_net x)" and m: "m \<in> set (ps_all P)" and busy: "\<not> thread_idle m x"
    and act: "thread_act k fresh p P m None x = Inr x'"
  shows "(x', x) \<in> drain_order P \<and> unhandled P x' + handles m x = unhandled P x"
proof -
  note D = pool_okD [OF R]
  let ?l = "wk_loop m"
  from loops_okE [OF D(3) m] obtain el where el: "rx_loops (pl_net x) ?l = Some el" "loop_at m (pl_at x ?l) el" .
  have pend: "pending (pl_net x) ?l = el_pending_functors el" by (simp add: pending_def el(1))
  have step: ?thesis if "x' = move ?l pc x (put_loop ?l el' (pl_net x))" "at_todo pc @ el_pending_functors el' = waiting (pl_at x) (pl_net x) ?l"
    "at_channels pc = at_channels (pl_at x ?l)" "handles m x = 0"
    "takes (move ?l pc x (put_loop ?l el' (pl_net x))) ?l < takes x ?l \<or>
     takes (move ?l pc x (put_loop ?l el' (pl_net x))) ?l = takes x ?l \<and> at_place pc < at_place (pl_at x ?l)" for pc el'
    using drain_move [OF D(1) m, of "put_loop ?l el' (pl_net x)" x pc] that by (auto simp: waiting_def)
  have same: "put_loop ?l el (pl_net x) = pl_net x" using el(1) by (simp add: put_loop_def fun_upd_idem)
  show ?thesis
  proof (cases "pl_at x ?l")
    case At_loop
    then have "x' = move ?l At_poll x (put_loop ?l (el\<lparr>el_looping := True, el_quit := False\<rparr>) (pl_net x))"
      using act el(1) by (auto simp: thread_act_def Let_def bindE_Inr_iff)
    then show ?thesis by (rule step) (use At_loop in \<open>simp_all add: waiting_def handles_def takes_def pend\<close>)
  next
    case At_poll
    then have "x' = move ?l (At_dispatch []) x (put_loop ?l (el\<lparr>el_active_channels := [], el_event_handing := True\<rparr>) (pl_net x))"
      using act quiet_poll [OF el(1)] el(2) by (simp add: loop_at_def)
    then show ?thesis by (rule step) (use At_poll busy in \<open>simp_all add: waiting_def handles_def takes_def pend thread_idle_def\<close>)
  next
    case (At_dispatch cs)
    show ?thesis
    proof (cases cs)
      case Nil
      with At_dispatch act el(1) have "x' = move ?l (At_call (el_pending_functors el) []) x
        (put_loop ?l (el\<lparr>el_current_active_channel := None, el_event_handing := False, el_calling_pending_functors := True, el_pending_functors := []\<rparr>) (pl_net x))"
        by (auto simp: thread_act_def Let_def bindE_Inr_iff upd_loop_def)
      then show ?thesis by (rule step) (use At_dispatch Nil in \<open>simp_all add: waiting_def handles_def takes_def pend\<close>)
    next
      case (Cons c cs')
      with At_dispatch act obtain w' where "x' = move ?l (At_dispatch cs') x w'" by (auto simp: thread_act_def Let_def bindE_Inr_iff)
      with drain_handle [OF D(1) m] At_dispatch Cons show ?thesis by (simp add: handles_def)
    qed
  next
    case (At_call fs ds)
    show ?thesis
    proof (cases fs)
      case Nil
      with At_call act el(1) have "x' = move ?l (At_drop ds) x (put_loop ?l (el\<lparr>el_calling_pending_functors := False\<rparr>) (pl_net x))"
        by (auto simp: thread_act_def Let_def bindE_Inr_iff upd_loop_def)
      then show ?thesis by (rule step) (use At_call Nil in \<open>simp_all add: waiting_def handles_def takes_def pend\<close>)
    next
      case (Cons f gs)
      with act_functor [OF R m, of f gs ds k fresh p None] At_call act obtain w' y where
        "x' = move ?l (At_call gs (ds @ [f])) x w'" "loops_grow (job_at y) (pl_net x) w'" "follow_up f y" by auto
      with drain_functor [OF D(1) m D(3)] At_call Cons show ?thesis by (simp add: handles_def)
    qed
  next
    case (At_drop fs)
    show ?thesis
    proof (cases fs)
      case Nil
      with At_drop act have "x' = move ?l At_poll x (put_loop ?l el (pl_net x))" by (simp add: thread_act_def Let_def same)
      then show ?thesis by (rule step) (use At_drop Nil in \<open>simp_all add: waiting_def handles_def takes_def pend\<close>)
    next
      case (Cons f gs)
      with act_drop [OF R m, of f gs k fresh p None] At_drop act obtain w' where
        w': "x' = move ?l (At_drop gs) x w'" "rx_loops w' = rx_loops (pl_net x)" by auto
      then have "pending w' = pending (pl_net x)" by (simp add: pending_def fun_eq_iff)
      with drain_move [OF D(1) m, of w' x "At_drop gs"] At_drop Cons w'(1) show ?thesis
        by (simp add: waiting_def takes_def handles_def)
    qed
  qed (use el(2) in \<open>simp add: loop_at_def\<close>)
qed

section \<open>Coming to rest\<close>

definition drains :: "pool_site \<Rightarrow> pool_state \<Rightarrow> bool" where
  "drains P x \<longleftrightarrow> (\<exists>n. state_ok P n x \<and> 8 + Suc (n + unhandled P x) * kExtraBuf \<le> vector_max_size)"

lemma quiet_act_drains:
  assumes k: "pool_kernel k P" "fresh_ok fresh" and x: "drains P x" and act: "quiet_act k fresh p P x x'"
  shows "drains P x'" "(x', x) \<in> drain_order P"
proof -
  from x obtain n where n: "state_ok P n x" "8 + Suc (n + unhandled P x) * kExtraBuf \<le> vector_max_size" unfolding drains_def by blast
  from act obtain m where m: "m \<in> set (ps_all P)" "\<not> thread_idle m x" "thread_act k fresh p P m None x = Inr x'" unfolding quiet_act_def by blast
  from n(1) obtain st cs where R: "pool_ok P n None st cs (pl_at x) (pl_net x)" unfolding state_ok_def by blast
  note d = act_drains [OF R m]
  have "8 + Suc n * kExtraBuf \<le> vector_max_size" using n(2) by (simp add: algebra_simps)
  from act_ok [OF k n(1) m(1) _ this, of None p] m(3) have "state_ok P (n + handles m x) x'" by (simp add: report_valid_def)
  moreover have "n + handles m x + unhandled P x' = n + unhandled P x" using d by simp
  ultimately show "drains P x'" using n(2) unfolding drains_def by metis
  show "(x', x) \<in> drain_order P" using d by simp
qed

lemma quiet_acts_drain:
  "pool_kernel k P \<Longrightarrow> fresh_ok fresh \<Longrightarrow> drains P x \<Longrightarrow> (quiet_act k fresh p P)\<^sup>*\<^sup>* x x' \<Longrightarrow> drains P x'"
  by (rotate_tac 3, induction rule: rtranclp_induct) (auto intro: quiet_act_drains)

lemma quiet_acts_end:
  assumes "pool_kernel k P" "fresh_ok fresh" and "drains P (s 0)" and step: "\<And>i. quiet_act k fresh p P (s i) (s (Suc i))"
  shows False
proof -
  have "drains P (s i)" for i by (induction i) (use assms quiet_act_drains(1) in blast)+
  then have "(s (Suc i), s i) \<in> drain_order P" for i using quiet_act_drains(2) [OF assms(1,2) _ step] by blast
  moreover have "wf (drain_order P)" by (simp add: drain_order_def)
  ultimately show False by (metis wf_iff_no_infinite_down_chain)
qed

lemma drains_busy:
  assumes k: "pool_kernel k P" "fresh_ok fresh" and x: "drains P x" and busy: "\<not> at_rest P x"
  shows "\<exists>x'. quiet_act k fresh p P x x'"
proof -
  from x obtain n where n: "state_ok P n x" "8 + Suc (n + unhandled P x) * kExtraBuf \<le> vector_max_size" unfolding drains_def by blast
  then have "8 + Suc n * kExtraBuf \<le> vector_max_size" by (simp add: algebra_simps)
  from act_ok [OF k n(1) _ _ this, of _ None p] busy show ?thesis
    unfolding quiet_act_def at_rest_def list_all_iff report_valid_def by fastforce
qed

lemma rest_connected:
  assumes x: "drains P x" and rest: "at_rest P x" and a: "nx_conns (pl_net x) a = Some tc"
  shows "tc_state tc = kConnected"
proof -
  from x obtain n st cs where R: "pool_ok P n None st cs (pl_at x) (pl_net x)" unfolding drains_def state_ok_def by blast
  have "st a = Up" by (rule quiet_up [OF R a]) (use rest in \<open>auto simp: at_rest_def thread_idle_def list_all_iff\<close>)
  with up_conn(1) [OF R a] show ?thesis by simp
qed



end
