(* ===== verification/Log.thy ===== *)
theory Log
  imports Clia_Prelude
begin

text \<open>
  The logging interfaces and their simplest implementations: \<open>clia::log::Level\<close>,
  \<open>trait::Appender\<close> and \<open>trait::Logger\<close> (log/trait.h, log/trait.cc),
  \<open>StdoutAppender\<close> (log/stdout_appender.cc), \<open>SyncLogger\<close> (log/sync_logger.cc) and
  \<open>LoggerManger\<close> (log.h, log/log.cc).  The virtual functions of an appender are the
  operations of the locale \<open>log_appender\<close>, whose laws say what the loggers rely on; every
  appender of the library is an interpretation of it.
\<close>

section \<open>Levels\<close>

datatype level = kTrace | kDebug | kInfo | kWarn | kError | kFatal

fun level_value :: "level \<Rightarrow> int" where
  "level_value kTrace = 0" | "level_value kDebug = 1" | "level_value kInfo = 2"
| "level_value kWarn = 3" | "level_value kError = 4" | "level_value kFatal = 5"

lemma level_value_inject [simp]: "level_value a = level_value b \<longleftrightarrow> a = b"
  by (cases a; cases b) simp_all

instantiation level :: linorder
begin

definition less_eq_level :: "level \<Rightarrow> level \<Rightarrow> bool" where
  "less_eq_level a b \<longleftrightarrow> level_value a \<le> level_value b"

definition less_level :: "level \<Rightarrow> level \<Rightarrow> bool" where
  "less_level a b \<longleftrightarrow> level_value a < level_value b"

instance
  by standard (auto simp: less_eq_level_def less_level_def)

end

fun level_to_string :: "level \<Rightarrow> string" where
  "level_to_string kTrace = ''TRACE''"
| "level_to_string kDebug = ''DEBUG''"
| "level_to_string kInfo = ''INFO''"
| "level_to_string kWarn = ''WARN''"
| "level_to_string kError = ''ERROR''"
| "level_to_string kFatal = ''FATAL''"

lemma length_level_to_string: "length (level_to_string l) \<le> 5"
  by (cases l) simp_all

section \<open>The contract of an appender\<close>

text \<open>\<open>log\<close> of a synchronous logger; a null message is \<open>None\<close>.\<close>

definition SyncLogger_log ::
    "(string \<Rightarrow> 'a \<Rightarrow> 'a res) \<Rightarrow> ('a \<Rightarrow> 'a) \<Rightarrow> level \<Rightarrow> level \<Rightarrow> string option \<Rightarrow> 'a \<Rightarrow> 'a res" where
  "SyncLogger_log put flush logger_level lvl message s =
     (if lvl < logger_level then Inr s
      else case message of
             None \<Rightarrow> Inr s
           | Some m \<Rightarrow> if length m = 0 then Inr s else bindE (put m s) (\<lambda>s1. Inr (flush s1)))"

fun sync_log_all ::
    "(string \<Rightarrow> 'a \<Rightarrow> 'a res) \<Rightarrow> ('a \<Rightarrow> 'a) \<Rightarrow> level \<Rightarrow> (level \<times> string) list \<Rightarrow> 'a \<Rightarrow> 'a res" where
  "sync_log_all put flush lv [] s = Inr s"
| "sync_log_all put flush lv ((l, m) # ms) s =
     bindE (SyncLogger_log put flush lv l (Some m) s) (sync_log_all put flush lv ms)"

text \<open>The messages a logger of level \<open>lv\<close> lets through.\<close>

definition passed :: "level \<Rightarrow> (level \<times> string) list \<Rightarrow> string" where
  "passed lv ms = concat (map snd (filter (\<lambda>(l, m). lv \<le> l) ms))"

text \<open>\<open>written s\<close> is everything that was ever appended.\<close>

locale log_appender =
  fixes put :: "string \<Rightarrow> 'a \<Rightarrow> 'a res"
    and flush :: "'a \<Rightarrow> 'a"
    and written :: "'a \<Rightarrow> string"
    and invar :: "'a \<Rightarrow> bool"
  assumes put_ok: "invar s \<Longrightarrow> m \<noteq> [] \<Longrightarrow> \<exists>s'. put m s = Inr s' \<and> invar s' \<and> written s' = written s @ m"
    and flush_ok: "invar s \<Longrightarrow> invar (flush s) \<and> written (flush s) = written s"
begin

lemma sync_log_ok:
  assumes "invar s"
  shows "\<exists>s'. SyncLogger_log put flush lv l (Some m) s = Inr s' \<and> invar s' \<and>
    written s' = written s @ (if lv \<le> l then m else [])"
proof (cases "l < lv \<or> m = []")
  case True
  with assms show ?thesis by (auto simp: SyncLogger_log_def)
next
  case False
  with put_ok [OF assms, of m] flush_ok show ?thesis by (fastforce simp: SyncLogger_log_def)
qed

lemma sync_log_all_ok:
  "invar s \<Longrightarrow> \<exists>s'. sync_log_all put flush lv ms s = Inr s' \<and> invar s' \<and> written s' = written s @ passed lv ms"
proof (induction ms arbitrary: s)
  case Nil
  then show ?case by (simp add: passed_def)
next
  case (Cons x ms)
  obtain l m where x: "x = (l, m)" by (cases x)
  from sync_log_ok [OF Cons.prems, of lv l m] obtain s1 where s1:
    "SyncLogger_log put flush lv l (Some m) s = Inr s1" "invar s1"
    "written s1 = written s @ (if lv \<le> l then m else [])" by blast
  from Cons.IH [OF s1(2)] s1 x show ?case by (auto simp: passed_def)
qed

lemma put_list_ok:
  "invar s \<Longrightarrow> \<forall>m \<in> set ms. m \<noteq> [] \<Longrightarrow>
   \<exists>s'. foldl (\<lambda>r m. bindE r (put m)) (Inr s) ms = Inr s' \<and> invar s' \<and> written s' = written s @ concat ms"
proof (induction ms arbitrary: s)
  case (Cons m ms)
  then obtain s1 where s1: "put m s = Inr s1" "invar s1" "written s1 = written s @ m"
    using put_ok [of s m] by auto
  from Cons.IH [OF s1(2)] Cons.prems s1 show ?case by auto
qed simp

end

section \<open>Standard output\<close>

text \<open>\<open>fwrite\<close> is the number of bytes the C library accepts of a text; its result is not
  looked at.\<close>

definition StdoutAppender_append :: "(string \<Rightarrow> nat) \<Rightarrow> string \<Rightarrow> string \<Rightarrow> string res" where
  "StdoutAppender_append fwrite buf out = Inr (out @ take (fwrite buf) buf)"

definition StdoutAppender_flush :: "string \<Rightarrow> string" where
  "StdoutAppender_flush out = out"

text \<open>With a library that accepts everything, as a standard output that is not full does.\<close>

interpretation stdout_appender: log_appender "StdoutAppender_append length" StdoutAppender_flush id "\<lambda>_. True"
  by unfold_locales (simp_all add: StdoutAppender_append_def StdoutAppender_flush_def)

section \<open>The registry of loggers\<close>

text \<open>Loggers are \<open>shared_ptr\<close>s: \<open>None\<close> is the empty one.\<close>

record 'l logger_manger =
  lm_default_logger :: "'l option"
  lm_loggers :: "string \<rightharpoonup> 'l option"

definition LoggerManger_new :: "'l logger_manger" where
  "LoggerManger_new = \<lparr>lm_default_logger = None, lm_loggers = Map.empty\<rparr>"

definition LoggerManger_logger :: "string \<Rightarrow> 'l logger_manger \<Rightarrow> 'l option" where
  "LoggerManger_logger name lm =
     (case lm_loggers lm name of Some l \<Rightarrow> l | None \<Rightarrow> lm_default_logger lm)"

definition LoggerManger_set_default :: "'l option \<Rightarrow> 'l logger_manger \<Rightarrow> 'l logger_manger" where
  "LoggerManger_set_default logger lm =
     (if lm_default_logger lm = None then lm\<lparr>lm_default_logger := logger\<rparr> else lm)"

definition LoggerManger_register_logger :: "string \<Rightarrow> 'l option \<Rightarrow> 'l logger_manger \<Rightarrow> 'l logger_manger" where
  "LoggerManger_register_logger name logger lm = lm\<lparr>lm_loggers := (lm_loggers lm)(name \<mapsto> logger)\<rparr>"

datatype 'l manger_op = Set_default "'l option" | Register string "'l option"

fun run_manger_op :: "'l logger_manger \<Rightarrow> 'l manger_op \<Rightarrow> 'l logger_manger" where
  "run_manger_op lm (Set_default l) = LoggerManger_set_default l lm"
| "run_manger_op lm (Register n l) = LoggerManger_register_logger n l lm"

text \<open>The first logger that was made the default, and the last registered under a name.\<close>

fun first_default :: "'l manger_op list \<Rightarrow> 'l option" where
  "first_default [] = None"
| "first_default (Set_default (Some l) # xs) = Some l"
| "first_default (_ # xs) = first_default xs"

fun last_registered :: "string \<Rightarrow> 'l manger_op list \<Rightarrow> 'l option option" where
  "last_registered n [] = None"
| "last_registered n (Register m l # xs) =
     (case last_registered n xs of Some r \<Rightarrow> Some r | None \<Rightarrow> if m = n then Some l else None)"
| "last_registered n (_ # xs) = last_registered n xs"

lemma run_manger_default:
  "lm_default_logger (foldl run_manger_op lm xs) =
     (case lm_default_logger lm of Some l \<Rightarrow> Some l | None \<Rightarrow> first_default xs)"
proof (induction xs arbitrary: lm)
  case Nil
  then show ?case by (simp split: option.split)
next
  case (Cons x xs)
  have "first_default (x # xs) = (case x of Set_default (Some l) \<Rightarrow> Some l | _ \<Rightarrow> first_default xs)"
    by (auto split: manger_op.split option.split)
  with Cons.IH show ?case
    by (cases x) (auto simp: LoggerManger_set_default_def LoggerManger_register_logger_def split: option.split)
qed

lemma run_manger_loggers:
  "lm_loggers (foldl run_manger_op lm xs) n =
     (case last_registered n xs of Some l \<Rightarrow> Some l | None \<Rightarrow> lm_loggers lm n)"
  by (induction n xs arbitrary: lm rule: last_registered.induct)
    (auto simp: LoggerManger_set_default_def LoggerManger_register_logger_def split: option.split)

section \<open>Properties\<close>

text \<open>
  A synchronous logger on standard output writes exactly the messages of its own level and
  above, completely, in the order they were logged.
\<close>

theorem SyncLogger_stdout:
  "sync_log_all (StdoutAppender_append length) StdoutAppender_flush lv ms out = Inr (out @ passed lv ms)"
  using stdout_appender.sync_log_all_ok [of lv ms out] by simp

text \<open>
  After any sequence of calls a name is looked up to the logger last registered under it,
  and to the default logger if there is none; the default is the first non-null logger that was
  set, and later attempts to replace it are ignored.
\<close>

theorem LoggerManger_lookup:
  "LoggerManger_logger n (foldl run_manger_op LoggerManger_new ops) =
     (case last_registered n ops of Some l \<Rightarrow> l | None \<Rightarrow> first_default ops)"
  by (simp add: LoggerManger_logger_def run_manger_default run_manger_loggers LoggerManger_new_def split: option.split)

end
