(* ===== verification/Timestamp.thy ===== *)
theory Timestamp
  imports Fixed_OStream "HOL-Library.Signed_Division"
begin

text \<open>
  \<open>clia::util::Timestamp\<close> (util/timestamp.h, util/timestamp.cc): microseconds since the
  epoch as a 64-bit integer, its comparison operators (an instance of the library's linear
  orders) and its two text formats.  \<open>localtime_r\<close> is an argument; \<open>/\<close> and
  \<open>%\<close> truncate towards zero.
\<close>

section \<open>The class\<close>

datatype timestamp = Timestamp (micro_sec_since_epoch: int)

definition kMicroSecPerSec :: int where "kMicroSecPerSec = 1000 * 1000"

instantiation timestamp :: linorder
begin

definition less_eq_timestamp :: "timestamp \<Rightarrow> timestamp \<Rightarrow> bool" where
  "less_eq_timestamp a b \<longleftrightarrow> micro_sec_since_epoch a \<le> micro_sec_since_epoch b"

definition less_timestamp :: "timestamp \<Rightarrow> timestamp \<Rightarrow> bool" where
  "less_timestamp a b \<longleftrightarrow> micro_sec_since_epoch a < micro_sec_since_epoch b"

instance
  by standard (auto simp: less_eq_timestamp_def less_timestamp_def timestamp.expand)

end

definition Timestamp_sec_since_epoch :: "timestamp \<Rightarrow> int" where
  "Timestamp_sec_since_epoch ts = micro_sec_since_epoch ts sdiv kMicroSecPerSec"

text \<open>\<open>now\<close> from what \<open>gettimeofday\<close> stored; an overflow of the 64-bit product or sum is
  undefined.\<close>

definition int64 :: "int \<Rightarrow> bool" where
  "int64 i \<longleftrightarrow> - (2 ^ 63) \<le> i \<and> i < 2 ^ 63"

definition Timestamp_now :: "int \<Rightarrow> int \<Rightarrow> timestamp res" where
  "Timestamp_now tv_sec tv_usec =
     (if int64 (tv_sec * kMicroSecPerSec) \<and> int64 (tv_sec * kMicroSecPerSec + tv_usec)
      then Inr (Timestamp (tv_sec * kMicroSecPerSec + tv_usec)) else Inl Undefined_behaviour)"

section \<open>Formats\<close>

record tm =
  tm_year :: int
  tm_mon :: int
  tm_mday :: int
  tm_hour :: int
  tm_min :: int
  tm_sec :: int

text \<open>The conversions \<open>%0<w>d\<close> and \<open>%<w>d\<close> of \<open>printf\<close>.\<close>

definition pad :: "char \<Rightarrow> nat \<Rightarrow> string \<Rightarrow> string" where
  "pad c w s = replicate (w - length s) c @ s"

definition fmt_0d :: "nat \<Rightarrow> int \<Rightarrow> string" where
  "fmt_0d w i = (if i < 0 then ''-'' @ pad (CHR ''0'') (w - 1) (decimal (nat (- i)))
                 else pad (CHR ''0'') w (decimal (nat i)))"

definition fmt_d :: "nat \<Rightarrow> int \<Rightarrow> string" where
  "fmt_d w i = pad (CHR '' '') w (if i < 0 then ''-'' @ decimal (nat (- i)) else decimal (nat i))"

text \<open>The text \<open>snprintf\<close> produces.\<close>

definition Timestamp_text :: "(int \<Rightarrow> tm) \<Rightarrow> bool \<Rightarrow> timestamp \<Rightarrow> string" where
  "Timestamp_text localtime show_micro_sec ts =
     (let tm = localtime (Timestamp_sec_since_epoch ts)
      in if show_micro_sec
         then fmt_0d 4 (tm_year tm + 1900) @ ''-'' @ fmt_0d 2 (tm_mon tm + 1) @ ''-'' @ fmt_0d 2 (tm_mday tm) @ '' '' @
              fmt_0d 2 (tm_hour tm) @ '':'' @ fmt_0d 2 (tm_min tm) @ '':'' @ fmt_0d 2 (tm_sec tm) @ ''.'' @
              fmt_0d 6 (micro_sec_since_epoch ts smod kMicroSecPerSec)
         else fmt_d 4 (tm_year tm + 1900) @ fmt_0d 2 (tm_mon tm + 1) @ fmt_0d 2 (tm_mday tm) @ '' '' @
              fmt_0d 2 (tm_hour tm) @ '':'' @ fmt_0d 2 (tm_min tm) @ '':'' @ fmt_0d 2 (tm_sec tm))"

text \<open>Both overloads: into the array \<open>outbuf\<close>, with the length of the text, and as a
  string made from the first \<open>n\<close> characters of an array of 64.\<close>

definition Timestamp_to_format_str :: "(int \<Rightarrow> tm) \<Rightarrow> string \<Rightarrow> bool \<Rightarrow> timestamp \<Rightarrow> (string \<times> nat) res" where
  "Timestamp_to_format_str localtime outbuf show_micro_sec ts =
     (let text = Timestamp_text localtime show_micro_sec ts
      in bindE (snprintf_write outbuf 0 (int (length outbuf)) text) (\<lambda>b. Inr (b, length text)))"

definition Timestamp_to_string :: "(int \<Rightarrow> tm) \<Rightarrow> bool \<Rightarrow> timestamp \<Rightarrow> string res" where
  "Timestamp_to_string localtime show_micro_sec ts =
     bindE (Timestamp_to_format_str localtime (replicate 64 (CHR 0x00)) show_micro_sec ts) (\<lambda>(buf, n).
       read_range buf 0 n)"

section \<open>Lengths\<close>

text \<open>What is documented of \<open>localtime_r\<close>, for years of four digits.\<close>

definition tm_ok :: "tm \<Rightarrow> bool" where
  "tm_ok tm \<longleftrightarrow> 0 \<le> tm_year tm + 1900 \<and> tm_year tm + 1900 \<le> 9999 \<and> tm_mon tm \<in> {0..11} \<and>
     tm_mday tm \<in> {1..31} \<and> tm_hour tm \<in> {0..23} \<and> tm_min tm \<in> {0..59} \<and> tm_sec tm \<in> {0..60}"

lemma length_decimal: "0 < w \<Longrightarrow> n < 10 ^ w \<Longrightarrow> length (decimal n) \<le> w"
  using length_rev_decimal [of n "w - 1"] by (simp add: decimal_def)

lemma length_fmt_0d: "0 < w \<Longrightarrow> 0 \<le> i \<Longrightarrow> i < 10 ^ w \<Longrightarrow> length (fmt_0d w i) = w"
  using length_decimal [of w "nat i"] by (simp add: fmt_0d_def pad_def nat_less_iff)

lemma length_fmt_d: "0 < w \<Longrightarrow> 0 \<le> i \<Longrightarrow> i < 10 ^ w \<Longrightarrow> length (fmt_d w i) = w"
  using length_decimal [of w "nat i"] by (simp add: fmt_d_def pad_def nat_less_iff)

lemma smod_nonneg:
  "0 \<le> i \<Longrightarrow> 0 \<le> i smod kMicroSecPerSec \<and> i smod kMicroSecPerSec < 1000000"
  by (simp add: signed_modulo_int_def kMicroSecPerSec_def sgn_if)

lemma length_Timestamp_text:
  assumes "tm_ok (localtime (Timestamp_sec_since_epoch ts))" and "0 \<le> micro_sec_since_epoch ts"
  shows "length (Timestamp_text localtime show ts) = (if show then 26 else 17)"
  using assms smod_nonneg [OF assms(2)]
  by (auto simp: Timestamp_text_def Let_def tm_ok_def length_fmt_0d length_fmt_d)

text \<open>A text that fits is stored whole, with its terminator.\<close>

lemma to_format_str_ok:
  assumes "tm_ok (localtime (Timestamp_sec_since_epoch ts))" and "0 \<le> micro_sec_since_epoch ts"
    and "(if show then 26 else 17) < length buf"
  shows "Timestamp_to_format_str localtime buf show ts =
    Inr (Timestamp_text localtime show ts @ CHR 0x00 # drop (if show then 27 else 18) buf, if show then 26 else 17)"
  using length_Timestamp_text [of localtime ts "show", OF assms(1,2)] assms(3)
  by (auto simp: Timestamp_to_format_str_def snprintf_write_def write_range_def Let_def)

section \<open>Properties\<close>

text \<open>
  For a time after the epoch whose year has four digits, both formats have a fixed length,
  so that the arrays the library uses suffice and the string made from the array is the whole
  text: nothing is cut off and nothing is read beyond it.
\<close>

theorem Timestamp_to_string_ok:
  assumes "tm_ok (localtime (Timestamp_sec_since_epoch ts))" and "0 \<le> micro_sec_since_epoch ts"
  shows "Timestamp_to_string localtime show ts = Inr (Timestamp_text localtime show ts) \<and>
    length (Timestamp_text localtime show ts) = (if show then 26 else 17)"
  using to_format_str_ok [of localtime ts "show" "replicate 64 (CHR 0x00)", OF assms]
    length_Timestamp_text [of localtime ts "show", OF assms]
  by (auto simp: Timestamp_to_string_def read_range_def)

definition new_year :: "int \<Rightarrow> tm" where
  "new_year s = \<lparr>tm_year = 125, tm_mon = 0, tm_mday = 1, tm_hour = 0, tm_min = 0, tm_sec = s mod 60\<rparr>"

theorem Timestamp_to_string_ok_witness:
  "Timestamp_to_string new_year True (Timestamp 1735689600000042) = Inr ''2025-01-01 00:00:00.000042''"
proof -
  have "tm_ok (new_year s)" for s
    using pos_mod_bound [of 60 s] by (simp add: tm_ok_def new_year_def)
  then have "Timestamp_to_string new_year True (Timestamp 1735689600000042) =
      Inr (Timestamp_text new_year True (Timestamp 1735689600000042))"
    using Timestamp_to_string_ok [of new_year "Timestamp 1735689600000042" True] by simp
  moreover have "Timestamp_text new_year True (Timestamp 1735689600000042) = ''2025-01-01 00:00:00.000042''"
    by code_simp
  ultimately show ?thesis by simp
qed

end
