(* ===== verification/Log_Event.thy ===== *)
theory Log_Event
  imports Log Timestamp
begin

text \<open>
  \<open>clia::log::Event\<close> and \<open>LargeEvent\<close> (log/event.h, log/event.cc, the macros of
  log.h): one line of the log, composed in a stream between construction and destruction.
  Its head is written by \<open>tips_message\<close>, which keeps the formatted second of the last
  line in thread-local storage and formats again only when the second changes.
\<close>

section \<open>The cached time\<close>

record time_cache =
  tl_micro_sec_pos :: nat        \<comment> \<open>\<open>kMicroSecPos\<close>\<close>
  tl_time_buf :: string          \<comment> \<open>\<open>kTimeBuf\<close>, 64 characters\<close>
  tl_last_update_sec :: int      \<comment> \<open>\<open>kLastUpdateSec\<close>\<close>

definition time_cache_init :: time_cache where
  "time_cache_init = \<lparr>tl_micro_sec_pos = 0, tl_time_buf = replicate 64 (CHR 0x00), tl_last_update_sec = 0\<rparr>"

text \<open>The characters of an array up to its terminator.\<close>

definition c_str :: "string \<Rightarrow> string res" where
  "c_str b = (if CHR 0x00 \<in> set b then Inr (takeWhile (\<lambda>c. c \<noteq> CHR 0x00) b) else Inl Out_of_bounds)"

definition micro_text :: "timestamp \<Rightarrow> string" where
  "micro_text now = ''.'' @ fmt_0d 6 (micro_sec_since_epoch now smod kMicroSecPerSec)"

definition tips_time :: "(int \<Rightarrow> tm) \<Rightarrow> timestamp \<Rightarrow> time_cache \<Rightarrow> (string \<times> time_cache) res" where
  "tips_time localtime now c =
     (let sec = Timestamp_sec_since_epoch now
      in bindE (if sec \<noteq> tl_last_update_sec c
                then bindE (Timestamp_to_format_str localtime (tl_time_buf c) False now) (\<lambda>(b, n).
                       Inr (c\<lparr>tl_time_buf := b, tl_micro_sec_pos := n, tl_last_update_sec := sec\<rparr>))
                else Inr c) (\<lambda>c1.
         bindE (write_range (tl_time_buf c1) (tl_micro_sec_pos c1) (micro_text now @ [CHR 0x00])) (\<lambda>b.
         bindE (c_str b) (\<lambda>s. Inr (s, c1\<lparr>tl_time_buf := b\<rparr>)))))"

fun tips_times :: "(int \<Rightarrow> tm) \<Rightarrow> timestamp list \<Rightarrow> time_cache \<Rightarrow> (string list \<times> time_cache) res" where
  "tips_times localtime [] c = Inr ([], c)"
| "tips_times localtime (now # nows) c =
     bindE (tips_time localtime now c) (\<lambda>(s, c1). bindE (tips_times localtime nows c1) (\<lambda>(ss, c2).
       Inr (s # ss, c2)))"

section \<open>The head of a line\<close>

text \<open>\<open>strrchr\<close> finds the last slash.\<close>

definition base_name :: "string \<Rightarrow> string" where
  "base_name file =
     (if CHR ''/'' \<in> set file then rev (takeWhile (\<lambda>c. c \<noteq> CHR ''/'') (rev file)) else file)"

definition tips_items :: "string \<Rightarrow> int \<Rightarrow> int \<Rightarrow> level \<Rightarrow> string \<Rightarrow> int \<Rightarrow> string \<Rightarrow> stream_item list" where
  "tips_items time pid tid lv file line func =
     [C_string (Some time), Char (CHR '' ''), Integral pid, Char (CHR '' ''), Integral tid, Char (CHR '' ''),
      C_string (Some (level_to_string lv)), Char (CHR '' ''), Char (CHR ''[''), C_string (Some (base_name file)),
      Char (CHR '':''), C_string (Some func), Char (CHR '':''), Integral line, C_string (Some '']::''), Char (CHR '' '')]"

text \<open>\<open>put\<close> is \<open>operator<<\<close> of the stream; null pointers are \<open>None\<close>.\<close>

definition tips_message ::
    "(stream_item list \<Rightarrow> 'o \<Rightarrow> 'o res) \<Rightarrow> (int \<Rightarrow> tm) \<Rightarrow> timestamp \<Rightarrow> int \<Rightarrow> int \<Rightarrow> level \<Rightarrow> string option \<Rightarrow> int \<Rightarrow>
     string option \<Rightarrow> 'o \<Rightarrow> time_cache \<Rightarrow> ('o \<times> time_cache) res" where
  "tips_message put localtime now pid tid lv file line func out c =
     (case (file, func) of
        (Some fl, Some fn) \<Rightarrow>
          bindE (assertE (line \<noteq> - 1)) (\<lambda>_.
          bindE (tips_time localtime now c) (\<lambda>(time, c1).
          bindE (put (tips_items time pid tid lv fl line fn) out) (\<lambda>out1. Inr (out1, c1))))
      | _ \<Rightarrow> Inl Assertion_failed)"

section \<open>Events\<close>

record event =
  ev_level :: level
  ev_stream :: ostream

text \<open>\<open>junk\<close> is what is in the 1024 bytes of the stream before.\<close>

definition Event_new ::
    "(int \<Rightarrow> tm) \<Rightarrow> timestamp \<Rightarrow> int \<Rightarrow> int \<Rightarrow> string \<Rightarrow> level \<Rightarrow> string option \<Rightarrow> int \<Rightarrow> string option \<Rightarrow> time_cache \<Rightarrow>
     (event \<times> time_cache) res" where
  "Event_new localtime now pid tid junk lv file line func c =
     bindE (tips_message FixedOStream_puts localtime now pid tid lv file line func (FixedBuffer_new junk) c) (\<lambda>(os, c1).
       Inr (\<lparr>ev_level = lv, ev_stream = os\<rparr>, c1))"

text \<open>The destructor ends the line and hands it to the logger \<open>log\<close>, if there is one.\<close>

definition Event_destroy :: "(level \<Rightarrow> string \<Rightarrow> 's \<Rightarrow> 's res) option \<Rightarrow> event \<Rightarrow> 's \<Rightarrow> 's res" where
  "Event_destroy logger ev s =
     bindE (FixedOStream_put (Char (CHR 0x0A)) (ev_stream ev)) (\<lambda>os.
       case logger of None \<Rightarrow> Inr s | Some log \<Rightarrow> log (ev_level ev) (fb_contents os) s)"

definition Event_format :: "string option \<Rightarrow> event \<Rightarrow> event res" where
  "Event_format formatted ev =
     bindE (FixedOStream_put (Formatted formatted) (ev_stream ev)) (\<lambda>os. Inr (ev\<lparr>ev_stream := os\<rparr>))"

text \<open>A logger as the macros see it: its level and its \<open>log\<close>; a null pointer is \<open>None\<close>.
  Without a logger, and below its level, a macro composes nothing.\<close>

type_synonym 's logger = "level \<times> (level \<Rightarrow> string \<Rightarrow> 's \<Rightarrow> 's res)"

definition if_enabled :: "'s logger option \<Rightarrow> level \<Rightarrow> time_cache \<Rightarrow> 's \<Rightarrow>
    ((level \<Rightarrow> string \<Rightarrow> 's \<Rightarrow> 's res) \<Rightarrow> (time_cache \<times> 's) res) \<Rightarrow> (time_cache \<times> 's) res" where
  "if_enabled logger lv c s body =
     (case logger of None \<Rightarrow> Inr (c, s) | Some (logger_level, log) \<Rightarrow> if logger_level \<le> lv then body log else Inr (c, s))"

text \<open>\<open>CLIA_LOG(LOGGER, LEVEL) << items\<close> and \<open>CLIA_FMT_LOG(LOGGER, LEVEL, ...)\<close>; the
  text the format produces is an argument.\<close>

definition CLIA_LOG ::
    "(int \<Rightarrow> tm) \<Rightarrow> timestamp \<Rightarrow> int \<Rightarrow> int \<Rightarrow> string \<Rightarrow> 's logger option \<Rightarrow> level \<Rightarrow>
     string \<Rightarrow> int \<Rightarrow> string \<Rightarrow> stream_item list \<Rightarrow> time_cache \<Rightarrow> 's \<Rightarrow> (time_cache \<times> 's) res" where
  "CLIA_LOG localtime now pid tid junk logger lv file line func items c s =
     if_enabled logger lv c s (\<lambda>log.
       bindE (Event_new localtime now pid tid junk lv (Some file) line (Some func) c) (\<lambda>(ev, c1).
       bindE (FixedOStream_puts items (ev_stream ev)) (\<lambda>os.
       bindE (Event_destroy (Some log) (ev\<lparr>ev_stream := os\<rparr>) s) (\<lambda>s1. Inr (c1, s1)))))"

definition CLIA_FMT_LOG ::
    "(int \<Rightarrow> tm) \<Rightarrow> timestamp \<Rightarrow> int \<Rightarrow> int \<Rightarrow> string \<Rightarrow> 's logger option \<Rightarrow> level \<Rightarrow>
     string \<Rightarrow> int \<Rightarrow> string \<Rightarrow> string option \<Rightarrow> time_cache \<Rightarrow> 's \<Rightarrow> (time_cache \<times> 's) res" where
  "CLIA_FMT_LOG localtime now pid tid junk logger lv file line func formatted c s =
     if_enabled logger lv c s (\<lambda>log.
       bindE (Event_new localtime now pid tid junk lv (Some file) line (Some func) c) (\<lambda>(ev, c1).
       bindE (Event_format formatted ev) (\<lambda>ev1.
       bindE (Event_destroy (Some log) ev1 s) (\<lambda>s1. Inr (c1, s1)))))"

text \<open>A \<open>LargeEvent\<close> has a \<open>std::stringstream\<close>, which grows: the stream is its text.\<close>

definition signed_decimal :: "int \<Rightarrow> string" where
  "signed_decimal v = (if v < 0 then ''-'' @ decimal (nat (- v)) else decimal (nat v))"

fun large_put :: "stream_item \<Rightarrow> string \<Rightarrow> string res" where
  "large_put (Char c) out = Inr (out @ [c])"
| "large_put (C_string s) out = (case s of None \<Rightarrow> Inl Undefined_behaviour | Some t \<Rightarrow> Inr (out @ t))"
| "large_put (Std_string s) out = Inr (out @ s)"
| "large_put (Integral v) out = Inr (out @ signed_decimal v)"
| "large_put (Formatted t) out = (case t of None \<Rightarrow> Inr out | Some s \<Rightarrow> Inr (out @ s))"

fun large_puts :: "stream_item list \<Rightarrow> string \<Rightarrow> string res" where
  "large_puts [] out = Inr out"
| "large_puts (x # xs) out = bindE (large_put x out) (large_puts xs)"

definition LargeEvent_new ::
    "(int \<Rightarrow> tm) \<Rightarrow> timestamp \<Rightarrow> int \<Rightarrow> int \<Rightarrow> level \<Rightarrow> string option \<Rightarrow> int \<Rightarrow> string option \<Rightarrow> time_cache \<Rightarrow>
     (string \<times> time_cache) res" where
  "LargeEvent_new localtime now pid tid lv file line func c =
     tips_message large_puts localtime now pid tid lv file line func [] c"

definition LargeEvent_destroy :: "(level \<Rightarrow> string \<Rightarrow> 's \<Rightarrow> 's res) option \<Rightarrow> level \<Rightarrow> string \<Rightarrow> 's \<Rightarrow> 's res" where
  "LargeEvent_destroy logger lv out s =
     bindE (large_put (Char (CHR 0x0A)) out) (\<lambda>str. case logger of None \<Rightarrow> Inr s | Some log \<Rightarrow> log lv str s)"

text \<open>\<open>vasprintf\<close> that fails is \<open>None\<close>.\<close>

definition LargeEvent_format :: "string option \<Rightarrow> string \<Rightarrow> string res" where
  "LargeEvent_format formatted out = large_put (Formatted formatted) out"

definition CLIA_LARGE_LOG ::
    "(int \<Rightarrow> tm) \<Rightarrow> timestamp \<Rightarrow> int \<Rightarrow> int \<Rightarrow> 's logger option \<Rightarrow> level \<Rightarrow>
     string \<Rightarrow> int \<Rightarrow> string \<Rightarrow> stream_item list \<Rightarrow> time_cache \<Rightarrow> 's \<Rightarrow> (time_cache \<times> 's) res" where
  "CLIA_LARGE_LOG localtime now pid tid logger lv file line func items c s =
     if_enabled logger lv c s (\<lambda>log.
       bindE (LargeEvent_new localtime now pid tid lv (Some file) line (Some func) c) (\<lambda>(out, c1).
       bindE (large_puts items out) (\<lambda>out1.
       bindE (LargeEvent_destroy (Some log) lv out1 s) (\<lambda>s1. Inr (c1, s1)))))"

definition CLIA_LARGE_FMT_LOG ::
    "(int \<Rightarrow> tm) \<Rightarrow> timestamp \<Rightarrow> int \<Rightarrow> int \<Rightarrow> 's logger option \<Rightarrow> level \<Rightarrow>
     string \<Rightarrow> int \<Rightarrow> string \<Rightarrow> string option \<Rightarrow> time_cache \<Rightarrow> 's \<Rightarrow> (time_cache \<times> 's) res" where
  "CLIA_LARGE_FMT_LOG localtime now pid tid logger lv file line func formatted c s =
     if_enabled logger lv c s (\<lambda>log.
       bindE (LargeEvent_new localtime now pid tid lv (Some file) line (Some func) c) (\<lambda>(out, c1).
       bindE (LargeEvent_format formatted out) (\<lambda>out1.
       bindE (LargeEvent_destroy (Some log) lv out1 s) (\<lambda>s1. Inr (c1, s1)))))"

section \<open>The cache is transparent\<close>

lemma no_nul_rev_decimal: "CHR 0x00 \<notin> set (rev_decimal n)"
proof (induction n rule: rev_decimal.induct)
  case (1 n)
  have "digit_char (n mod 10) \<noteq> CHR 0x00"
    using mod_less_divisor [of 10 n] by (auto simp: digit_char_def dest: arg_cong [of _ _ "of_char :: char \<Rightarrow> nat"])
  with 1 show ?case by (subst rev_decimal.simps) auto
qed

lemma no_nul [simp]: "CHR 0x00 \<notin> set (decimal n)" "CHR 0x00 \<notin> set (fmt_0d w i)" "CHR 0x00 \<notin> set (fmt_d w i)"
  using no_nul_rev_decimal by (auto simp: decimal_def fmt_0d_def fmt_d_def pad_def)

lemma no_nul_text: "CHR 0x00 \<notin> set (Timestamp_text localtime show ts)" "CHR 0x00 \<notin> set (micro_text ts)"
  by (auto simp: Timestamp_text_def micro_text_def Let_def)

lemma text_of_second:
  "Timestamp_sec_since_epoch a = Timestamp_sec_since_epoch b \<Longrightarrow>
   Timestamp_text localtime False a = Timestamp_text localtime False b"
  by (simp add: Timestamp_text_def)

text \<open>The buffer starts with the text of the second it was last updated for.\<close>

definition cache_ok :: "(int \<Rightarrow> tm) \<Rightarrow> time_cache \<Rightarrow> bool" where
  "cache_ok localtime c \<longleftrightarrow> length (tl_time_buf c) = 64 \<and>
     (tl_last_update_sec c \<noteq> 0 \<longrightarrow> tl_micro_sec_pos c = 17 \<and>
        (\<forall>ts. Timestamp_sec_since_epoch ts = tl_last_update_sec c \<longrightarrow>
              take 17 (tl_time_buf c) = Timestamp_text localtime False ts))"

definition time_ok :: "(int \<Rightarrow> tm) \<Rightarrow> timestamp \<Rightarrow> bool" where
  "time_ok localtime now \<longleftrightarrow> 0 \<le> micro_sec_since_epoch now \<and> Timestamp_sec_since_epoch now \<noteq> 0 \<and>
     tm_ok (localtime (Timestamp_sec_since_epoch now))"

lemma c_str_prefix: "CHR 0x00 \<notin> set s \<Longrightarrow> c_str (s @ CHR 0x00 # r) = Inr s"
proof -
  assume "CHR 0x00 \<notin> set s"
  then have "takeWhile (\<lambda>c. c \<noteq> CHR 0x00) (s @ CHR 0x00 # r) = s" by (induction s) auto
  then show ?thesis by (simp add: c_str_def)
qed

lemma length_micro_text: "0 \<le> micro_sec_since_epoch now \<Longrightarrow> length (micro_text now) = 7"
  using smod_nonneg [of "micro_sec_since_epoch now"] by (simp add: micro_text_def length_fmt_0d)

lemma tips_time_ok:
  assumes c: "cache_ok localtime c" and now: "time_ok localtime now"
  shows "\<exists>c'. tips_time localtime now c = Inr (Timestamp_text localtime False now @ micro_text now, c') \<and>
    cache_ok localtime c'"
proof -
  let ?text = "Timestamp_text localtime False now" and ?sec = "Timestamp_sec_since_epoch now"
  have N: "0 \<le> micro_sec_since_epoch now" "?sec \<noteq> 0" "tm_ok (localtime ?sec)"
    using now by (simp_all add: time_ok_def)
  have len: "length ?text = 17" using length_Timestamp_text [of localtime now False, OF N(3,1)] by simp
  let ?upd = "if ?sec \<noteq> tl_last_update_sec c
      then bindE (Timestamp_to_format_str localtime (tl_time_buf c) False now) (\<lambda>(b, n).
             Inr (c\<lparr>tl_time_buf := b, tl_micro_sec_pos := n, tl_last_update_sec := ?sec\<rparr>))
      else Inr c"
  obtain c1 where c1: "?upd = Inr c1" "length (tl_time_buf c1) = 64" "take 17 (tl_time_buf c1) = ?text"
    "tl_micro_sec_pos c1 = 17" "tl_last_update_sec c1 = ?sec"
  proof (cases "?sec = tl_last_update_sec c")
    case True
    then have "tl_last_update_sec c \<noteq> 0" using N(2) by simp
    then have hit: "length (tl_time_buf c) = 64" "tl_micro_sec_pos c = 17" "take 17 (tl_time_buf c) = ?text"
      using c True unfolding cache_ok_def by blast+
    show ?thesis by (rule that [of c]) (use hit True in simp_all)
  next
    case False
    have "17 < length (tl_time_buf c)" using c by (simp add: cache_ok_def)
    then have "Timestamp_to_format_str localtime (tl_time_buf c) False now =
        Inr (?text @ CHR 0x00 # drop 18 (tl_time_buf c), 17)"
      using to_format_str_ok [of localtime now False "tl_time_buf c", OF N(3,1)] by simp
    with False have upd: "?upd = Inr (c\<lparr>tl_time_buf := ?text @ CHR 0x00 # drop 18 (tl_time_buf c),
        tl_micro_sec_pos := 17, tl_last_update_sec := ?sec\<rparr>)" by simp
    show ?thesis by (rule that [OF upd]) (use c len in \<open>simp_all add: cache_ok_def\<close>)
  qed
  define b where "b = ?text @ micro_text now @ CHR 0x00 # drop 25 (tl_time_buf c1)"
  have w: "write_range (tl_time_buf c1) (tl_micro_sec_pos c1) (micro_text now @ [CHR 0x00]) = Inr b"
    using c1 length_micro_text [OF N(1)] by (simp add: write_range_def b_def)
  have "c_str b = Inr (?text @ micro_text now)"
    using c_str_prefix [of "?text @ micro_text now"] no_nul_text by (simp add: b_def)
  with c1(1) w have res: "tips_time localtime now c = Inr (?text @ micro_text now, c1\<lparr>tl_time_buf := b\<rparr>)"
    unfolding tips_time_def Let_def by simp
  moreover have "cache_ok localtime (c1\<lparr>tl_time_buf := b\<rparr>)"
  proof -
    have "length b = 64" "take 17 b = ?text" using c1(2) len length_micro_text [OF N(1)] by (simp_all add: b_def)
    then have "length (tl_time_buf (c1\<lparr>tl_time_buf := b\<rparr>)) = 64" "take 17 (tl_time_buf (c1\<lparr>tl_time_buf := b\<rparr>)) = ?text"
      "tl_micro_sec_pos (c1\<lparr>tl_time_buf := b\<rparr>) = 17" "tl_last_update_sec (c1\<lparr>tl_time_buf := b\<rparr>) = ?sec"
      using c1(4,5) by simp_all
    then show ?thesis unfolding cache_ok_def using text_of_second by metis
  qed
  ultimately show ?thesis by blast
qed

lemma tips_times_ok:
  "cache_ok localtime c \<Longrightarrow> \<forall>now \<in> set nows. time_ok localtime now \<Longrightarrow>
   \<exists>c'. tips_times localtime nows c = Inr (map (\<lambda>now. Timestamp_text localtime False now @ micro_text now) nows, c') \<and>
     cache_ok localtime c'"
proof (induction nows arbitrary: c)
  case (Cons now nows)
  then obtain c1 where "tips_time localtime now c = Inr (Timestamp_text localtime False now @ micro_text now, c1)"
    "cache_ok localtime c1" using tips_time_ok [of localtime c now] by auto
  with Cons.IH [of c1] Cons.prems show ?case by auto
qed simp

lemma cache_ok_init: "cache_ok localtime time_cache_init"
  by (simp add: cache_ok_def time_cache_init_def)

text \<open>The line that a logging macro is meant to produce.\<close>

definition log_line :: "(int \<Rightarrow> tm) \<Rightarrow> timestamp \<Rightarrow> int \<Rightarrow> int \<Rightarrow> level \<Rightarrow> string \<Rightarrow> int \<Rightarrow> string \<Rightarrow> stream_item list \<Rightarrow>
    stream_item list" where
  "log_line localtime now pid tid lv file line func items =
     tips_items (Timestamp_text localtime False now @ micro_text now) pid tid lv file line func @ items @ [Char (CHR 0x0A)]"

lemma Event_line_ok:
  assumes "cache_ok localtime c" and "time_ok localtime now" and "length junk = 1024" and "line \<noteq> - 1"
    and "items_room (log_line localtime now pid tid lv file line func items) \<le> 1024"
    and "\<forall>x \<in> set (log_line localtime now pid tid lv file line func items). item_ok x"
  shows "\<exists>c' ev os os'. cache_ok localtime c' \<and>
    Event_new localtime now pid tid junk lv (Some file) line (Some func) c = Inr (ev, c') \<and> ev_level ev = lv \<and>
    FixedOStream_puts items (ev_stream ev) = Inr os \<and> FixedOStream_put (Char (CHR 0x0A)) os = Inr os' \<and>
    fb_contents os' = items_text (log_line localtime now pid tid lv file line func items) \<and>
    tips_time localtime now c = Inr (Timestamp_text localtime False now @ micro_text now, c')"
proof -
  let ?tips = "tips_items (Timestamp_text localtime False now @ micro_text now) pid tid lv file line func"
  let ?all = "log_line localtime now pid tid lv file line func items" and ?os = "FixedBuffer_new junk"
  obtain c' where c': "tips_time localtime now c = Inr (Timestamp_text localtime False now @ micro_text now, c')"
    "cache_ok localtime c'" using tips_time_ok [OF assms(1,2)] by blast
  have inv: "fb_inv ?os" using assms(3) by (intro fb_inv_new) simp_all
  have room: "int (items_room ?all) \<le> FixedBuffer_avail ?os" using assms(3,5) by (simp add: FixedBuffer_defs)
  from puts_ok [OF inv room assms(6)] obtain os' where os': "FixedOStream_puts ?all ?os = Inr os'"
    "fb_contents os' = items_text ?all" by (auto simp: fb_contents_new)
  from os'(1) obtain os1 os2 where os: "FixedOStream_puts ?tips ?os = Inr os1" "FixedOStream_puts items os1 = Inr os2"
    "FixedOStream_put (Char (CHR 0x0A)) os2 = Inr os'" by (auto simp: log_line_def puts_append bindE_Inr_iff)
  have "Event_new localtime now pid tid junk lv (Some file) line (Some func) c = Inr (\<lparr>ev_level = lv, ev_stream = os1\<rparr>, c')"
    using c'(1) os(1) assms(4) by (simp add: Event_new_def tips_message_def)
  with c' os(2,3) os'(2) show ?thesis by force
qed

text \<open>A string stream takes everything.\<close>

lemma large_puts_ok:
  "\<forall>x \<in> set xs. item_ok x \<and> x \<noteq> C_string None \<Longrightarrow> large_puts xs out = Inr (out @ items_text xs)"
proof (induction xs arbitrary: out)
  case (Cons x xs)
  have "large_put x out = Inr (out @ item_text x)"
    using Cons.prems by (cases x) (auto simp: signed_decimal_def split: option.splits)
  with Cons show ?case by simp
qed simp

lemma large_puts_append: "large_puts (xs @ ys) out = bindE (large_puts xs out) (large_puts ys)"
proof (induction xs arbitrary: out)
  case (Cons x xs)
  then show ?case by (cases "large_put x out") simp_all
qed simp

section \<open>Properties\<close>

text \<open>
  C26. The cached time is never stale: over any sequence of lines of one thread, the time of
  each line is the full format of its own moment (date and time to the second, and the
  microseconds), as if it had been formatted afresh, whether or not the second changed, and
  the 64-byte buffer is never overrun.
\<close>

theorem tips_times_fresh:
  assumes "\<forall>now \<in> set nows. time_ok localtime now"
  shows "\<exists>c. tips_times localtime nows time_cache_init =
    Inr (map (\<lambda>now. Timestamp_text localtime False now @ micro_text now) nows, c)"
  using tips_times_ok [OF cache_ok_init assms] by blast

theorem tips_times_fresh_witness:
  "\<exists>c. tips_times new_year [Timestamp 1735689600000042, Timestamp 1735689600000043, Timestamp 1735689601000000]
         time_cache_init =
       Inr ([''20250101 00:00:00.000042'', ''20250101 00:00:00.000043'', ''20250101 00:00:01.000000''], c)"
proof -
  let ?nows = "[Timestamp 1735689600000042, Timestamp 1735689600000043, Timestamp 1735689601000000]"
  have tm: "tm_ok (new_year s)" for s
    using pos_mod_bound [of 60 s] by (simp add: tm_ok_def new_year_def)
  have sec: "Timestamp_sec_since_epoch (Timestamp 1735689600000042) \<noteq> 0"
    "Timestamp_sec_since_epoch (Timestamp 1735689600000043) \<noteq> 0"
    "Timestamp_sec_since_epoch (Timestamp 1735689601000000) \<noteq> 0" by code_simp+
  have "map (\<lambda>now. Timestamp_text new_year False now @ micro_text now) ?nows =
    [''20250101 00:00:00.000042'', ''20250101 00:00:00.000043'', ''20250101 00:00:01.000000'']" by code_simp
  with tips_times_fresh [of ?nows new_year] tm sec show ?thesis by (simp add: time_ok_def)
qed

text \<open>
  C25. A line that fits into the 1024 bytes of its stream (counting 32 bytes for a number and
  one byte beside each other item) reaches the logger whole, exactly once, with its level: the
  time, process, thread, level and place, then the items streamed, then the end of line.
  Without a logger, and below its level, nothing is composed at all.
\<close>

theorem CLIA_LOG_line:
  assumes "cache_ok localtime c" and "time_ok localtime now" and "length junk = 1024" and "line \<noteq> - 1"
    and "items_room (log_line localtime now pid tid lv file line func items) \<le> 1024"
    and "\<forall>x \<in> set (log_line localtime now pid tid lv file line func items). item_ok x"
  shows "\<exists>c'. cache_ok localtime c' \<and>
    CLIA_LOG localtime now pid tid junk logger lv file line func items c s =
      (case logger of
         Some (logger_level, log) \<Rightarrow>
           if logger_level \<le> lv
           then bindE (log lv (items_text (log_line localtime now pid tid lv file line func items)) s) (\<lambda>s1. Inr (c', s1))
           else Inr (c, s)
       | None \<Rightarrow> Inr (c, s))"
  using Event_line_ok [OF assms]
  by (auto simp: CLIA_LOG_def if_enabled_def Event_destroy_def split: option.split)

theorem CLIA_LOG_line_witness:
  "\<exists>c'. CLIA_LOG new_year (Timestamp 1735689600000042) 7 8 (replicate 1024 (CHR ''?''))
      (Some (kInfo, \<lambda>_ m out. Inr (out @ m))) kWarn ''src/main.cc'' 12 ''main'' [C_string (Some ''n=''), Integral 42]
      time_cache_init [] =
    Inr (c', ''20250101 00:00:00.000042 7 8 WARN [main.cc:main:12]:: n=42'' @ [CHR 0x0A])"
proof -
  let ?now = "Timestamp 1735689600000042" and ?items = "[C_string (Some ''n=''), Integral 42]"
  let ?all = "log_line new_year ?now 7 8 kWarn ''src/main.cc'' 12 ''main'' ?items"
  have now: "time_ok new_year ?now" by code_simp
  have room: "items_room ?all \<le> 1024" by code_simp
  have ok: "\<forall>x \<in> set ?all. item_ok x" by code_simp
  have msg: "items_text ?all = ''20250101 00:00:00.000042 7 8 WARN [main.cc:main:12]:: n=42'' @ [CHR 0x0A]" by code_simp
  have lv: "kInfo \<le> kWarn" by code_simp
  from CLIA_LOG_line [OF cache_ok_init now _ _ room ok, of "replicate 1024 (CHR ''?'')"
      "Some (kInfo, \<lambda>_ m out. Inr (out @ m))" "[]"]
    msg lv show ?thesis by auto
qed



end
