(* ===== verification/Async_Logger.thy ===== *)
theory Async_Logger
  imports Log Fixed_OStream "HOL-Library.Multiset"
begin

text \<open>
  \<open>clia::log::AsyncLogger\<close> (log/async_logger.h, log/async_logger.cc): callers append their
  messages to a large buffer under a mutex, a thread of the logger exchanges the full buffers
  for empty ones and writes them to the appender outside the mutex.  The size of a buffer,
  \<open>kBufferSize\<close> in the source, is the argument \<open>N\<close>.  The step relation
  \<open>async_step\<close> interleaves any number of callers with the thread: a caller tests
  \<open>running_\<close> and the size before it takes the mutex, so accepting a message and appending
  it are two steps.
\<close>

section \<open>State\<close>

definition kBufferSize :: nat where "kBufferSize = 4 * 1024 * 1024"

text \<open>A null \<open>unique_ptr\<close> is \<open>None\<close>.\<close>

record async_logger =
  al_level :: level
  al_current :: "ostream option"
  al_next :: "ostream option"
  al_buffers :: "ostream list"
  al_running :: bool

text \<open>The local variables of \<open>sync_thread\<close>.\<close>

record sync_thread =
  sy_new1 :: "ostream option"
  sy_new2 :: "ostream option"
  sy_write :: "ostream list"

definition new_buffer :: "nat \<Rightarrow> ostream" where
  "new_buffer N = FixedBuffer_new (replicate N (CHR 0x00))"

definition AsyncLogger_new :: "nat \<Rightarrow> level \<Rightarrow> async_logger" where
  "AsyncLogger_new N lv =
     \<lparr>al_level = lv, al_current = Some (new_buffer N), al_next = Some (new_buffer N), al_buffers = [], al_running = True\<rparr>"

definition sync_thread_start :: "nat \<Rightarrow> sync_thread" where
  "sync_thread_start N = \<lparr>sy_new1 = Some (new_buffer N), sy_new2 = Some (new_buffer N), sy_write = []\<rparr>"

section \<open>Logging\<close>

text \<open>The tests before the mutex is taken; a null message is \<open>None\<close>.\<close>

definition AsyncLogger_accepts :: "nat \<Rightarrow> level \<Rightarrow> string option \<Rightarrow> async_logger \<Rightarrow> bool" where
  "AsyncLogger_accepts N lv message lg \<longleftrightarrow>
     (case message of
        None \<Rightarrow> False
      | Some m \<Rightarrow> \<not> (lv < al_level lg \<or> length m = 0 \<or> N < length m \<or> \<not> al_running lg))"

text \<open>What happens under the mutex.\<close>

definition AsyncLogger_append :: "nat \<Rightarrow> string \<Rightarrow> async_logger \<Rightarrow> async_logger res" where
  "AsyncLogger_append N m lg =
     (case al_current lg of
        None \<Rightarrow> Inl Undefined_behaviour
      | Some cur \<Rightarrow>
          if length m < size_of_int (FixedBuffer_avail cur)
          then bindE (FixedBuffer_append True m cur) (\<lambda>b. Inr (lg\<lparr>al_current := Some b\<rparr>))
          else bindE (FixedBuffer_append True m (case al_next lg of Some b \<Rightarrow> b | None \<Rightarrow> new_buffer N)) (\<lambda>b.
                 Inr (lg\<lparr>al_buffers := al_buffers lg @ [cur], al_current := Some b, al_next := None\<rparr>)))"

definition AsyncLogger_log :: "nat \<Rightarrow> level \<Rightarrow> string option \<Rightarrow> async_logger \<Rightarrow> async_logger res" where
  "AsyncLogger_log N lv message lg =
     (if AsyncLogger_accepts N lv message lg
      then case message of None \<Rightarrow> Inr lg | Some m \<Rightarrow> AsyncLogger_append N m lg
      else Inr lg)"

section \<open>The writing thread\<close>

text \<open>The condition of the loop.\<close>

definition sync_continues :: "async_logger \<Rightarrow> bool" where
  "sync_continues lg \<longleftrightarrow> al_running lg \<or>
     (case al_current lg of None \<Rightarrow> False | Some b \<Rightarrow> FixedBuffer_size b \<noteq> 0)"

definition is_empty_buffer :: "ostream option \<Rightarrow> bool" where
  "is_empty_buffer b \<longleftrightarrow> (case b of None \<Rightarrow> False | Some x \<Rightarrow> FixedBuffer_size x = 0)"

text \<open>The first half of the body, up to the end of the critical section.\<close>

definition AsyncLogger_sync_take :: "async_logger \<times> sync_thread \<Rightarrow> (async_logger \<times> sync_thread) res" where
  "AsyncLogger_sync_take = (\<lambda>(lg, sy).
     bindE (assertE (is_empty_buffer (sy_new1 sy))) (\<lambda>_.
     bindE (assertE (is_empty_buffer (sy_new2 sy))) (\<lambda>_.
     bindE (assertE (sy_write sy = [])) (\<lambda>_.
       case al_current lg of
         None \<Rightarrow> Inl Undefined_behaviour
       | Some cur \<Rightarrow>
           Inr (lg\<lparr>al_buffers := [], al_current := sy_new1 sy,
                   al_next := (case al_next lg of Some b \<Rightarrow> Some b | None \<Rightarrow> sy_new2 sy)\<rparr>,
                \<lparr>sy_new1 = None,
                 sy_new2 = (case al_next lg of Some b \<Rightarrow> sy_new2 sy | None \<Rightarrow> None),
                 sy_write = al_buffers lg @ [cur]\<rparr>)))))"

text \<open>The second half: the notice when buffers are dropped (\<open>time\<close> is the formatted time),
  the writes, and the reuse of two buffers.\<close>

definition dropped_notice :: "string \<Rightarrow> nat \<Rightarrow> string" where
  "dropped_notice time n = ''Dropped log messages at '' @ time @ '', '' @ decimal (n - 2) @ '' larger buffers'' @ [CHR 0x0A]"

fun put_buffers :: "(string \<Rightarrow> 'a \<Rightarrow> 'a res) \<Rightarrow> ostream list \<Rightarrow> 'a \<Rightarrow> 'a res" where
  "put_buffers put [] s = Inr s"
| "put_buffers put (b # bs) s =
     bindE (if FixedBuffer_size b \<le> 0 then Inr s else put (fb_contents b) s) (put_buffers put bs)"

text \<open>Refilling one of the two spare buffers from the back of the written ones.\<close>

definition refill :: "ostream option \<Rightarrow> ostream list \<Rightarrow> (ostream option \<times> ostream list) res" where
  "refill spare bs =
     (case spare of
        Some b \<Rightarrow> Inr (Some b, bs)
      | None \<Rightarrow> bindE (assertE (bs \<noteq> [])) (\<lambda>_. Inr (Some (FixedBuffer_reset (last bs)), butlast bs)))"

definition AsyncLogger_sync_write ::
    "(string \<Rightarrow> 'a \<Rightarrow> 'a res) \<Rightarrow> ('a \<Rightarrow> 'a) \<Rightarrow> string \<Rightarrow> sync_thread \<times> 'a \<Rightarrow> (sync_thread \<times> 'a) res" where
  "AsyncLogger_sync_write put flush time = (\<lambda>(sy, s).
     bindE (assertE (sy_write sy \<noteq> [])) (\<lambda>_.
     bindE (if 25 < length (sy_write sy) then put (dropped_notice time (length (sy_write sy))) s else Inr s) (\<lambda>s1.
     let bs = (if 25 < length (sy_write sy) then take 2 (sy_write sy) else sy_write sy)
     in bindE (put_buffers put bs s1) (\<lambda>s2.
        bindE (refill (sy_new1 sy) bs) (\<lambda>(n1, bs1).
        bindE (refill (sy_new2 sy) bs1) (\<lambda>(n2, bs2).
          Inr (\<lparr>sy_new1 = n1, sy_new2 = n2, sy_write = []\<rparr>, flush s2)))))))"

section \<open>Interleaving\<close>

datatype sync_pc = Testing | Writing | Exited

text \<open>\<open>as_accepted\<close>: messages of callers between the tests and the mutex.  \<open>as_logged\<close>
  is the history of what was appended, \<open>as_dropped\<close> whether buffers were ever dropped.\<close>

record 'a async_sys =
  as_logger :: async_logger
  as_thread :: sync_thread
  as_appender :: 'a
  as_pc :: sync_pc
  as_accepted :: "string multiset"
  as_logged :: "string list"
  as_dropped :: bool

definition async_start :: "nat \<Rightarrow> level \<Rightarrow> 'a \<Rightarrow> 'a async_sys" where
  "async_start N lv s = \<lparr>as_logger = AsyncLogger_new N lv, as_thread = sync_thread_start N, as_appender = s,
     as_pc = Testing, as_accepted = {#}, as_logged = [], as_dropped = False\<rparr>"

inductive async_step :: "(string \<Rightarrow> 'a \<Rightarrow> 'a res) \<Rightarrow> ('a \<Rightarrow> 'a) \<Rightarrow> nat \<Rightarrow> 'a async_sys \<Rightarrow> 'a async_sys \<Rightarrow> bool"
  for put flush N where
  accept: "AsyncLogger_accepts N lv (Some m) (as_logger x) \<Longrightarrow>
    async_step put flush N x (x\<lparr>as_accepted := add_mset m (as_accepted x)\<rparr>)"
| append: "m \<in># as_accepted x \<Longrightarrow> AsyncLogger_append N m (as_logger x) = Inr lg \<Longrightarrow>
    async_step put flush N x (x\<lparr>as_logger := lg, as_accepted := as_accepted x - {#m#}, as_logged := as_logged x @ [m]\<rparr>)"
| stop: "async_step put flush N x (x\<lparr>as_logger := (as_logger x)\<lparr>al_running := False\<rparr>\<rparr>)"
| take: "as_pc x = Testing \<Longrightarrow> sync_continues (as_logger x) \<Longrightarrow>
    AsyncLogger_sync_take (as_logger x, as_thread x) = Inr (lg, sy) \<Longrightarrow>
    async_step put flush N x (x\<lparr>as_logger := lg, as_thread := sy, as_pc := Writing\<rparr>)"
| leave: "as_pc x = Testing \<Longrightarrow> \<not> sync_continues (as_logger x) \<Longrightarrow>
    async_step put flush N x (x\<lparr>as_pc := Exited, as_appender := flush (as_appender x)\<rparr>)"
| wrote: "as_pc x = Writing \<Longrightarrow> AsyncLogger_sync_write put flush time (as_thread x, as_appender x) = Inr (sy, s) \<Longrightarrow>
    async_step put flush N x (x\<lparr>as_thread := sy, as_appender := s, as_pc := Testing,
      as_dropped := as_dropped x \<or> 25 < length (sy_write (as_thread x))\<rparr>)"

inductive_cases async_stepE: "async_step put flush N x y"

section \<open>Invariant\<close>

definition buf_ok :: "nat \<Rightarrow> ostream \<Rightarrow> bool" where
  "buf_ok N b \<longleftrightarrow> fb_inv b \<and> length (fb_data b) = N"

definition spare_ok :: "nat \<Rightarrow> ostream option \<Rightarrow> bool" where
  "spare_ok N sp \<longleftrightarrow> (\<forall>b. sp = Some b \<longrightarrow> buf_ok N b \<and> fb_contents b = [])"

text \<open>A caller that filled a buffer has put something into the next one, and the thread
  finds at least two buffers whenever the second spare was used up.\<close>

definition al_inv :: "nat \<Rightarrow> async_logger \<Rightarrow> bool" where
  "al_inv N lg \<longleftrightarrow>
     (\<exists>cur. al_current lg = Some cur \<and> buf_ok N cur \<and> (al_buffers lg \<noteq> [] \<longrightarrow> fb_contents cur \<noteq> [])) \<and>
     spare_ok N (al_next lg) \<and> (\<forall>b \<in> set (al_buffers lg). buf_ok N b) \<and>
     (al_next lg = None \<longrightarrow> al_buffers lg \<noteq> [])"

definition sy_inv :: "nat \<Rightarrow> sync_pc \<Rightarrow> sync_thread \<Rightarrow> bool" where
  "sy_inv N pc sy \<longleftrightarrow> spare_ok N (sy_new1 sy) \<and> spare_ok N (sy_new2 sy) \<and> (\<forall>b \<in> set (sy_write sy). buf_ok N b) \<and>
     (if pc = Writing
      then sy_write sy \<noteq> [] \<and> sy_new1 sy = None \<and> (sy_new2 sy = None \<longrightarrow> 2 \<le> length (sy_write sy))
      else sy_write sy = [] \<and> sy_new1 sy \<noteq> None \<and> sy_new2 sy \<noteq> None)"

definition buffered :: "ostream list \<Rightarrow> string" where
  "buffered bs = concat (map fb_contents bs)"

definition in_logger :: "async_logger \<Rightarrow> string" where
  "in_logger lg = buffered (al_buffers lg) @ (case al_current lg of None \<Rightarrow> [] | Some b \<Rightarrow> fb_contents b)"

lemma buffered_simps [simp]: "buffered [] = []" "buffered (b # bs) = fb_contents b @ buffered bs"
  "buffered (bs @ cs) = buffered bs @ buffered cs"
  by (simp_all add: buffered_def)

lemma new_buffer_ok: "0 < N \<Longrightarrow> N < 2 ^ 31 \<Longrightarrow> buf_ok N (new_buffer N) \<and> fb_contents (new_buffer N) = []"
  using fb_inv_new [of "replicate N (CHR 0x00)"]
  by (simp add: buf_ok_def new_buffer_def fb_contents_new) (simp add: FixedBuffer_defs)

lemma size_contents: "buf_ok N b \<Longrightarrow> FixedBuffer_size b = int (length (fb_contents b))"
  by (simp add: buf_ok_def FixedBuffer_size_def)

lemma avail_contents_N: "buf_ok N b \<Longrightarrow> FixedBuffer_avail b = int N - int (length (fb_contents b))"
  by (simp add: buf_ok_def FixedBuffer_avail_def)

lemma append_buf_ok:
  assumes "buf_ok N b" and "length (fb_contents b) + length m < N"
  shows "\<exists>b'. FixedBuffer_append True m b = Inr b' \<and> buf_ok N b' \<and> fb_contents b' = fb_contents b @ m"
  using append_ok [of b m True] assms avail_contents_N [OF assms(1)] by (auto simp: buf_ok_def)

text \<open>Appending a message below the size of a buffer always succeeds.\<close>

lemma AsyncLogger_append_ok:
  assumes N: "0 < N" "N < 2 ^ 31" and inv: "al_inv N lg" and m: "m \<noteq> []" "length m < N"
  shows "\<exists>lg'. AsyncLogger_append N m lg = Inr lg' \<and> al_inv N lg' \<and> in_logger lg' = in_logger lg @ m \<and>
    al_running lg' = al_running lg"
proof -
  obtain cur where cur: "al_current lg = Some cur" "buf_ok N cur" using inv by (auto simp: al_inv_def)
  have av: "size_of_int (FixedBuffer_avail cur) = N - length (fb_contents cur)"
    using cur(2) avail_size_t by (auto simp: buf_ok_def)
  show ?thesis
  proof (cases "length m < size_of_int (FixedBuffer_avail cur)")
    case True
    with av have "length (fb_contents cur) + length m < N" by simp
    from append_buf_ok [OF cur(2) this] True cur inv m show ?thesis
      by (auto simp: AsyncLogger_append_def al_inv_def in_logger_def)
  next
    case False
    let ?b = "case al_next lg of Some b \<Rightarrow> b | None \<Rightarrow> new_buffer N"
    have b: "buf_ok N ?b" "fb_contents ?b = []"
      using inv new_buffer_ok [OF N] by (auto simp: al_inv_def spare_ok_def split: option.split)
    from append_buf_ok [OF b(1), of m] b(2) m False cur inv show ?thesis
      by (auto simp: AsyncLogger_append_def al_inv_def in_logger_def spare_ok_def)
  qed
qed

lemma sync_take_ok:
  assumes "al_inv N lg" and "sy_inv N Testing sy"
  shows "\<exists>lg' sy'. AsyncLogger_sync_take (lg, sy) = Inr (lg', sy') \<and> al_inv N lg' \<and> sy_inv N Writing sy' \<and>
    in_logger lg' = [] \<and> buffered (sy_write sy') = in_logger lg \<and> al_running lg' = al_running lg"
proof -
  obtain cur where cur: "al_current lg = Some cur" "buf_ok N cur" using assms(1) by (auto simp: al_inv_def)
  obtain n1 n2 where n: "sy_new1 sy = Some n1" "sy_new2 sy = Some n2" "buf_ok N n1" "buf_ok N n2"
    "fb_contents n1 = []" "fb_contents n2 = []" "sy_write sy = []"
    using assms(2) by (auto simp: sy_inv_def spare_ok_def)
  have z: "FixedBuffer_size n1 = 0" "FixedBuffer_size n2 = 0"
    using size_contents n by fastforce+
  show ?thesis
  proof (cases "al_next lg")
    case None
    then have "al_buffers lg \<noteq> []" using assms(1) by (simp add: al_inv_def)
    then have "2 \<le> length (al_buffers lg @ [cur])" by (cases "al_buffers lg") simp_all
    with None cur n z assms(1) show ?thesis
      by (auto simp: AsyncLogger_sync_take_def is_empty_buffer_def al_inv_def sy_inv_def spare_ok_def in_logger_def)
  next
    case (Some b)
    with cur n z assms(1) show ?thesis
      by (auto simp: AsyncLogger_sync_take_def is_empty_buffer_def al_inv_def sy_inv_def spare_ok_def in_logger_def)
  qed
qed

lemma refill_ok:
  assumes "spare_ok N sp" and "\<forall>b \<in> set bs. buf_ok N b" and "sp = None \<longrightarrow> bs \<noteq> []"
  shows "\<exists>b bs'. refill sp bs = Inr (Some b, bs') \<and> buf_ok N b \<and> fb_contents b = [] \<and>
    (\<forall>b \<in> set bs'. buf_ok N b) \<and> length bs' = length bs - (if sp = None then 1 else 0)"
proof (cases sp)
  case None
  then have "last bs \<in> set bs" "bs \<noteq> []" using assms(3) by simp_all
  with None assms(2) fb_reset [of "last bs"] show ?thesis
    by (auto simp: refill_def buf_ok_def dest: in_set_butlastD)
next
  case (Some b)
  with assms show ?thesis by (auto simp: refill_def spare_ok_def)
qed

lemma append_oversized:
  assumes "0 < N" "N < 2 ^ 31" and inv: "al_inv N lg" and m: "length m = N"
  shows "AsyncLogger_append N m lg = Inl Assertion_failed"
proof -
  obtain cur where cur: "al_current lg = Some cur" "buf_ok N cur" using inv by (auto simp: al_inv_def)
  let ?b = "case al_next lg of Some b \<Rightarrow> b | None \<Rightarrow> new_buffer N"
  have b: "buf_ok N ?b" "fb_contents ?b = []"
    using inv new_buffer_ok [OF assms(1,2)] by (auto simp: al_inv_def spare_ok_def split: option.split)
  have "\<not> length m < size_of_int (FixedBuffer_avail cur)"
    using cur(2) avail_size_t [of cur] m by (simp add: buf_ok_def)
  moreover have "FixedBuffer_append True m ?b = Inl Assertion_failed"
    using append_full [of ?b m True] b avail_contents_N [OF b(1)] m by (simp add: buf_ok_def)
  ultimately show ?thesis using cur(1) by (simp add: AsyncLogger_append_def)
qed

text \<open>The whole system, over the appender's contract.\<close>

definition async_inv :: "('a \<Rightarrow> string) \<Rightarrow> ('a \<Rightarrow> bool) \<Rightarrow> nat \<Rightarrow> string \<Rightarrow> 'a async_sys \<Rightarrow> bool" where
  "async_inv written invar N w0 x \<longleftrightarrow>
     al_inv N (as_logger x) \<and> sy_inv N (as_pc x) (as_thread x) \<and> invar (as_appender x) \<and>
     (\<forall>m \<in># as_accepted x. m \<noteq> [] \<and> length m \<le> N) \<and>
     (\<not> as_dropped x \<longrightarrow> written (as_appender x) @ buffered (sy_write (as_thread x)) @ in_logger (as_logger x) =
        w0 @ concat (as_logged x))"

text \<open>On top of any appender that keeps the contract.\<close>

context log_appender
begin

lemma put_buffers_ok:
  "invar s \<Longrightarrow> \<forall>b \<in> set bs. buf_ok N b \<Longrightarrow>
   \<exists>s'. put_buffers put bs s = Inr s' \<and> invar s' \<and> written s' = written s @ buffered bs"
proof (induction bs arbitrary: s)
  case (Cons b bs)
  have sz: "FixedBuffer_size b \<le> 0 \<longleftrightarrow> fb_contents b = []"
    using Cons.prems(2) size_contents [of N b] by simp
  obtain s1 where "(if FixedBuffer_size b \<le> 0 then Inr s else put (fb_contents b) s) = Inr s1" "invar s1"
    "written s1 = written s @ fb_contents b"
    using put_ok [OF Cons.prems(1), of "fb_contents b"] Cons.prems(1) sz by (cases "fb_contents b = []") auto
  with Cons.IH [of s1] Cons.prems(2) show ?case by auto
qed simp

lemma sync_write_ok:
  assumes s: "invar s" and sy: "sy_inv N Writing sy"
  shows "\<exists>sy' s'. AsyncLogger_sync_write put flush time (sy, s) = Inr (sy', s') \<and> sy_inv N Testing sy' \<and> invar s' \<and>
    (length (sy_write sy) \<le> 25 \<longrightarrow> written s' = written s @ buffered (sy_write sy))"
proof -
  let ?ws = "sy_write sy"
  let ?bs = "if 25 < length ?ws then take 2 ?ws else ?ws"
  have S: "?ws \<noteq> []" "sy_new1 sy = None" "sy_new2 sy = None \<longrightarrow> 2 \<le> length ?ws" "spare_ok N (sy_new2 sy)"
    "\<forall>b \<in> set ?ws. buf_ok N b" using sy by (simp_all add: sy_inv_def)
  have bs: "\<forall>b \<in> set ?bs. buf_ok N b" "?bs \<noteq> []" "sy_new2 sy = None \<longrightarrow> 2 \<le> length ?bs"
    using S by (auto dest: in_set_takeD)
  have "dropped_notice time n \<noteq> []" for n by (simp add: dropped_notice_def)
  then obtain s1 where s1: "(if 25 < length ?ws then put (dropped_notice time (length ?ws)) s else Inr s) = Inr s1" "invar s1"
    "length ?ws \<le> 25 \<longrightarrow> s1 = s"
    using put_ok [OF s] s by (cases "25 < length ?ws") (force, auto)
  obtain s2 where s2: "put_buffers put ?bs s1 = Inr s2" "invar s2" "written s2 = written s1 @ buffered ?bs"
    using put_buffers_ok [OF s1(2) bs(1)] by blast
  obtain b1 bs1 where r1: "refill (sy_new1 sy) ?bs = Inr (Some b1, bs1)" "buf_ok N b1" "fb_contents b1 = []"
    "\<forall>b \<in> set bs1. buf_ok N b" "length bs1 = length ?bs - 1"
    using refill_ok [of N "sy_new1 sy" ?bs] S(2) bs(1,2) by (auto simp: spare_ok_def)
  have "sy_new2 sy = None \<longrightarrow> bs1 \<noteq> []" using bs(3) r1(5) by auto
  from refill_ok [OF S(4) r1(4) this] obtain b2 bs2 where r2: "refill (sy_new2 sy) bs1 = Inr (Some b2, bs2)" "buf_ok N b2"
    "fb_contents b2 = []" by blast
  have "AsyncLogger_sync_write put flush time (sy, s) = Inr (\<lparr>sy_new1 = Some b1, sy_new2 = Some b2, sy_write = []\<rparr>, flush s2)"
    using S(1) s1(1) s2(1) r1(1) r2(1) by (simp add: AsyncLogger_sync_write_def)
  moreover have "sy_inv N Testing \<lparr>sy_new1 = Some b1, sy_new2 = Some b2, sy_write = []\<rparr>"
    using r1 r2 by (simp add: sy_inv_def spare_ok_def)
  ultimately show ?thesis using flush_ok [OF s2(2)] s2(3) s1(3) by (auto split: if_splits)
qed

lemma async_inv_start:
  assumes "0 < N" "N < 2 ^ 31" "invar s"
  shows "async_inv written invar N (written s) (async_start N lv s)"
  using assms new_buffer_ok [OF assms(1,2)]
  by (simp add: async_inv_def async_start_def al_inv_def sy_inv_def spare_ok_def AsyncLogger_new_def
      sync_thread_start_def in_logger_def)

lemma async_inv_append:
  assumes N: "0 < N" "N < 2 ^ 31" and x: "async_inv written invar N w0 x" and m: "m \<in># as_accepted x"
    and lg: "AsyncLogger_append N m (as_logger x) = Inr lg"
  shows "async_inv written invar N w0 (x\<lparr>as_logger := lg, as_accepted := as_accepted x - {#m#}, as_logged := as_logged x @ [m]\<rparr>)"
proof -
  have al: "al_inv N (as_logger x)" and len: "m \<noteq> []" "length m \<le> N" using x m by (simp_all add: async_inv_def)
  have "length m < N" using append_oversized [OF N al, of m] lg len(2) by (cases "length m = N") auto
  from AsyncLogger_append_ok [OF N al len(1) this] lg have "al_inv N lg" "in_logger lg = in_logger (as_logger x) @ m"
    by auto
  moreover have "\<forall>m' \<in># as_accepted x - {#m#}. m' \<noteq> [] \<and> length m' \<le> N"
    using x by (auto simp: async_inv_def dest: in_diffD)
  ultimately show ?thesis using x by (simp add: async_inv_def)
qed

lemma async_inv_step:
  assumes N: "0 < N" "N < 2 ^ 31"
  shows "async_step put flush N x y \<Longrightarrow> async_inv written invar N w0 x \<Longrightarrow> async_inv written invar N w0 y"
proof (induction rule: async_step.induct)
  case (accept lv m x)
  then show ?case by (auto simp: async_inv_def AsyncLogger_accepts_def)
next
  case (append m x lg)
  then show ?case using async_inv_append [OF N] by blast
next
  case (stop x)
  then show ?case by (simp add: async_inv_def al_inv_def in_logger_def)
next
  case (take x lg sy)
  then have "al_inv N (as_logger x)" "sy_inv N Testing (as_thread x)" by (simp_all add: async_inv_def)
  from sync_take_ok [OF this] take show ?case by (auto simp: async_inv_def sy_inv_def)
next
  case (leave x)
  then show ?case using flush_ok [of "as_appender x"] by (auto simp: async_inv_def sy_inv_def)
next
  case (wrote x time sy s)
  then have inv: "invar (as_appender x)" "sy_inv N Writing (as_thread x)" by (simp_all add: async_inv_def)
  from sync_write_ok [OF inv, of time] wrote have
    w: "sy_inv N Testing sy" "invar s"
    "length (sy_write (as_thread x)) \<le> 25 \<longrightarrow> written s = written (as_appender x) @ buffered (sy_write (as_thread x))"
    by auto
  have "sy_write sy = []" using w(1) by (simp add: sy_inv_def)
  with w wrote.prems show ?case by (auto simp: async_inv_def not_less)
qed

lemma async_inv_reachable:
  assumes "0 < N" "N < 2 ^ 31" "invar s" and "(async_step put flush N)\<^sup>*\<^sup>* (async_start N lv s) x"
  shows "async_inv written invar N (written s) x"
  using assms(4) by (induction rule: rtranclp_induct) (auto intro: async_inv_start async_inv_step assms(1-3))

text \<open>The thread leaves its loop only when everything was written.\<close>

lemma exited_step:
  assumes "async_step put flush N x y" and "as_pc y = Exited" and "async_inv written invar N w0 x"
  shows "as_pc x = Exited \<or> in_logger (as_logger y) = []"
  using assms
proof (induction rule: async_step.induct)
  case (leave x)
  then obtain cur where cur: "al_current (as_logger x) = Some cur" "buf_ok N cur"
    "al_buffers (as_logger x) \<noteq> [] \<longrightarrow> fb_contents cur \<noteq> []" by (auto simp: async_inv_def al_inv_def)
  with leave(2) size_contents [OF cur(2)] have "fb_contents cur = []" by (simp add: sync_continues_def)
  with cur show ?case by (simp add: in_logger_def)
qed simp_all

end

section \<open>Properties\<close>


text \<open>
  C18. The assertions of the writing thread never fail: it always finds its two spare buffers
  empty, always finds at least one buffer to write, and always two when it has to refill both
  spares; nor does appending a message fail, with one exception: a message of exactly the
  buffer's size passes the test of \<open>log\<close> and then fails the assertion of the buffer.
\<close>

theorem AsyncLogger_assertions_hold:
  assumes "0 < N" and "N < 2 ^ 31"
    and "(async_step (StdoutAppender_append length) StdoutAppender_flush N)\<^sup>*\<^sup>* (async_start N lv out) x"
  shows "(as_pc x = Testing \<longrightarrow> is_ok (AsyncLogger_sync_take (as_logger x, as_thread x))) \<and>
    (as_pc x = Writing \<longrightarrow>
       is_ok (AsyncLogger_sync_write (StdoutAppender_append length) StdoutAppender_flush time (as_thread x, as_appender x))) \<and>
    (m \<in># as_accepted x \<longrightarrow>
       (if length m < N then is_ok (AsyncLogger_append N m (as_logger x))
        else AsyncLogger_append N m (as_logger x) = Inl Assertion_failed))"
proof -
  have inv: "async_inv id (\<lambda>_. True) N out x"
    using stdout_appender.async_inv_reachable [OF assms(1,2) _ assms(3)] by simp
  then have I: "al_inv N (as_logger x)" "sy_inv N (as_pc x) (as_thread x)"
    "\<forall>m \<in># as_accepted x. m \<noteq> [] \<and> length m \<le> N" by (simp_all add: async_inv_def)
  have "is_ok (AsyncLogger_sync_take (as_logger x, as_thread x))" if "as_pc x = Testing"
    using sync_take_ok [OF I(1)] I(2) that by (fastforce simp: is_ok_def)
  moreover have "is_ok (AsyncLogger_sync_write (StdoutAppender_append length) StdoutAppender_flush time (as_thread x, as_appender x))"
    if "as_pc x = Writing"
    using stdout_appender.sync_write_ok [of N "as_thread x" time "as_appender x"] I(2) that by (fastforce simp: is_ok_def)
  moreover have "if length m < N then is_ok (AsyncLogger_append N m (as_logger x))
      else AsyncLogger_append N m (as_logger x) = Inl Assertion_failed" if "m \<in># as_accepted x"
  proof (cases "length m < N")
    case True
    with AsyncLogger_append_ok [OF assms(1,2) I(1), of m] I(3) that show ?thesis by (auto simp: is_ok_def)
  next
    case False
    with I(3) that have "length m = N" by force
    with append_oversized [OF assms(1,2) I(1)] show ?thesis by simp
  qed
  ultimately show ?thesis by blast
qed

text \<open>A run with buffers of four characters: one message is accepted and appended.\<close>

lemma async_example:
  "\<exists>x. (async_step put flush 4)\<^sup>*\<^sup>* (async_start 4 kInfo s) x \<and> \<not> as_dropped x \<and> as_pc x = Testing \<and>
    as_logged x = [''ab''] \<and> as_accepted x = {#}"
proof -
  let ?R = "async_step put flush 4" and ?x0 = "async_start 4 kInfo s"
  let ?x1 = "?x0\<lparr>as_accepted := add_mset ''ab'' (as_accepted ?x0)\<rparr>"
  have "AsyncLogger_accepts 4 kWarn (Some ''ab'') (as_logger ?x0)"
    by (simp add: AsyncLogger_accepts_def async_start_def AsyncLogger_new_def less_level_def)
  then have s1: "?R ?x0 ?x1"
    by (rule async_step.accept)
  have "al_inv 4 (as_logger ?x1)"
    using new_buffer_ok [of 4] by (simp add: async_start_def AsyncLogger_new_def al_inv_def spare_ok_def)
  then obtain lg where lg: "AsyncLogger_append 4 ''ab'' (as_logger ?x1) = Inr lg"
    using AsyncLogger_append_ok [of 4 "as_logger ?x1" "''ab''"] by auto
  have "?R ?x1 (?x1\<lparr>as_logger := lg, as_accepted := as_accepted ?x1 - {#''ab''#}, as_logged := as_logged ?x1 @ [''ab'']\<rparr>)"
    by (rule async_step.append [OF _ lg]) simp
  with s1 show ?thesis
    by (intro exI [of _ "?x1\<lparr>as_logger := lg, as_accepted := as_accepted ?x1 - {#''ab''#},
        as_logged := as_logged ?x1 @ [''ab'']\<rparr>"] conjI)
      (meson rtranclp.rtrancl_into_rtrancl rtranclp.rtrancl_refl, simp_all add: async_start_def)
qed


theorem AsyncLogger_assertions_hold_witness:
  "\<exists>x :: string async_sys. as_logged x = [''ab''] \<and> is_ok (AsyncLogger_sync_take (as_logger x, as_thread x))"
proof -
  obtain x :: "string async_sys" where
    x: "(async_step (StdoutAppender_append length) StdoutAppender_flush 4)\<^sup>*\<^sup>* (async_start 4 kInfo ''>'') x"
    "as_pc x = Testing" "as_logged x = [''ab'']"
    using async_example [of "StdoutAppender_append length" StdoutAppender_flush "''>''"] by auto
  have "is_ok (AsyncLogger_sync_take (as_logger x, as_thread x))"
    using AsyncLogger_assertions_hold [OF _ _ x(1)] x(2) by simp
  then show ?thesis using x(3) by (intro exI [of _ x]) simp
qed

end
