(* ===== verification/File_Appender.thy ===== *)
theory File_Appender
  imports Async_Logger Timestamp
begin

text \<open>
  \<open>clia::log::FileAppender\<close> (log/file_appender.h, log/file_appender.cc): a log file that is
  rolled by size and by period, and the deletion of expired files.

  The operating system is a record of functions of the number of the call (the clock may move
  between two calls of \<open>time\<close>, every \<open>fopen\<close> or \<open>fwrite\<close> may fail), carried
  in the state together with the files, so that an operation of the appender is a function of
  its state.  Files are seen at the level of the C streams: what \<open>fwrite\<close> accepted counts
  as written, and \<open>fflush\<close> changes nothing that is visible there.
\<close>

section \<open>Files and the system\<close>

datatype node = Regular (content: string) | Other_node

datatype stream = Std_out | Std_err | Log_file string

datatype diagnostic = Setvbuf_failed | Fopen_failed string | Write_failed

record file_os =
  os_time :: "nat \<Rightarrow> int"
  os_localtime :: "int \<Rightarrow> tm"
  os_pid :: int
  os_mkdir :: "nat \<Rightarrow> bool"
  os_fopen :: "nat \<Rightarrow> bool"
  os_setvbuf :: "nat \<Rightarrow> bool"
  os_fwrite :: "nat \<Rightarrow> nat \<Rightarrow> nat"
  os_ferror :: "nat \<Rightarrow> bool"
  os_opendir :: "nat \<Rightarrow> bool"
  os_remove :: "nat \<Rightarrow> bool"

record file_appender =
  fa_path :: string
  fa_logname :: string
  fa_roll_size_byte :: nat
  fa_roll_period_sec :: int
  fa_retain_period_sec :: int
  fa_check_every :: int
  fa_count :: int
  fa_last_roll_time :: int
  fa_this_roll_period :: int
  fa_lck :: bool
  fa_written_bytes :: nat
  fa_file :: "stream option"
  fw_os :: file_os
  fw_calls :: nat
  fw_fs :: "(string \<times> node) list"
  fw_trace :: "(stream \<times> string) list"
  fw_diag :: "diagnostic list"

definition tick :: "file_appender \<Rightarrow> file_appender" where
  "tick s = s\<lparr>fw_calls := Suc (fw_calls s)\<rparr>"

definition call_time :: "file_appender \<Rightarrow> int \<times> file_appender" where
  "call_time s = (os_time (fw_os s) (fw_calls s), tick s)"

text \<open>Two paths that differ in repeated slashes name the same file.\<close>

fun norm_path :: "string \<Rightarrow> string" where
  "norm_path (a # b # r) =
     (if a = CHR ''/'' \<and> b = CHR ''/'' then norm_path (b # r) else a # norm_path (b # r))"
| "norm_path p = p"

definition lookup_node :: "(string \<times> node) list \<Rightarrow> string \<Rightarrow> node option" where
  "lookup_node fs p = map_of fs (norm_path p)"

text \<open>The entries of a directory, as \<open>readdir\<close> delivers them: their names, and whether they
  are regular files (\<open>d_type == DT_REG\<close>).\<close>

definition dir_prefix :: "string \<Rightarrow> string" where
  "dir_prefix path = norm_path (path @ ''/'')"

definition in_dir :: "string \<Rightarrow> string \<Rightarrow> bool" where
  "in_dir path key \<longleftrightarrow> take (length (dir_prefix path)) key = dir_prefix path \<and>
     CHR ''/'' \<notin> set (drop (length (dir_prefix path)) key)"

definition dir_entries :: "string \<Rightarrow> (string \<times> node) list \<Rightarrow> (string \<times> bool) list" where
  "dir_entries path fs =
     map (\<lambda>(key, nd). (drop (length (dir_prefix path)) key, nd \<noteq> Other_node))
       (filter (\<lambda>(key, nd). in_dir path key) fs)"

text \<open>\<open>fopen(path, "a")\<close>: keeps what the file holds, or creates it.\<close>

definition open_append :: "string \<Rightarrow> file_appender \<Rightarrow> bool \<times> file_appender" where
  "open_append filename s =
     (let key = norm_path filename; s1 = tick s
      in if \<not> os_fopen (fw_os s) (fw_calls s) \<or> map_of (fw_fs s) key = Some Other_node then (False, s1)
         else (True, if map_of (fw_fs s) key = None then s1\<lparr>fw_fs := (key, Regular []) # fw_fs s1\<rparr> else s1))"

text \<open>Bytes that a stream accepted; to a file that still has its name, they appear in it.\<close>

definition extend_node :: "string \<Rightarrow> string \<Rightarrow> string \<times> node \<Rightarrow> string \<times> node" where
  "extend_node key bs e =
     (case e of (k, Regular c) \<Rightarrow> if k = key then (k, Regular (c @ bs)) else e | _ \<Rightarrow> e)"

fun stream_put :: "stream \<Rightarrow> string \<Rightarrow> file_appender \<Rightarrow> file_appender" where
  "stream_put (Log_file key) bs s =
     s\<lparr>fw_trace := fw_trace s @ [(Log_file key, bs)], fw_fs := map (extend_node key bs) (fw_fs s)\<rparr>"
| "stream_put st bs s = s\<lparr>fw_trace := fw_trace s @ [(st, bs)]\<rparr>"

section \<open>Names\<close>

text \<open>\<open>strftime\<close> with \<open>%Y%m%d%H%M%S\<close> into a buffer of \<open>size\<close> characters; it stores
  nothing and returns 0 when the text and its terminator do not fit.\<close>

definition date_text :: "tm \<Rightarrow> string" where
  "date_text tm = fmt_0d 1 (tm_year tm + 1900) @ fmt_0d 2 (tm_mon tm + 1) @ fmt_0d 2 (tm_mday tm) @
     fmt_0d 2 (tm_hour tm) @ fmt_0d 2 (tm_min tm) @ fmt_0d 2 (tm_sec tm)"

definition get_date_prefix :: "file_os \<Rightarrow> nat \<Rightarrow> int \<Rightarrow> string \<times> nat" where
  "get_date_prefix os sz t =
     (let text = date_text (os_localtime os t)
      in if length text < sz then (text, length text) else ('''', 0))"

fun contains_str :: "string \<Rightarrow> string \<Rightarrow> bool" where
  "contains_str pat [] = (pat = [])"
| "contains_str pat (c # s) = (take (length pat) (c # s) = pat \<or> contains_str pat s)"

definition log_basename :: "string \<Rightarrow> int \<Rightarrow> string \<Rightarrow> string" where
  "log_basename timebuf pid logname =
     timebuf @ ''.'' @ fmt_d 1 pid @ ''.'' @ logname @ (if contains_str ''.log'' logname then '''' else ''.log'')"

definition FileAppender_get_logfilename :: "file_appender \<Rightarrow> string \<times> file_appender" where
  "FileAppender_get_logfilename s =
     (let (t, s1) = call_time s;
          timebuf = fst (get_date_prefix (fw_os s1) 32 t);
          dir = (if fa_path s \<noteq> [] \<and> last (fa_path s) \<noteq> CHR ''/'' then fa_path s @ ''/'' else fa_path s)
      in (dir @ log_basename timebuf (os_pid (fw_os s1)) (fa_logname s), s1))"

section \<open>Expired files\<close>

text \<open>\<open>strncmp\<close>; the end of a string is a null character.\<close>

fun strncmp :: "string \<Rightarrow> string \<Rightarrow> nat \<Rightarrow> int" where
  "strncmp a b 0 = 0"
| "strncmp [] [] (Suc n) = 0"
| "strncmp [] (d # b) (Suc n) = - int (of_char d)"
| "strncmp (c # a) [] (Suc n) = int (of_char c)"
| "strncmp (c # a) (d # b) (Suc n) =
     (if c = d then strncmp a b n else int (of_char c) - int (of_char d))"

definition remove_file :: "string \<Rightarrow> file_appender \<Rightarrow> file_appender" where
  "remove_file p s =
     (let s1 = tick s
      in if os_remove (fw_os s) (fw_calls s)
         then s1\<lparr>fw_fs := filter (\<lambda>(key, _). key \<noteq> norm_path p) (fw_fs s1)\<rparr> else s1)"

definition old_files :: "string \<Rightarrow> string \<Rightarrow> nat \<Rightarrow> (string \<times> node) list \<Rightarrow> string list" where
  "old_files path timebuf timebuflen fs =
     map (\<lambda>(name, _). path @ ''/'' @ name)
       (filter (\<lambda>(name, reg). reg \<and> \<not> 0 \<le> strncmp name timebuf timebuflen) (dir_entries path fs))"

definition FileAppender_del_old_files :: "file_appender \<Rightarrow> file_appender" where
  "FileAppender_del_old_files s =
     (let (t, s1) = call_time s;
          (timebuf, timebuflen) = get_date_prefix (fw_os s1) 32 (t - fa_retain_period_sec s1);
          s2 = tick s1
      in if fa_path s1 = [] \<or> \<not> os_opendir (fw_os s1) (fw_calls s1) then s2
         else fold remove_file (old_files (fa_path s2) timebuf timebuflen (fw_fs s2)) s2)"

section \<open>Rolling\<close>

text \<open>Division by a period of zero is undefined.\<close>

definition period_of :: "int \<Rightarrow> int \<Rightarrow> int res" where
  "period_of p t = (if p = 0 then Inl Undefined_behaviour else Inr (t sdiv p * p))"

text \<open>\<open>fopen\<close>, then \<open>setvbuf\<close>, or the standard error stream when it fails.\<close>

definition open_log :: "string \<Rightarrow> file_appender \<Rightarrow> file_appender" where
  "open_log filename s =
     (let (ok, s1) = open_append filename s
      in if ok
         then let s2 = tick s1\<lparr>fa_file := Some (Log_file (norm_path filename))\<rparr>
              in if os_setvbuf (fw_os s1) (fw_calls s1) then s2 else s2\<lparr>fw_diag := fw_diag s2 @ [Setvbuf_failed]\<rparr>
         else s1\<lparr>fw_diag := fw_diag s1 @ [Fopen_failed filename], fa_file := Some Std_err\<rparr>)"

text \<open>The old file is flushed and closed before the new one is opened.\<close>

definition FileAppender_roll_file :: "file_appender \<Rightarrow> file_appender res" where
  "FileAppender_roll_file s =
     (let (now, s1) = call_time s
      in if fa_last_roll_time s1 = now then Inr s1
         else let (filename, s2) = FileAppender_get_logfilename s1
              in bindE (period_of (fa_roll_period_sec s2) now) (\<lambda>p.
                   let s3 = open_log filename (s2\<lparr>fa_last_roll_time := now, fa_this_roll_period := p, fa_file := None\<rparr>)
                   in Inr (FileAppender_del_old_files (s3\<lparr>fa_written_bytes := 0\<rparr>))))"

section \<open>Appending\<close>

text \<open>The loop around \<open>fwrite_unlocked\<close>; \<open>None\<close> when it never ends.\<close>

partial_function (option) write_loop ::
    "stream \<Rightarrow> string \<Rightarrow> nat \<Rightarrow> file_appender \<Rightarrow> (nat \<times> file_appender) option" where
  "write_loop st buf written s =
     (if written = length buf then Some (written, s)
      else let remain = length buf - written;
               n = min remain (os_fwrite (fw_os s) (fw_calls s) remain);
               s1 = stream_put st (take n (drop written buf)) (tick s)
           in if n \<noteq> remain
              then let s2 = tick s1
                   in if os_ferror (fw_os s1) (fw_calls s1)
                      then Some (written, s2\<lparr>fw_diag := fw_diag s2 @ [Write_failed]\<rparr>)
                      else write_loop st buf (written + n) s2
              else write_loop st buf (written + n) s1)"

declare write_loop.simps [code]

definition roll_if_due :: "file_appender \<Rightarrow> file_appender res" where
  "roll_if_due s =
     (if fa_roll_size_byte s < fa_written_bytes s then FileAppender_roll_file s
      else let s1 = s\<lparr>fa_count := fa_count s + 1\<rparr>
           in if fa_check_every s1 \<le> fa_count s1
              then let (t, s2) = call_time (s1\<lparr>fa_count := 0\<rparr>)
                   in bindE (period_of (fa_roll_period_sec s2) t) (\<lambda>this_period.
                        if this_period \<noteq> fa_this_roll_period s2 then FileAppender_roll_file s2 else Inr s2)
              else Inr s1)"

definition FileAppender_append_unlocked :: "string \<Rightarrow> file_appender \<Rightarrow> file_appender res" where
  "FileAppender_append_unlocked buf s =
     bindE (roll_if_due s) (\<lambda>s1.
       case fa_file s1 of
         None \<Rightarrow> Inl Undefined_behaviour
       | Some st \<Rightarrow>
           (case write_loop st buf 0 s1 of
              None \<Rightarrow> Inl No_return
            | Some (written, s2) \<Rightarrow>
                Inr (s2\<lparr>fa_written_bytes := (fa_written_bytes s2 + written) mod 2 ^ 64\<rparr>)))"

text \<open>With a mutex or without: in either case a caller that gets here has the appender for
  itself, or the caller (one logger thread) is the only one.\<close>

definition FileAppender_append :: "string \<Rightarrow> file_appender \<Rightarrow> file_appender res" where
  "FileAppender_append buf s =
     (if length buf = 0 then Inr s
      else if fa_lck s then FileAppender_append_unlocked buf s
      else FileAppender_append_unlocked buf s)"

definition FileAppender_flush :: "file_appender \<Rightarrow> file_appender" where
  "FileAppender_flush s = s"

section \<open>Construction\<close>

definition int32 :: "int \<Rightarrow> bool" where
  "int32 i \<longleftrightarrow> - (2 ^ 31) \<le> i \<and> i < 2 ^ 31"

definition make_dir :: "string \<Rightarrow> file_appender \<Rightarrow> file_appender" where
  "make_dir path s =
     (if lookup_node (fw_fs s) path \<noteq> None then s
      else let s1 = tick s
           in if os_mkdir (fw_os s) (fw_calls s)
              then s1\<lparr>fw_fs := (norm_path path, Other_node) # fw_fs s1\<rparr> else s1)"

definition FileAppender_new ::
    "file_os \<Rightarrow> (string \<times> node) list \<Rightarrow> string \<Rightarrow> string \<Rightarrow> nat \<Rightarrow> int \<Rightarrow> int \<Rightarrow> int \<Rightarrow> bool \<Rightarrow> file_appender res" where
  "FileAppender_new os fs path logname roll_size_byte roll_period_days retain_period_day check_every thread_safe =
     (if \<not> int32 (roll_period_days * 24 * 60 * 60) \<or> \<not> int32 (retain_period_day * 24 * 60 * 60)
      then Inl Undefined_behaviour
      else FileAppender_roll_file (make_dir path
        \<lparr>fa_path = path, fa_logname = logname, fa_roll_size_byte = roll_size_byte,
         fa_roll_period_sec = roll_period_days * 24 * 60 * 60,
         fa_retain_period_sec = retain_period_day * 24 * 60 * 60,
         fa_check_every = check_every, fa_count = 0, fa_last_roll_time = 0, fa_this_roll_period = 0,
         fa_lck = thread_safe, fa_written_bytes = 0, fa_file = None,
         fw_os = os, fw_calls = 0, fw_fs = fs, fw_trace = [], fw_diag = []\<rparr>))"

text \<open>The destructor flushes and closes the log file.\<close>

definition FileAppender_destroy :: "file_appender \<Rightarrow> file_appender" where
  "FileAppender_destroy s =
     (case fa_file s of Some (Log_file _) \<Rightarrow> s\<lparr>fa_file := None\<rparr> | _ \<Rightarrow> s)"

section \<open>The order of the names is the order of the times\<close>

definition all_digits :: "string \<Rightarrow> bool" where
  "all_digits s \<longleftrightarrow> (\<forall>c \<in> set s. 48 \<le> (of_char c :: nat) \<and> (of_char c :: nat) \<le> 57)"

lemma parse_decimal_acc:
  "foldl (\<lambda>a c. 10 * a + (of_char c - 48)) k s = k * 10 ^ length s + parse_decimal s"
proof (induction s arbitrary: k)
  case (Cons c s)
  from Cons [of "10 * k + (of_char c - 48)"] Cons [of "of_char c - 48"] show ?case
    by (simp add: parse_decimal_def algebra_simps)
qed (simp add: parse_decimal_def)

lemma parse_decimal_append: "parse_decimal (a @ b) = parse_decimal a * 10 ^ length b + parse_decimal b"
  using parse_decimal_acc [of "parse_decimal a" b] by (simp add: parse_decimal_def)

lemma parse_decimal_Cons: "parse_decimal (c # b) = (of_char c - 48) * 10 ^ length b + parse_decimal b"
  using parse_decimal_append [of "[c]" b] by (simp add: parse_decimal_def)

lemma digit_step:
  fixes u v :: nat
  assumes "u < v" and "p < k" shows "u * k + p < v * k + q"
proof -
  have "Suc u * k \<le> v * k" using assms(1) by (intro mult_right_mono) simp_all
  with assms(2) show ?thesis by simp
qed

lemma parse_decimal_less: "all_digits s \<Longrightarrow> parse_decimal s < 10 ^ length s"
proof (induction s)
  case (Cons c s)
  then have "parse_decimal s < 10 ^ length s" "(of_char c - 48 :: nat) \<le> 9"
    by (auto simp: all_digits_def)
  then show ?case
    using digit_step [of "of_char c - 48" 10 "parse_decimal s" "10 ^ length s" 0] by (simp add: parse_decimal_Cons)
qed (simp add: parse_decimal_def)

lemma strncmp_append: "length a = n \<Longrightarrow> length b = n \<Longrightarrow> strncmp (a @ r) b n = strncmp a b n"
  by (induction a b n rule: strncmp.induct) auto

lemma strncmp_digits:
  "length a = n \<Longrightarrow> length b = n \<Longrightarrow> all_digits a \<Longrightarrow> all_digits b \<Longrightarrow>
   0 \<le> strncmp a b n \<longleftrightarrow> parse_decimal b \<le> parse_decimal a"
proof (induction a b n rule: strncmp.induct)
  case (5 c a d b n)
  have len: "length a = n" "length b = n" and dig: "all_digits a" "all_digits b"
    and c: "48 \<le> (of_char c :: nat)" and d: "48 \<le> (of_char d :: nat)"
    using "5.prems" by (simp_all add: all_digits_def)
  have lt: "parse_decimal a < 10 ^ n" "parse_decimal b < 10 ^ n"
    using parse_decimal_less dig len by force+
  show ?case
  proof (cases "c = d")
    case True
    with 5 len dig show ?thesis by (simp add: parse_decimal_Cons)
  next
    case False
    then have "(of_char c :: nat) \<noteq> of_char d" by simp
    then consider "(of_char c :: nat) < of_char d" | "(of_char d :: nat) < of_char c" by linarith
    then show ?thesis
    proof cases
      case 1
      then have "(of_char c - 48 :: nat) < of_char d - 48" using c by simp
      from digit_step [OF this lt(1)] 1 False show ?thesis by (simp add: parse_decimal_Cons len not_le)
    next
      case 2
      then have "(of_char d - 48 :: nat) < of_char c - 48" using d by simp
      from digit_step [OF this lt(2)] 2 False show ?thesis by (simp add: parse_decimal_Cons len less_imp_le)
    qed
  qed
qed (simp_all add: parse_decimal_def)

lemma all_digits_append [simp]: "all_digits (a @ b) \<longleftrightarrow> all_digits a \<and> all_digits b"
  by (auto simp: all_digits_def)

lemma all_digits_rev_decimal: "all_digits (rev_decimal n)"
proof (induction n rule: rev_decimal.induct)
  case (1 n)
  have "n mod 10 \<le> 9" using mod_less_divisor [of 10 n] by linarith
  then have "48 \<le> (of_char (digit_char (n mod 10)) :: nat) \<and> (of_char (digit_char (n mod 10)) :: nat) \<le> 57"
    by (simp add: digit_char_def)
  with 1 show ?case by (subst rev_decimal.simps) (simp add: all_digits_def)
qed

lemma all_digits_fmt_0d: "0 \<le> i \<Longrightarrow> all_digits (fmt_0d w i)"
  using all_digits_rev_decimal [of "nat i"] by (auto simp: fmt_0d_def pad_def decimal_def all_digits_def set_replicate_conv_if)

lemma parse_decimal_fmt_0d: "0 \<le> i \<Longrightarrow> parse_decimal (fmt_0d w i) = nat i"
proof -
  have "parse_decimal (replicate k (CHR ''0'')) = 0" for k
    by (induction k) (simp_all add: parse_decimal_Cons, simp add: parse_decimal_def)
  then show "0 \<le> i \<Longrightarrow> ?thesis" by (simp add: fmt_0d_def pad_def parse_decimal_append)
qed

text \<open>What is documented of \<open>localtime_r\<close>, for years of four digits, and the broken-down
  time as one number.\<close>

definition date_ok :: "tm \<Rightarrow> bool" where
  "date_ok tm \<longleftrightarrow> tm_ok tm \<and> 1000 \<le> tm_year tm + 1900"

definition stamp :: "tm \<Rightarrow> nat" where
  "stamp tm = nat (((((((tm_year tm + 1900) * 100 + tm_mon tm + 1) * 100 + tm_mday tm) * 100 +
     tm_hour tm) * 100 + tm_min tm) * 100) + tm_sec tm)"

lemma length_year: "1000 \<le> y \<Longrightarrow> y \<le> 9999 \<Longrightarrow> length (fmt_0d 1 y) = 4"
proof -
  assume y: "1000 \<le> y" "y \<le> 9999"
  have "length (decimal (nat y)) \<le> 4" using length_decimal [of 4 "nat y"] y by (simp add: nat_less_iff)
  moreover have "\<not> length (decimal (nat y)) \<le> 3"
  proof
    assume le: "length (decimal (nat y)) \<le> 3"
    have "nat y < 10 ^ length (decimal (nat y))"
      using parse_decimal_less [of "decimal (nat y)"] all_digits_fmt_0d [of y 0] y by (simp add: fmt_0d_def pad_def)
    also have "\<dots> \<le> 10 ^ 3" using le by (intro power_increasing) simp_all
    finally show False using y by (simp add: nat_less_iff)
  qed
  ultimately show ?thesis using y by (simp add: fmt_0d_def pad_def)
qed

lemma date_text_props:
  assumes "date_ok tm"
  shows "length (date_text tm) = 14" "all_digits (date_text tm)" "parse_decimal (date_text tm) = stamp tm"
  using assms length_year [of "tm_year tm + 1900"]
  by (auto simp: date_ok_def tm_ok_def date_text_def length_fmt_0d all_digits_fmt_0d parse_decimal_append
      parse_decimal_fmt_0d stamp_def nat_add_distrib nat_mult_distrib)

lemma strncmp_date:
  assumes "date_ok a" and "date_ok b"
  shows "0 \<le> strncmp (date_text a @ r) (date_text b) 14 \<longleftrightarrow> stamp b \<le> stamp a"
  using date_text_props [OF assms(1)] date_text_props [OF assms(2)]
  by (simp add: strncmp_append strncmp_digits)

section \<open>Paths\<close>

lemma norm_path_join:
  "b = [] \<or> hd b \<noteq> CHR ''/'' \<Longrightarrow> norm_path (a @ CHR ''/'' # b) = norm_path (a @ ''/'') @ norm_path b"
  by (induction a rule: norm_path.induct) (cases b; auto)+

lemma norm_path_plain: "CHR ''/'' \<notin> set e \<Longrightarrow> norm_path (e @ r) = e @ norm_path r"
proof (induction e)
  case (Cons c e)
  then show ?case by (cases "e @ r") auto
qed simp

lemma norm_path_name: "CHR ''/'' \<notin> set e \<Longrightarrow> norm_path e = e"
  using norm_path_plain [of e "[]"] by simp

lemma norm_path_trailing: "norm_path ((a @ ''/'') @ ''/'') = norm_path (a @ ''/'')"
  by (induction a rule: norm_path.induct) auto

lemma entry_path: "CHR ''/'' \<notin> set e \<Longrightarrow> norm_path (path @ CHR ''/'' # e) = dir_prefix path @ e"
  using norm_path_join [of e path] norm_path_name [of e] by (cases e) (auto simp: dir_prefix_def)

lemma in_dir_append [simp]: "in_dir path (dir_prefix path @ e) \<longleftrightarrow> CHR ''/'' \<notin> set e"
  by (simp add: in_dir_def)

lemma in_dirE:
  assumes "in_dir path key"
  obtains e where "key = dir_prefix path @ e" "CHR ''/'' \<notin> set e"
  using assms append_take_drop_id [of "length (dir_prefix path)" key] unfolding in_dir_def by metis

section \<open>What deletion removes\<close>

text \<open>The files of the directory whose name sorts before the time \<open>txt\<close>.\<close>

definition expired :: "string \<Rightarrow> string \<Rightarrow> string \<Rightarrow> bool" where
  "expired path txt key \<longleftrightarrow>
     in_dir path key \<and> strncmp (drop (length (dir_prefix path)) key) txt (length txt) < 0"

lemma old_files_keys:
  "norm_path ` set (old_files path txt (length txt) fs) =
     {key. expired path txt key \<and> (\<exists>c. (key, Regular c) \<in> set fs)}" (is "?L = ?R")
proof
  show "?L \<subseteq> ?R"
    by (auto simp: old_files_def dir_entries_def expired_def entry_path not_le elim!: in_dirE)
      (metis node.exhaust)+
  show "?R \<subseteq> ?L"
  proof
    fix key assume "key \<in> ?R"
    then obtain c where c: "expired path txt key" "(key, Regular c) \<in> set fs" by blast
    then obtain e where e: "key = dir_prefix path @ e" "CHR ''/'' \<notin> set e"
      by (auto simp: expired_def elim: in_dirE)
    have "path @ ''/'' @ e \<in> set (old_files path txt (length txt) fs)"
      using c e unfolding old_files_def dir_entries_def expired_def
      by (force simp: image_iff)
    with e show "key \<in> ?L" by (force simp: entry_path image_iff)
  qed
qed

lemma fold_remove_file:
  "\<exists>F. fold remove_file ps s = s\<lparr>fw_calls := fw_calls s + length ps, fw_fs := F\<rparr> \<and>
     (\<forall>k. k \<notin> norm_path ` set ps \<longrightarrow> map_of F k = map_of (fw_fs s) k) \<and>
     (\<forall>k. map_of F k = map_of (fw_fs s) k \<or> map_of F k = None) \<and>
     ((\<forall>n. os_remove (fw_os s) n) \<longrightarrow> (\<forall>k \<in> norm_path ` set ps. map_of F k = None))"
proof (induction ps arbitrary: s)
  case Nil
  show ?case by (rule exI [of _ "fw_fs s"]) simp
next
  case (Cons p ps)
  have key: "map_of (filter (\<lambda>(key, _). key \<noteq> norm_path p) fs) k = (if k = norm_path p then None else map_of fs k)"
    for fs :: "(string \<times> node) list" and k by (induction fs) auto
  obtain G where G: "remove_file p s = s\<lparr>fw_calls := Suc (fw_calls s), fw_fs := G\<rparr>"
    "G = (if os_remove (fw_os s) (fw_calls s) then filter (\<lambda>(key, _). key \<noteq> norm_path p) (fw_fs s) else fw_fs s)"
    by (simp add: remove_file_def tick_def Let_def)
  from Cons.IH [of "remove_file p s"] obtain F where F:
    "fold remove_file ps (remove_file p s) = (remove_file p s)\<lparr>fw_calls := fw_calls (remove_file p s) + length ps, fw_fs := F\<rparr>"
    "\<forall>k. k \<notin> norm_path ` set ps \<longrightarrow> map_of F k = map_of G k"
    "\<forall>k. map_of F k = map_of G k \<or> map_of F k = None"
    "(\<forall>n. os_remove (fw_os s) n) \<longrightarrow> (\<forall>k \<in> norm_path ` set ps. map_of F k = None)"
    by (auto simp: G(1))
  show ?case
  proof (intro exI [of _ F] conjI)
    show "fold remove_file (p # ps) s = s\<lparr>fw_calls := fw_calls s + length (p # ps), fw_fs := F\<rparr>"
      using F(1) G(1) by simp
    show "\<forall>k. k \<notin> norm_path ` set (p # ps) \<longrightarrow> map_of F k = map_of (fw_fs s) k"
      using F(2) G(2) key by simp
    show "\<forall>k. map_of F k = map_of (fw_fs s) k \<or> map_of F k = None"
      using F(3) G(2) key by metis
    show "(\<forall>n. os_remove (fw_os s) n) \<longrightarrow> (\<forall>k \<in> norm_path ` set (p # ps). map_of F k = None)"
      using F(3) [rule_format, of "norm_path p"] F(4) G(2) key by auto
  qed
qed

text \<open>The text that the names are compared with: the local time \<open>retain_period_sec_\<close> ago.\<close>

definition cutoff :: "file_appender \<Rightarrow> string" where
  "cutoff s = fst (get_date_prefix (fw_os s) 32 (os_time (fw_os s) (fw_calls s) - fa_retain_period_sec s))"

lemma del_old_files_ok:
  "\<exists>c F. FileAppender_del_old_files s = s\<lparr>fw_calls := c, fw_fs := F\<rparr> \<and>
     (\<forall>k. map_of F k = map_of (fw_fs s) k \<or>
        map_of F k = None \<and> expired (fa_path s) (cutoff s) k \<and> (\<exists>x. (k, Regular x) \<in> set (fw_fs s))) \<and>
     (fa_path s \<noteq> [] \<longrightarrow> (\<forall>n. os_opendir (fw_os s) n) \<longrightarrow> (\<forall>n. os_remove (fw_os s) n) \<longrightarrow>
        (\<forall>k x. (k, Regular x) \<in> set (fw_fs s) \<longrightarrow> expired (fa_path s) (cutoff s) k \<longrightarrow> map_of F k = None))"
proof -
  have pre: "get_date_prefix (fw_os s) 32 (os_time (fw_os s) (fw_calls s) - fa_retain_period_sec s) =
      (cutoff s, length (cutoff s))"
    by (simp add: cutoff_def get_date_prefix_def Let_def)
  let ?s2 = "tick (tick s)" and ?ps = "old_files (fa_path s) (cutoff s) (length (cutoff s)) (fw_fs s)"
  have D: "FileAppender_del_old_files s =
      (if fa_path s = [] \<or> \<not> os_opendir (fw_os s) (Suc (fw_calls s)) then ?s2 else fold remove_file ?ps ?s2)"
    by (simp add: FileAppender_del_old_files_def call_time_def pre tick_def)
  show ?thesis
  proof (cases "fa_path s = [] \<or> \<not> os_opendir (fw_os s) (Suc (fw_calls s))")
    case True
    have "?s2 = s\<lparr>fw_calls := Suc (Suc (fw_calls s)), fw_fs := fw_fs s\<rparr>" by (simp add: tick_def)
    with True D show ?thesis by metis
  next
    case False
    obtain F where F: "fold remove_file ?ps ?s2 = ?s2\<lparr>fw_calls := fw_calls ?s2 + length ?ps, fw_fs := F\<rparr>"
      "\<forall>k. k \<notin> norm_path ` set ?ps \<longrightarrow> map_of F k = map_of (fw_fs s) k"
      "\<forall>k. map_of F k = map_of (fw_fs s) k \<or> map_of F k = None"
      "(\<forall>n. os_remove (fw_os s) n) \<longrightarrow> (\<forall>k \<in> norm_path ` set ?ps. map_of F k = None)"
      using fold_remove_file [of ?ps ?s2] by (auto simp: tick_def)
    show ?thesis
    proof (intro exI conjI)
      show "FileAppender_del_old_files s = s\<lparr>fw_calls := fw_calls ?s2 + length ?ps, fw_fs := F\<rparr>"
        using False D F(1) by (simp add: tick_def)
    qed (use F(2-4) in \<open>auto simp: old_files_keys\<close>)
  qed
qed

section \<open>The file that is being written\<close>

text \<open>What a key holds, the file of the appender with its name still there, and what every
  operation leaves alone.\<close>

definition held :: "file_appender \<Rightarrow> string \<Rightarrow> string" where
  "held s key = (case map_of (fw_fs s) key of Some (Regular c) \<Rightarrow> c | _ \<Rightarrow> [])"

definition present :: "file_appender \<Rightarrow> bool" where
  "present s \<longleftrightarrow> (\<forall>key. fa_file s = Some (Log_file key) \<longrightarrow> (\<exists>c. map_of (fw_fs s) key = Some (Regular c)))"

definition app_frame :: "file_appender \<Rightarrow> file_appender \<Rightarrow> bool" where
  "app_frame s s' \<longleftrightarrow> fa_path s' = fa_path s \<and> fa_logname s' = fa_logname s \<and>
     fa_roll_size_byte s' = fa_roll_size_byte s \<and> fa_roll_period_sec s' = fa_roll_period_sec s \<and>
     fa_retain_period_sec s' = fa_retain_period_sec s \<and> fa_check_every s' = fa_check_every s \<and>
     fa_lck s' = fa_lck s \<and> fw_os s' = fw_os s"

lemma app_frame_trans: "app_frame s t \<Longrightarrow> app_frame t u \<Longrightarrow> app_frame s u"
  by (simp add: app_frame_def)

text \<open>The clock and the calendar: times of four-digit years, a calendar that follows the clock
  (a time zone without jumps backwards), and an \<open>fopen\<close> that takes less than the retention
  period.\<close>

definition clock_ok :: "file_os \<Rightarrow> int \<Rightarrow> bool" where
  "clock_ok os retain \<longleftrightarrow>
     (\<forall>k. date_ok (os_localtime os (os_time os k)) \<and> date_ok (os_localtime os (os_time os k - retain))) \<and>
     (\<forall>a b. a \<le> b \<longrightarrow> date_ok (os_localtime os a) \<longrightarrow> date_ok (os_localtime os b) \<longrightarrow>
        stamp (os_localtime os a) \<le> stamp (os_localtime os b)) \<and>
     (\<forall>k. os_time os (k + 3) - retain \<le> os_time os k)"

lemma date_prefix_ok: "date_ok (os_localtime os t) \<Longrightarrow> get_date_prefix os 32 t = (date_text (os_localtime os t), 14)"
  by (simp add: get_date_prefix_def date_text_props Let_def)

lemma no_slash_date: "date_ok tm \<Longrightarrow> CHR ''/'' \<notin> set (date_text tm)"
  using date_text_props(2) [of tm] by (force simp: all_digits_def)

text \<open>The name of a new file never sorts before the cutoff.\<close>

lemma log_key:
  assumes "date_ok (os_localtime (fw_os s) (os_time (fw_os s) (fw_calls s)))" and "fa_path s \<noteq> []"
  shows "\<exists>r. norm_path (fst (FileAppender_get_logfilename s)) =
    dir_prefix (fa_path s) @ date_text (os_localtime (fw_os s) (os_time (fw_os s) (fw_calls s))) @ r"
proof -
  let ?d = "date_text (os_localtime (fw_os s) (os_time (fw_os s) (fw_calls s)))"
  obtain x where x: "log_basename ?d (os_pid (fw_os s)) (fa_logname s) = ?d @ x"
    by (auto simp: log_basename_def)
  have d0: "?d \<noteq> []" using date_text_props(1) [OF assms(1)] by auto
  with hd_in_set [OF d0] have d: "?d \<noteq> []" "hd ?d \<noteq> CHR ''/''"
    using no_slash_date [OF assms(1)] by metis+
  have name: "fst (FileAppender_get_logfilename s) =
      (if last (fa_path s) \<noteq> CHR ''/'' then fa_path s @ ''/'' else fa_path s) @ ?d @ x"
    using assms by (simp add: FileAppender_get_logfilename_def call_time_def tick_def date_prefix_ok x Let_def)
  have "norm_path (fst (FileAppender_get_logfilename s)) = dir_prefix (fa_path s) @ norm_path (?d @ x)"
  proof (cases "last (fa_path s) = CHR ''/''")
    case True
    then obtain a where a: "fa_path s = a @ ''/''" using assms(2) by (metis append_butlast_last_id)
    have "fst (FileAppender_get_logfilename s) = a @ CHR ''/'' # ?d @ x" using name True a by simp
    then show ?thesis
      using norm_path_join [of "?d @ x" a] norm_path_trailing [of a] d a by (simp add: dir_prefix_def)
  next
    case False
    then have "fst (FileAppender_get_logfilename s) = fa_path s @ CHR ''/'' # ?d @ x" using name by simp
    then show ?thesis
      using norm_path_join [of "?d @ x" "fa_path s"] d by (simp add: dir_prefix_def)
  qed
  then show ?thesis using norm_path_plain [OF no_slash_date [OF assms(1)]] by simp
qed

lemma open_log_ok:
  "\<exists>F dg st c. open_log filename s = s\<lparr>fa_file := Some st, fw_calls := c, fw_fs := F, fw_diag := dg\<rparr> \<and>
     (\<forall>k. held (open_log filename s) k = held s k) \<and>
     (st = Std_err \<or> st = Log_file (norm_path filename) \<and> c = fw_calls s + 2 \<and>
        (\<exists>x. map_of F (norm_path filename) = Some (Regular x)))"
proof (cases "\<not> os_fopen (fw_os s) (fw_calls s) \<or> map_of (fw_fs s) (norm_path filename) = Some Other_node")
  case True
  then have eq: "open_log filename s =
      s\<lparr>fa_file := Some Std_err, fw_calls := Suc (fw_calls s), fw_fs := fw_fs s, fw_diag := fw_diag s @ [Fopen_failed filename]\<rparr>"
    by (auto simp: open_log_def open_append_def Let_def tick_def)
  have "\<forall>k. held (open_log filename s) k = held s k" by (simp add: eq held_def)
  with eq show ?thesis by blast
next
  case False
  let ?key = "norm_path filename"
  define F where "F = (if map_of (fw_fs s) ?key = None then (?key, Regular []) # fw_fs s else fw_fs s)"
  define dg where "dg = (if os_setvbuf (fw_os s) (Suc (fw_calls s)) then fw_diag s else fw_diag s @ [Setvbuf_failed])"
  have eq: "open_log filename s =
      s\<lparr>fa_file := Some (Log_file ?key), fw_calls := fw_calls s + 2, fw_fs := F, fw_diag := dg\<rparr>"
    using False by (simp add: open_log_def open_append_def Let_def tick_def F_def dg_def)
  have "\<forall>k. held (open_log filename s) k = held s k"
    unfolding eq by (simp add: held_def F_def)
  moreover have "\<exists>x. map_of F ?key = Some (Regular x)"
  proof (cases "map_of (fw_fs s) ?key")
    case (Some nd)
    with False show ?thesis by (cases nd) (auto simp: F_def)
  qed (simp add: F_def)
  ultimately show ?thesis using eq by blast
qed

lemma new_file_not_expired:
  assumes "clock_ok (fw_os s) (fa_retain_period_sec s)" and "fa_path s \<noteq> []"
    and "fw_os u = fw_os s" and "fa_retain_period_sec u = fa_retain_period_sec s" and "fw_calls u = fw_calls s + 3"
  shows "\<not> expired (fa_path s) (cutoff u) (norm_path (fst (FileAppender_get_logfilename s)))"
proof -
  let ?lt = "os_localtime (fw_os s)"
  let ?t = "os_time (fw_os s) (fw_calls s)" and ?o = "os_time (fw_os s) (fw_calls s + 3) - fa_retain_period_sec s"
  have ok: "date_ok (?lt ?t)" "date_ok (?lt ?o)" "?o \<le> ?t" "stamp (?lt ?o) \<le> stamp (?lt ?t)"
    using assms(1) unfolding clock_ok_def by blast+
  have cut: "cutoff u = date_text (?lt ?o)" "length (cutoff u) = 14"
    using assms(3-5) ok(2) by (simp_all add: cutoff_def date_prefix_ok date_text_props)
  from log_key [OF ok(1) assms(2)] obtain r where
    "norm_path (fst (FileAppender_get_logfilename s)) = dir_prefix (fa_path s) @ date_text (?lt ?t) @ r" by blast
  then show ?thesis using strncmp_date [OF ok(1,2), of r] ok(4) by (simp add: expired_def cut(2)) (simp add: cut(1))
qed

lemma roll_file_ok:
  assumes "fa_roll_period_sec s \<noteq> 0" and "fa_last_roll_time s \<noteq> os_time (fw_os s) (fw_calls s) \<or> fa_file s \<noteq> None"
  shows "\<exists>s'. FileAppender_roll_file s = Inr s' \<and> app_frame s s' \<and> fw_trace s' = fw_trace s \<and> fa_file s' \<noteq> None \<and>
    (fa_last_roll_time s \<noteq> os_time (fw_os s) (fw_calls s) \<longrightarrow> fa_written_bytes s' = 0) \<and>
    (clock_ok (fw_os s) (fa_retain_period_sec s) \<and> fa_path s \<noteq> [] \<and> present s \<longrightarrow>
       present s' \<and> (\<forall>key. fa_file s' = Some (Log_file key) \<longrightarrow> held s' key = held s key))"
proof (cases "fa_last_roll_time s = os_time (fw_os s) (fw_calls s)")
  case True
  then have "FileAppender_roll_file s = Inr (tick s)"
    by (simp add: FileAppender_roll_file_def call_time_def tick_def)
  with True assms(2) show ?thesis by (simp add: tick_def app_frame_def present_def held_def)
next
  case False
  define now where "now = os_time (fw_os s) (fw_calls s)"
  define p where "p = now sdiv fa_roll_period_sec s * fa_roll_period_sec s"
  define fn where "fn = fst (FileAppender_get_logfilename (tick s))"
  define t where "t = (tick (tick s))\<lparr>fa_last_roll_time := now, fa_this_roll_period := p, fa_file := None\<rparr>"
  define u where "u = (open_log fn t)\<lparr>fa_written_bytes := 0\<rparr>"
  have gl: "FileAppender_get_logfilename (tick s) = (fn, tick (tick s))"
    by (simp add: fn_def FileAppender_get_logfilename_def call_time_def Let_def)
  have R: "FileAppender_roll_file s = Inr (FileAppender_del_old_files u)"
    using False assms(1) gl
    by (simp add: FileAppender_roll_file_def call_time_def period_of_def u_def t_def p_def now_def tick_def Let_def)
  obtain F dg st c where o: "open_log fn t = t\<lparr>fa_file := Some st, fw_calls := c, fw_fs := F, fw_diag := dg\<rparr>"
    "\<forall>k. held (open_log fn t) k = held t k"
    "st = Std_err \<or> st = Log_file (norm_path fn) \<and> c = fw_calls t + 2 \<and> (\<exists>x. map_of F (norm_path fn) = Some (Regular x))"
    using open_log_ok [of fn t] by blast
  obtain c' G where d: "FileAppender_del_old_files u = u\<lparr>fw_calls := c', fw_fs := G\<rparr>"
    "\<forall>k. map_of G k = map_of (fw_fs u) k \<or>
        map_of G k = None \<and> expired (fa_path u) (cutoff u) k \<and> (\<exists>x. (k, Regular x) \<in> set (fw_fs u))"
    using del_old_files_ok [of u] by blast
  define D where "D = FileAppender_del_old_files u"
  have D: "fa_file D = Some st" "fw_fs D = G" "app_frame s D" "fw_trace D = fw_trace s" "fa_written_bytes D = 0"
    unfolding D_def d(1) app_frame_def unfolding u_def o(1) by (simp_all add: t_def tick_def)
  have keep: "present D \<and>
      (\<forall>key. fa_file D = Some (Log_file key) \<longrightarrow> held D key = held s key)"
    if h: "clock_ok (fw_os s) (fa_retain_period_sec s)" "fa_path s \<noteq> []"
  proof (cases "st = Std_err")
    case True
    then show ?thesis by (simp add: D present_def)
  next
    case new: False
    then have st: "st = Log_file (norm_path fn)" "c = fw_calls t + 2" "\<exists>x. map_of F (norm_path fn) = Some (Regular x)"
      using o(3) by auto
    have "\<not> expired (fa_path (tick s)) (cutoff u) (norm_path fn)"
      unfolding fn_def using h st(2)
      by (intro new_file_not_expired) (simp_all add: u_def o(1), simp_all add: t_def tick_def)
    then have G: "map_of G (norm_path fn) = map_of F (norm_path fn)"
      using d(2) [rule_format, of "norm_path fn"] unfolding u_def o(1) by (auto simp: t_def tick_def)
    moreover have "held t (norm_path fn) = held s (norm_path fn)" by (simp add: held_def t_def tick_def)
    ultimately show ?thesis using st o(2) [rule_format, of "norm_path fn"]
      by (auto simp: D o(1) present_def held_def)
  qed
  with R D show ?thesis by (auto simp: D_def)
qed

section \<open>Writing a message\<close>

lemma map_of_extend:
  "map_of (map (extend_node key bs) fs) k =
     (if k = key then map_option (\<lambda>nd. case nd of Regular c \<Rightarrow> Regular (c @ bs) | Other_node \<Rightarrow> Other_node) (map_of fs k)
      else map_of fs k)"
  by (induction fs) (auto simp: extend_node_def split: node.split)

lemma stream_put_frame [simp]:
  "app_frame s (stream_put st bs s)" "fa_file (stream_put st bs s) = fa_file s"
  "fw_trace (stream_put st bs s) = fw_trace s @ [(st, bs)]" "fw_os (stream_put st bs s) = fw_os s"
  "fw_calls (stream_put st bs s) = fw_calls s" "fa_written_bytes (stream_put st bs s) = fa_written_bytes s"
  by (cases st; simp add: app_frame_def)+

text \<open>The documented behaviour of \<open>fwrite\<close>: it stores less than it was given only after an
  error, which \<open>ferror\<close> then reports.  Then the loop ends after one round.\<close>

definition fwrite_ok :: "file_os \<Rightarrow> bool" where
  "fwrite_ok os \<longleftrightarrow> (\<forall>n r. os_fwrite os n r < r \<longrightarrow> os_ferror os (Suc n))"

lemma write_loop_returns:
  assumes "fwrite_ok (fw_os s)" and "buf \<noteq> []"
  shows "write_loop st buf 0 s =
    (let n = os_fwrite (fw_os s) (fw_calls s) (length buf)
     in if n < length buf
        then Some (0, (tick (stream_put st (take n buf) (tick s)))\<lparr>fw_diag := fw_diag s @ [Write_failed]\<rparr>)
        else Some (length buf, stream_put st buf (tick s)))"
proof -
  have diag: "fw_diag (stream_put st bs s) = fw_diag s" for bs s by (cases st) simp_all
  have finished: "write_loop st buf (length buf) t = Some (length buf, t)" for t by (subst write_loop.simps) simp
  show ?thesis
  proof (cases "os_fwrite (fw_os s) (fw_calls s) (length buf) < length buf")
    case True
    with assms(1) have "os_ferror (fw_os s) (Suc (fw_calls s))" unfolding fwrite_ok_def by blast
    with True assms(2) show ?thesis
      by (subst write_loop.simps) (simp add: Let_def min_def tick_def diag)
  next
    case False
    with assms(2) show ?thesis
      by (subst write_loop.simps) (simp add: Let_def min_def finished)
  qed
qed

text \<open>The invariant of an appender, with a system on which every write succeeds.\<close>

definition fa_invar :: "file_appender \<Rightarrow> bool" where
  "fa_invar s \<longleftrightarrow> fa_roll_period_sec s \<noteq> 0 \<and> fa_file s \<noteq> None \<and> (\<forall>n r. r \<le> os_fwrite (fw_os s) n r)"

definition fa_written :: "file_appender \<Rightarrow> string" where
  "fa_written s = concat (map snd (fw_trace s))"

definition disk_ok :: "file_appender \<Rightarrow> bool" where
  "disk_ok s \<longleftrightarrow> clock_ok (fw_os s) (fa_retain_period_sec s) \<and> fa_path s \<noteq> [] \<and> present s"

lemma roll_if_due_ok:
  assumes p: "fa_roll_period_sec s \<noteq> 0" "fa_file s \<noteq> None"
  shows "\<exists>s'. roll_if_due s = Inr s' \<and> app_frame s s' \<and> fw_trace s' = fw_trace s \<and> fa_file s' \<noteq> None \<and>
    ((\<forall>k. fa_last_roll_time s \<noteq> os_time (fw_os s) k) \<longrightarrow> fa_written_bytes s' \<le> fa_roll_size_byte s) \<and>
    (disk_ok s \<longrightarrow> disk_ok s' \<and> (\<forall>key. fa_file s' = Some (Log_file key) \<longrightarrow> held s' key = held s key))"
proof -
  define good where "good u s' \<longleftrightarrow> FileAppender_roll_file u = Inr s' \<and> app_frame u s' \<and> fw_trace s' = fw_trace u \<and>
    fa_file s' \<noteq> None \<and>
    ((\<forall>k. fa_last_roll_time u \<noteq> os_time (fw_os u) k) \<longrightarrow> fa_written_bytes s' = 0) \<and>
    (disk_ok u \<longrightarrow> disk_ok s' \<and> (\<forall>key. fa_file s' = Some (Log_file key) \<longrightarrow> held s' key = held u key))" for u s'
  have roll: "\<exists>s'. good u s'" if "fa_roll_period_sec u \<noteq> 0" "fa_file u \<noteq> None" for u
    using roll_file_ok [of u] that by (fastforce simp: disk_ok_def app_frame_def good_def)
  let ?s1 = "s\<lparr>fa_count := fa_count s + 1\<rparr>" and ?s2 = "tick (s\<lparr>fa_count := 0\<rparr>)"
  let ?t = "os_time (fw_os s) (fw_calls s) sdiv fa_roll_period_sec s * fa_roll_period_sec s"
  have eq: "roll_if_due s =
      (if fa_roll_size_byte s < fa_written_bytes s then FileAppender_roll_file s
       else if fa_check_every s \<le> fa_count s + 1
            then if ?t \<noteq> fa_this_roll_period s then FileAppender_roll_file ?s2 else Inr ?s2
       else Inr ?s1)"
    using p(1) by (simp add: roll_if_due_def call_time_def period_of_def tick_def Let_def)
  have same: "fa_last_roll_time u = fa_last_roll_time s \<and> fw_os u = fw_os s \<and> fa_written_bytes u = fa_written_bytes s \<and>
      app_frame s u \<and> fw_trace u = fw_trace s \<and> fa_file u = fa_file s \<and> (disk_ok u \<longleftrightarrow> disk_ok s) \<and> held u = held s"
    if "u = ?s1 \<or> u = ?s2" for u
    using that by (auto simp: app_frame_def disk_ok_def present_def held_def tick_def fun_eq_iff)
  from roll [of s] p obtain a where a: "good s a" by blast
  from roll [of ?s2] p obtain b where b: "good ?s2 b" by (auto simp: tick_def)
  consider "roll_if_due s = Inr a" | "roll_if_due s = Inr b"
    | "fa_written_bytes s \<le> fa_roll_size_byte s" "roll_if_due s = Inr ?s2"
    | "fa_written_bytes s \<le> fa_roll_size_byte s" "roll_if_due s = Inr ?s1"
    using a b unfolding eq good_def by (metis not_less)
  then show ?thesis
  proof cases
    case 1
    with a show ?thesis by (auto simp: good_def)
  next
    case 2
    with b same [of ?s2] show ?thesis by (auto simp: good_def intro: app_frame_trans)
  qed (use same [of ?s1] same [of ?s2] p(2) in \<open>auto\<close>)
qed

lemma file_append_ok:
  assumes "fa_invar s" and "m \<noteq> []"
  shows "\<exists>s' st. FileAppender_append m s = Inr s' \<and> fa_invar s' \<and> app_frame s s' \<and> fa_file s' = Some st \<and>
    fw_trace s' = fw_trace s @ [(st, m)] \<and>
    (disk_ok s \<longrightarrow> disk_ok s' \<and> (\<forall>key. st = Log_file key \<longrightarrow> held s' key = held s key @ m))"
proof -
  have "fa_roll_period_sec s \<noteq> 0" "fa_file s \<noteq> None" using assms(1) by (simp_all add: fa_invar_def)
  from roll_if_due_ok [OF this] obtain s1 st where s1:
    "roll_if_due s = Inr s1" "app_frame s s1" "fw_trace s1 = fw_trace s" "fa_file s1 = Some st"
    "disk_ok s \<Longrightarrow> disk_ok s1 \<and> (\<forall>key. fa_file s1 = Some (Log_file key) \<longrightarrow> held s1 key = held s key)"
    by auto
  have os: "\<forall>n r. r \<le> os_fwrite (fw_os s1) n r" and fw: "fwrite_ok (fw_os s1)"
    using assms(1) s1(2) by (auto simp: fa_invar_def app_frame_def fwrite_ok_def not_less [symmetric])
  let ?s2 = "stream_put st m (tick s1)"
  let ?s' = "?s2\<lparr>fa_written_bytes := (fa_written_bytes ?s2 + length m) mod 2 ^ 64\<rparr>"
  have "write_loop st m 0 s1 = Some (length m, ?s2)"
    using write_loop_returns [OF fw assms(2)] os by (simp add: Let_def leD)
  then have run: "FileAppender_append m s = Inr ?s'"
    using assms(2) s1(1,4) by (simp add: FileAppender_append_def FileAppender_append_unlocked_def)
  have fr: "app_frame s ?s'"
    using s1(2) stream_put_frame(1) [of "tick s1" st m] by (simp add: app_frame_def tick_def)
  then have "fa_invar ?s'" using assms(1) s1(4) by (simp add: fa_invar_def app_frame_def tick_def)
  moreover have "disk_ok ?s' \<and> (\<forall>key. st = Log_file key \<longrightarrow> held ?s' key = held s key @ m)" if "disk_ok s"
    using s1(5) [OF that] fr that s1(4)
    by (cases st) (auto simp: disk_ok_def app_frame_def present_def held_def map_of_extend tick_def)
  ultimately show ?thesis using run fr s1(3,4) by (intro exI [of _ ?s'] exI [of _ st]) (simp add: tick_def)
qed

interpretation file_appender: log_appender FileAppender_append FileAppender_flush fa_written fa_invar
proof
  fix s and m :: string assume "fa_invar s" and "m \<noteq> []"
  from file_append_ok [OF this] show "\<exists>s'. FileAppender_append m s = Inr s' \<and> fa_invar s' \<and> fa_written s' = fa_written s @ m"
    by (auto simp: fa_written_def)
next
  fix s assume "fa_invar s"
  then show "fa_invar (FileAppender_flush s) \<and> fa_written (FileAppender_flush s) = fa_written s"
    by (simp add: FileAppender_flush_def)
qed

lemma new_ok:
  assumes "int32 (days * 24 * 60 * 60)" and "int32 (retain * 24 * 60 * 60)" and "days \<noteq> 0"
    and "\<forall>k. os_time os k \<noteq> 0" and "\<forall>n r. r \<le> os_fwrite os n r"
  shows "\<exists>s. FileAppender_new os fs path logname roll_size days retain check_every thread_safe = Inr s \<and>
    fa_invar s \<and> fw_trace s = [] \<and> fw_os s = os \<and> fa_roll_size_byte s = roll_size \<and>
    (clock_ok os (retain * 24 * 60 * 60) \<and> path \<noteq> [] \<longrightarrow> disk_ok s)"
proof -
  define s0 where "s0 = make_dir path
        \<lparr>fa_path = path, fa_logname = logname, fa_roll_size_byte = roll_size,
         fa_roll_period_sec = days * 24 * 60 * 60, fa_retain_period_sec = retain * 24 * 60 * 60,
         fa_check_every = check_every, fa_count = 0, fa_last_roll_time = 0, fa_this_roll_period = 0,
         fa_lck = thread_safe, fa_written_bytes = 0, fa_file = None,
         fw_os = os, fw_calls = 0, fw_fs = fs, fw_trace = [], fw_diag = []\<rparr>"
  have s0: "fa_roll_period_sec s0 = days * 24 * 60 * 60" "fa_retain_period_sec s0 = retain * 24 * 60 * 60"
    "fa_path s0 = path" "fw_os s0 = os" "fw_trace s0 = []" "fa_last_roll_time s0 = 0" "fa_file s0 = None"
    "fa_roll_size_byte s0 = roll_size"
    by (simp_all add: s0_def make_dir_def tick_def Let_def)
  have new: "FileAppender_new os fs path logname roll_size days retain check_every thread_safe = FileAppender_roll_file s0"
    using assms(1,2) by (simp add: FileAppender_new_def s0_def)
  have "fa_roll_period_sec s0 \<noteq> 0" "fa_last_roll_time s0 \<noteq> os_time (fw_os s0) (fw_calls s0) \<or> fa_file s0 \<noteq> None"
    using assms(3) assms(4) [rule_format, of "fw_calls s0"] by (simp_all add: s0)
  from roll_file_ok [OF this] obtain s where s: "FileAppender_roll_file s0 = Inr s" "app_frame s0 s"
    "fw_trace s = []" "fa_file s \<noteq> None" "clock_ok os (retain * 24 * 60 * 60) \<and> path \<noteq> [] \<longrightarrow> present s"
    by (auto simp: s0 present_def)
  have "fa_invar s" using s assms(3,5) by (simp add: fa_invar_def app_frame_def s0)
  then show ?thesis using new s by (auto simp: disk_ok_def app_frame_def s0)
qed

text \<open>Deletion does not stop at the files of the appender: a hidden file sorts before every time.\<close>

lemma hidden_expired:
  assumes "date_ok (os_localtime (fw_os s) (os_time (fw_os s) (fw_calls s) - fa_retain_period_sec s))"
    and "CHR ''/'' \<notin> set x"
  shows "expired (fa_path s) (cutoff s) (dir_prefix (fa_path s) @ ''.'' @ x)"
proof -
  let ?d = "date_text (os_localtime (fw_os s) (os_time (fw_os s) (fw_calls s) - fa_retain_period_sec s))"
  have cut: "cutoff s = ?d" "length ?d = Suc 13" using assms(1) by (simp_all add: cutoff_def date_prefix_ok date_text_props)
  then obtain c r where d: "?d = c # r" by (cases ?d) auto
  moreover have "48 \<le> (of_char c :: nat)"
    using date_text_props(2) [OF assms(1)] unfolding d by (simp add: all_digits_def)
  moreover from this have "strncmp (CHR ''.'' # x) (c # r) (Suc 13) < 0"
    unfolding strncmp.simps by auto
  ultimately show ?thesis
    using assms(2) cut by (simp add: expired_def)
qed

text \<open>A library that stores nothing and reports no error.\<close>

definition silent_library :: "file_os \<Rightarrow> bool" where
  "silent_library os \<longleftrightarrow> (\<forall>n r. os_fwrite os n r = 0) \<and> (\<forall>n. \<not> os_ferror os n)"

lemma write_loop_spins:
  assumes "silent_library (fw_os s)" and "written \<noteq> length buf"
  shows "write_loop st buf written s = None"
proof -
  have "silent_library (fw_os s) \<longrightarrow> written = length buf" if "write_loop st buf written s = Some y" for y
  proof (rule write_loop.raw_induct [where P = "\<lambda>st buf written s y. silent_library (fw_os s) \<longrightarrow> written = length buf", OF _ that],
      rule impI, rule ccontr)
    fix f st buf written s y
    assume IH: "\<And>st buf written s y. f st buf written s = Some y \<Longrightarrow> silent_library (fw_os s) \<longrightarrow> written = length buf"
      and run: "(if written = length buf then Some (written, s)
        else let remain = length buf - written; n = min remain (os_fwrite (fw_os s) (fw_calls s) remain);
                 s1 = stream_put st (take n (drop written buf)) (tick s)
             in if n \<noteq> remain
                then let s2 = tick s1
                     in if os_ferror (fw_os s1) (fw_calls s1)
                        then Some (written, s2\<lparr>fw_diag := fw_diag s2 @ [Write_failed]\<rparr>)
                        else f st buf (written + n) s2
                else f st buf (written + n) s1) = Some y"
      and os: "silent_library (fw_os s)" and more: "written \<noteq> length buf"
    obtain u where "f st buf written u = Some y" "fw_os u = fw_os s"
      using run os more by (auto simp: Let_def silent_library_def tick_def split: if_splits)
    with IH os more show False by metis
  qed
  then show ?thesis using assms by (cases "write_loop st buf written s") auto
qed

lemma append_after_roll:
  assumes "roll_if_due s = Inr s1" and "fa_file s1 = Some st" and "m \<noteq> []"
  shows "FileAppender_append m s =
    (case write_loop st m 0 s1 of
       None \<Rightarrow> Inl No_return
     | Some (written, s2) \<Rightarrow> Inr (s2\<lparr>fa_written_bytes := (fa_written_bytes s2 + written) mod 2 ^ 64\<rparr>))"
  using assms by (simp add: FileAppender_append_def FileAppender_append_unlocked_def)

section \<open>Properties\<close>

text \<open>
  C23. A logger on a new file appender writes every message of its level and above, completely
  and in order, over however many files the log is rolled; constructing the appender and each
  of the calls return.  (The period must not be zero days, the clock not stand at the epoch, and
  the writes succeed.)
\<close>

theorem SyncLogger_file:
  assumes "int32 (days * 24 * 60 * 60)" and "int32 (retain * 24 * 60 * 60)" and "days \<noteq> 0"
    and "\<forall>k. os_time os k \<noteq> 0" and "\<forall>n r. r \<le> os_fwrite os n r"
  shows "\<exists>s s'. FileAppender_new os fs path logname roll_size days retain check_every thread_safe = Inr s \<and>
    sync_log_all FileAppender_append FileAppender_flush lv ms s = Inr s' \<and> fa_written s' = passed lv ms"
proof -
  from new_ok [OF assms, of fs path logname roll_size check_every thread_safe] obtain s where
    s: "FileAppender_new os fs path logname roll_size days retain check_every thread_safe = Inr s" "fa_invar s" "fw_trace s = []"
    by blast
  then have "fa_written s = []" by (simp add: fa_written_def)
  with file_appender.sync_log_all_ok [OF s(2), of lv ms] s(1) show ?thesis by auto
qed

text \<open>A system whose clock stands still in January 2025 and whose calls succeed.\<close>

definition quiet_os :: file_os where
  "quiet_os = \<lparr>os_time = \<lambda>_. 1735689600,
     os_localtime = \<lambda>_. \<lparr>tm_year = 125, tm_mon = 0, tm_mday = 1, tm_hour = 0, tm_min = 0, tm_sec = 0\<rparr>,
     os_pid = 7, os_mkdir = \<lambda>_. True, os_fopen = \<lambda>_. True, os_setvbuf = \<lambda>_. True, os_fwrite = \<lambda>_ r. r,
     os_ferror = \<lambda>_. False, os_opendir = \<lambda>_. True, os_remove = \<lambda>_. True\<rparr>"

lemma quiet_clock: "clock_ok quiet_os r \<longleftrightarrow> 0 \<le> r"
  by (simp add: clock_ok_def quiet_os_def date_ok_def tm_ok_def)

lemma quiet_appender:
  "\<exists>s. FileAppender_new quiet_os [] ''logs'' ''app'' 1000 1 30 1024 False = Inr s \<and> fa_invar s \<and> disk_ok s \<and>
     fw_trace s = [] \<and> fw_os s = quiet_os \<and> fa_roll_size_byte s = 1000"
proof -
  have os: "\<forall>k. os_time quiet_os k \<noteq> 0" "\<forall>n r. r \<le> os_fwrite quiet_os n r" by (simp_all add: quiet_os_def)
  obtain s where s: "FileAppender_new quiet_os [] ''logs'' ''app'' 1000 1 30 1024 False = Inr s"
    "fa_invar s" "disk_ok s" "fw_trace s = []" "fw_os s = quiet_os" "fa_roll_size_byte s = 1000"
    using new_ok [of 1 30 quiet_os "[]" "''logs''" "''app''" 1000 1024 False] quiet_clock os
    by (auto simp: int32_def)
  then show ?thesis by blast
qed

theorem SyncLogger_file_witness:
  "\<exists>s s'. FileAppender_new quiet_os [] ''logs'' ''app'' 1000 1 30 1024 False = Inr s \<and>
     sync_log_all FileAppender_append FileAppender_flush kInfo [(kDebug, ''a''), (kWarn, ''b''), (kInfo, ''c'')] s = Inr s' \<and>
     fa_written s' = ''bc''"
proof -
  have "passed kInfo [(kDebug, ''a''), (kWarn, ''b''), (kInfo, ''c'')] = ''bc''"
    by (simp add: passed_def less_eq_level_def)
  then show ?thesis
    using SyncLogger_file [of 1 30 quiet_os "[]" "''logs''" "''app''" 1000 1024 False kInfo
        "[(kDebug, ''a''), (kWarn, ''b''), (kInfo, ''c'')]"] by (simp add: int32_def quiet_os_def)
qed





text \<open>
  C27. An append always returns when \<open>fwrite\<close> keeps what its manual promises (it stores
  less than it was given only after an error): one piece of the message, a prefix, reaches the
  stream, and if it is not the whole message the failure is reported.  With a library that
  stores nothing and reports no error the loop never ends.
\<close>

theorem FileAppender_append_returns:
  assumes "fa_roll_period_sec s \<noteq> 0" and "fa_file s \<noteq> None" and "m \<noteq> []"
  shows "(fwrite_ok (fw_os s) \<longrightarrow>
      (\<exists>s' st n. FileAppender_append m s = Inr s' \<and> fa_file s' = Some st \<and> n \<le> length m \<and>
         fw_trace s' = fw_trace s @ [(st, take n m)] \<and> (n < length m \<longrightarrow> last (fw_diag s') = Write_failed))) \<and>
    (silent_library (fw_os s) \<longrightarrow> FileAppender_append m s = Inl No_return)"
proof -
  from roll_if_due_ok [OF assms(1,2)] obtain s1 st where
    s1: "roll_if_due s = Inr s1" "app_frame s s1" "fw_trace s1 = fw_trace s" "fa_file s1 = Some st" by auto
  note A = append_after_roll [OF s1(1,4) assms(3)]
  have os: "fw_os s1 = fw_os s" using s1(2) by (simp add: app_frame_def)
  have tick: "fw_trace (tick u) = fw_trace u" "fa_file (tick u) = fa_file u" for u by (simp_all add: tick_def)
  have "\<exists>s' st n. FileAppender_append m s = Inr s' \<and> fa_file s' = Some st \<and> n \<le> length m \<and>
         fw_trace s' = fw_trace s @ [(st, take n m)] \<and> (n < length m \<longrightarrow> last (fw_diag s') = Write_failed)"
    if fw: "fwrite_ok (fw_os s)"
  proof (cases "os_fwrite (fw_os s1) (fw_calls s1) (length m) < length m")
    case True
    let ?n = "os_fwrite (fw_os s1) (fw_calls s1) (length m)"
    have "write_loop st m 0 s1 =
        Some (0, (tick (stream_put st (take ?n m) (tick s1)))\<lparr>fw_diag := fw_diag s1 @ [Write_failed]\<rparr>)"
      using write_loop_returns [of s1 m st] fw True assms(3) by (simp add: os Let_def)
    with A True show ?thesis
      by (simp add: s1 tick) (metis less_imp_le)
  next
    case False
    then have "write_loop st m 0 s1 = Some (length m, stream_put st m (tick s1))"
      using write_loop_returns [of s1 m st] fw assms(3) by (simp add: os Let_def)
    with A show ?thesis by (auto simp: s1 tick)
  qed
  moreover have "FileAppender_append m s = Inl No_return" if "silent_library (fw_os s)"
    using A write_loop_spins [of s1 0 m st] that assms(3) by (simp add: os)
  ultimately show ?thesis by blast
qed


theorem FileAppender_append_returns_witness:
  "\<exists>s s'. FileAppender_append ''hello'' s = Inr s' \<and> fa_file s' \<noteq> None \<and>
     FileAppender_append ''hello'' (s\<lparr>fw_os := quiet_os\<lparr>os_fwrite := \<lambda>_ _. 0\<rparr>\<rparr>) = Inl No_return"
proof -
  obtain s where s: "fa_invar s" "fw_os s = quiet_os" using quiet_appender by blast
  then have ok: "fa_roll_period_sec s \<noteq> 0" "fa_file s \<noteq> None" by (simp_all add: fa_invar_def)
  let ?t = "s\<lparr>fw_os := quiet_os\<lparr>os_fwrite := \<lambda>_ _. 0\<rparr>\<rparr>"
  have "silent_library (fw_os ?t)" "fwrite_ok (fw_os s)" using s(2) by (simp_all add: silent_library_def fwrite_ok_def quiet_os_def)
  with FileAppender_append_returns [of s "''hello''"] FileAppender_append_returns [of ?t "''hello''"] ok
  show ?thesis by auto
qed


end
