(* ===== verification/Log_Test.thy ===== *)
theory Log_Test
  imports File_Appender Log_Event
begin

text \<open>
  The load test of the logger (test/logtest.cc): \<open>main\<close> makes an asynchronous logger on a file
  appender the default logger and starts threads that wait for a flag and then log numbered lines.
  The threads, \<open>main\<close> and the writing thread of the logger interleave; a thread's
  \<open>CLIA_LOG_INFO\<close> is the increment of the counter with the composition of the line and the
  tests of \<open>log\<close>, and then the critical section of \<open>log\<close>.  \<open>running\<close> is read as
  if it were atomic.
\<close>

section \<open>State\<close>

datatype tester_pc = Spinning | Looping | Appending "64 word" string | Returned

text \<open>One thread: its number, its cache of the time, the rounds of the loop that are left.\<close>

record tester =
  tt_tid :: int
  tt_cache :: time_cache
  tt_left :: nat
  tt_pc :: tester_pc

datatype main_pc = Spawning | Joining | Exiting | Stopping | Ended

record log_test =
  lt_sys :: "file_appender async_sys"
  lt_manger :: "level logger_manger"
  lt_running :: bool
  lt_count :: "64 word"
  lt_threads :: "tester multiset"
  lt_pc :: main_pc
  lt_start :: int
  lt_out :: string

text \<open>What the run depends on: \<open>localtime_r\<close>, the process, the name of the file, what is in the
  stream before, the values the clock takes, and what the arguments say.\<close>

record test_env =
  te_localtime :: "int \<Rightarrow> tm"
  te_pid :: int
  te_file :: string
  te_junk :: string
  te_clock :: "timestamp set"
  te_threads :: nat
  te_rounds :: nat

section \<open>The program\<close>

definition is_space :: "char \<Rightarrow> bool" where
  "is_space c \<longleftrightarrow> c \<in> {CHR '' '', CHR 0x09, CHR 0x0A, CHR 0x0B, CHR 0x0C, CHR 0x0D}"

definition is_digit :: "char \<Rightarrow> bool" where
  "is_digit c \<longleftrightarrow> 48 \<le> (of_char c :: nat) \<and> (of_char c :: nat) \<le> 57"

text \<open>\<open>std::atoi\<close>; a value that does not fit into an \<open>int\<close> is undefined behaviour.\<close>

definition atoi :: "string \<Rightarrow> int res" where
  "atoi s =
     (let t = dropWhile is_space s;
          digits = (\<lambda>u. int (parse_decimal (takeWhile is_digit u)));
          v = (case t of
                 [] \<Rightarrow> 0
               | c # u \<Rightarrow> if c = CHR ''-'' then - digits u else if c = CHR ''+'' then digits u else digits t)
      in if int32 v then Inr v else Inl Undefined_behaviour)"

definition arg :: "string list \<Rightarrow> nat \<Rightarrow> int res" where
  "arg argv i = (if i < length argv then atoi (argv ! i) else Inl Undefined_behaviour)"

text \<open>The arguments: the second is looked at by the threads only.\<close>

definition logtest_args :: "string list \<Rightarrow> (nat \<times> nat) res" where
  "logtest_args argv =
     bindE (arg argv 1) (\<lambda>n. if n \<le> 0 then Inr (0, 0) else bindE (arg argv 2) (\<lambda>m. Inr (nat n, nat m)))"

definition logtest_items :: "64 word \<Rightarrow> stream_item list" where
  "logtest_items v = [C_string (Some ''Hello, ''), C_string (Some ''world''),
     C_string (Some ''! This is a test log message with value: ''), Integral (uint v)]"

text \<open>The line of one round, as the macro hands it to the logger; \<open>None\<close> if it does not log.\<close>

definition logtest_line :: "test_env \<Rightarrow> timestamp \<Rightarrow> level option \<Rightarrow> int \<Rightarrow> 64 word \<Rightarrow> time_cache \<Rightarrow>
    (time_cache \<times> string option) res" where
  "logtest_line e now logger tid v c =
     CLIA_LOG (te_localtime e) now (te_pid e) tid (te_junk e) (map_option (\<lambda>lv. (lv, \<lambda>_ m _. Inr (Some m))) logger)
       kInfo (te_file e) 44 ''operator()'' (logtest_items v) c None"

text \<open>\<open>main\<close> up to the first thread; \<open>t0\<close> and \<open>fs\<close> are the time of the static initialisation
  and the files there are.\<close>

definition logtest_start :: "file_os \<Rightarrow> (string \<times> node) list \<Rightarrow> int \<Rightarrow> log_test res" where
  "logtest_start os fs t0 =
     bindE (FileAppender_new os fs ''./'' ''testlog'' (10 * 1024 * 1024) 1 (6 * 30) 1024 False) (\<lambda>s.
       Inr \<lparr>lt_sys = async_start kBufferSize kInfo s,
            lt_manger = LoggerManger_set_default (Some kInfo) LoggerManger_new,
            lt_running = False, lt_count = 0, lt_threads = {#}, lt_pc = Spawning, lt_start = t0,
            lt_out = ''hello world'' @ [CHR 0x0A]\<rparr>)"

section \<open>Interleaving\<close>

text \<open>A thread goes from \<open>t\<close> to \<open>t'\<close>.\<close>

definition upd_tester :: "tester \<Rightarrow> tester \<Rightarrow> log_test \<Rightarrow> log_test" where
  "upd_tester t t' x = x\<lparr>lt_threads := add_mset t' (lt_threads x - {#t#})\<rparr>"

inductive logtest_step :: "test_env \<Rightarrow> log_test \<Rightarrow> log_test \<Rightarrow> bool" for e where
  spawn: "lt_pc x = Spawning \<Longrightarrow> size (lt_threads x) < te_threads e \<Longrightarrow> 0 < tid \<Longrightarrow> int32 tid \<Longrightarrow>
    logtest_step e x (x\<lparr>lt_threads := add_mset \<lparr>tt_tid = tid, tt_cache = time_cache_init, tt_left = te_rounds e, tt_pc = Spinning\<rparr>
      (lt_threads x)\<rparr>)"
| go: "lt_pc x = Spawning \<Longrightarrow> size (lt_threads x) = te_threads e \<Longrightarrow>
    logtest_step e x (x\<lparr>lt_running := True, lt_pc := Joining\<rparr>)"
| enter: "t \<in># lt_threads x \<Longrightarrow> tt_pc t = Spinning \<Longrightarrow> lt_running x \<Longrightarrow>
    logtest_step e x (upd_tester t (t\<lparr>tt_pc := Looping\<rparr>) x)"
| emit: "t \<in># lt_threads x \<Longrightarrow> tt_pc t = Looping \<Longrightarrow> tt_left t = Suc k \<Longrightarrow> now \<in> te_clock e \<Longrightarrow> v = lt_count x + 1 \<Longrightarrow>
    logtest_line e now (lm_default_logger (lt_manger x)) (tt_tid t) v (tt_cache t) = Inr (c, Some m) \<Longrightarrow>
    AsyncLogger_accepts kBufferSize kInfo (Some m) (as_logger (lt_sys x)) \<Longrightarrow>
    logtest_step e x (upd_tester t (t\<lparr>tt_cache := c, tt_left := k, tt_pc := Appending v m\<rparr>)
      (x\<lparr>lt_count := v, lt_sys := (lt_sys x)\<lparr>as_accepted := add_mset m (as_accepted (lt_sys x))\<rparr>\<rparr>))"
| refuse: "t \<in># lt_threads x \<Longrightarrow> tt_pc t = Looping \<Longrightarrow> tt_left t = Suc k \<Longrightarrow> now \<in> te_clock e \<Longrightarrow> v = lt_count x + 1 \<Longrightarrow>
    logtest_line e now (lm_default_logger (lt_manger x)) (tt_tid t) v (tt_cache t) = Inr (c, Some m) \<Longrightarrow>
    \<not> AsyncLogger_accepts kBufferSize kInfo (Some m) (as_logger (lt_sys x)) \<Longrightarrow>
    logtest_step e x (upd_tester t (t\<lparr>tt_cache := c, tt_left := k\<rparr>) (x\<lparr>lt_count := v\<rparr>))"
| disabled: "t \<in># lt_threads x \<Longrightarrow> tt_pc t = Looping \<Longrightarrow> tt_left t = Suc k \<Longrightarrow> now \<in> te_clock e \<Longrightarrow> v = lt_count x + 1 \<Longrightarrow>
    logtest_line e now (lm_default_logger (lt_manger x)) (tt_tid t) v (tt_cache t) = Inr (c, None) \<Longrightarrow>
    logtest_step e x (upd_tester t (t\<lparr>tt_left := k\<rparr>) x)"
| append: "t \<in># lt_threads x \<Longrightarrow> tt_pc t = Appending v m \<Longrightarrow> AsyncLogger_append kBufferSize m (as_logger (lt_sys x)) = Inr lg \<Longrightarrow>
    logtest_step e x (upd_tester t (t\<lparr>tt_pc := Looping\<rparr>)
      (x\<lparr>lt_sys := (lt_sys x)\<lparr>as_logger := lg, as_accepted := as_accepted (lt_sys x) - {#m#}, as_logged := as_logged (lt_sys x) @ [m]\<rparr>\<rparr>))"
| finish: "t \<in># lt_threads x \<Longrightarrow> tt_pc t = Looping \<Longrightarrow> tt_left t = 0 \<Longrightarrow>
    logtest_step e x (upd_tester t (t\<lparr>tt_pc := Returned\<rparr>) x)"
| join: "lt_pc x = Joining \<Longrightarrow> \<forall>t \<in># lt_threads x. tt_pc t = Returned \<Longrightarrow>
    logtest_step e x (x\<lparr>lt_pc := Exiting,
      lt_out := lt_out x @ ''Logging completed in '' @ signed_decimal d @ '' seconds.'' @ [CHR 0x0A]\<rparr>)"
| stop: "lt_pc x = Exiting \<Longrightarrow>
    logtest_step e x (x\<lparr>lt_pc := Stopping, lt_sys := (lt_sys x)\<lparr>as_logger := (as_logger (lt_sys x))\<lparr>al_running := False\<rparr>\<rparr>\<rparr>)"
| ended: "lt_pc x = Stopping \<Longrightarrow> as_pc (lt_sys x) = Exited \<Longrightarrow>
    logtest_step e x (x\<lparr>lt_pc := Ended, lt_sys := (lt_sys x)\<lparr>as_appender := FileAppender_destroy (as_appender (lt_sys x))\<rparr>,
      lt_out := lt_out x @ ''Time elapsed: '' @ signed_decimal (t1 - lt_start x) @ '' seconds.'' @ [CHR 0x0A]\<rparr>)"
| writer: "async_step FileAppender_append FileAppender_flush kBufferSize (lt_sys x) y \<Longrightarrow> as_accepted y = as_accepted (lt_sys x) \<Longrightarrow>
    as_logged y = as_logged (lt_sys x) \<Longrightarrow> al_running (as_logger y) = al_running (as_logger (lt_sys x)) \<Longrightarrow>
    logtest_step e x (x\<lparr>lt_sys := y\<rparr>)"

section \<open>The lines\<close>

text \<open>What the environment has to grant: a clock that shows valid times, a stream of 1024 bytes, and a
  place and process whose head of the line leaves room for the text.\<close>

definition env_ok :: "test_env \<Rightarrow> bool" where
  "env_ok e \<longleftrightarrow> length (te_junk e) = 1024 \<and> 0 \<le> te_pid e \<and> te_pid e < 2 ^ 64 \<and>
     (\<forall>now \<in> te_clock e. time_ok (te_localtime e) now \<and>
        items_room (log_line (te_localtime e) now (te_pid e) 0 kInfo (te_file e) 44 ''operator()'' (logtest_items 0)) \<le> 1024)"

definition numbered :: "nat \<Rightarrow> string \<Rightarrow> bool" where
  "numbered v m \<longleftrightarrow> (\<exists>head. m = head @ ''Hello, world! This is a test log message with value: '' @ decimal v @ [CHR 0x0A])"

lemma length_items_text: "\<forall>x \<in> set xs. item_ok x \<Longrightarrow> length (items_text xs) \<le> items_room xs"
proof (induction xs)
  case (Cons x xs)
  from Cons.prems length_item_text [of x] Cons.IH show ?case by simp
qed simp

lemma logtest_line_ok:
  assumes e: "env_ok e" and now: "now \<in> te_clock e" and c: "cache_ok (te_localtime e) c" and tid: "0 < tid" "int32 tid"
  shows "\<exists>c' m. logtest_line e now (Some kInfo) tid v c = Inr (c', Some m) \<and> cache_ok (te_localtime e) c' \<and>
    numbered (unat v) m \<and> m \<noteq> [] \<and> length m \<le> 1024"
proof -
  let ?line = "\<lambda>tid v. log_line (te_localtime e) now (te_pid e) tid kInfo (te_file e) 44 ''operator()'' (logtest_items v)"
  have E: "time_ok (te_localtime e) now" "length (te_junk e) = 1024" "items_room (?line 0 0) \<le> 1024" "0 \<le> te_pid e" "te_pid e < 2 ^ 64"
    using e now by (simp_all add: env_ok_def)
  have room: "items_room (?line tid v) \<le> 1024" using E(3) by (simp add: log_line_def tips_items_def logtest_items_def)
  have ok: "\<forall>x \<in> set (?line tid v). item_ok x"
    using E(4,5) tid uint_lt2p [of v] by (simp add: log_line_def tips_items_def logtest_items_def int32_def)
  from Event_line_ok [OF c E(1,2) _ room ok] obtain c' ev os os' where
    ev: "cache_ok (te_localtime e) c'" "Event_new (te_localtime e) now (te_pid e) tid (te_junk e) kInfo (Some (te_file e)) 44 (Some ''operator()'') c = Inr (ev, c')"
    "FixedOStream_puts (logtest_items v) (ev_stream ev) = Inr os" "FixedOStream_put (Char (CHR 0x0A)) os = Inr os'"
    "fb_contents os' = items_text (?line tid v)" by auto
  have "logtest_line e now (Some kInfo) tid v c = Inr (c', Some (items_text (?line tid v)))"
    using ev by (simp add: logtest_line_def CLIA_LOG_def if_enabled_def Event_destroy_def less_eq_level_def)
  moreover have "items_text (?line tid v) = items_text (tips_items (Timestamp_text (te_localtime e) False now @ micro_text now) (te_pid e) tid kInfo (te_file e) 44 ''operator()'') @
      ''Hello, world! This is a test log message with value: '' @ decimal (unat v) @ [CHR 0x0A]"
    by (simp add: log_line_def logtest_items_def)
  moreover have "length (items_text (?line tid v)) \<le> 1024"
    using length_items_text [OF ok] room by simp
  ultimately show ?thesis using ev(1) unfolding numbered_def by (intro exI [of _ c'] exI [of _ "items_text (?line tid v)"]) auto
qed

section \<open>Invariant\<close>

definition pending_msg :: "tester \<Rightarrow> string multiset" where
  "pending_msg t = (case tt_pc t of Appending v m \<Rightarrow> {#m#} | _ \<Rightarrow> {#})"

definition pending_val :: "tester \<Rightarrow> nat multiset" where
  "pending_val t = (case tt_pc t of Appending v m \<Rightarrow> {#unat v#} | _ \<Rightarrow> {#})"

definition tester_ok :: "test_env \<Rightarrow> tester \<Rightarrow> bool" where
  "tester_ok e t \<longleftrightarrow> cache_ok (te_localtime e) (tt_cache t) \<and> 0 < tt_tid t \<and> int32 (tt_tid t) \<and> (tt_pc t = Returned \<longrightarrow> tt_left t = 0) \<and>
     (\<forall>v m. tt_pc t = Appending v m \<longrightarrow> numbered (unat v) m \<and> m \<noteq> [] \<and> length m \<le> 1024)"

text \<open>The threads: how many there are, what they hold, and how many rounds are left.\<close>

definition threads_inv :: "test_env \<Rightarrow> log_test \<Rightarrow> bool" where
  "threads_inv e x \<longleftrightarrow> (\<forall>t \<in># lt_threads x. tester_ok e t) \<and> size (lt_threads x) \<le> te_threads e \<and>
     (lt_pc x \<noteq> Spawning \<longrightarrow> size (lt_threads x) = te_threads e \<and> lt_running x) \<and>
     (lt_pc x \<in> {Exiting, Stopping, Ended} \<longrightarrow> (\<forall>t \<in># lt_threads x. tt_pc t = Returned)) \<and>
     unat (lt_count x) + sum_mset (image_mset tt_left (lt_threads x)) = size (lt_threads x) * te_rounds e"

text \<open>Every value that was counted is in a line that was logged or that a thread holds.\<close>

definition values_inv :: "log_test \<Rightarrow> bool" where
  "values_inv x \<longleftrightarrow> as_accepted (lt_sys x) = sum_mset (image_mset pending_msg (lt_threads x)) \<and>
     (\<exists>vs. list_all2 numbered vs (as_logged (lt_sys x)) \<and>
        mset vs + sum_mset (image_mset pending_val (lt_threads x)) = mset [1..<Suc (unat (lt_count x))])"

definition logger_inv :: "log_test \<Rightarrow> bool" where
  "logger_inv x \<longleftrightarrow> lm_default_logger (lt_manger x) = Some kInfo \<and> al_level (as_logger (lt_sys x)) = kInfo \<and>
     al_running (as_logger (lt_sys x)) = (lt_pc x \<notin> {Stopping, Ended}) \<and>
     (as_pc (lt_sys x) = Exited \<longrightarrow> lt_pc x \<in> {Stopping, Ended} \<and> in_logger (as_logger (lt_sys x)) = []) \<and>
     (lt_pc x = Ended \<longrightarrow> as_pc (lt_sys x) = Exited) \<and>
     (if lt_pc x = Ended
      then \<not> as_dropped (lt_sys x) \<longrightarrow> fa_written (as_appender (lt_sys x)) = concat (as_logged (lt_sys x))
      else async_inv fa_written fa_invar kBufferSize [] (lt_sys x))"

lemma sum_mset_upd:
  fixes f :: "'t \<Rightarrow> 'b :: comm_monoid_add"
  assumes "t \<in># T"
  shows "sum_mset (image_mset f (add_mset t' (T - {#t#}))) + f t = sum_mset (image_mset f T) + f t'"
proof -
  obtain R where "T = add_mset t R" using assms by (metis insert_DiffM)
  then show ?thesis by (simp add: ac_simps)
qed

lemma upd_tester_simps [simp]:
  "lt_threads (upd_tester t t' x) = add_mset t' (lt_threads x - {#t#})" "lt_sys (upd_tester t t' x) = lt_sys x"
  "lt_pc (upd_tester t t' x) = lt_pc x" "lt_count (upd_tester t t' x) = lt_count x" "lt_manger (upd_tester t t' x) = lt_manger x"
  "lt_running (upd_tester t t' x) = lt_running x"
  by (simp_all add: upd_tester_def)

lemma tester_ok_upd:
  assumes "\<forall>t \<in># T. tester_ok e t" and "tester_ok e t'"
  shows "\<forall>s \<in># add_mset t' (T - {#t#}). tester_ok e s"
  using assms by (auto dest: in_diffD)

text \<open>A thread moves without touching the logger: \<open>d\<close> counts the values it takes.\<close>

lemma threads_inv_upd:
  assumes I: "threads_inv e x" and t: "t \<in># lt_threads x" "tester_ok e t'" "tt_pc t \<noteq> Returned"
    and c: "unat (lt_count y) + tt_left t' = unat (lt_count x) + tt_left t" and y: "lt_threads y = lt_threads x" "lt_pc y = lt_pc x" "lt_running y = lt_running x"
  shows "threads_inv e (upd_tester t t' y)"
proof -
  have "sum_mset (image_mset tt_left (add_mset t' (lt_threads x - {#t#}))) + tt_left t = sum_mset (image_mset tt_left (lt_threads x)) + tt_left t'"
    by (rule sum_mset_upd [OF t(1)])
  moreover have "size (add_mset t' (lt_threads x - {#t#})) = size (lt_threads x)" using t(1) by (simp add: size_Suc_Diff1)
  moreover have "lt_pc x \<notin> {Exiting, Stopping, Ended}" using I t(1,3) by (auto simp: threads_inv_def)
  moreover have "\<forall>s \<in># add_mset t' (lt_threads x - {#t#}). tester_ok e s"
    using I t(2) by (intro tester_ok_upd) (simp_all add: threads_inv_def)
  ultimately show ?thesis using I c unfolding threads_inv_def upd_tester_simps y by auto
qed

lemma values_inv_upd:
  assumes I: "values_inv x" and t: "t \<in># lt_threads x" and y: "lt_threads y = lt_threads x"
    and acc: "as_accepted (lt_sys y) + pending_msg t = as_accepted (lt_sys x) + pending_msg t'"
    and lg: "as_logged (lt_sys y) = as_logged (lt_sys x) @ ms" "list_all2 numbered ws ms"
    and vs: "mset ws + pending_val t' + mset [1..<Suc (unat (lt_count x))] = pending_val t + mset [1..<Suc (unat (lt_count y))]"
  shows "values_inv (upd_tester t t' y)"
proof -
  let ?T = "add_mset t' (lt_threads x - {#t#})"
  have m: "sum_mset (image_mset pending_msg ?T) + pending_msg t = sum_mset (image_mset pending_msg (lt_threads x)) + pending_msg t'"
    and v: "sum_mset (image_mset pending_val ?T) + pending_val t = sum_mset (image_mset pending_val (lt_threads x)) + pending_val t'"
    by (rule sum_mset_upd [OF t])+
  from I obtain us where us: "as_accepted (lt_sys x) = sum_mset (image_mset pending_msg (lt_threads x))"
    "list_all2 numbered us (as_logged (lt_sys x))"
    "mset us + sum_mset (image_mset pending_val (lt_threads x)) = mset [1..<Suc (unat (lt_count x))]" by (auto simp: values_inv_def)
  have "as_accepted (lt_sys y) + pending_msg t = sum_mset (image_mset pending_msg ?T) + pending_msg t" unfolding acc us(1) m ..
  then have "as_accepted (lt_sys y) = sum_mset (image_mset pending_msg ?T)" by (rule add_right_imp_eq)
  moreover have "mset (us @ ws) + sum_mset (image_mset pending_val ?T) + pending_val t = mset [1..<Suc (unat (lt_count y))] + pending_val t"
  proof -
    have "mset (us @ ws) + sum_mset (image_mset pending_val ?T) + pending_val t =
        mset ws + pending_val t' + (mset us + sum_mset (image_mset pending_val (lt_threads x)))"
      using v by (simp add: ac_simps)
    also have "\<dots> = mset ws + pending_val t' + mset [1..<Suc (unat (lt_count x))]" by (simp only: us(3))
    also have "\<dots> = mset [1..<Suc (unat (lt_count y))] + pending_val t" using vs by (simp only: ac_simps)
    finally show ?thesis .
  qed
  then have "mset (us @ ws) + sum_mset (image_mset pending_val ?T) = mset [1..<Suc (unat (lt_count y))]" by (rule add_right_imp_eq)
  moreover have "list_all2 numbered (us @ ws) (as_logged (lt_sys y))" using us(2) lg by (simp add: list_all2_appendI)
  ultimately show ?thesis unfolding values_inv_def upd_tester_simps y by blast
qed

lemma values_inv_still:
  assumes "values_inv x" and "t \<in># lt_threads x" and "pending_msg t' = pending_msg t" and "pending_val t' = pending_val t"
  shows "values_inv (upd_tester t t' x)"
  by (rule values_inv_upd [where ms = "[]" and ws = "[]", OF assms(1,2) refl]) (simp_all add: assms(3,4))

lemma buffer_size: "0 < kBufferSize" "kBufferSize < 2 ^ 31"
  by (simp_all add: kBufferSize_def)

lemma AsyncLogger_append_fields:
  "AsyncLogger_append N m lg = Inr lg' \<Longrightarrow> al_level lg' = al_level lg \<and> al_running lg' = al_running lg"
  by (auto simp: AsyncLogger_append_def bindE_Inr_iff split: option.splits if_splits)

lemma async_step_level: "async_step put flush N x y \<Longrightarrow> al_level (as_logger y) = al_level (as_logger x)"
  by (induction rule: async_step.induct)
    (auto simp: AsyncLogger_sync_take_def bindE_Inr_iff dest: AsyncLogger_append_fields split: option.splits)

definition logtest_inv :: "test_env \<Rightarrow> log_test \<Rightarrow> bool" where
  "logtest_inv e x \<longleftrightarrow> threads_inv e x \<and> values_inv x \<and> logger_inv x"

text \<open>A round of a thread: the line is composed and the logger takes it.\<close>

lemma looping_line:
  assumes e: "env_ok e" and I: "logtest_inv e x" and t: "t \<in># lt_threads x" "tt_pc t = Looping" and now: "now \<in> te_clock e"
    and m: "logtest_line e now (lm_default_logger (lt_manger x)) (tt_tid t) v (tt_cache t) = Inr (c, om)"
  shows "\<exists>m. om = Some m \<and> cache_ok (te_localtime e) c \<and> numbered (unat v) m \<and> m \<noteq> [] \<and> length m \<le> 1024 \<and>
    AsyncLogger_accepts kBufferSize kInfo (Some m) (as_logger (lt_sys x)) \<and> lt_pc x \<notin> {Exiting, Stopping, Ended}"
proof -
  have T: "tester_ok e t" "lt_pc x \<notin> {Exiting, Stopping, Ended}" using I t by (auto simp: logtest_inv_def threads_inv_def)
  have L: "lm_default_logger (lt_manger x) = Some kInfo" "al_level (as_logger (lt_sys x)) = kInfo" "al_running (as_logger (lt_sys x))"
    using I T(2) by (auto simp: logtest_inv_def logger_inv_def)
  from logtest_line_ok [OF e now, of "tt_cache t" "tt_tid t" v] T(1) m L(1) obtain m' where
    "om = Some m'" "cache_ok (te_localtime e) c" "numbered (unat v) m'" "m' \<noteq> []" "length m' \<le> 1024" by (auto simp: tester_ok_def)
  with L(2,3) T(2) show ?thesis by (auto simp: AsyncLogger_accepts_def kBufferSize_def)
qed

lemma count_step:
  assumes "threads_inv e x" and "t \<in># lt_threads x" and "tt_left t = Suc k" and "te_threads e * te_rounds e < 2 ^ 64"
  shows "unat (lt_count x + 1) = Suc (unat (lt_count x))"
proof -
  have "tt_left t \<le> sum_mset (image_mset tt_left (lt_threads x))"
    using assms(2) by (metis insert_DiffM image_mset_add_mset sum_mset.insert le_add1)
  then have "Suc (unat (lt_count x)) \<le> size (lt_threads x) * te_rounds e" using assms(1,3) by (simp add: threads_inv_def)
  also have "\<dots> \<le> te_threads e * te_rounds e" using assms(1) by (simp add: threads_inv_def)
  finally have "unat (lt_count x) + 1 < 2 ^ 64" using assms(4) by simp
  then show ?thesis by (simp add: unat_word_ariths)
qed

lemma logger_inv_upd [simp]: "logger_inv (upd_tester t t' x) = logger_inv x"
  by (simp add: logger_inv_def)

lemma step_spawn:
  assumes I: "logtest_inv e x" and "lt_pc x = Spawning" and "size (lt_threads x) < te_threads e" and "0 < tid" and "int32 tid"
  shows "logtest_inv e (x\<lparr>lt_threads := add_mset \<lparr>tt_tid = tid, tt_cache = time_cache_init, tt_left = te_rounds e, tt_pc = Spinning\<rparr>
      (lt_threads x)\<rparr>)"
  using assms cache_ok_init [of "te_localtime e"]
  by (auto simp: logtest_inv_def threads_inv_def values_inv_def logger_inv_def tester_ok_def pending_msg_def pending_val_def)

lemma step_emit:
  assumes I: "logtest_inv e x" and e: "env_ok e" "te_threads e * te_rounds e < 2 ^ 64"
    and t: "t \<in># lt_threads x" "tt_pc t = Looping" "tt_left t = Suc k" "now \<in> te_clock e" and v: "v = lt_count x + 1"
    and m: "logtest_line e now (lm_default_logger (lt_manger x)) (tt_tid t) v (tt_cache t) = Inr (c, Some m)"
  shows "logtest_inv e (upd_tester t (t\<lparr>tt_cache := c, tt_left := k, tt_pc := Appending v m\<rparr>)
      (x\<lparr>lt_count := v, lt_sys := (lt_sys x)\<lparr>as_accepted := add_mset m (as_accepted (lt_sys x))\<rparr>\<rparr>))"
    (is "logtest_inv e (upd_tester t ?t ?y)")
proof -
  have I3: "threads_inv e x" "values_inv x" "logger_inv x" using I by (simp_all add: logtest_inv_def)
  from looping_line [OF e(1) I t(1,2,4) m] have L: "cache_ok (te_localtime e) c" "numbered (unat v) m" "m \<noteq> []" "length m \<le> 1024"
    "lt_pc x \<notin> {Exiting, Stopping, Ended}" by auto
  have cnt: "unat v = Suc (unat (lt_count x))" unfolding v by (rule count_step [OF I3(1) t(1,3) e(2)])
  have "tester_ok e t" using I3(1) t(1) by (simp add: threads_inv_def)
  with L have "tester_ok e ?t" by (simp add: tester_ok_def)
  then have "threads_inv e (upd_tester t ?t ?y)" by (intro threads_inv_upd [OF I3(1) t(1)]) (use t cnt in simp_all)
  moreover have "values_inv (upd_tester t ?t ?y)"
    by (rule values_inv_upd [where ms = "[]" and ws = "[]", OF I3(2) t(1)])
      (use t(2) cnt in \<open>simp_all add: pending_msg_def pending_val_def ac_simps\<close>)
  moreover have "logger_inv ?y" using I3(3) L(3-5) by (auto simp: logger_inv_def async_inv_def kBufferSize_def)
  ultimately show ?thesis by (simp add: logtest_inv_def)
qed

lemma step_append:
  assumes I: "logtest_inv e x" and t: "t \<in># lt_threads x" "tt_pc t = Appending v m"
    and lg: "AsyncLogger_append kBufferSize m (as_logger (lt_sys x)) = Inr lg"
  shows "logtest_inv e (upd_tester t (t\<lparr>tt_pc := Looping\<rparr>)
      (x\<lparr>lt_sys := (lt_sys x)\<lparr>as_logger := lg, as_accepted := as_accepted (lt_sys x) - {#m#}, as_logged := as_logged (lt_sys x) @ [m]\<rparr>\<rparr>))"
    (is "logtest_inv e (upd_tester t ?t ?y)")
proof -
  have I3: "threads_inv e x" "values_inv x" "logger_inv x" using I by (simp_all add: logtest_inv_def)
  have T: "tester_ok e t" "lt_pc x \<notin> {Exiting, Stopping, Ended}" using I3(1) t by (auto simp: threads_inv_def)
  have n: "numbered (unat v) m" using T(1) t(2) by (simp add: tester_ok_def)
  have mem: "m \<in># as_accepted (lt_sys x)"
    using I3(2) t by (auto simp: values_inv_def pending_msg_def intro!: bexI [of _ t])
  have "threads_inv e (upd_tester t ?t ?y)"
    by (rule threads_inv_upd [OF I3(1) t(1)]) (use T(1) t(2) in \<open>simp_all add: tester_ok_def\<close>)
  moreover have "values_inv (upd_tester t ?t ?y)"
    by (rule values_inv_upd [where ms = "[m]" and ws = "[unat v]", OF I3(2) t(1)])
      (use t(2) mem n in \<open>simp_all add: pending_msg_def pending_val_def\<close>)
  moreover have "logger_inv ?y"
    using I3(3) T(2) file_appender.async_inv_append [OF buffer_size _ mem lg] AsyncLogger_append_fields [OF lg]
    by (auto simp: logger_inv_def)
  ultimately show ?thesis by (simp add: logtest_inv_def)
qed

text \<open>The writing thread ends only after \<open>stop\<close>, and leaves nothing behind.\<close>

lemma writer_exits:
  assumes L: "logger_inv x" and x: "lt_pc x \<noteq> Ended"
    and y: "async_step FileAppender_append FileAppender_flush kBufferSize (lt_sys x) y" "as_pc y = Exited"
    and same: "as_logged y = as_logged (lt_sys x)" "al_running (as_logger y) = al_running (as_logger (lt_sys x))"
  shows "lt_pc x \<in> {Stopping, Ended} \<and> in_logger (as_logger y) = []"
proof -
  have inv: "async_inv fa_written fa_invar kBufferSize [] (lt_sys x)" using L x by (simp add: logger_inv_def)
  show ?thesis
  proof (cases "as_pc (lt_sys x) = Exited")
    case True
    then have "lt_pc x \<in> {Stopping, Ended}" "in_logger (as_logger (lt_sys x)) = []" using L by (simp_all add: logger_inv_def)
    with y True same show ?thesis by (cases rule: async_stepE) (auto simp: in_logger_def)
  next
    case False
    have "\<not> al_running (as_logger (lt_sys x))" using y False by (cases rule: async_stepE) (auto simp: sync_continues_def)
    then show ?thesis using file_appender.exited_step [OF y inv] False L by (auto simp: logger_inv_def)
  qed
qed

lemma step_writer:
  assumes I: "logtest_inv e x" and y: "async_step FileAppender_append FileAppender_flush kBufferSize (lt_sys x) y"
    "as_accepted y = as_accepted (lt_sys x)" "as_logged y = as_logged (lt_sys x)" "al_running (as_logger y) = al_running (as_logger (lt_sys x))"
  shows "logtest_inv e (x\<lparr>lt_sys := y\<rparr>)"
proof -
  have L: "logger_inv x" using I by (simp add: logtest_inv_def)
  have "logger_inv (x\<lparr>lt_sys := y\<rparr>)"
  proof (cases "lt_pc x = Ended")
    case True
    then have ex: "as_pc (lt_sys x) = Exited" "\<not> al_running (as_logger (lt_sys x))" using L by (auto simp: logger_inv_def)
    from y(1) ex L True y(2,3,4) show ?thesis
      by (cases rule: async_stepE) (auto simp: logger_inv_def in_logger_def)
  next
    case False
    then have inv: "async_inv fa_written fa_invar kBufferSize [] (lt_sys x)" using L by (simp add: logger_inv_def)
    have inv': "async_inv fa_written fa_invar kBufferSize [] y"
      by (rule file_appender.async_inv_step [OF buffer_size y(1) inv])
    then show ?thesis using L False y(4) async_step_level [OF y(1)] writer_exits [OF L False y(1) _ y(3,4)]
      by (auto simp: logger_inv_def)
  qed
  then show ?thesis using I y(2,3) by (simp add: logtest_inv_def threads_inv_def values_inv_def)
qed

text \<open>A thread moves between two points at which it holds no line.\<close>

lemma step_move:
  assumes I: "logtest_inv e x" and t: "t \<in># lt_threads x" "tt_pc t \<in> {Spinning, Looping}"
    and pc: "pc \<in> {Looping, Returned}" "pc = Returned \<longrightarrow> tt_left t = 0"
  shows "logtest_inv e (upd_tester t (t\<lparr>tt_pc := pc\<rparr>) x)"
proof -
  have I3: "threads_inv e x" "values_inv x" "logger_inv x" using I by (simp_all add: logtest_inv_def)
  have "tester_ok e (t\<lparr>tt_pc := pc\<rparr>)" using I3(1) t(1) pc by (auto simp: threads_inv_def tester_ok_def)
  then have "threads_inv e (upd_tester t (t\<lparr>tt_pc := pc\<rparr>) x)" using t(2) by (intro threads_inv_upd [OF I3(1) t(1)]) auto
  moreover have "values_inv (upd_tester t (t\<lparr>tt_pc := pc\<rparr>) x)"
    using t(2) pc(1) by (intro values_inv_still [OF I3(2) t(1)]) (auto simp: pending_msg_def pending_val_def)
  ultimately show ?thesis using I3(3) by (simp add: logtest_inv_def)
qed

text \<open>The steps of \<open>main\<close> once the threads are there.\<close>

lemma step_main:
  assumes "logtest_inv e x"
  shows step_go: "lt_pc x = Spawning \<Longrightarrow> size (lt_threads x) = te_threads e \<Longrightarrow>
      logtest_inv e (x\<lparr>lt_running := True, lt_pc := Joining\<rparr>)"
    and step_join: "lt_pc x = Joining \<Longrightarrow> \<forall>t \<in># lt_threads x. tt_pc t = Returned \<Longrightarrow>
      logtest_inv e (x\<lparr>lt_pc := Exiting, lt_out := out\<rparr>)"
    and step_stop: "lt_pc x = Exiting \<Longrightarrow>
      logtest_inv e (x\<lparr>lt_pc := Stopping, lt_sys := (lt_sys x)\<lparr>as_logger := (as_logger (lt_sys x))\<lparr>al_running := False\<rparr>\<rparr>\<rparr>)"
    and step_ended: "lt_pc x = Stopping \<Longrightarrow> as_pc (lt_sys x) = Exited \<Longrightarrow>
      logtest_inv e (x\<lparr>lt_pc := Ended, lt_sys := (lt_sys x)\<lparr>as_appender := FileAppender_destroy (as_appender (lt_sys x))\<rparr>, lt_out := out\<rparr>)"
proof -
  have I3: "threads_inv e x" "values_inv x" "logger_inv x" using assms by (simp_all add: logtest_inv_def)
  show "logtest_inv e (x\<lparr>lt_running := True, lt_pc := Joining\<rparr>)" if "lt_pc x = Spawning" "size (lt_threads x) = te_threads e"
    using I3 that by (auto simp: logtest_inv_def threads_inv_def values_inv_def logger_inv_def)
  show "logtest_inv e (x\<lparr>lt_pc := Exiting, lt_out := out\<rparr>)" if "lt_pc x = Joining" "\<forall>t \<in># lt_threads x. tt_pc t = Returned"
    using I3 that by (auto simp: logtest_inv_def threads_inv_def values_inv_def logger_inv_def)
  show "logtest_inv e (x\<lparr>lt_pc := Stopping, lt_sys := (lt_sys x)\<lparr>as_logger := (as_logger (lt_sys x))\<lparr>al_running := False\<rparr>\<rparr>\<rparr>)"
    if "lt_pc x = Exiting"
    using I3 that by (auto simp: logtest_inv_def threads_inv_def values_inv_def logger_inv_def async_inv_def al_inv_def in_logger_def)
  show "logtest_inv e (x\<lparr>lt_pc := Ended, lt_sys := (lt_sys x)\<lparr>as_appender := FileAppender_destroy (as_appender (lt_sys x))\<rparr>, lt_out := out\<rparr>)"
    if pc: "lt_pc x = Stopping" "as_pc (lt_sys x) = Exited"
  proof -
    have "fa_written (FileAppender_destroy s) = fa_written s" for s
      by (simp add: FileAppender_destroy_def fa_written_def split: option.split stream.split)
    then show ?thesis using I3 pc by (auto simp: logtest_inv_def threads_inv_def values_inv_def logger_inv_def async_inv_def sy_inv_def)
  qed
qed

lemma logtest_inv_step:
  assumes "env_ok e" and "te_threads e * te_rounds e < 2 ^ 64"
  shows "logtest_step e x y \<Longrightarrow> logtest_inv e x \<Longrightarrow> logtest_inv e y"
proof (induction rule: logtest_step.induct)
  case (refuse t x k now v c m)
  from looping_line [OF assms(1) refuse.prems refuse(1,2,4,6)] refuse(7) show ?case by simp
next
  case (disabled t x k now v c)
  from looping_line [OF assms(1) disabled.prems disabled(1,2,4,6)] show ?case by simp
qed (use assms step_spawn step_main step_emit step_append step_writer step_move in auto)

section \<open>No buffer is dropped in a short run\<close>

text \<open>The buffers that wait behind the current one have less room than a line, and buffers are dropped
  only when 25 of those were handed over at once.\<close>

definition full_buffer :: "ostream \<Rightarrow> bool" where
  "full_buffer b \<longleftrightarrow> kBufferSize \<le> length (fb_contents b) + 1024"

definition room_inv :: "log_test \<Rightarrow> bool" where
  "room_inv x \<longleftrightarrow> list_all full_buffer (al_buffers (as_logger (lt_sys x))) \<and> list_all full_buffer (butlast (sy_write (as_thread (lt_sys x)))) \<and>
     (\<forall>m \<in> set (as_logged (lt_sys x)). length m \<le> 1024) \<and> (as_dropped (lt_sys x) \<longrightarrow> 102375 \<le> length (as_logged (lt_sys x)))"

lemma buffered_full:
  "list_all full_buffer bs \<Longrightarrow> length bs * (kBufferSize - 1024) \<le> length (buffered bs)"
  by (induction bs) (auto simp: full_buffer_def)

lemma length_concat_le: "\<forall>m \<in> set ms. length m \<le> k \<Longrightarrow> length (concat ms) \<le> k * length ms"
  by (induction ms) auto

lemma append_full_buffers:
  assumes "AsyncLogger_append kBufferSize m lg = Inr lg'" and "al_inv kBufferSize lg" and "length m \<le> 1024"
    and "list_all full_buffer (al_buffers lg)"
  shows "list_all full_buffer (al_buffers lg')"
proof -
  obtain cur where cur: "al_current lg = Some cur" "buf_ok kBufferSize cur" using assms(2) by (auto simp: al_inv_def)
  have av: "size_of_int (FixedBuffer_avail cur) = kBufferSize - length (fb_contents cur)"
    using cur(2) avail_size_t [of cur] by (simp add: buf_ok_def)
  with assms cur(1) show ?thesis
    by (auto simp: AsyncLogger_append_def bindE_Inr_iff full_buffer_def split: if_splits)
qed

text \<open>More than 25 buffers at once are more than a hundred megabytes.\<close>

lemma many_buffers:
  assumes inv: "async_inv fa_written fa_invar kBufferSize [] s" and full: "list_all full_buffer (butlast (sy_write (as_thread s)))"
    and len: "\<forall>m \<in> set (as_logged s). length m \<le> 1024" and many: "25 < length (sy_write (as_thread s))" and "\<not> as_dropped s"
  shows "102375 \<le> length (as_logged s)"
proof -
  let ?ws = "sy_write (as_thread s)"
  have ne: "?ws \<noteq> []" using many by auto
  have "25 * (kBufferSize - 1024) \<le> length (butlast ?ws) * (kBufferSize - 1024)"
    using many by (intro mult_le_mono1) (simp add: length_butlast)
  also have "\<dots> \<le> length (buffered (butlast ?ws))" by (rule buffered_full [OF full])
  also have "\<dots> \<le> length (buffered ?ws)" by (subst (2) append_butlast_last_id [OF ne, symmetric]) (simp only: buffered_simps, simp)
  also have "\<dots> \<le> length (concat (as_logged s))"
  proof -
    have "fa_written (as_appender s) @ buffered ?ws @ in_logger (as_logger s) = concat (as_logged s)"
      using inv assms(5) by (simp add: async_inv_def)
    then show ?thesis by (metis length_append le_add1 le_add2 order_trans)
  qed
  also have "\<dots> \<le> 1024 * length (as_logged s)" by (rule length_concat_le [OF len])
  finally show ?thesis by (simp add: kBufferSize_def)
qed

lemma room_inv_writer:
  assumes R: "room_inv x" and inv: "async_inv fa_written fa_invar kBufferSize [] (lt_sys x)"
    and y: "async_step FileAppender_append FileAppender_flush kBufferSize (lt_sys x) y"
    "as_accepted y = as_accepted (lt_sys x)" "as_logged y = as_logged (lt_sys x)"
  shows "room_inv (x\<lparr>lt_sys := y\<rparr>)"
  using y(1)
proof (cases rule: async_step.cases)
  case (take lg sy)
  then show ?thesis using R
    by (auto simp: room_inv_def AsyncLogger_sync_take_def bindE_Inr_iff split: option.splits)
next
  case (wrote time sy s)
  have "sy_write sy = []"
    using wrote(3) by (auto simp: AsyncLogger_sync_write_def bindE_Inr_iff Let_def)
  moreover have "102375 \<le> length (as_logged (lt_sys x))" if "25 < length (sy_write (as_thread (lt_sys x)))"
    using many_buffers [OF inv _ _ that] R by (auto simp: room_inv_def)
  ultimately show ?thesis using R wrote(1) by (auto simp: room_inv_def)
qed (use R y(2,3) in \<open>auto simp: room_inv_def\<close>)

lemma room_inv_step:
  assumes "logtest_step e x y" and "logtest_inv e x" and "room_inv x"
  shows "room_inv y"
  using assms
proof (cases rule: logtest_step.cases)
  case (append t v m lg)
  have "tester_ok e t" and pc: "lt_pc x \<notin> {Exiting, Stopping, Ended}"
    using assms(2) append(2,3) by (auto simp: logtest_inv_def threads_inv_def)
  then have "length m \<le> 1024" using append(3) by (simp add: tester_ok_def)
  moreover have "al_inv kBufferSize (as_logger (lt_sys x))" using assms(2) pc by (auto simp: logtest_inv_def logger_inv_def async_inv_def)
  ultimately have "list_all full_buffer (al_buffers lg)" using append_full_buffers [OF append(4)] assms(3) by (simp add: room_inv_def)
  then show ?thesis unfolding append(1) using assms(3) \<open>length m \<le> 1024\<close> by (auto simp: room_inv_def)
next
  case (writer y')
  show ?thesis
  proof (cases "lt_pc x = Ended")
    case True
    then have "as_pc (lt_sys x) = Exited" using assms(2) by (simp add: logtest_inv_def logger_inv_def)
    with writer(2) show ?thesis unfolding writer(1) using assms(3) writer(3,4)
      by (cases rule: async_stepE) (auto simp: room_inv_def)
  next
    case False
    then have "async_inv fa_written fa_invar kBufferSize [] (lt_sys x)" using assms(2) by (simp add: logtest_inv_def logger_inv_def)
    from room_inv_writer [OF assms(3) this writer(2,3,4)] show ?thesis unfolding writer(1) .
  qed
qed (auto simp: room_inv_def)

section \<open>The program can always end\<close>

text \<open>What a thread, the writing thread and \<open>main\<close> have still to do.\<close>

definition tester_rank :: "tester \<Rightarrow> nat" where
  "tester_rank t = (case tt_pc t of Spinning \<Rightarrow> 2 * tt_left t + 3 | Looping \<Rightarrow> 2 * tt_left t + 2
     | Appending v m \<Rightarrow> 2 * tt_left t + 3 | Returned \<Rightarrow> 0)"

definition writer_rank :: "file_appender async_sys \<Rightarrow> nat" where
  "writer_rank s = (case as_pc s of Exited \<Rightarrow> 0 | Testing \<Rightarrow> 1 | Writing \<Rightarrow> 2) + (if in_logger (as_logger s) = [] then 0 else 2)"

definition logtest_rank :: "test_env \<Rightarrow> log_test \<Rightarrow> nat" where
  "logtest_rank e x = (te_threads e - size (lt_threads x)) * (2 * te_rounds e + 4) + sum_mset (image_mset tester_rank (lt_threads x)) +
     (case lt_pc x of Spawning \<Rightarrow> 8 | Joining \<Rightarrow> 7 | Exiting \<Rightarrow> 6 | Stopping \<Rightarrow> 1 + writer_rank (lt_sys x) | Ended \<Rightarrow> 0)"

lemma rank_tester:
  assumes "t \<in># lt_threads x" and "lt_pc x \<in> {Spawning, Joining}" and "tester_rank t' < tester_rank t"
    and "lt_threads y = lt_threads x" and "lt_pc y = lt_pc x"
  shows "logtest_rank e (upd_tester t t' y) < logtest_rank e x"
proof -
  have "sum_mset (image_mset tester_rank (add_mset t' (lt_threads x - {#t#}))) + tester_rank t =
      sum_mset (image_mset tester_rank (lt_threads x)) + tester_rank t'" by (rule sum_mset_upd [OF assms(1)])
  moreover have "size (add_mset t' (lt_threads x - {#t#})) = size (lt_threads x)" using assms(1) by (simp add: size_Suc_Diff1)
  ultimately show ?thesis using assms(2-5) by (auto simp: logtest_rank_def)
qed

definition moves :: "test_env \<Rightarrow> log_test \<Rightarrow> bool" where
  "moves e x \<longleftrightarrow> (\<exists>y. logtest_step e x y \<and> logtest_rank e y < logtest_rank e x)"

lemma movesI: "logtest_step e x y \<Longrightarrow> logtest_rank e y < logtest_rank e x \<Longrightarrow> moves e x"
  by (auto simp: moves_def)

lemma moves_tester:
  assumes "logtest_step e x (upd_tester t t' y)" and "t \<in># lt_threads x" and "lt_pc x = Joining" and "tester_rank t' < tester_rank t"
    and "lt_threads y = lt_threads x" and "lt_pc y = lt_pc x"
  shows "moves e x"
  using assms(3) by (intro movesI [OF assms(1)] rank_tester [OF assms(2) _ assms(4-6)]) simp

text \<open>A thread that has not returned moves.\<close>

lemma tester_moves:
  assumes e: "env_ok e" "te_clock e \<noteq> {}" and I: "logtest_inv e x" and pc: "lt_pc x = Joining"
    and t: "t \<in># lt_threads x" "tt_pc t \<noteq> Returned"
  shows "moves e x"
proof (cases "tt_pc t")
  case Spinning
  have "lt_running x" using I pc by (simp add: logtest_inv_def threads_inv_def)
  from logtest_step.enter [OF t(1) Spinning this] t(1) pc show ?thesis
    by (rule moves_tester) (simp_all add: tester_rank_def Spinning)
next
  case Looping
  show ?thesis
  proof (cases "tt_left t")
    case 0
    from logtest_step.finish [OF t(1) Looping this] t(1) pc show ?thesis
      by (rule moves_tester) (simp_all add: tester_rank_def Looping)
  next
    case (Suc k)
    obtain now where now: "now \<in> te_clock e" using e(2) by auto
    have T: "tester_ok e t" "lm_default_logger (lt_manger x) = Some kInfo"
      using I t(1) by (auto simp: logtest_inv_def threads_inv_def logger_inv_def)
    with logtest_line_ok [OF e(1) now, of "tt_cache t" "tt_tid t" "lt_count x + 1"] obtain c m where
      m: "logtest_line e now (lm_default_logger (lt_manger x)) (tt_tid t) (lt_count x + 1) (tt_cache t) = Inr (c, Some m)"
      by (auto simp: tester_ok_def)
    from looping_line [OF e(1) I t(1) Looping now m] have "AsyncLogger_accepts kBufferSize kInfo (Some m) (as_logger (lt_sys x))" by auto
    from logtest_step.emit [OF t(1) Looping Suc now refl m this] t(1) pc show ?thesis
      by (rule moves_tester) (simp_all add: tester_rank_def Looping Suc)
  qed
next
  case (Appending v m)
  have "tester_ok e t" "al_inv kBufferSize (as_logger (lt_sys x))"
    using I t(1) pc by (auto simp: logtest_inv_def threads_inv_def logger_inv_def async_inv_def)
  moreover then have "m \<noteq> []" "length m < kBufferSize" using Appending by (auto simp: tester_ok_def kBufferSize_def)
  ultimately obtain lg where "AsyncLogger_append kBufferSize m (as_logger (lt_sys x)) = Inr lg"
    using AsyncLogger_append_ok [OF buffer_size] by blast
  from logtest_step.append [OF t(1) Appending this] t(1) pc show ?thesis
    by (rule moves_tester) (simp_all add: tester_rank_def Appending)
qed (use t(2) in simp)

text \<open>Once \<open>running_\<close> is cleared, the writing thread gets to its end.\<close>

lemma writer_moves:
  assumes I: "logtest_inv e x" and pc: "lt_pc x = Stopping" "as_pc (lt_sys x) \<noteq> Exited"
  shows "moves e x"
proof -
  let ?s = "lt_sys x" and ?R = "async_step FileAppender_append FileAppender_flush kBufferSize"
  have moves: "moves e x" if "?R ?s y" "as_accepted y = as_accepted ?s" "as_logged y = as_logged ?s"
    "al_running (as_logger y) = al_running (as_logger ?s)" "writer_rank y < writer_rank ?s" for y
    using logtest_step.writer [OF that(1-4)] that(5) pc(1) by (intro movesI) (assumption, simp add: logtest_rank_def)
  have inv: "al_inv kBufferSize (as_logger ?s)" "sy_inv kBufferSize (as_pc ?s) (as_thread ?s)" "fa_invar (as_appender ?s)"
    and stopped: "\<not> al_running (as_logger ?s)"
    using I pc(1) by (auto simp: logtest_inv_def logger_inv_def async_inv_def)
  show ?thesis
  proof (cases "as_pc ?s")
    case Testing
    from inv(1) obtain cur where cur: "al_current (as_logger ?s) = Some cur" "buf_ok kBufferSize cur"
      "al_buffers (as_logger ?s) \<noteq> [] \<longrightarrow> fb_contents cur \<noteq> []" by (auto simp: al_inv_def)
    have C: "sync_continues (as_logger ?s) \<longleftrightarrow> in_logger (as_logger ?s) \<noteq> []"
      using cur(1,3) stopped size_contents [OF cur(2)] by (auto simp: sync_continues_def in_logger_def)
    show ?thesis
    proof (cases "sync_continues (as_logger ?s)")
      case True
      from sync_take_ok [OF inv(1) inv(2) [unfolded Testing]] obtain lg sy where
        lg: "AsyncLogger_sync_take (as_logger ?s, as_thread ?s) = Inr (lg, sy)" "in_logger lg = []" "al_running lg = al_running (as_logger ?s)" by auto
      from async_step.take [OF Testing True lg(1)] show ?thesis by (rule moves) (use lg(2,3) True Testing C in \<open>simp_all add: writer_rank_def\<close>)
    next
      case False
      from async_step.leave [OF Testing False] show ?thesis by (rule moves) (use Testing in \<open>simp_all add: writer_rank_def\<close>)
    qed
  next
    case Writing
    from file_appender.sync_write_ok [OF inv(3) inv(2) [unfolded Writing]] obtain sy s where
      s: "AsyncLogger_sync_write FileAppender_append FileAppender_flush [] (as_thread ?s, as_appender ?s) = Inr (sy, s)" by blast
    from async_step.wrote [OF Writing s] show ?thesis by (rule moves) (use Writing in \<open>simp_all add: writer_rank_def\<close>)
  qed (use pc(2) in simp)
qed

lemma logtest_moves:
  assumes e: "env_ok e" "te_clock e \<noteq> {}" and I: "logtest_inv e x" and "lt_pc x \<noteq> Ended"
  shows "moves e x"
proof (cases "lt_pc x")
  case Spawning
  show ?thesis
  proof (cases "size (lt_threads x) < te_threads e")
    case True
    have "te_threads e - size (lt_threads x) = Suc (te_threads e - Suc (size (lt_threads x)))" using True by simp
    then have "(te_threads e - size (lt_threads x)) * (2 * te_rounds e + 4) =
        (te_threads e - Suc (size (lt_threads x))) * (2 * te_rounds e + 4) + (2 * te_rounds e + 4)" by simp
    moreover have "int32 1" by (simp add: int32_def)
    ultimately show ?thesis
      by (intro movesI [OF logtest_step.spawn [OF Spawning True, of 1]]) (simp_all add: logtest_rank_def tester_rank_def Spawning)
  next
    case False
    then have "size (lt_threads x) = te_threads e" using I by (simp add: logtest_inv_def threads_inv_def)
    from logtest_step.go [OF Spawning this] show ?thesis by (rule movesI) (simp add: logtest_rank_def Spawning)
  qed
next
  case Joining
  show ?thesis
  proof (cases "\<forall>t \<in># lt_threads x. tt_pc t = Returned")
    case True
    from logtest_step.join [OF Joining True, of e 0] show ?thesis by (rule movesI) (simp add: logtest_rank_def Joining)
  next
    case False
    then show ?thesis using tester_moves [OF e I Joining] by blast
  qed
next
  case Exiting
  from logtest_step.stop [OF Exiting, of e] show ?thesis
    by (rule movesI) (simp add: logtest_rank_def writer_rank_def Exiting split: sync_pc.split)
next
  case Stopping
  show ?thesis
  proof (cases "as_pc (lt_sys x) = Exited")
    case True
    from logtest_step.ended [OF Stopping True, of e 0] show ?thesis by (rule movesI) (simp add: logtest_rank_def Stopping)
  next
    case False
    then show ?thesis by (rule writer_moves [OF I Stopping])
  qed
qed (use assms(4) in simp)

lemma logtest_can_end:
  assumes e: "env_ok e" "te_clock e \<noteq> {}" "te_threads e * te_rounds e < 2 ^ 64" and "logtest_inv e x"
  shows "\<exists>y. (logtest_step e)\<^sup>*\<^sup>* x y \<and> lt_pc y = Ended"
  using assms(4)
proof (induction "logtest_rank e x" arbitrary: x rule: less_induct)
  case less
  show ?case
  proof (cases "lt_pc x = Ended")
    case False
    from logtest_moves [OF e(1,2) less.prems False] obtain y where y: "logtest_step e x y" "logtest_rank e y < logtest_rank e x"
      by (auto simp: moves_def)
    from less.hyps [OF y(2) logtest_inv_step [OF e(1,3) y(1) less.prems]] y(1) show ?thesis
      by (meson converse_rtranclp_into_rtranclp)
  qed auto
qed

section \<open>The whole run\<close>

lemma logtest_start_ok:
  assumes "\<forall>k. os_time os k \<noteq> 0" and "\<forall>n r. r \<le> os_fwrite os n r"
  shows "\<exists>x0. logtest_start os fs t0 = Inr x0 \<and> logtest_inv e x0 \<and> room_inv x0"
proof -
  from new_ok [of 1 "6 * 30" os fs "''./''" "''testlog''" "10 * 1024 * 1024" 1024 False] assms obtain s where
    s: "FileAppender_new os fs ''./'' ''testlog'' (10 * 1024 * 1024) 1 (6 * 30) 1024 False = Inr s" "fa_invar s" "fw_trace s = []"
    by (auto simp: int32_def)
  then have "async_inv fa_written fa_invar kBufferSize [] (async_start kBufferSize kInfo s)"
    using file_appender.async_inv_start [OF buffer_size s(2), of kInfo] by (simp add: fa_written_def)
  then have "logtest_inv e \<lparr>lt_sys = async_start kBufferSize kInfo s, lt_manger = LoggerManger_set_default (Some kInfo) LoggerManger_new,
      lt_running = False, lt_count = 0, lt_threads = {#}, lt_pc = Spawning, lt_start = t0, lt_out = ''hello world'' @ [CHR 0x0A]\<rparr>"
    by (auto simp: logtest_inv_def threads_inv_def values_inv_def logger_inv_def LoggerManger_set_default_def LoggerManger_new_def async_start_def AsyncLogger_new_def)
  moreover have "room_inv \<lparr>lt_sys = async_start kBufferSize kInfo s, lt_manger = LoggerManger_set_default (Some kInfo) LoggerManger_new,
      lt_running = False, lt_count = 0, lt_threads = {#}, lt_pc = Spawning, lt_start = t0, lt_out = ''hello world'' @ [CHR 0x0A]\<rparr>"
    by (simp add: room_inv_def async_start_def AsyncLogger_new_def sync_thread_start_def)
  ultimately show ?thesis using s(1) by (simp add: logtest_start_def)
qed

lemma logtest_reachable:
  assumes "(logtest_step e)\<^sup>*\<^sup>* x0 x" and "env_ok e" and "te_threads e * te_rounds e < 2 ^ 64" and "logtest_inv e x0" and "room_inv x0"
  shows "logtest_inv e x \<and> room_inv x"
  using assms(1) by (induction rule: rtranclp_induct) (use assms(2-5) logtest_inv_step room_inv_step in blast)+

text \<open>Two \<open>int\<close> arguments cannot make the counter overflow.\<close>

lemma logtest_args_bound:
  assumes "logtest_args argv = Inr (n, m)"
  shows "n * m < 2 ^ 64"
proof -
  have arg: "int32 v" if "arg argv i = Inr v" for i v
    using that by (auto simp: arg_def atoi_def Let_def split: if_splits)
  have "n < 2 ^ 32 \<and> m < 2 ^ 32"
    using assms by (auto simp: logtest_args_def bindE_Inr_iff int32_def dest!: arg split: if_splits)
  then have "n * m \<le> (2 ^ 32 - 1) * (2 ^ 32 - 1)" by (intro mult_le_mono) auto
  then show ?thesis by simp
qed

lemma logged_count:
  assumes "logtest_inv e x"
  shows "length (as_logged (lt_sys x)) \<le> te_threads e * te_rounds e"
proof -
  from assms obtain vs where vs: "list_all2 numbered vs (as_logged (lt_sys x))"
    "mset vs + sum_mset (image_mset pending_val (lt_threads x)) = mset [1..<Suc (unat (lt_count x))]"
    by (auto simp: logtest_inv_def values_inv_def)
  have "length (as_logged (lt_sys x)) = length vs" using vs(1) by (simp add: list_all2_lengthD)
  also have "\<dots> \<le> size (mset vs + sum_mset (image_mset pending_val (lt_threads x)))" by simp
  also have "\<dots> = unat (lt_count x)" unfolding vs(2) by simp
  also have "\<dots> \<le> size (lt_threads x) * te_rounds e" using assms by (simp add: logtest_inv_def threads_inv_def)
  also have "\<dots> \<le> te_threads e * te_rounds e" using assms by (simp add: logtest_inv_def threads_inv_def)
  finally show ?thesis .
qed

lemma logtest_ended:
  assumes I: "logtest_inv e x" and pc: "lt_pc x = Ended" "\<not> as_dropped (lt_sys x)"
  shows "fa_written (as_appender (lt_sys x)) = concat (as_logged (lt_sys x)) \<and>
    (\<exists>vs. mset vs = mset [1..<Suc (te_threads e * te_rounds e)] \<and> list_all2 numbered vs (as_logged (lt_sys x)))"
proof -
  have T: "\<forall>t \<in># lt_threads x. tt_pc t = Returned \<and> tt_left t = 0" "size (lt_threads x) = te_threads e"
    and cnt: "unat (lt_count x) + sum_mset (image_mset tt_left (lt_threads x)) = size (lt_threads x) * te_rounds e"
    using I pc(1) by (auto simp: logtest_inv_def threads_inv_def tester_ok_def)
  have "unat (lt_count x) = te_threads e * te_rounds e" using cnt T by (simp add: sum_mset.neutral)
  moreover have "sum_mset (image_mset pending_val (lt_threads x)) = {#}" using T(1) by (auto simp: pending_val_def)
  moreover obtain vs where "list_all2 numbered vs (as_logged (lt_sys x))"
    "mset vs + sum_mset (image_mset pending_val (lt_threads x)) = mset [1..<Suc (unat (lt_count x))]"
    using I by (auto simp: logtest_inv_def values_inv_def)
  ultimately have "mset vs = mset [1..<Suc (te_threads e * te_rounds e)]" "list_all2 numbered vs (as_logged (lt_sys x))"
    by (simp_all only: add_0_right)
  moreover have "fa_written (as_appender (lt_sys x)) = concat (as_logged (lt_sys x))"
    using I pc by (simp add: logtest_inv_def logger_inv_def)
  ultimately show ?thesis by blast
qed

section \<open>Properties\<close>


text \<open>Two threads of three lines each, on a clock that stands still.\<close>

definition small_env :: test_env where
  "small_env = \<lparr>te_localtime = new_year,
     te_pid = 7, te_file = ''test/logtest.cc'', te_junk = replicate 1024 (CHR 0x00), te_clock = {Timestamp 1735689600000042},
     te_threads = 2, te_rounds = 3\<rparr>"


lemma small_env_ok: "env_ok small_env"
  by code_simp


end
