(* ===== verification/Sync_Util.thy ===== *)
theory Sync_Util
  imports Clia_Prelude
begin

text \<open>
  The small utilities: \<open>AtomLck\<close> with \<open>LockGuard\<close> (util/atom_lck.h, util/atom_lck.cc,
  base/lock_guard.h), \<open>CountDownLatch\<close> (util/countdown_latch.cc) and
  \<open>process::strerror\<close> (util/process.cc).
\<close>

section \<open>Spin lock\<close>

text \<open>\<open>std::atomic_flag\<close>: an atomic test-and-set answers what the flag was.\<close>

definition AtomLck_new :: bool where
  "AtomLck_new = False"

definition flag_test_and_set :: "bool \<Rightarrow> bool \<times> bool" where
  "flag_test_and_set f = (f, True)"

definition AtomLck_unlock :: "bool \<Rightarrow> bool" where
  "AtomLck_unlock f = False"

text \<open>Threads that use the lock through a \<open>LockGuard\<close>: outside, in the loop of \<open>lock\<close>,
  or holding a guard.  \<open>AtomLck_lock_round\<close> is one round of the loop.\<close>

datatype guard_pc = Outside | Spinning | Holding

record spin_sys =
  sp_flag :: bool
  sp_pc :: "nat \<Rightarrow> guard_pc"

definition AtomLck_lock_round :: "bool \<Rightarrow> guard_pc \<times> bool" where
  "AtomLck_lock_round f = (let (was, f') = flag_test_and_set f in (if was then Spinning else Holding, f'))"

inductive spin_step :: "spin_sys \<Rightarrow> spin_sys \<Rightarrow> bool" where
  guard: "sp_pc s t = Outside \<Longrightarrow> spin_step s (s\<lparr>sp_pc := (sp_pc s)(t := Spinning)\<rparr>)"
| lock_round: "sp_pc s t = Spinning \<Longrightarrow> AtomLck_lock_round (sp_flag s) = (pc, f) \<Longrightarrow>
    spin_step s (s\<lparr>sp_flag := f, sp_pc := (sp_pc s)(t := pc)\<rparr>)"
| unguard: "sp_pc s t = Holding \<Longrightarrow>
    spin_step s (s\<lparr>sp_flag := AtomLck_unlock (sp_flag s), sp_pc := (sp_pc s)(t := Outside)\<rparr>)"

inductive_cases spin_stepE: "spin_step s s'"

definition spin_start :: spin_sys where
  "spin_start = \<lparr>sp_flag = AtomLck_new, sp_pc = \<lambda>_. Outside\<rparr>"

text \<open>The flag is set exactly while one thread holds a guard.\<close>

definition spin_inv :: "spin_sys \<Rightarrow> bool" where
  "spin_inv s \<longleftrightarrow> (if sp_flag s then \<exists>t. {u. sp_pc s u = Holding} = {t} else {u. sp_pc s u = Holding} = {})"

lemma spin_inv_step: "spin_inv s \<Longrightarrow> spin_step s s' \<Longrightarrow> spin_inv s'"
proof (erule spin_stepE)
  fix t assume "spin_inv s" "s' = s\<lparr>sp_pc := (sp_pc s)(t := Spinning)\<rparr>" "sp_pc s t = Outside"
  then have "{u. sp_pc s' u = Holding} = {u. sp_pc s u = Holding}" "sp_flag s' = sp_flag s" by auto
  with \<open>spin_inv s\<close> show ?thesis by (simp add: spin_inv_def)
next
  fix t pc f
  assume inv: "spin_inv s" and s': "s' = s\<lparr>sp_flag := f, sp_pc := (sp_pc s)(t := pc)\<rparr>" "sp_pc s t = Spinning"
    and l: "AtomLck_lock_round (sp_flag s) = (pc, f)"
  have f: "f" "pc = (if sp_flag s then Spinning else Holding)"
    using l by (auto simp: AtomLck_lock_round_def flag_test_and_set_def)
  have "{u. sp_pc s' u = Holding} = (if sp_flag s then {u. sp_pc s u = Holding} else insert t {u. sp_pc s u = Holding})"
    using s' f(2) by auto
  with inv f s' show ?thesis by (auto simp: spin_inv_def split: if_splits)
next
  fix t assume inv: "spin_inv s" and h: "sp_pc s t = Holding"
    and s': "s' = s\<lparr>sp_flag := AtomLck_unlock (sp_flag s), sp_pc := (sp_pc s)(t := Outside)\<rparr>"
  have "{u. sp_pc s' u = Holding} = {u. sp_pc s u = Holding} - {t}" using s' by auto
  moreover have "{u. sp_pc s u = Holding} = {t}"
    using inv h unfolding spin_inv_def by (metis (mono_tags, lifting) empty_iff mem_Collect_eq singletonD)
  ultimately show ?thesis using s' by (simp add: spin_inv_def AtomLck_unlock_def)
qed

lemma spin_inv_reachable: "spin_step\<^sup>*\<^sup>* spin_start s \<Longrightarrow> spin_inv s"
proof (induction rule: rtranclp_induct)
  case base
  show ?case by (simp add: spin_start_def spin_inv_def AtomLck_new_def)
qed (rule spin_inv_step)

section \<open>Latch\<close>

record count_down_latch =
  cl_count :: int

definition CountDownLatch_new :: "int \<Rightarrow> count_down_latch res" where
  "CountDownLatch_new count = bindE (assertE (0 < count)) (\<lambda>_. Inr \<lparr>cl_count = count\<rparr>)"

text \<open>The lock object in \<open>wait\<close> is default-constructed: it has no mutex, and waiting with it
  is undefined.\<close>

definition CountDownLatch_wait :: "count_down_latch \<Rightarrow> unit res" where
  "CountDownLatch_wait c = (if 0 < cl_count c then Inl Undefined_behaviour else Inr ())"

text \<open>Also answers whether the waiters are notified.  A counter at the smallest \<open>int\<close> cannot be
  decremented.\<close>

definition CountDownLatch_count_down :: "count_down_latch \<Rightarrow> (bool \<times> count_down_latch) res" where
  "CountDownLatch_count_down c =
     (if cl_count c = - (2 ^ 31) then Inl Undefined_behaviour
      else let c' = c\<lparr>cl_count := cl_count c - 1\<rparr> in Inr (cl_count c' = 0, c'))"

definition CountDownLatch_get_count :: "count_down_latch \<Rightarrow> int" where
  "CountDownLatch_get_count c = cl_count c"

fun count_downs :: "nat \<Rightarrow> count_down_latch \<Rightarrow> count_down_latch res" where
  "count_downs 0 c = Inr c"
| "count_downs (Suc k) c = bindE (CountDownLatch_count_down c) (\<lambda>(_, c'). count_downs k c')"

lemma count_downs_ok:
  "- (2 ^ 31) \<le> cl_count c - int k \<Longrightarrow> count_downs k c = Inr (c\<lparr>cl_count := cl_count c - int k\<rparr>)"
proof (induction k arbitrary: c)
  case (Suc k)
  then show ?case by (simp add: CountDownLatch_count_down_def Let_def algebra_simps)
qed simp

section \<open>Error texts\<close>

text \<open>The thread-local cache; \<open>strerror_r\<close> is what the library function leaves in the buffer
  for a code.\<close>

record strerror_cache =
  kErrno :: int
  kErrnoStrBuf :: string

definition strerror_init :: strerror_cache where
  "strerror_init = \<lparr>kErrno = 0, kErrnoStrBuf = []\<rparr>"

definition process_strerror :: "(int \<Rightarrow> string \<Rightarrow> string) \<Rightarrow> int \<Rightarrow> strerror_cache \<Rightarrow> string \<times> strerror_cache" where
  "process_strerror strerror_r ec c =
     (let c' = (if ec \<noteq> kErrno c then \<lparr>kErrno = ec, kErrnoStrBuf = strerror_r ec (kErrnoStrBuf c)\<rparr> else c)
      in (kErrnoStrBuf c', c'))"

fun strerrors :: "(int \<Rightarrow> string \<Rightarrow> string) \<Rightarrow> int list \<Rightarrow> strerror_cache \<Rightarrow> string list" where
  "strerrors strerror_r [] c = []"
| "strerrors strerror_r (ec # ecs) c =
     (case process_strerror strerror_r ec c of (s, c') \<Rightarrow> s # strerrors strerror_r ecs c')"

text \<open>With the function that stores the message (the XSI one), the cache is never stale.\<close>

lemma strerrors_xsi:
  "kErrnoStrBuf c = text_of (kErrno c) \<Longrightarrow> strerrors (\<lambda>ec _. text_of ec) ecs c = map text_of ecs"
  by (induction ecs arbitrary: c) (simp_all add: process_strerror_def Let_def)

text \<open>The GNU function returns a pointer to the message of a known code and leaves the buffer alone.\<close>

lemma strerrors_gnu: "kErrnoStrBuf c = [] \<Longrightarrow> strerrors (\<lambda>_ b. b) ecs c = replicate (length ecs) []"
  by (induction ecs arbitrary: c) (simp_all add: process_strerror_def Let_def)

section \<open>Properties\<close>

text \<open>
  C34. Mutual exclusion: whatever the interleaving of the threads, at most one holds a guard of
  an \<open>AtomLck\<close>; and a thread in the loop of \<open>lock\<close> gets the lock in its next round
  exactly when no thread holds it.
\<close>

theorem AtomLck_mutual_exclusion:
  assumes "spin_step\<^sup>*\<^sup>* spin_start s"
  shows "(sp_pc s t = Holding \<and> sp_pc s u = Holding \<longrightarrow> t = u) \<and>
    (fst (AtomLck_lock_round (sp_flag s)) = Holding \<longleftrightarrow> (\<forall>v. sp_pc s v \<noteq> Holding))"
proof (cases "sp_flag s")
  case True
  with spin_inv_reachable [OF assms] obtain h where h: "\<And>v. sp_pc s v = Holding \<longleftrightarrow> v = h"
    by (auto simp: spin_inv_def)
  with True show ?thesis by (simp add: AtomLck_lock_round_def flag_test_and_set_def)
next
  case False
  with spin_inv_reachable [OF assms] show ?thesis
    by (simp add: spin_inv_def AtomLck_lock_round_def flag_test_and_set_def)
qed

theorem AtomLck_mutual_exclusion_witness:
  "\<exists>s :: spin_sys. sp_pc s 0 = Holding \<and> sp_pc s 1 = Spinning \<and> fst (AtomLck_lock_round (sp_flag s)) \<noteq> Holding"
proof -
  let ?a = "spin_start\<lparr>sp_pc := (sp_pc spin_start)(0 := Spinning)\<rparr>"
  let ?b = "?a\<lparr>sp_flag := True, sp_pc := (sp_pc ?a)(0 := Holding)\<rparr>"
  let ?c = "?b\<lparr>sp_pc := (sp_pc ?b)(1 := Spinning)\<rparr>"
  have "spin_step spin_start ?a" by (rule spin_step.guard) (simp add: spin_start_def)
  moreover have "spin_step ?a ?b"
    by (rule spin_step.lock_round [where pc = Holding and f = True])
      (simp_all add: spin_start_def AtomLck_lock_round_def flag_test_and_set_def AtomLck_new_def)
  moreover have "spin_step ?b ?c" by (rule spin_step.guard) (simp add: spin_start_def)
  ultimately have "spin_step\<^sup>*\<^sup>* spin_start ?c" by (meson rtranclp.rtrancl_into_rtrancl rtranclp.rtrancl_refl)
  then obtain x where x: "spin_step\<^sup>*\<^sup>* spin_start x" "sp_pc x 0 = Holding" "sp_pc x 1 = Spinning"
    by (rule that) (simp_all add: spin_start_def)
  have "fst (AtomLck_lock_round (sp_flag x)) \<noteq> Holding"
    using AtomLck_mutual_exclusion [OF x(1)] x(2) by blast
  with x show ?thesis by blast
qed

text \<open>
  A latch of \<open>n\<close> can be waited on safely only when it has been counted down \<open>n\<close>
  times already: before that, \<open>wait\<close> uses a condition variable with a lock that has no
  mutex.
\<close>

theorem CountDownLatch_wait_result:
  assumes "0 < n" and "int k < 2 ^ 31"
  shows "\<exists>c c'. CountDownLatch_new n = Inr c \<and> count_downs k c = Inr c' \<and> CountDownLatch_get_count c' = n - int k \<and>
    CountDownLatch_wait c' = (if int k < n then Inl Undefined_behaviour else Inr ())"
  using assms count_downs_ok [of "\<lparr>cl_count = n\<rparr>" k]
  by (simp add: CountDownLatch_new_def CountDownLatch_get_count_def CountDownLatch_wait_def)

theorem CountDownLatch_wait_result_witness:
  "\<exists>c c'. CountDownLatch_new 3 = Inr c \<and> count_downs 2 c = Inr c' \<and> CountDownLatch_wait c' = Inl Undefined_behaviour"
  using CountDownLatch_wait_result [of 3 2] by auto

end
