(* ===== verification/Spec2Isabelle.thy ===== *)
theory Spec2Isabelle
  imports Bounded_Blocking_Queue Fixed_OStream Net_Buffer Loop_Functors Pool_Drain
    Log_Event File_Appender Log_Test Sync_Util
begin

text \<open>
  A verification of clia, a C++ library of containers, a logger and a TCP server on an epoll
  reactor, with the echo server of test/test_server.cc built on it.  All paths below are
  relative to the directories clia/clia (headers) and clia/src (sources) of the repository.

  \<^bold>\<open>The program.\<close>  A \<open>reactor::EventLoop\<close> belongs to one thread.  It waits in its
  \<open>Epoller\<close>, calls \<open>handle_event\<close> of the \<open>Channel\<close>s that became active and then
  runs the functors other threads queued.  A \<open>net::TcpServer\<close> owns an \<open>Acceptor\<close> on
  its loop and an \<open>EventLoopThreadPool\<close>; each accepted descriptor becomes a
  \<open>TcpConnection\<close> on the next loop of the pool, with an input and an output
  \<open>net::Buffer\<close>, and is kept in the server's map until it is closed.  A log line is composed
  by an \<open>Event\<close> (in a \<open>FixedOStream\<close> over a \<open>FixedBuffer\<close>) or a
  \<open>LargeEvent\<close> and handed to a \<open>SyncLogger\<close> or an \<open>AsyncLogger\<close>, which write
  through a \<open>StdoutAppender\<close> or a \<open>FileAppender\<close>.

  \<^bold>\<open>Conventions.\<close>  An operation that can fail returns a value of \<open>error + 'a\<close>
  (\<open>Clia_Prelude\<close>): a failed \<open>assert\<close>, an access out of bounds, undefined behaviour
  (a dangling pointer among it), \<open>abort\<close>, an exception of the standard library, a call that does
  not return.  A class is a record, its member functions are definitions with the name of the
  class in front.  Where objects refer to each other, a store maps addresses to objects and the
  operations take the store; a thread is the number \<open>t\<close> of the caller.  System calls and
  the C library are arguments: a record \<open>kernel\<close> of functions of the calls made so far (the
  trace), a record \<open>file_os\<close> for the files, \<open>inet_pton\<close>, \<open>inet_ntop\<close>,
  \<open>localtime_r\<close>, \<open>strerror_r\<close>; what is used of their documentation
  is a named hypothesis (\<open>kernel_ok\<close>, \<open>fwrite_ok\<close>, \<open>time_ok\<close>, ...).
  A connection, held by \<open>shared_ptr\<close>s, exists while the map of a server or a queued functor refers
  to it (\<open>referenced\<close>, \<open>release\<close>); giving up the last reference runs its destructor.  Callbacks are values that an interpreter runs (\<open>run_user\<close>, \<open>run_chan_cb\<close>,
  \<open>run_net_functor\<close>), in place of \<open>std::bind\<close>.  Sizes are 64-bit words where their
  wrap-around is visible (\<open>Net_Buffer\<close>, \<open>Fixed_Buffer\<close>).

  \<^bold>\<open>Theories.\<close>
    \<^item> \<open>Clia_Prelude\<close>: results, assertions, reads and writes of arrays, shared lemmas.
    \<^item> \<open>Circular_Buffer\<close> (container/circular_buffer.h): the ring as a vector with
      indices; it implements the contract \<open>bounded_fifo\<close> of a queue.  Resizing a wrapped ring loses
      its contents.
    \<^item> \<open>Bounded_Blocking_Queue\<close> (container/bounded_blocking_queue.h): put and take under
      the mutex as a step relation; in every interleaving the values come out in order, and the
      wrong test of \<open>take\<close> makes a full queue final and an empty one fail.
    \<^item> \<open>Str_Func\<close>, \<open>Fixed_Buffer\<close>, \<open>Fixed_OStream\<close> (util/str_func.h,
      container/fixed_buffer.h, container/fixed_ostream.h): the decimal conversion on memory, the
      bounded array and the stream; items in a stream with room give their texts.
    \<^item> \<open>Net_Buffer\<close> (net/buffer.h, net/buffer.cc): indices into a vector with growing and
      compaction, refined to a queue of bytes (contract \<open>byte_queue\<close>); every branch of \<open>read_fd\<close>;
      well-formedness over all operations and sizes; moved-from buffers.
    \<^item> \<open>Channel\<close>, \<open>Epoller\<close>, \<open>Event_Loop\<close> (reactor/): the interest sets,
      the state machine of the poller's index and the loop; the interest list of the kernel is
      in step with the channels.  \<open>Loop_Functors\<close>: the hand-over of functors between
      threads as an interleaving; the order is kept and no wake-up is lost.
    \<^item> \<open>Event_Loop_Thread\<close>, \<open>Event_Loop_Thread_Pool\<close> (reactor/): publication of the
      loop of a new thread, its destruction, and the pool's turns (contract \<open>loop_pool\<close>).
    \<^item> \<open>Inet_Address\<close>, \<open>Socket\<close> (net/): the union of addresses as bytes; the system
      calls a socket issues, as a trace, from which \<open>wire\<close> reads the bytes that reached a
      descriptor.
    \<^item> \<open>Tcp_Connection\<close> (net/tcp_connection.cc): every handler; bytes are sent in order
      and the way down passes its assertions; what errors and other threads do.
    \<^item> \<open>Tcp_Server\<close>, \<open>Server_Startup\<close> (net/acceptor.cc, net/tcp_server.cc): accepting,
      the map of connections, removal, and putting the server up.
    \<^item> \<open>Echo_Server\<close>, \<open>Echo_Program\<close> (test/test_server.cc): the callbacks and
      \<open>main\<close>, and the program with one connection, from \<open>main\<close> through the loop, the
      poller and the channels; below, that a server that is up serves connections on the loops of
      other threads too.
    \<^item> \<open>Net_Frames\<close>, \<open>Net_Layout\<close>, \<open>Echo_Conn\<close>: what each operation of the
      network layer leaves alone, the layout of the store of a server, and one connection through
      every event its channel may report.  \<open>Conn_Events\<close>: an event of a connection's channel
      on any server that keeps the contract \<open>conn_host\<close>, which the single loop and the pool of
      threads both do.  \<open>Run_Inv\<close>: the
      invariant of a run with any number of connections (\<open>run_inv\<close>): the map of the server,
      the connections that exist, the channels, the poller, the descriptors and the queued
      destructions agree.  \<open>Run_Events\<close>: each event keeps it.  \<open>Echo_Run\<close>: whole
      iterations of the loop, and that every run over valid returns of \<open>epoll_wait\<close> never fails,
      echoes every connection in order and leaks nothing.  \<open>Echo_Teardown\<close>: the
      destructors after such a run leave no object and no open socket.
    \<^item> \<open>Pool_Model\<close>: the server on a pool of threads, as test_server.cc runs it:
      \<open>EventLoop::loop\<close> cut into the steps of a thread (\<open>thread_act\<close>), which make up an
      iteration again when nothing comes between them, and the runs in which any thread may take the
      next step (\<open>pool_run\<close>).  \<open>Pool_Inv\<close>: the stages of a connection, from accepted in
      the main thread to destroyed by the functor that held it last, and for each stage which
      queue or batch of functors holds the next job.  \<open>Pool_Events\<close>, \<open>Pool_Steps\<close>,
      \<open>Pool_Start\<close>: events, functors, destructions, accepts and the start keep the invariant.
      \<open>Pool_Run\<close>: in every interleaving every step succeeds, every connection echoes in
      order, and nothing leaks.  \<open>Pool_Drain\<close>: when nothing more is reported, every schedule of
      the threads comes to rest, with empty queues and without closed connections.
    \<^item> \<open>Timestamp\<close>, \<open>Log\<close>, \<open>Log_Event\<close> (util/timestamp.cc, log/trait.cc,
      log/log.cc, log/event.cc, log.h, the stdout appender and the synchronous logger): levels,
      the manager, the contract \<open>log_appender\<close> of an appender, the composition of a line with
      its cached time, and the macros.
    \<^item> \<open>Async_Logger\<close> (log/async_logger.cc): callers and the writing thread as an
      interleaving over any appender with the contract; nothing is lost.
    \<^item> \<open>File_Appender\<close> (log/file_appender.cc): files, rolling, deletion of old files and the
      write loop; it keeps the contract of an appender.
    \<^item> \<open>Log_Test\<close> (test/logtest.cc): the load test, \<open>main\<close> with its threads and the
      writing thread as an interleaving; it can always end, and then the files hold every numbered
      line once, since a short run cannot drop a buffer.
    \<^item> \<open>Sync_Util\<close> (util/atom_lck.cc, base/lock_guard.h, util/countdown_latch.cc,
      util/process.cc): the spin lock, the latch and the cache of \<open>strerror\<close>.

  \<^bold>\<open>Bounds and loops.\<close>  No definition has fuel: loops over data are structural
  recursions; the write loop of the file appender is a partial function whose \<open>None\<close> is a
  call that never returns, and it is proved when it returns; the event loop and the writing
  thread run over a list of returns of \<open>epoll_wait\<close> or as steps, so every finite part of a
  run is covered.  The maximal size of a vector is \<open>2^63 - 1\<close> bytes.

  \<^bold>\<open>Not modelled.\<close>  The memory model below sequential consistency; the exact timing of
  waits (a wait may end at any time); the text that \<open>printf\<close>-like formatting produces (an
  argument); what the network layer itself logs; \<open>util::MemoryPool\<close>, whose functions are
  declared and not implemented; accessors that only return a field (the fields are read instead);
  the closing of the descriptors of \<open>eventfd\<close> and \<open>epoll_create1\<close>, which the trace of
  the sockets' calls does not hold; in the runs of the pool, steps of threads inside a handler or a
  functor, which share only the kernel and the queues under their mutex (queueing and waking up as
  separate steps are in \<open>Loop_Functors\<close>, the publication of a thread's loop in
  \<open>Event_Loop_Thread\<close>), and the end of such a run, which the program does not reach; the empty base classes and headers of forward declarations.  The
  durations the load test prints are free.
\<close>

section \<open>The loggers on a log file\<close>



section \<open>The echo server\<close>

text \<open>
  The echo server on the library: while the peer keeps sending, whatever mixture of readable
  and writable events the channel of an established connection delivers, no operation fails, and
  the bytes that reached the socket followed by those in the output buffer grow by exactly the
  bytes that were received, in order; nothing is left unread.  (The kernel delivers less than
  64 KiB at a time and its only write error is \<open>EWOULDBLOCK\<close>; what happens otherwise is
  stated with the buffer and with the connection.)
\<close>

theorem EchoServer_echoes:
  fixes w :: "(echo_cb, 'z) server_net_scheme"
  assumes "kernel_ok k" and "\<forall>tr fd bs e. k_write k tr fd bs = Io_error e \<longrightarrow> e = EWOULDBLOCK" and "peer_sends k"
    and "conn_base a tc ch el w" and "conn_live tc ch" and "tc_state tc = kConnected" and "t = el_tid el"
    and "tc_message_callback tc = Some (User Handle_message)" and "drained (tc_input_buffer tc)"
    and "set cbs \<subseteq> {Conn_read a, Conn_write a}"
    and "unat (nb_writer (tc_output_buffer tc)) + length cbs * kExtraBuf \<le> vector_max_size"
  shows "\<exists>w' tc' Z. run_chan_cbs k fresh (EchoServer_callbacks k t p) t cbs w = Inr w' \<and> nx_conns w' a = Some tc' \<and>
    received (tc_fd tc) (nx_trace w') = received (tc_fd tc) (nx_trace w) @ Z \<and>
    wire (tc_fd tc) (nx_trace w') @ nb_contents (tc_output_buffer tc') =
      wire (tc_fd tc) (nx_trace w) @ nb_contents (tc_output_buffer tc) @ Z \<and>
    nb_contents (tc_input_buffer tc') = []"
proof -
  let ?X = "wire (tc_fd tc) (nx_trace w) @ nb_contents (tc_output_buffer tc)"
  let ?Y = "received (tc_fd tc) (nx_trace w)"
  have "echo_inv a t (tc_fd tc) ?X ?Y (unat (nb_writer (tc_output_buffer tc))) w"
    unfolding echo_inv_def using assms(4-9)
    by (intro exI [of _ tc] exI [of _ ch] exI [of _ el] conjI exI [of _ "[]"]) simp_all
  from echo_events [OF assms(1-3,10) this assms(11)] obtain w' where
    w': "run_chan_cbs k fresh (EchoServer_callbacks k t p) t cbs w = Inr w'"
    "echo_inv a t (tc_fd tc) ?X ?Y (unat (nb_writer (tc_output_buffer tc)) + length cbs * kExtraBuf) w'" by blast
  from w'(2) obtain tc' ch' el' Z where I: "conn_base a tc' ch' el' w'" "drained (tc_input_buffer tc')"
    "received (tc_fd tc) (nx_trace w') = ?Y @ Z"
    "wire (tc_fd tc) (nx_trace w') @ nb_contents (tc_output_buffer tc') = ?X @ Z" unfolding echo_inv_def by blast
  show ?thesis
    by (rule exI [of _ w'], rule exI [of _ tc'], rule exI [of _ Z])
      (use w'(1) I conn_baseD(2) [OF I(1)] in \<open>simp add: drained_def\<close>)
qed

theorem EchoServer_echoes_witness:
  "\<exists>(w :: echo_cb server_net) w' tc' Z.
     run_chan_cbs chatty_kernel (\<lambda>_. (40, 41)) (EchoServer_callbacks chatty_kernel 7 30) 7
       [Conn_read 2, Conn_read 2, Conn_write 2] w = Inr w' \<and> nx_conns w' 2 = Some tc' \<and>
     received 9 (nx_trace w') = received 9 (nx_trace w) @ Z \<and>
     wire 9 (nx_trace w') @ nb_contents (tc_output_buffer tc') = wire 9 (nx_trace w) @ Z"
proof -
  obtain w0 :: "echo_cb server_net" and tc ch el where w0: "conn_base 2 tc ch el w0" "conn_live tc ch" "tc_state tc = kConnected"
    "el_tid el = 7" "tc_fd tc = 9" "nb_contents (tc_output_buffer tc) = []" "nb_writer (tc_output_buffer tc) = 8"
    "Buffer_new kInitialSize = Inr (tc_input_buffer tc)"
    using established_from [of "empty_server_net :: echo_cb server_net" "\<lambda>_. Inr"] by (auto simp: empty_server_net_def)
  let ?tc = "tc\<lparr>tc_message_callback := Some (User Handle_message)\<rparr>" and ?es = "[Conn_read 2, Conn_read 2, Conn_write 2]"
  let ?w = "put_conn 2 ?tc w0"
  note D = conn_baseD [OF w0(1)]
  have base: "conn_base 2 ?tc ch el ?w" by (rule conn_base_put) (use w0(1) D in simp_all)
  have live: "conn_live ?tc ch" using w0(2) by (simp add: conn_live_def)
  note k = chatty_kernel_ok(1-3)
  have "tc_state ?tc = kConnected" "7 = el_tid el" "tc_message_callback ?tc = Some (User Handle_message)" "drained (tc_input_buffer ?tc)"
    "set ?es \<subseteq> {Conn_read 2, Conn_write 2}"
    "unat (nb_writer (tc_output_buffer ?tc)) + length ?es * kExtraBuf \<le> vector_max_size"
    using w0 new_buffer_drained by (simp_all add: kExtraBuf_def vector_max_size_def)
  from EchoServer_echoes [OF k base live this, of "\<lambda>_. (40, 41)" 30] obtain w' tc' Z where
    "run_chan_cbs chatty_kernel (\<lambda>_. (40, 41)) (EchoServer_callbacks chatty_kernel 7 30) 7 ?es ?w = Inr w'"
    "nx_conns w' 2 = Some tc'" "received (tc_fd ?tc) (nx_trace w') = received (tc_fd ?tc) (nx_trace ?w) @ Z"
    "wire (tc_fd ?tc) (nx_trace w') @ nb_contents (tc_output_buffer tc') =
       wire (tc_fd ?tc) (nx_trace ?w) @ nb_contents (tc_output_buffer ?tc) @ Z" by blast
  then show ?thesis
    by (intro exI [of _ ?w] exI [of _ w'] exI [of _ tc'] exI [of _ Z]) (simp add: w0(5,6) del: run_chan_cbs.simps)
qed

text \<open>
  A server that is up serves: a readable event of its acceptor accepts the connection,
  whichever thread its loop belongs to; when that is another thread, the functor that the accept
  queued there establishes the connection; from then on, whatever mixture of readable and
  writable events the channel delivers, nothing fails and the bytes sent to the peer followed by
  those waiting in the output buffer are exactly the bytes received from it, in order.  (The
  kernel delivers less than 64 KiB at a time and its only write error is \<open>EWOULDBLOCK\<close>.)
\<close>

theorem EchoServer_serves:
  fixes w :: "(echo_cb, 'z) server_net_scheme"
  assumes "kernel_ok k" and "\<forall>tr fd bs e. k_write k tr fd bs = Io_error e \<longrightarrow> e = EWOULDBLOCK" and "peer_sends k"
    and "rx_inv w" and "server_up True s ac c l lfd ts w" and "rx_loops w l = Some el0"
    and "conns_ok (ts_connections ts) w" and "pool_inv (ts_threadpool ts)"
    and "ts_connection_callback ts = Some Handle_connect" "ts_message_callback ts = Some Handle_message"
    and "io = pool_loops (ts_threadpool ts) ! pool_at (ts_threadpool ts)" "rx_loops w io = Some el" "el_pending_functors el = []"
    and "k_accept4 k (nx_trace w) lfd = Io_ok (fd, peer)"
    and "ep_channels (el_poller el) fd = None" "map_of (ts_connections ts) fd = None"
    and "nx_conns w a = None" "rx_channels w cc = None"
    and "set cbs \<subseteq> {Conn_read a, Conn_write a}" and "8 + length cbs * kExtraBuf \<le> vector_max_size"
  shows "\<exists>w1 w2 w3 tc Z.
    run_chan_cb k (\<lambda>_. (a, cc)) (EchoServer_callbacks k (el_tid el0) p) (el_tid el0) (Accept_read ac) w = Inr w1 \<and>
    (if el_tid el = el_tid el0 then w2 = w1
     else EventLoop_do_pending_functors (run_net_functor k (EchoServer_callbacks k (el_tid el) p) (el_tid el))
            (destroy_net_functor [s] [l, io] (el_tid el)) io w1 = Inr w2) \<and>
    run_chan_cbs k fresh (EchoServer_callbacks k (el_tid el) p) (el_tid el) cbs w2 = Inr w3 \<and> nx_conns w3 a = Some tc \<and>
    received fd (nx_trace w3) = received fd (nx_trace w) @ Z \<and>
    wire fd (nx_trace w3) @ nb_contents (tc_output_buffer tc) = wire fd (nx_trace w) @ Z \<and>
    nb_contents (tc_input_buffer tc) = []"
proof -
  from echo_accept [OF assms(4-14) kernel_okD(3) [OF assms(1,14)] assms(15-18), of "[s]" p "[l, io]", OF list.set_intros(1)] obtain w1 w2 where
    w1: "run_chan_cb k (\<lambda>_. (a, cc)) (EchoServer_callbacks k (el_tid el0) p) (el_tid el0) (Accept_read ac) w = Inr w1"
    "if el_tid el = el_tid el0 then w2 = w1
     else EventLoop_do_pending_functors (run_net_functor k (EchoServer_callbacks k (el_tid el) p) (el_tid el))
            (destroy_net_functor [s] [l, io] (el_tid el)) io w1 = Inr w2"
    "echo_inv a (el_tid el) fd (wire fd (nx_trace w)) (received fd (nx_trace w)) 8 w2" by blast
  from echo_events [OF assms(1-3,19) w1(3) assms(20), of fresh p] obtain w3 where
    w3: "run_chan_cbs k fresh (EchoServer_callbacks k (el_tid el) p) (el_tid el) cbs w2 = Inr w3"
    "echo_inv a (el_tid el) fd (wire fd (nx_trace w)) (received fd (nx_trace w)) (8 + length cbs * kExtraBuf) w3" by blast
  from echo_inv_state [OF w3(2)] w1(1,2) w3(1) show ?thesis by blast
qed

text \<open>The server of the example: one that was built and started by \<open>main\<close>, without
  threads.\<close>

theorem EchoServer_serves_witness:
  "\<exists>(w :: echo_cb server_net) w1 w3 tc Z.
     main_setup chatty_kernel (\<lambda>_ _. None) [] 0 (\<lambda>_. 0) 7 5 6 0 1 20 21 22 empty_server_net = Inr w \<and>
     run_chan_cb chatty_kernel (\<lambda>_. (2, 3)) (EchoServer_callbacks chatty_kernel 7 30) 7 (Accept_read 21) w = Inr w1 \<and>
     run_chan_cbs chatty_kernel (\<lambda>_. (40, 41)) (EchoServer_callbacks chatty_kernel 7 30) 7 [Conn_read 2, Conn_write 2] w1 = Inr w3 \<and>
     nx_conns w3 2 = Some tc \<and> received 9 (nx_trace w3) = Z \<and>
     wire 9 (nx_trace w3) @ nb_contents (tc_output_buffer tc) = Z"
proof -
  let ?k = chatty_kernel and ?p = "\<lambda>_ _. None :: byte list option"
  have inv: "rx_inv (empty_server_net :: echo_cb server_net)" by (simp add: rx_inv_def empty_server_net_def)
  have e: "rx_loops (empty_server_net :: echo_cb server_net) = Map.empty" "rx_channels (empty_server_net :: echo_cb server_net) = Map.empty"
    "rx_loop_in_thread (empty_server_net :: echo_cb server_net) = Map.empty" "nx_conns (empty_server_net :: echo_cb server_net) = Map.empty"
    "nx_trace (empty_server_net :: echo_cb server_net) = []"
    by (simp_all add: empty_server_net_def)
  note k = chatty_kernel_ok
  obtain w :: "echo_cb server_net" and ts el where
    w: "main_setup ?k ?p [] 0 (\<lambda>_. 0) 7 5 6 0 1 20 21 22 empty_server_net = Inr w" "server_up True 20 21 22 0 3 ts w"
    "ts_connections ts = []" "pool_inv (ts_threadpool ts)" "pool_loops (ts_threadpool ts) = [0]"
    "ts_connection_callback ts = Some Handle_connect" "ts_message_callback ts = Some Handle_message"
    "rx_inv w" "rx_loops w = [0 \<mapsto> el]" "el_tid el = 7" "pool_at (ts_threadpool ts) = 0" "el_pending_functors el = []"
    "nx_conns w = Map.empty" "\<forall>d. d \<noteq> 22 \<and> d \<noteq> 1 \<longrightarrow> rx_channels w d = None"
    "\<forall>fd. fd \<noteq> 3 \<and> fd \<noteq> 5 \<longrightarrow> ep_channels (el_poller el) fd = None"
    "received 9 (nx_trace w) = []" "wire 9 (nx_trace w) = []"
    using main_setup_ok [OF inv, of 0 1 22 7 5 6 ?k 3 ?p "[]" 0 "\<lambda>_. 0" 20 21] k by (auto simp: e)
  have pre: "rx_loops w 0 = Some el" "conns_ok (ts_connections ts) w"
    "0 = pool_loops (ts_threadpool ts) ! pool_at (ts_threadpool ts)" "ep_channels (el_poller el) 9 = None"
    "map_of (ts_connections ts) 9 = None" "nx_conns w 2 = None" "rx_channels w 3 = None"
    "set [Conn_read 2, Conn_write 2] \<subseteq> {Conn_read 2, Conn_write 2}"
    "8 + length [Conn_read 2, Conn_write 2] * kExtraBuf \<le> vector_max_size"
    using w by (simp_all add: conns_ok_def kExtraBuf_def vector_max_size_def)
  from EchoServer_serves [OF k(1-3) w(8,2) pre(1,2) w(4,6,7) pre(3,1) w(12) k(4) pre(4-9), of 30 "\<lambda>_. (40, 41)"] w(10)
  obtain w1 w3 tc Z where
    "run_chan_cb ?k (\<lambda>_. (2, 3)) (EchoServer_callbacks ?k 7 30) 7 (Accept_read 21) w = Inr w1"
    "run_chan_cbs ?k (\<lambda>_. (40, 41)) (EchoServer_callbacks ?k 7 30) 7 [Conn_read 2, Conn_write 2] w1 = Inr w3"
    "nx_conns w3 2 = Some tc" "received 9 (nx_trace w3) = received 9 (nx_trace w) @ Z"
    "wire 9 (nx_trace w3) @ nb_contents (tc_output_buffer tc) = wire 9 (nx_trace w) @ Z"
    by (auto simp del: run_chan_cbs.simps)
  with w(1,16,17) show ?thesis
    by (intro exI [of _ w] exI [of _ w1] exI [of _ w3] exI [of _ tc] exI [of _ Z]) (simp del: run_chan_cbs.simps)
qed

end
